(* ===== verification/Prelude.thy ===== *)
theory Prelude
  imports Main "HOL-Library.Multiset"
begin

text \<open>
  What the components share: the collections their proofs draw on, Go's 64-bit
  subtraction, and three contracts stated as locales. \<open>best_fold\<close> is the scan that
  keeps the first best element of a slice (the worst state, the last write, the
  execution that outranks the others); \<open>decision_table\<close> is a table of rows read
  first match wins; \<open>word_codec\<close> is a closed vocabulary held as small ids.
  Each is interpreted in the theory of the component that provides it.
\<close>

named_theorems vocab_defs \<open>constants that spell out a closed vocabulary\<close>
named_theorems row_defs \<open>predicates that guard the rows of a decision table\<close>

section \<open>Two's complement arithmetic of int64\<close>

text \<open>Go's \<^verbatim>\<open>int64\<close> subtraction wraps; every other use of an int64 here is a comparison.\<close>

definition wrap64 :: "int \<Rightarrow> int" where
  "wrap64 x = (x + 2 ^ 63) mod 2 ^ 64 - 2 ^ 63"

definition is_int64 :: "int \<Rightarrow> bool" where
  "is_int64 x \<longleftrightarrow> - (2 ^ 63) \<le> x \<and> x < 2 ^ 63"

lemma wrap64_id [simp]: "is_int64 x \<Longrightarrow> wrap64 x = x"
  by (simp add: wrap64_def is_int64_def)

lemma wrap64_range: "is_int64 (wrap64 x)"
  by (auto simp: wrap64_def is_int64_def intro: order.strict_trans1)

section \<open>Scans that keep the first best element\<close>

definition fold_best :: "('a \<Rightarrow> 'a \<Rightarrow> bool) \<Rightarrow> 'a list \<Rightarrow> 'a option" where
  "fold_best better xs =
     foldl (\<lambda>acc x. case acc of None \<Rightarrow> Some x | Some w \<Rightarrow> Some (if better x w then x else w)) None xs"

lemma fold_best_Nil [simp]: "fold_best better [] = None"
  by (simp add: fold_best_def)

lemma fold_best_snoc:
  "fold_best better (xs @ [x]) =
     (case fold_best better xs of None \<Rightarrow> Some x | Some w \<Rightarrow> Some (if better x w then x else w))"
  by (simp add: fold_best_def)

lemma fold_best_None_iff [simp]: "fold_best better xs = None \<longleftrightarrow> xs = []"
  by (induction xs rule: rev_induct) (auto simp: fold_best_snoc split: option.splits)

lemma fold_best_Some_ex: "xs \<noteq> [] \<Longrightarrow> \<exists>w. fold_best better xs = Some w"
  using fold_best_None_iff [of better xs] by (cases "fold_best better xs") auto

lemma fold_best_in_set: "fold_best better xs = Some w \<Longrightarrow> w \<in> set xs"
  by (induction xs arbitrary: w rule: rev_induct)
    (auto simp: fold_best_snoc split: option.splits if_splits)

locale best_fold =
  fixes better :: "'a \<Rightarrow> 'a \<Rightarrow> bool"
  assumes better_asym: "better x y \<Longrightarrow> \<not> better y x"
    and better_negtrans: "better x z \<Longrightarrow> better x y \<or> better y z"
begin

lemma best_irrefl: "\<not> better x x"
  using better_asym by blast

lemma best_maximal: "fold_best better xs = Some w \<Longrightarrow> y \<in> set xs \<Longrightarrow> \<not> better y w"
proof (induction xs arbitrary: w rule: rev_induct)
  case Nil
  then show ?case by simp
next
  case (snoc x xs)
  then show ?case
    by (auto simp: fold_best_snoc best_irrefl split: option.splits if_splits
        dest: better_asym better_negtrans)
qed

lemma best_unique:
  assumes total: "\<And>x y. x \<in> set xs \<Longrightarrow> y \<in> set xs \<Longrightarrow> x \<noteq> y \<Longrightarrow> better x y \<or> better y x"
    and w: "w \<in> set xs" and max: "\<And>y. y \<in> set xs \<Longrightarrow> \<not> better y w"
  shows "fold_best better xs = Some w"
proof -
  from w have "xs \<noteq> []" by auto
  then obtain v where v: "fold_best better xs = Some v"
    using fold_best_Some_ex by blast
  then have "v \<in> set xs" by (rule fold_best_in_set)
  moreover have "\<not> better w v" using best_maximal [OF v w] .
  ultimately have "v = w" using total [of v w] w max by blast
  with v show ?thesis by simp
qed

lemma best_perm:
  assumes "mset xs = mset ys"
    and total: "\<And>x y. x \<in> set xs \<Longrightarrow> y \<in> set xs \<Longrightarrow> x \<noteq> y \<Longrightarrow> better x y \<or> better y x"
  shows "fold_best better xs = fold_best better ys"
proof (cases "fold_best better ys")
  case None
  then have "ys = []" by simp
  with assms(1) show ?thesis by simp
next
  case (Some w)
  have eq: "set xs = set ys" using assms(1) by (metis set_mset_mset)
  have "w \<in> set xs" using fold_best_in_set [OF Some] eq by simp
  moreover have "\<And>y. y \<in> set xs \<Longrightarrow> \<not> better y w"
    using best_maximal [OF Some] eq by simp
  ultimately have "fold_best better xs = Some w"
    using best_unique total by blast
  with Some show ?thesis by simp
qed

end

section \<open>Decision tables\<close>

locale decision_table =
  fixes rows :: "'r list" and hit :: "'r \<Rightarrow> 'x \<Rightarrow> bool" and dom :: "'x \<Rightarrow> bool"
  assumes rows_cover: "dom x \<Longrightarrow> \<exists>r \<in> set rows. hit r x"
begin

lemma table_total: "dom x \<Longrightarrow> \<exists>r. find (\<lambda>r. hit r x) rows = Some r \<and> hit r x"
  using rows_cover by (metis find_None_iff find_Some_iff not_Some_eq)

lemma table_first:
  "find (\<lambda>r. hit r x) rows = Some r \<Longrightarrow>
     \<exists>i < length rows. r = rows ! i \<and> hit r x \<and> (\<forall>j < i. \<not> hit (rows ! j) x)"
  by (auto simp: find_Some_iff)

end

section \<open>Closed vocabularies held as ids\<close>

locale word_codec =
  fixes words :: "string list" and enc :: "string \<Rightarrow> nat" and dec :: "nat \<Rightarrow> string"
  assumes dec_enc: "w \<in> set words \<Longrightarrow> dec (enc w) = w"
    and enc_known: "w \<in> set words \<Longrightarrow> 0 < enc w"
    and enc_unknown: "w \<notin> set words \<Longrightarrow> enc w = 0"
    and dec_zero: "dec 0 = []"
    and blank_unknown: "[] \<notin> set words"
begin

lemma codec_read: "dec (enc w) = (if w \<in> set words then w else [])"
  using dec_enc enc_unknown dec_zero by simp

lemma codec_inj: "inj_on enc (set words)"
  by (metis dec_enc inj_on_def)

lemma codec_stable: "enc (dec (enc w)) = enc w"
  using codec_read enc_unknown blank_unknown by simp

end

section \<open>Lists\<close>

lemma sort_key_perm_eq:
  assumes "mset xs = mset ys" and "inj_on f (set xs)"
  shows "sort_key f xs = sort_key f ys"
proof (rule properties_for_sort_key [symmetric])
  show "mset (sort_key f xs) = mset ys" using assms(1) by simp
  show "sorted (map f (sort_key f xs))" by simp
  fix k assume "k \<in> set (sort_key f xs)"
  have eq: "set ys = set xs" using assms(1) by (metis set_mset_mset)
  have one: "mset (filter (\<lambda>x. f k = f x) (sort_key f xs)) = mset (filter (\<lambda>x. f k = f x) ys)"
    using assms(1) by simp
  have same: "\<forall>x \<in> set (filter (\<lambda>x. f k = f x) ys). x = k"
    using assms(2) \<open>k \<in> set (sort_key f xs)\<close> eq by (auto dest: inj_onD)
  then have "filter (\<lambda>x. f k = f x) ys = replicate (length (filter (\<lambda>x. f k = f x) ys)) k"
    by (simp add: replicate_length_same)
  moreover have "filter (\<lambda>x. f k = f x) (sort_key f xs) =
      replicate (length (filter (\<lambda>x. f k = f x) (sort_key f xs))) k"
    using same one by (metis mset_eq_setD replicate_length_same)
  ultimately show "filter (\<lambda>x. f k = f x) (sort_key f xs) = filter (\<lambda>x. f k = f x) ys"
    using one by (metis mset_eq_length)
qed

lemma distinct_map_sort_key: "distinct (map f xs) \<Longrightarrow> distinct (map f (sort_key f xs))"
  by (simp add: distinct_map)

lemma map_fst_find: "find P xs = Some x \<Longrightarrow> x \<in> set xs \<and> P x"
  by (auto simp: find_Some_iff)

lemma last_filter_find_rev: "find P (rev xs) = Some x \<Longrightarrow> x \<in> set xs \<and> P x"
  by (auto dest: map_fst_find)

end
