(* ===== verification/GoStrings.thy ===== *)
theory GoStrings
  imports Prelude "HOL-Library.Char_ord" "HOL-Library.List_Lexorder" "HOL-Library.Product_Lexorder"
begin

text \<open>
  The functions of Go's \<^verbatim>\<open>strings\<close>, \<^verbatim>\<open>path\<close> and \<^verbatim>\<open>path/filepath\<close> packages that the modelled
  code calls, over \<open>string\<close> read as Go's byte sequence. \<^verbatim>\<open>filepath\<close> is read as on
  macOS and Linux, the systems the program supports, where a path is absolute when it
  starts with a slash. \<open>ToLower\<close> lowers the ASCII letters: for text outside ASCII, Go's
  \<^verbatim>\<open>strings.ToLower\<close> may also change other letters. Strings compare bytewise, which is
  the lexicographic order of \<open>List_Lexorder\<close> over \<open>Char_ord\<close>.
\<close>

definition HasPrefix :: "string \<Rightarrow> string \<Rightarrow> bool" where
  "HasPrefix s p \<longleftrightarrow> take (length p) s = p"

definition HasSuffix :: "string \<Rightarrow> string \<Rightarrow> bool" where
  "HasSuffix s x \<longleftrightarrow> length x \<le> length s \<and> drop (length s - length x) s = x"

definition CutPrefix :: "string \<Rightarrow> string \<Rightarrow> string \<times> bool" where
  "CutPrefix s p = (if HasPrefix s p then (drop (length p) s, True) else (s, False))"

text \<open>\<^verbatim>\<open>strings.Cut\<close> at a separator of one byte.\<close>

definition Cut :: "string \<Rightarrow> char \<Rightarrow> string \<times> string \<times> bool" where
  "Cut s c = (if c \<in> set s then (takeWhile (\<lambda>x. x \<noteq> c) s, tl (dropWhile (\<lambda>x. x \<noteq> c) s), True)
              else (s, [], False))"

definition TrimRight :: "string \<Rightarrow> char \<Rightarrow> string" where
  "TrimRight s c = rev (dropWhile (\<lambda>x. x = c) (rev s))"

definition TrimLeft :: "string \<Rightarrow> char \<Rightarrow> string" where
  "TrimLeft s c = dropWhile (\<lambda>x. x = c) s"

definition ReplaceByte :: "string \<Rightarrow> char \<Rightarrow> char \<Rightarrow> string" where
  "ReplaceByte s a b = map (\<lambda>x. if x = a then b else x) s"

definition lower_char :: "char \<Rightarrow> char" where
  "lower_char c = (if CHR ''A'' \<le> c \<and> c \<le> CHR ''Z'' then char_of (of_char c + 32 :: nat) else c)"

definition ToLower :: "string \<Rightarrow> string" where
  "ToLower s = map lower_char s"

text \<open>The bytes of \<open>s\<close> after its last \<open>c\<close>, and those up to and including it.\<close>

definition after_last :: "string \<Rightarrow> char \<Rightarrow> string" where
  "after_last s c = rev (takeWhile (\<lambda>x. x \<noteq> c) (rev s))"

definition upto_last :: "string \<Rightarrow> char \<Rightarrow> string" where
  "upto_last s c = rev (dropWhile (\<lambda>x. x \<noteq> c) (rev s))"

text \<open>\<^verbatim>\<open>strings.IndexByte\<close> and \<^verbatim>\<open>bytes.LastIndexByte\<close>, with \<open>None\<close> for -1.\<close>

definition IndexByte :: "string \<Rightarrow> char \<Rightarrow> nat option" where
  "IndexByte s c = (if c \<in> set s then Some (length (takeWhile (\<lambda>x. x \<noteq> c) s)) else None)"

definition LastIndexByte :: "string \<Rightarrow> char \<Rightarrow> nat option" where
  "LastIndexByte s c = (if c \<in> set s then Some (length s - 1 - length (takeWhile (\<lambda>x. x \<noteq> c) (rev s))) else None)"

fun Split :: "string \<Rightarrow> char \<Rightarrow> string list" where
  "Split [] c = [[]]"
| "Split (x # xs) c =
     (if x = c then [] # Split xs c
      else (case Split xs c of [] \<Rightarrow> [[x]] | w # ws \<Rightarrow> (x # w) # ws))"

fun Join :: "string list \<Rightarrow> string \<Rightarrow> string" where
  "Join [] sep = []"
| "Join [w] sep = w"
| "Join (w # ws) sep = w @ sep @ Join ws sep"

text \<open>\<^verbatim>\<open>strings.Contains\<close>.\<close>

fun Contains :: "string \<Rightarrow> string \<Rightarrow> bool" where
  "Contains [] sub \<longleftrightarrow> sub = []"
| "Contains (x # xs) sub \<longleftrightarrow> HasPrefix (x # xs) sub \<or> Contains xs sub"

text \<open>\<^verbatim>\<open>path.Ext\<close>: from the last dot of the last path element, or nothing.\<close>

definition Ext :: "string \<Rightarrow> string" where
  "Ext p = (let b = after_last p CHR ''/'' in
            if CHR ''.'' \<in> set b then CHR ''.'' # after_last b CHR ''.'' else [])"

definition IsAbs :: "string \<Rightarrow> bool" where
  "IsAbs p \<longleftrightarrow> HasPrefix p ''/''"

text \<open>
  \<^verbatim>\<open>path.Clean\<close>, element by element: an empty element and ``.'' are dropped, ``..''
  removes the element before it, stays where there is none in a relative path, and is
  dropped at the root. The stack holds the elements kept so far, last first.
\<close>

fun clean_step :: "bool \<Rightarrow> string list \<Rightarrow> string \<Rightarrow> string list" where
  "clean_step rooted stack w =
     (if w = [] \<or> w = ''.'' then stack
      else if w = ''..'' then
        (case stack of [] \<Rightarrow> if rooted then [] else [w]
         | t # ts \<Rightarrow> if t = ''..'' then w # stack else ts)
      else w # stack)"

definition Clean :: "string \<Rightarrow> string" where
  "Clean p = (let rooted = IsAbs p;
                  ws = rev (foldl (clean_step rooted) [] (Split p CHR ''/''));
                  body = Join ws ''/'' in
              if rooted then CHR ''/'' # body
              else if body = [] then ''.'' else body)"

text \<open>\<^verbatim>\<open>filepath.Join\<close> of two elements.\<close>

definition JoinPath :: "string \<Rightarrow> string \<Rightarrow> string" where
  "JoinPath a b = (if a = [] then (if b = [] then [] else Clean b)
                   else Clean (a @ ''/'' @ b))"

definition isLetter :: "char \<Rightarrow> bool" where
  "isLetter c \<longleftrightarrow> CHR ''a'' \<le> lower_char c \<and> lower_char c \<le> CHR ''z''"

section \<open>Facts the components use\<close>

lemma HasPrefix_append [simp]: "HasPrefix (p @ s) p"
  by (simp add: HasPrefix_def)

lemma HasPrefix_iff: "HasPrefix s p \<longleftrightarrow> (\<exists>r. s = p @ r)"
  by (auto simp: HasPrefix_def) (metis append_take_drop_id)

lemma HasPrefix_Nil [simp]: "HasPrefix s []"
  by (simp add: HasPrefix_def)

lemma HasPrefix_trans: "HasPrefix a b \<Longrightarrow> HasPrefix b c \<Longrightarrow> HasPrefix a c"
  by (auto simp: HasPrefix_iff)

lemma HasSuffix_append [simp]: "HasSuffix (s @ x) x"
  by (simp add: HasSuffix_def)

lemma CutPrefix_append [simp]: "CutPrefix (p @ s) p = (s, True)"
  by (simp add: CutPrefix_def)

lemma takeWhile_neq_append [simp]:
  "c \<notin> set a \<Longrightarrow> takeWhile (\<lambda>x. x \<noteq> c) (a @ c # s) = a"
  by (induction a) auto

lemma dropWhile_neq_append [simp]:
  "c \<notin> set a \<Longrightarrow> dropWhile (\<lambda>x. x \<noteq> c) (a @ c # s) = c # s"
  by (induction a) auto

lemma Cut_append: "c \<notin> set a \<Longrightarrow> Cut (a @ c # s) c = (a, s, True)"
  by (simp add: Cut_def)

lemma Cut_absent: "c \<notin> set s \<Longrightarrow> Cut s c = (s, [], False)"
  by (simp add: Cut_def)

lemma Cut_join: "Cut s c = (a, b, True) \<Longrightarrow> s = a @ c # b \<and> c \<notin> set a"
proof -
  assume h: "Cut s c = (a, b, True)"
  then have c: "c \<in> set s" by (auto simp: Cut_def split: if_splits)
  obtain u v where s: "s = u @ c # v" and u: "c \<notin> set u"
    using split_list_first [OF c] by blast
  from h show ?thesis unfolding s Cut_append [OF u] using u by simp
qed

lemma Cut_tail_shorter: "s \<noteq> [] \<Longrightarrow> length (fst (snd (Cut s c))) < length s"
proof -
  assume "s \<noteq> []"
  then show ?thesis
    using length_dropWhile_le [of "\<lambda>x. x \<noteq> c" s] by (cases s) (auto simp: Cut_def less_Suc_eq_le)
qed

lemma ReplaceByte_absent: "a \<noteq> b \<Longrightarrow> a \<notin> set (ReplaceByte s a b)"
  by (induction s) (auto simp: ReplaceByte_def)

lemma ReplaceByte_id [simp]: "a \<notin> set s \<Longrightarrow> ReplaceByte s a b = s"
  by (induction s) (auto simp: ReplaceByte_def)

lemma length_ToLower [simp]: "length (ToLower s) = length s"
  by (simp add: ToLower_def)

lemma IndexByte_append [simp]: "c \<notin> set a \<Longrightarrow> IndexByte (a @ c # s) c = Some (length a)"
  by (simp add: IndexByte_def)

lemma IndexByte_Some: "IndexByte s c = Some k \<Longrightarrow> k < length s \<and> s ! k = c"
proof -
  assume k: "IndexByte s c = Some k"
  then have "c \<in> set s" by (auto simp: IndexByte_def split: if_splits)
  then obtain u v where s: "s = u @ c # v" "c \<notin> set u" using split_list_first by fastforce
  with k show ?thesis by (auto simp: nth_append)
qed

lemma LastIndexByte_append [simp]: "c \<notin> set b \<Longrightarrow> LastIndexByte (a @ c # b) c = Some (length a)"
  by (simp add: LastIndexByte_def)

lemma LastIndexByte_None [simp]: "c \<notin> set s \<Longrightarrow> LastIndexByte s c = None"
  by (simp add: LastIndexByte_def)

lemma LastIndexByte_Some: "LastIndexByte s c = Some k \<Longrightarrow> k < length s"
  by (cases s rule: rev_cases) (auto simp: LastIndexByte_def split: if_splits)

lemma Split_not_Nil [simp]: "Split s c \<noteq> []"
  by (induction s) (auto split: list.split)

lemma Split_append: "Split (a @ c # b) c = Split a c @ Split b c"
proof (induction a)
  case (Cons x a)
  then show ?case by (cases "Split a c") simp_all
qed simp

lemma Split_absent: "c \<notin> set s \<Longrightarrow> Split s c = [s]"
  by (induction s) auto

end
