(* ===== verification/Comsub.thy ===== *)
theory Comsub
  imports GoStrings
begin

text \<open>
  Where a command substitution inside double quotes ends, \<^verbatim>\<open>internal/shape/join.go\<close> and
  \<^verbatim>\<open>comsub.go\<close>: the joining of a line at its backslash-newlines with the offsets it removed
  one at, and the mutually recursive scanners of \<open>$( )\<close>, double quotes and \<open>$(( ))\<close>, each of
  which gives up wherever the shell might read on differently. An index of \<open>-1\<close> is
  \<open>None\<close>, or \<open>Unsure\<close> where the scanners recurse. The scanners are given fuel, since where one
  goes on depends on what a nested one returned; \<open>Spent\<close> is its end, and the line's length is
  shown to be enough.
\<close>

section \<open>Bytes\<close>

abbreviation (input) nl :: char where "nl \<equiv> CHR 0x0A"
abbreviation (input) tab :: char where "tab \<equiv> CHR 0x09"
abbreviation (input) bsl :: char where "bsl \<equiv> CHR 0x5C"
abbreviation (input) sq :: char where "sq \<equiv> CHR 0x27"
abbreviation (input) dq :: char where "dq \<equiv> CHR 0x22"
abbreviation (input) btick :: char where "btick \<equiv> CHR 0x60"
abbreviation (input) dollar :: char where "dollar \<equiv> CHR ''$''"

definition slice :: "string \<Rightarrow> nat \<Rightarrow> nat \<Rightarrow> string" where
  "slice s a b = take (b - a) (drop a s)"

text \<open>\<^verbatim>\<open>strings.IndexByte\<close> from an offset.\<close>

definition index_from :: "string \<Rightarrow> nat \<Rightarrow> char \<Rightarrow> nat option" where
  "index_from s i c = map_option (\<lambda>k. i + k) (IndexByte (drop i s) c)"

definition ContainsAny :: "string \<Rightarrow> string \<Rightarrow> bool" where
  "ContainsAny s chars = list_ex (\<lambda>c. c \<in> set chars) s"

lemma index_from_Some: "index_from s i c = Some k \<Longrightarrow> i \<le> k \<and> k < length s \<and> s ! k = c"
  by (auto simp: index_from_def dest!: IndexByte_Some)

section \<open>Joining a line at its backslash-newlines\<close>

record joined =
  jn_s :: string
  jn_joins :: "nat list"
  jn_lost :: bool

definition shapeBudget :: nat where "shapeBudget = 16 * 2 ^ 20"
definition bytesPerToken :: nat where "bytesPerToken = 252"
definition maxTokens :: nat where "maxTokens = shapeBudget div bytesPerToken"
definition maxJoins :: nat where "maxJoins = maxTokens"

definition wordStart :: "string \<Rightarrow> bool" where
  "wordStart written = (written = [] \<or> last written \<in> set ('' '' @ [tab, nl] @ '';&|()<>''))"

record joining =
  ji_single :: bool
  ji_double :: bool
  ji_written :: string
  ji_joins :: "nat list"
  ji_lost :: bool

text \<open>
  One turn of the loop of \<open>joinLines\<close> at the byte \<open>c\<close> before \<open>cs\<close>: what is left of the line,
  and the state after it.
\<close>

definition join_turn :: "bool \<Rightarrow> char \<Rightarrow> string \<Rightarrow> joining \<Rightarrow> string \<times> joining" where
  "join_turn comments c cs st =
     (let b = ji_written st in
      if comments \<and> c = CHR ''#'' \<and> \<not> ji_single st \<and> \<not> ji_double st \<and> wordStart b
      then (dropWhile (\<lambda>x. x \<noteq> nl) cs, st\<lparr>ji_written := b @ c # takeWhile (\<lambda>x. x \<noteq> nl) cs\<rparr>)
      else if ji_single st
      then (cs, st\<lparr>ji_single := (c \<noteq> sq), ji_written := b @ [c]\<rparr>)
      else if c = bsl \<and> cs \<noteq> []
      then (tl cs,
            if hd cs = nl
            then (if length (ji_joins st) < maxJoins then st\<lparr>ji_joins := ji_joins st @ [length b]\<rparr>
                  else st\<lparr>ji_lost := True\<rparr>)
            else st\<lparr>ji_written := b @ [c, hd cs]\<rparr>)
      else if c = sq \<and> \<not> ji_double st
      then (cs, st\<lparr>ji_single := True, ji_written := b @ [c]\<rparr>)
      else if c = dq
      then (cs, st\<lparr>ji_double := \<not> ji_double st, ji_written := b @ [c]\<rparr>)
      else (cs, st\<lparr>ji_written := b @ [c]\<rparr>))"

lemma join_turn_shorter: "length (fst (join_turn comments c cs st)) \<le> length cs"
  by (simp add: join_turn_def Let_def length_dropWhile_le)

function join_loop :: "bool \<Rightarrow> string \<Rightarrow> joining \<Rightarrow> joined" where
  "join_loop comments [] st = \<lparr>jn_s = ji_written st, jn_joins = ji_joins st, jn_lost = ji_lost st\<rparr>"
| "join_loop comments (c # cs) st =
     join_loop comments (fst (join_turn comments c cs st)) (snd (join_turn comments c cs st))"
  by pat_completeness auto
termination
  by (relation "measure (\<lambda>(_, s, _). length s)") (use join_turn_shorter in \<open>auto simp: less_Suc_eq_le split_def\<close>)

definition joinLines :: "string \<Rightarrow> bool \<Rightarrow> joined" where
  "joinLines s comments =
     (if \<not> Contains s [bsl, nl] then \<lparr>jn_s = s, jn_joins = [], jn_lost = False\<rparr>
      else join_loop comments s
             \<lparr>ji_single = False, ji_double = False, ji_written = [], ji_joins = [], ji_lost = False\<rparr>)"

text \<open>The first index of the ascending \<open>joins\<close> whose offset is past \<open>from\<close>.\<close>

definition after_join :: "joined \<Rightarrow> nat \<Rightarrow> nat" where
  "after_join r from = length (takeWhile (\<lambda>j. j < from + 1) (jn_joins r))"

definition unkept :: "joined \<Rightarrow> nat \<Rightarrow> bool" where
  "unkept r upper = (jn_lost r \<and> upper \<ge> jn_joins r ! (length (jn_joins r) - 1))"

definition joinedIn :: "joined \<Rightarrow> nat \<Rightarrow> nat \<Rightarrow> bool" where
  "joinedIn r from upper =
     (let k = after_join r from in
      k < length (jn_joins r) \<and> jn_joins r ! k \<le> upper \<or> unkept r upper)"

definition continuesAt :: "joined \<Rightarrow> nat \<Rightarrow> bool" where
  "continuesAt r i = (jn_s r ! i = bsl \<and> i + 1 < length (jn_s r) \<and> jn_s r ! (i + 1) = nl)"

section \<open>Closers that do not nest\<close>

function ansiCEnd_from :: "string \<Rightarrow> nat \<Rightarrow> nat option" where
  "ansiCEnd_from s j =
     (if j \<ge> length s then None
      else if s ! j = bsl then ansiCEnd_from s (j + 2)
      else if s ! j = sq then Some j
      else ansiCEnd_from s (j + 1))"
  by pat_completeness auto
termination by (relation "measure (\<lambda>(s, j). length s - j)") auto

function tickEnd :: "string \<Rightarrow> nat \<Rightarrow> nat option" where
  "tickEnd s i =
     (if i \<ge> length s then None
      else if s ! i = bsl then tickEnd s (i + 2)
      else if s ! i = btick then Some i
      else tickEnd s (i + 1))"
  by pat_completeness auto
termination by (relation "measure (\<lambda>(s, i). length s - i)") auto

function braceEnd :: "string \<Rightarrow> nat \<Rightarrow> nat option" where
  "braceEnd s i =
     (if i \<ge> length s then None
      else if s ! i = bsl then braceEnd s (i + 2)
      else if s ! i = CHR ''}'' then Some i
      else if s ! i \<in> set (''(){'' @ [sq, dq, btick]) then None
      else braceEnd s (i + 1))"
  by pat_completeness auto
termination by (relation "measure (\<lambda>(s, i). length s - i)") auto

function bracketEnd_loop :: "string \<Rightarrow> nat \<Rightarrow> nat \<Rightarrow> nat option" where
  "bracketEnd_loop s i depth =
     (if i \<ge> length s then None
      else if s ! i = CHR ''['' then bracketEnd_loop s (i + 1) (depth + 1)
      else if s ! i = CHR '']''
      then (if depth - 1 = 0 then Some i else bracketEnd_loop s (i + 1) (depth - 1))
      else if s ! i \<in> set (''(){}'' @ [sq, dq, btick, bsl, nl]) then None
      else bracketEnd_loop s (i + 1) depth)"
  by pat_completeness auto
termination by (relation "measure (\<lambda>(s, i, _). length s - i)") auto

declare ansiCEnd_from.simps [simp del] tickEnd.simps [simp del]
  braceEnd.simps [simp del] bracketEnd_loop.simps [simp del]

definition ansiCEnd :: "string \<Rightarrow> nat option" where
  "ansiCEnd s = ansiCEnd_from s 0"

definition bracketEnd :: "string \<Rightarrow> nat \<Rightarrow> nat option" where
  "bracketEnd s i = bracketEnd_loop s i 1"

text \<open>Each returns a place of its closer, at or past where it began.\<close>

lemma ansiCEnd_from_at: "ansiCEnd_from s i = Some e \<Longrightarrow> i \<le> e \<and> e < length s \<and> s ! e = sq"
  by (induction s i rule: ansiCEnd_from.induct)
    (subst (asm) ansiCEnd_from.simps, auto split: if_splits)

lemma tickEnd_at: "tickEnd s i = Some e \<Longrightarrow> i \<le> e \<and> e < length s \<and> s ! e = btick"
  by (induction s i rule: tickEnd.induct) (subst (asm) tickEnd.simps, auto split: if_splits)

lemma braceEnd_at: "braceEnd s i = Some e \<Longrightarrow> i \<le> e \<and> e < length s \<and> s ! e = CHR ''}''"
  by (induction s i rule: braceEnd.induct) (subst (asm) braceEnd.simps, auto split: if_splits)

lemma bracketEnd_loop_at:
  "bracketEnd_loop s i d = Some e \<Longrightarrow> i \<le> e \<and> e < length s \<and> s ! e = CHR '']''"
  by (induction s i d rule: bracketEnd_loop.induct)
    (subst (asm) bracketEnd_loop.simps, auto split: if_splits)

lemma bracketEnd_at: "bracketEnd s i = Some e \<Longrightarrow> i \<le> e \<and> e < length s \<and> s ! e = CHR '']''"
  unfolding bracketEnd_def by (rule bracketEnd_loop_at)

section \<open>Here-documents\<close>

record heredoc =
  hd_delim :: string
  hd_tabs :: bool
  hd_quoted :: bool

definition wordBreak :: string where
  "wordBreak = '' '' @ [tab, nl] @ '';&|()<>''"

function delim_loop :: "string \<Rightarrow> nat \<Rightarrow> string \<Rightarrow> bool \<Rightarrow> (string \<times> bool \<times> nat) option" where
  "delim_loop s i b quoted =
     (if i \<ge> length s \<or> s ! i \<in> set wordBreak then Some (b, quoted, i)
      else if s ! i = sq \<or> s ! i = dq
      then (case IndexByte (drop (i + 1) s) (s ! i) of
              None \<Rightarrow> None
            | Some j \<Rightarrow>
                let q = slice s (i + 1) (i + 1 + j) in
                if ContainsAny q [bsl, dollar, btick, nl] then None
                else delim_loop s (i + 1 + j + 1) (b @ q) True)
      else if s ! i = bsl
      then (if i + 1 \<ge> length s \<or> s ! (i + 1) = nl \<or> s ! (i + 1) = bsl then None
            else delim_loop s (i + 2) (b @ [s ! (i + 1)]) True)
      else if s ! i = dollar \<or> s ! i = btick then None
      else delim_loop s (i + 1) (b @ [s ! i]) quoted)"
  by pat_completeness auto
termination by (relation "measure (\<lambda>(s, i, _). length s - i)") auto

declare delim_loop.simps [simp del]

definition heredocDelim :: "string \<Rightarrow> nat \<Rightarrow> (heredoc \<times> nat) option" where
  "heredocDelim s i =
     (let tabs = (i < length s \<and> s ! i = CHR ''-'');
          i = (if tabs then i + 1 else i);
          i = i + length (takeWhile (\<lambda>c. c = CHR '' '' \<or> c = tab) (drop i s)) in
      case delim_loop s i [] False of
        None \<Rightarrow> None
      | Some (b, quoted, i) \<Rightarrow>
          if b = [] then None else Some (\<lparr>hd_delim = b, hd_tabs = tabs, hd_quoted = quoted\<rparr>, i))"

definition doc_line :: "heredoc \<Rightarrow> string \<Rightarrow> string" where
  "doc_line d l = (if hd_tabs d then TrimLeft l tab else l)"

fun delim_from :: "joined \<Rightarrow> nat \<Rightarrow> heredoc \<Rightarrow> nat list \<Rightarrow> nat \<Rightarrow> nat option" where
  "delim_from r e d [] from = Some from"
| "delim_from r e d (p # ps) from =
     (if p > e then Some from
      else if HasPrefix (doc_line d (slice (jn_s r) from p)) (hd_delim d) then None
      else delim_from r e d ps p)"

text \<open>Whether the line is the delimiter line, and whether that is certain.\<close>

definition delimLine :: "joined \<Rightarrow> nat \<Rightarrow> nat \<Rightarrow> heredoc \<Rightarrow> bool \<times> bool" where
  "delimLine r i e d =
     (if unkept r e then (False, False)
      else (case delim_from r e d (drop (after_join r (i - 1)) (jn_joins r)) i of
              None \<Rightarrow> (False, False)
            | Some from \<Rightarrow>
                let l = doc_line d (slice (jn_s r) from e) in
                (l = hd_delim d, l = hd_delim d \<or> \<not> HasPrefix l (hd_delim d))))"

text \<open>Where the line at \<open>i\<close> ends, and a body line no shell is sure to read alike.\<close>

definition line_end :: "joined \<Rightarrow> nat \<Rightarrow> nat" where
  "line_end r i = (case index_from (jn_s r) i nl of None \<Rightarrow> length (jn_s r) | Some e \<Rightarrow> e)"

definition body_joined :: "joined \<Rightarrow> nat \<Rightarrow> nat \<Rightarrow> heredoc \<Rightarrow> bool" where
  "body_joined r i e d =
     (\<not> hd_quoted d \<and> (joinedIn r (i - 1) e \<or> HasSuffix (slice (jn_s r) i e) [bsl]))"

lemma line_end_le: "i \<le> length (jn_s r) \<Longrightarrow> i \<le> line_end r i \<and> line_end r i \<le> length (jn_s r)"
  unfolding line_end_def by (auto split: option.splits dest!: index_from_Some)

text \<open>The two loops of \<open>bodiesEnd\<close>, over the documents left and the lines.\<close>

function bodiesEnd :: "joined \<Rightarrow> nat \<Rightarrow> heredoc list \<Rightarrow> nat option" where
  "bodiesEnd r i docs =
     (if docs = [] \<or> i > length (jn_s r) then None
      else if body_joined r i (line_end r i) (hd docs) then None
      else (case delimLine r i (line_end r i) (hd docs) of
              (found, ok) \<Rightarrow>
                if \<not> ok \<or> \<not> found \<and> line_end r i = length (jn_s r) then None
                else if found
                then (if tl docs = [] then Some (line_end r i) else bodiesEnd r (line_end r i + 1) (tl docs))
                else bodiesEnd r (line_end r i + 1) docs))"
  by pat_completeness auto
termination
  by (relation "measure (\<lambda>(r, i, _). Suc (length (jn_s r)) - i)")
    (use line_end_le in \<open>fastforce simp: not_less\<close>)+

declare bodiesEnd.simps [simp del]

lemma bodiesEnd_at: "bodiesEnd r i docs = Some e \<Longrightarrow> i \<le> e \<and> e \<le> length (jn_s r)"
proof (induction r i docs rule: bodiesEnd.induct)
  case (1 r i docs)
  obtain found ok where dl: "delimLine r i (line_end r i) (hd docs) = (found, ok)"
    by (cases "delimLine r i (line_end r i) (hd docs)")
  have g: "\<not> (docs = [] \<or> i > length (jn_s r))" "\<not> body_joined r i (line_end r i) (hd docs)"
    "\<not> (\<not> ok \<or> \<not> found \<and> line_end r i = length (jn_s r))"
    using "1.prems" dl by (subst (asm) bodiesEnd.simps, simp split: if_splits)+
  then have le: "i \<le> line_end r i" "line_end r i \<le> length (jn_s r)" using line_end_le [of i r] by auto
  have e: "bodiesEnd r i docs =
      (if found then if tl docs = [] then Some (line_end r i) else bodiesEnd r (line_end r i + 1) (tl docs)
       else bodiesEnd r (line_end r i + 1) docs)"
    by (subst bodiesEnd.simps) (simp only: g dl if_False prod.case)
  show ?case
    using "1.IH"(1) [OF g(1,2) dl [symmetric] g(3)] "1.IH"(2) [OF g(1,2) dl [symmetric] g(3)] "1.prems" e le
    by (auto split: if_splits)
qed

section \<open>Where a command may begin\<close>

record commandPosition =
  cp_named :: bool
  cp_prefix :: bool

definition start_position :: commandPosition where
  "start_position = \<lparr>cp_named = False, cp_prefix = False\<rparr>"

definition commandKeywords :: "string list" where
  "commandKeywords = [''!'', ''{'', ''[['', ''case'', ''do'', ''done'', ''elif'', ''else'', ''esac'',
     ''fi'', ''for'', ''foreach'', ''if'', ''in'', ''select'', ''then'', ''until'', ''while'',
     ''always'', ''end'']"

definition prefixKeywords :: "string list" where
  "prefixKeywords = [''time'', ''coproc'', ''repeat'', ''function'', ''nocorrect'', ''noglob'', ''-'',
     ''builtin'', ''command'', ''exec'']"

definition redirects :: "string \<Rightarrow> nat \<Rightarrow> nat \<Rightarrow> nat \<Rightarrow> bool" where
  "redirects s i body n =
     (if i + n < length s \<and> (s ! (i + n) = CHR ''<'' \<or> s ! (i + n) = CHR ''>'') then True
      else (case dropWhile (\<lambda>c. c = CHR '' '' \<or> c = tab) (rev (slice s body i)) of
              [] \<Rightarrow> False
            | c # _ \<Rightarrow> c = CHR ''<'' \<or> c = CHR ''>''))"

definition isCase :: "string \<Rightarrow> nat \<Rightarrow> nat \<Rightarrow> bool" where
  "isCase s i body =
     (if \<not> HasPrefix (drop i s) ''case'' \<or> i \<noteq> body \<and> s ! (i - 1) \<notin> set wordBreak then False
      else i + 4 = length s \<or> s ! (i + 4) \<in> set wordBreak)"

definition see_byte :: "commandPosition \<Rightarrow> string \<Rightarrow> nat \<Rightarrow> nat \<Rightarrow> commandPosition" where
  "see_byte p s i body =
     (if s ! i \<in> set ('';&|()'' @ [nl]) then start_position
      else if s ! i \<in> set wordBreak \<or> i \<noteq> body \<and> s ! (i - 1) \<notin> set wordBreak then p
      else (let w = takeWhile (\<lambda>c. c \<notin> set wordBreak) (drop i s) in
            if w = ''}'' \<or> w = '']]'' then start_position
            else if cp_named p \<or> cp_prefix p then p
            else if w \<in> set prefixKeywords then p\<lparr>cp_prefix := True\<rparr>
            else if w \<in> set commandKeywords \<or> CHR ''='' \<in> set w \<or> redirects s i body (length w) then p
            else p\<lparr>cp_named := True\<rparr>))"

definition begins :: "commandPosition \<Rightarrow> bool" where
  "begins p = (\<not> cp_named p)"

section \<open>The nested scanners\<close>

definition maxNest :: nat where "maxNest = 32"

datatype scan = At nat | Unsure | Spent

fun found_at :: "nat option \<Rightarrow> scan" where
  "found_at None = Unsure"
| "found_at (Some e) = At e"

text \<open>One turn of a scanner's loop: a return, or the place and state the next turn follows.\<close>

datatype 'a turn = Return scan | Onward nat 'a

definition onward :: "scan \<Rightarrow> (nat \<Rightarrow> 'a turn) \<Rightarrow> 'a turn" where
  "onward r k = (case r of At e \<Rightarrow> k e | Unsure \<Rightarrow> Return Unsure | Spent \<Rightarrow> Return Spent)"

text \<open>\<open>dollarOpens\<close>, given the scanner of what \<open>$(\<close> opens.\<close>

definition dollarOpens :: "(nat \<Rightarrow> scan) \<Rightarrow> joined \<Rightarrow> nat \<Rightarrow> nat \<Rightarrow> scan" where
  "dollarOpens substEnd r i dollars =
     (let s = jn_s r in
      if i + 1 \<ge> length s then At i
      else if s ! (i + 1) \<in> set (''({['' @ [sq]) \<and> even dollars then Unsure
      else if s ! (i + 1) = CHR ''('' then substEnd i
      else if s ! (i + 1) = CHR ''{'' then found_at (braceEnd s (i + 2))
      else if s ! (i + 1) = CHR ''['' then found_at (bracketEnd s (i + 2))
      else At i)"

record comsub =
  cs_depth :: nat
  cs_docs :: "heredoc list"
  cs_dollarAt :: int
  cs_dollars :: nat
  cs_cmd :: commandPosition

definition begin_comsub :: comsub where
  "begin_comsub = \<lparr>cs_depth = 1, cs_docs = [], cs_dollarAt = - 1, cs_dollars = 0, cs_cmd = start_position\<rparr>"

text \<open>A quoted span that a waiting here-document's body might begin in is refused.\<close>

definition span :: "joined \<Rightarrow> comsub \<Rightarrow> nat \<Rightarrow> scan \<Rightarrow> scan" where
  "span r st from upper =
     (case upper of
        At e \<Rightarrow> if cs_docs st \<noteq> [] \<and> (nl \<in> set (slice (jn_s r) from e) \<or> joinedIn r from e) then Unsure else At e
      | x \<Rightarrow> x)"

definition comsub_turn ::
  "(nat \<Rightarrow> scan) \<Rightarrow> (nat \<Rightarrow> scan) \<Rightarrow> joined \<Rightarrow> nat \<Rightarrow> nat \<Rightarrow> comsub \<Rightarrow> comsub turn" where
  "comsub_turn dquoteEnd substEnd r body i st0 =
     (let s = jn_s r; c = s ! i; st = st0\<lparr>cs_cmd := see_byte (cs_cmd st0) s i body\<rparr> in
      if c = bsl
      then (if i + 1 \<ge> length s \<or> continuesAt r i then Return Unsure else Onward (i + 1) st)
      else if c = sq
      then onward (span r st i (found_at (map_option (\<lambda>j. i + 1 + j)
             (if cs_dollarAt st = int i - 1 then ansiCEnd (drop (i + 1) s) else IndexByte (drop (i + 1) s) sq))))
             (\<lambda>e. Onward e st)
      else if c = dq then onward (span r st i (dquoteEnd (i + 1))) (\<lambda>e. Onward e st)
      else if c = btick then onward (span r st i (found_at (tickEnd s (i + 1)))) (\<lambda>e. Onward e st)
      else if c = dollar
      then (let d = (if cs_dollarAt st = int i - 1 then cs_dollars st + 1 else 1) in
            onward (dollarOpens substEnd r i d)
              (\<lambda>e. Onward e (st\<lparr>cs_dollars := d, cs_dollarAt := int i\<rparr>)))
      else if c = CHR ''('' \<or> c = CHR '')''
      then (if cs_docs st \<noteq> [] then Return Unsure
            else if c = CHR ''('' then Onward i (st\<lparr>cs_depth := cs_depth st + 1\<rparr>)
            else if cs_depth st - 1 = 0 then Return (At i)
            else Onward i (st\<lparr>cs_depth := cs_depth st - 1\<rparr>))
      else if c = nl \<and> cs_docs st \<noteq> []
      then (case bodiesEnd r (i + 1) (cs_docs st) of
              None \<Rightarrow> Return Unsure
            | Some e \<Rightarrow> Onward (e - 1) (st\<lparr>cs_docs := []\<rparr>))
      else if c = CHR ''<'' \<and> HasPrefix (drop i s) ''<<<'' then Onward (i + 2) st
      else if c = CHR ''<'' \<and> HasPrefix (drop i s) ''<<''
      then (case heredocDelim s (i + 2) of
              None \<Rightarrow> Return Unsure
            | Some (d, e) \<Rightarrow> Onward (e - 1) (st\<lparr>cs_docs := cs_docs st @ [d]\<rparr>))
      else if c = CHR ''#'' \<and> (i = body \<or> s ! (i - 1) \<in> set wordBreak) then Return Unsure
      else if c = CHR ''c'' \<and> begins (cs_cmd st) \<and> isCase s i body then Return Unsure
      else Onward i st)"

definition dquote_turn :: "(nat \<Rightarrow> scan) \<Rightarrow> joined \<Rightarrow> nat \<Rightarrow> nat \<Rightarrow> nat turn" where
  "dquote_turn substEnd r i dollars0 =
     (let s = jn_s r; c = s ! i; dollars = (if c \<noteq> dollar then 0 else dollars0) in
      if c = bsl then (if continuesAt r i then Return Unsure else Onward (i + 1) dollars)
      else if c = dq then Return (At i)
      else if c = btick then onward (found_at (tickEnd s (i + 1))) (\<lambda>e. Onward e dollars)
      else if c = dollar
      then (if i + 1 \<ge> length s then Return Unsure
            else if s ! (i + 1) = sq then Onward i (dollars + 1)
            else onward (dollarOpens substEnd r i (dollars + 1))
                   (\<lambda>e. if e \<noteq> i then Onward e 0 else Onward i (dollars + 1)))
      else Onward i dollars)"

definition arith_turn :: "(nat \<Rightarrow> scan) \<Rightarrow> joined \<Rightarrow> nat \<Rightarrow> nat \<Rightarrow> nat \<times> nat \<Rightarrow> (nat \<times> nat) turn" where
  "arith_turn substEnd r body i st =
     (let s = jn_s r; c = s ! i; depth = fst st; dollars = (if c \<noteq> dollar then 0 else snd st) in
      if c = CHR ''('' then Onward i (depth + 1, dollars)
      else if c = CHR '')''
      then (if depth > 0 then Onward i (depth - 1, dollars)
            else if i + 1 < length s \<and> s ! (i + 1) = CHR '')'' then Return (At (i + 1))
            else Return Unsure)
      else if c = dollar
      then onward (dollarOpens substEnd r i (dollars + 1)) (\<lambda>e. Onward e (depth, dollars + 1))
      else if c \<in> set ([sq, dq, btick, bsl, nl] @ '';'') then Return Unsure
      else if c = CHR ''#''
      then (if i = body \<or> s ! (i - 1) \<in> set wordBreak then Return Unsure else Onward i (depth, dollars))
      else if c = CHR ''c''
      then (if isCase s i body then Return Unsure else Onward i (depth, dollars))
      else Onward i (depth, dollars))"

text \<open>A loop of turns, as long as the fuel and the line last.\<close>

datatype scan_call =
  Comsub nat nat nat comsub
| Dquote nat nat nat
| Arith nat nat nat "nat \<times> nat"

definition subst_call :: "joined \<Rightarrow> nat \<Rightarrow> nat \<Rightarrow> scan_call" where
  "subst_call r nest i =
     (if i + 2 < length (jn_s r) \<and> jn_s r ! (i + 2) = CHR ''('' then Arith nest (i + 3) (i + 3) (0, 0)
      else Comsub nest (i + 2) (i + 2) begin_comsub)"

primrec scan_from :: "nat \<Rightarrow> joined \<Rightarrow> scan_call \<Rightarrow> scan" where
  "scan_from 0 r = (\<lambda>q. Spent)"
| "scan_from (Suc n) r = (\<lambda>q. case q of
     Comsub nest body i st \<Rightarrow>
       (if nest > maxNest \<or> i \<ge> length (jn_s r) then Unsure
        else (case comsub_turn (\<lambda>k. scan_from n r (Dquote (nest + 1) k 0))
                     (\<lambda>k. scan_from n r (subst_call r (nest + 1) k)) r body i st of
                Return x \<Rightarrow> x
              | Onward j st' \<Rightarrow> scan_from n r (Comsub nest body (j + 1) st')))
   | Dquote nest i dollars \<Rightarrow>
       (if nest > maxNest \<or> i \<ge> length (jn_s r) then Unsure
        else (case dquote_turn (\<lambda>k. scan_from n r (subst_call r (nest + 1) k)) r i dollars of
                Return x \<Rightarrow> x
              | Onward j dollars' \<Rightarrow> scan_from n r (Dquote nest (j + 1) dollars')))
   | Arith nest body i st \<Rightarrow>
       (if nest > maxNest \<or> i \<ge> length (jn_s r) then Unsure
        else (case arith_turn (\<lambda>k. scan_from n r (subst_call r (nest + 1) k)) r body i st of
                Return x \<Rightarrow> x
              | Onward j st' \<Rightarrow> scan_from n r (Arith nest body (j + 1) st'))))"

declare scan_from.simps(2) [simp del]

text \<open>\<open>substEnd\<close> as the lexer calls it: the line's length is fuel enough.\<close>

definition substEnd :: "joined \<Rightarrow> nat \<Rightarrow> nat option" where
  "substEnd r i =
     (case scan_from (Suc (length (jn_s r))) r (subst_call r 0 i) of At e \<Rightarrow> Some e | _ \<Rightarrow> None)"

section \<open>The scanners end, and only move on\<close>

definition call_at :: "scan_call \<Rightarrow> nat" where
  "call_at q = (case q of Comsub _ _ i _ \<Rightarrow> i | Dquote _ i _ \<Rightarrow> i | Arith _ _ i _ \<Rightarrow> i)"

text \<open>A result at or past where the call began and within the line, fuel not having run out.\<close>

definition past :: "joined \<Rightarrow> nat \<Rightarrow> scan \<Rightarrow> bool" where
  "past r i x = (case x of At e \<Rightarrow> i \<le> e \<and> e < length (jn_s r) | Unsure \<Rightarrow> True | Spent \<Rightarrow> False)"

definition turned :: "joined \<Rightarrow> nat \<Rightarrow> 'a turn \<Rightarrow> bool" where
  "turned r i t = (case t of Return x \<Rightarrow> past r i x | Onward j _ \<Rightarrow> i \<le> j)"

lemma past_simps [simp]:
  "past r i (At e) \<longleftrightarrow> i \<le> e \<and> e < length (jn_s r)" "past r i Unsure" "\<not> past r i Spent"
  by (simp_all add: past_def)

lemma turned_simps [simp]:
  "turned r i (Return x) \<longleftrightarrow> past r i x" "turned r i (Onward j st) \<longleftrightarrow> i \<le> j"
  by (simp_all add: turned_def)

lemma past_mono: "past r j x \<Longrightarrow> i \<le> j \<Longrightarrow> past r i x"
  by (auto simp: past_def split: scan.splits)

lemma past_found: "(\<And>e. m = Some e \<Longrightarrow> i \<le> e \<and> e < length (jn_s r)) \<Longrightarrow> past r i (found_at m)"
  by (cases m) auto

lemma turned_onward:
  "past r i x \<Longrightarrow> (\<And>e. i \<le> e \<Longrightarrow> e < length (jn_s r) \<Longrightarrow> turned r i (k e)) \<Longrightarrow> turned r i (onward x k)"
  by (auto simp: onward_def split: scan.splits)

lemma turned_if:
  "(b \<Longrightarrow> turned r i x) \<Longrightarrow> (\<not> b \<Longrightarrow> turned r i y) \<Longrightarrow> turned r i (if b then x else y)"
  by simp

lemma past_span: "past r i x \<Longrightarrow> past r i (span r st from x)"
  by (auto simp: span_def split: scan.splits)

lemma past_dollarOpens:
  assumes "i < length (jn_s r)" and "past r i (sub i)"
  shows "past r i (dollarOpens sub r i d)"
  using assms bracketEnd_at [of "jn_s r" "i + 2"] braceEnd_at [of "jn_s r" "i + 2"]
  by (auto simp: dollarOpens_def Let_def intro!: past_found)

lemma delim_loop_at: "delim_loop s i b q = Some (b', q', e) \<Longrightarrow> i \<le> e"
proof (induction "length s - i" arbitrary: i b q rule: less_induct)
  case less
  have ih: "i \<le> e" if "delim_loop s k c p = Some (b', q', e)" "i < k" "i < length s" for k c p
    using less.hyps [of k c p] that by linarith
  show ?case
    using less.prems
    by (subst (asm) delim_loop.simps) (auto simp: Let_def split: if_splits option.splits dest!: ih)
qed

lemma heredocDelim_at: "heredocDelim s i = Some (d, e) \<Longrightarrow> i \<le> e"
  unfolding heredocDelim_def Let_def
  by (auto split: option.splits if_splits dest!: delim_loop_at)

lemma turned_comsub:
  assumes i: "i < length (jn_s r)"
    and sub: "past r (i + 1) (quoted (i + 1))" "past r i (sub i)"
  shows "turned r i (comsub_turn quoted sub r body i st)"
proof -
  have q: "past r i (found_at (map_option (\<lambda>j. i + 1 + j)
       (if b then ansiCEnd (drop (i + 1) (jn_s r)) else IndexByte (drop (i + 1) (jn_s r)) sq)))" for b
    using ansiCEnd_from_at [of "drop (i + 1) (jn_s r)" 0] IndexByte_Some [of "drop (i + 1) (jn_s r)" sq]
    by (intro past_found) (auto simp: ansiCEnd_def split: if_splits)
  have t: "past r i (found_at (tickEnd (jn_s r) (i + 1)))"
    using tickEnd_at [of "jn_s r" "i + 1"] by (intro past_found) auto
  have d: "past r i (quoted (i + 1))" using past_mono [OF sub(1)] by simp
  have b: "bodiesEnd r (Suc i) docs = Some e \<Longrightarrow> i \<le> e - 1" for docs e
    using bodiesEnd_at by fastforce
  have h: "heredocDelim (jn_s r) (Suc (Suc i)) = Some (x, e) \<Longrightarrow> i \<le> e - 1" for x e
    using heredocDelim_at by fastforce
  show ?thesis
    unfolding comsub_turn_def Let_def
    by (intro turned_if turned_onward past_span q t d past_dollarOpens i sub(2))
      (use i in \<open>auto split: option.split dest!: b h\<close>)
qed

lemma turned_dquote:
  assumes i: "i < length (jn_s r)" and sub: "past r i (sub i)"
  shows "turned r i (dquote_turn sub r i d)"
proof -
  have t: "past r i (found_at (tickEnd (jn_s r) (i + 1)))"
    using tickEnd_at [of "jn_s r" "i + 1"] by (intro past_found) auto
  show ?thesis
    unfolding dquote_turn_def Let_def
    by (intro turned_if turned_onward t past_dollarOpens i sub) (use i in auto)
qed

lemma turned_arith:
  assumes i: "i < length (jn_s r)" and sub: "past r i (sub i)"
  shows "turned r i (arith_turn sub r body i st)"
  unfolding arith_turn_def Let_def
  by (intro turned_if turned_onward past_dollarOpens i sub) auto

text \<open>Any fuel past what is left of the line is enough, whatever the call.\<close>

lemma call_at_subst: "i + 2 \<le> call_at (subst_call r m i)"
  by (simp add: subst_call_def call_at_def)

lemma call_at_simps [simp]:
  "call_at (Comsub m b i st) = i" "call_at (Dquote m i d) = i" "call_at (Arith m b i p) = i"
  by (simp_all add: call_at_def)

lemma past_turn:
  "turned r i t \<Longrightarrow> (\<And>j st. i \<le> j \<Longrightarrow> past r i (g j st)) \<Longrightarrow>
     past r i (case t of Return x \<Rightarrow> x | Onward j st \<Rightarrow> g j st)"
  by (cases t) auto

lemma scan_from_past:
  "length (jn_s r) - call_at q < n \<Longrightarrow> past r (call_at q) (scan_from n r q)"
proof (induction n arbitrary: q)
  case (Suc n)
  let ?len = "length (jn_s r)"
  have nested: "past r k (scan_from n r q')" if "k < call_at q'" "?len - k \<le> n" "k < ?len" for k q'
  proof (rule past_mono)
    show "past r (call_at q') (scan_from n r q')" using Suc.IH [of q'] that by linarith
  qed (use that in simp)
  have sub: "past r k (scan_from n r (subst_call r m k))" if "k < ?len" "?len - k \<le> n" for m k
    using nested [OF _ that(2,1), of "subst_call r m k"] call_at_subst [of k r m] by simp
  show ?case
  proof (cases q)
    case (Comsub m b i st)
    have n: "?len - i \<le> n" using Suc.prems Comsub by simp
    have "past r (i + 1) (scan_from n r (Dquote (m + 1) (i + 1) 0))" if "i < ?len"
      using Suc.IH [of "Dquote (m + 1) (i + 1) 0"] n that by simp
    then show ?thesis unfolding Comsub scan_from.simps(2) scan_call.case call_at_simps
      using n by (auto intro!: past_turn turned_comsub sub nested [of _ "Comsub m b j st'" for j st'] simp: not_le)
  next
    case (Dquote m i d)
    have n: "?len - i \<le> n" using Suc.prems Dquote by simp
    then show ?thesis unfolding Dquote scan_from.simps(2) scan_call.case call_at_simps
      by (auto intro!: past_turn turned_dquote sub nested simp: not_le)
  next
    case (Arith m b i p)
    have n: "?len - i \<le> n" using Suc.prems Arith by simp
    then show ?thesis unfolding Arith scan_from.simps(2) scan_call.case call_at_simps
      by (auto intro!: past_turn turned_arith sub nested simp: not_le)
  qed
qed simp

lemma substEnd_at: "substEnd r i = Some e \<Longrightarrow> i + 2 \<le> e \<and> e < length (jn_s r)"
proof -
  assume e: "substEnd r i = Some e"
  have "past r (call_at (subst_call r 0 i)) (scan_from (Suc (length (jn_s r))) r (subst_call r 0 i))"
    by (rule scan_from_past) simp
  with e call_at_subst [of i r 0] show ?thesis by (auto simp: substEnd_def split: scan.splits)
qed

text \<open>
  The scanners that look for the close of a command substitution end: fuel of one more
  than the line's length never runs out, whatever the quoting and nesting, and a close they
  find lies past the opening and within the line.
\<close>

theorem substEnd_ends:
  "case scan_from (Suc (length (jn_s r))) r (subst_call r 0 i) of
     At e \<Rightarrow> i + 2 \<le> e \<and> e < length (jn_s r) | Unsure \<Rightarrow> True | Spent \<Rightarrow> False"
proof -
  have "past r (call_at (subst_call r 0 i)) (scan_from (Suc (length (jn_s r))) r (subst_call r 0 i))"
    by (rule scan_from_past) simp
  with call_at_subst [of i r 0] show ?thesis by (auto simp: past_def split: scan.splits)
qed

section \<open>What joining removes\<close>

text \<open>The line as written, from what joining left: each removed pair put back, the last first.\<close>

definition put_back :: "string \<Rightarrow> nat list \<Rightarrow> string" where
  "put_back b joins = foldr (\<lambda>j t. take j t @ [bsl, nl] @ drop j t) joins b"

definition joins_in :: "string \<Rightarrow> nat list \<Rightarrow> bool" where
  "joins_in b joins = (sorted joins \<and> list_all (\<lambda>j. j \<le> length b) joins \<and> length joins \<le> maxJoins)"

lemma put_back_length: "length b \<le> length (put_back b joins)"
  by (induction joins) (auto simp: put_back_def)

lemma put_back_append:
  "list_all (\<lambda>j. j \<le> length b) joins \<Longrightarrow> put_back (b @ x) joins = put_back b joins @ x"
proof (induction joins)
  case (Cons j js)
  then have "j \<le> length (put_back b js)" using put_back_length [of b js] by simp
  with Cons show ?case by (simp add: put_back_def)
qed (simp add: put_back_def)

lemma put_back_snoc:
  "list_all (\<lambda>j. j \<le> length b) joins \<Longrightarrow>
     put_back b (joins @ [length b]) = put_back b joins @ [bsl, nl]"
  using put_back_append [of b joins "[bsl, nl]"] by (simp add: put_back_def)

lemma joins_in_append: "joins_in b joins \<Longrightarrow> joins_in (b @ x) joins"
  by (auto simp: joins_in_def list_all_iff)

lemma joins_in_snoc: "joins_in b joins \<Longrightarrow> length joins < maxJoins \<Longrightarrow> joins_in b (joins @ [length b])"
  by (auto simp: joins_in_def list_all_iff sorted_append)

text \<open>While the loop runs on a line \<open>t\<close>, the text written and the text left make it up.\<close>

definition joining_ok :: "string \<Rightarrow> string \<Rightarrow> joining \<Rightarrow> bool" where
  "joining_ok t s st \<longleftrightarrow>
     joins_in (ji_written st) (ji_joins st) \<and>
     (ji_lost st \<or> put_back (ji_written st) (ji_joins st) @ s = t)"

lemma join_turn_ok:
  assumes ok: "joining_ok t (c # cs) st"
  shows "joining_ok t (fst (join_turn comments c cs st)) (snd (join_turn comments c cs st))"
proof -
  have j: "joins_in (ji_written st) (ji_joins st)"
    and t: "ji_lost st \<or> put_back (ji_written st) (ji_joins st) @ c # cs = t"
    using ok by (simp_all add: joining_ok_def)
  have pb: "put_back (ji_written st @ x) (ji_joins st) = put_back (ji_written st) (ji_joins st) @ x" for x
    using j by (auto simp: joins_in_def put_back_append)
  have snoc: "put_back (ji_written st) (ji_joins st @ [length (ji_written st)]) =
      put_back (ji_written st) (ji_joins st) @ [bsl, nl]"
    using j by (auto simp: joins_in_def put_back_snoc)
  show ?thesis
    using t j
    by (cases cs) (auto simp: joining_ok_def join_turn_def Let_def pb snoc joins_in_append [OF j] joins_in_snoc [OF j])
qed

lemma join_loop_ok:
  assumes "joining_ok t s st"
  shows "joins_in (jn_s (join_loop comments s st)) (jn_joins (join_loop comments s st)) \<and>
     (jn_lost (join_loop comments s st) \<or>
      put_back (jn_s (join_loop comments s st)) (jn_joins (join_loop comments s st)) = t)"
  using assms
proof (induction comments s st rule: join_loop.induct)
  case (2 comments c cs st)
  show ?case unfolding join_loop.simps(2) by (rule "2.IH" [OF join_turn_ok [OF "2.prems"]])
qed (simp add: joining_ok_def)

lemma joins_in_Nil [simp]: "joins_in b []"
  by (simp add: joins_in_def)

text \<open>
  C38: joining a line removes backslash-newlines and nothing else: the offsets kept ascend
  within the joined line and are at most \<open>maxJoins\<close>, and putting a pair back at each gives the
  line as written, unless more were removed than are kept.
\<close>

theorem joinLines_put_back:
  "joins_in (jn_s (joinLines s comments)) (jn_joins (joinLines s comments)) \<and>
   (jn_lost (joinLines s comments) \<or> put_back (jn_s (joinLines s comments)) (jn_joins (joinLines s comments)) = s)"
proof (cases "Contains s [bsl, nl]")
  case True
  have "joining_ok s s \<lparr>ji_single = False, ji_double = False, ji_written = [], ji_joins = [], ji_lost = False\<rparr>"
    by (simp add: joining_ok_def put_back_def)
  from join_loop_ok [OF this] True show ?thesis by (simp add: joinLines_def)
qed (simp add: joinLines_def put_back_def)

end
