(* ===== verification/Lexer.thy ===== *)
theory Lexer
  imports Comsub
begin

text \<open>
  The tokenizer of a command line, \<^verbatim>\<open>internal/shape/tokenize.go\<close>: the lexer's state, one
  operation per construct (blank, comment, escape, the two quotes, operator, plain byte), its
  loop with the token bound, and the three readings built on it, \<open>tokenizeShape\<close>,
  \<open>tokenizeProgram\<close> and \<open>tokenizeList\<close>. An offset of \<open>-1\<close> is \<open>None\<close>; a word's text is the
  string itself, and the slices the code keeps it as are shown to hold the same.
\<close>

datatype lex_error = ErrUnterminated | ErrUncertain | ErrTokenBound

record token =
  tk_text :: string
  tk_meta :: bool
  tk_quotedAt :: "nat option"
  tk_opaque :: bool
  tk_nlBefore :: bool
  tk_glued :: bool
  tk_litDollar :: bool
  tk_ticks :: nat

section \<open>A word's text\<close>

text \<open>The text of the word being built, as a slice of the line until quoting leaves a gap.\<close>

record spanned =
  sp_text :: string
  sp_from :: nat
  sp_upto :: nat
  sp_copied :: bool

definition new_span :: spanned where
  "new_span = \<lparr>sp_text = [], sp_from = 0, sp_upto = 0, sp_copied = False\<rparr>"

definition add_span :: "string \<Rightarrow> nat \<Rightarrow> nat \<Rightarrow> spanned \<Rightarrow> spanned" where
  "add_span s from upper w =
     (if sp_copied w then w\<lparr>sp_text := sp_text w @ slice s from upper\<rparr>
      else if sp_from w = sp_upto w then w\<lparr>sp_from := from, sp_upto := upper\<rparr>
      else if sp_upto w = from then w\<lparr>sp_upto := upper\<rparr>
      else w\<lparr>sp_copied := True, sp_text := sp_text w @ slice s (sp_from w) (sp_upto w) @ slice s from upper\<rparr>)"

definition span_length :: "spanned \<Rightarrow> nat" where
  "span_length w = (if sp_copied w then length (sp_text w) else sp_upto w - sp_from w)"

definition span_string :: "string \<Rightarrow> spanned \<Rightarrow> string" where
  "span_string s w = (if sp_copied w then sp_text w else slice s (sp_from w) (sp_upto w))"

text \<open>Until it is copied the slice lies in the line and nothing is in the builder.\<close>

definition span_ok :: "string \<Rightarrow> spanned \<Rightarrow> bool" where
  "span_ok s w \<longleftrightarrow> sp_copied w \<or> sp_from w \<le> sp_upto w \<and> sp_upto w \<le> length s \<and> sp_text w = []"

lemma slice_length [simp]: "b \<le> length s \<Longrightarrow> length (slice s a b) = b - a"
  by (auto simp: slice_def)

lemma slice_same [simp]: "slice s a a = []"
  by (simp add: slice_def)

lemma slice_join: "a \<le> b \<Longrightarrow> b \<le> c \<Longrightarrow> slice s a b @ slice s b c = slice s a c"
proof -
  assume "a \<le> b" "b \<le> c"
  then have "c - a = (b - a) + (c - b)" and "drop b s = drop (b - a) (drop a s)" by simp_all
  then show ?thesis unfolding slice_def by (simp only: take_add)
qed

lemma add_span_string:
  assumes "span_ok s w" and "from \<le> upper" and "upper \<le> length s"
  shows "span_ok s (add_span s from upper w) \<and>
    span_string s (add_span s from upper w) = span_string s w @ slice s from upper"
  using assms by (auto simp: span_ok_def add_span_def span_string_def slice_join)

definition add_spans :: "string \<Rightarrow> (nat \<times> nat) list \<Rightarrow> spanned" where
  "add_spans s ps = foldl (\<lambda>w (a, b). add_span s a b w) new_span ps"

lemma add_spans_ok:
  "list_all (\<lambda>(a, b). a \<le> b \<and> b \<le> length s) ps \<Longrightarrow>
     span_ok s (add_spans s ps) \<and> span_string s (add_spans s ps) = concat (map (\<lambda>(a, b). slice s a b) ps)"
proof (induction ps rule: rev_induct)
  case (snoc p ps)
  obtain a b where p: "p = (a, b)" by (cases p)
  with snoc show ?case using add_span_string [of s "add_spans s ps" a b] by (auto simp: add_spans_def)
qed (auto simp: add_spans_def new_span_def span_ok_def span_string_def)

lemma span_ok_length: "span_ok s w \<Longrightarrow> span_length w = length (span_string s w)"
  by (auto simp: span_ok_def span_length_def span_string_def)

text \<open>
  A word kept as a slice of the line holds what a word built byte by byte holds: after any
  additions that lie in the line, its text is theirs in order, and its length that text's.
\<close>

theorem add_spans_string:
  assumes "list_all (\<lambda>(a, b). a \<le> b \<and> b \<le> length s) ps"
  shows "span_string s (add_spans s ps) = concat (map (\<lambda>(a, b). slice s a b) ps) \<and>
    span_length (add_spans s ps) = length (span_string s (add_spans s ps))"
  using add_spans_ok [OF assms] span_ok_length by blast

theorem add_spans_string_witness:
  "span_string ''abcd'' (add_spans ''abcd'' [(0, 1), (1, 2), (3, 4)]) = ''abd''"
proof -
  have "list_all (\<lambda>(a, b). a \<le> b \<and> b \<le> length ''abcd'') [(0, 1), (1, 2), (3, 4::nat)]" by simp
  from add_spans_string [OF this] show ?thesis by (simp add: slice_def)
qed

section \<open>The state\<close>

record word_state =
  w_text :: string
  w_started :: bool
  w_glued :: bool
  w_quotedAt :: "nat option"
  w_opaque :: bool
  w_ticks :: nat
  w_litDollar :: bool

definition newWord :: word_state where
  "newWord = \<lparr>w_text = [], w_started = False, w_glued = False, w_quotedAt = None, w_opaque = False,
              w_ticks = 0, w_litDollar = False\<rparr>"

record lexer =
  lx_toks :: "token list"
  lx_w :: word_state
  lx_sawNL :: bool
  lx_gap :: bool
  lx_dollarAt :: int
  lx_dollars :: nat
  lx_expanded :: bool
  lx_pending :: "nat list"
  lx_grouped :: bool

text \<open>What a lexer reads and how: the line, the program search's reading, the list's.\<close>

record reading =
  rd_r :: joined
  rd_program :: bool
  rd_docs :: bool

abbreviation (input) rd_s :: "reading \<Rightarrow> string" where
  "rd_s rd \<equiv> jn_s (rd_r rd)"

definition new_lexer :: lexer where
  "new_lexer = \<lparr>lx_toks = [], lx_w = newWord, lx_sawNL = False, lx_gap = False, lx_dollarAt = - 1,
                lx_dollars = 0, lx_expanded = False, lx_pending = [], lx_grouped = False\<rparr>"

text \<open>An operation stops the lexer, or goes on after the index of the last byte it read.\<close>

datatype lexed = Stop lex_error lexer | Go nat lexer

definition isMeta :: "char \<Rightarrow> bool" where
  "isMeta c = (c \<in> set ''|&;<>()'')"

definition add_text :: "string \<Rightarrow> lexer \<Rightarrow> lexer" where
  "add_text t l = l\<lparr>lx_w := (lx_w l)\<lparr>w_text := w_text (lx_w l) @ t\<rparr>\<rparr>"

definition set_litDollar :: "bool \<Rightarrow> lexer \<Rightarrow> lexer" where
  "set_litDollar b l = l\<lparr>lx_w := (lx_w l)\<lparr>w_litDollar := w_litDollar (lx_w l) \<or> b\<rparr>\<rparr>"

definition set_opaque :: "bool \<Rightarrow> lexer \<Rightarrow> lexer" where
  "set_opaque b l = l\<lparr>lx_w := (lx_w l)\<lparr>w_opaque := w_opaque (lx_w l) \<or> b\<rparr>\<rparr>"

definition add_tick :: "bool \<Rightarrow> lexer \<Rightarrow> lexer" where
  "add_tick b l = (if b then l\<lparr>lx_w := (lx_w l)\<lparr>w_ticks := w_ticks (lx_w l) + 1\<rparr>\<rparr> else l)"

definition begin_word :: "lexer \<Rightarrow> lexer" where
  "begin_word l =
     (if w_started (lx_w l) then l
      else l\<lparr>lx_w := (lx_w l)\<lparr>w_glued := (\<not> lx_gap l \<and> lx_toks l \<noteq> []), w_started := True\<rparr>\<rparr>)"

definition markQuoted :: "lexer \<Rightarrow> lexer" where
  "markQuoted l =
     (if w_quotedAt (lx_w l) = None then l\<lparr>lx_w := (lx_w l)\<lparr>w_quotedAt := Some (length (w_text (lx_w l)))\<rparr>\<rparr>
      else l)"

definition opens_expansion :: "string \<Rightarrow> nat \<Rightarrow> bool \<Rightarrow> bool" where
  "opens_expansion s i inDouble =
     (if s ! i = btick then True
      else if s ! i \<noteq> dollar \<or> i + 1 \<ge> length s then False
      else if s ! (i + 1) \<in> set ''({['' then True
      else if s ! (i + 1) \<in> {sq, dq} then \<not> inDouble
      else False)"

definition unterminated :: "reading \<Rightarrow> lexer \<Rightarrow> lex_error" where
  "unterminated rd l =
     (if rd_program rd \<and> (w_opaque (lx_w l) \<or> lx_expanded l) then ErrUncertain else ErrUnterminated)"

definition word_token :: "lexer \<Rightarrow> token" where
  "word_token l =
     (let w = lx_w l in
      \<lparr>tk_text = w_text w, tk_meta = False, tk_quotedAt = w_quotedAt w, tk_opaque = w_opaque w,
       tk_nlBefore = lx_sawNL l, tk_glued = w_glued w, tk_litDollar = w_litDollar w, tk_ticks = w_ticks w\<rparr>)"

definition flush :: "lexer \<Rightarrow> lexer" where
  "flush l =
     (if w_started (lx_w l)
      then l\<lparr>lx_toks := lx_toks l @ [word_token l], lx_expanded := (lx_expanded l \<or> w_opaque (lx_w l)),
             lx_sawNL := False, lx_gap := False, lx_w := newWord\<rparr>
      else l)"

section \<open>One construct\<close>

definition lex_blank :: "reading \<Rightarrow> nat \<Rightarrow> lexer \<Rightarrow> lexed" where
  "lex_blank rd i l0 =
     (let l = (flush l0)\<lparr>lx_gap := True\<rparr> in
      if rd_s rd ! i \<noteq> nl then Go i l
      else (let l = l\<lparr>lx_sawNL := True\<rparr> in
            if lx_pending l = [] then Go i l
            else (case those (map (heredocDelim (rd_s rd)) (lx_pending l)) of
                    None \<Rightarrow> Stop ErrUncertain l
                  | Some ds \<Rightarrow>
                      (case bodiesEnd (rd_r rd) (i + 1) (map fst ds) of
                         None \<Rightarrow> Stop ErrUncertain l
                       | Some e \<Rightarrow> Go e (l\<lparr>lx_pending := []\<rparr>)))))"

definition lex_comment :: "string \<Rightarrow> nat \<Rightarrow> nat" where
  "lex_comment s i = i + length (takeWhile (\<lambda>c. c \<noteq> nl) (drop (i + 1) s))"

definition lex_backslash :: "reading \<Rightarrow> nat \<Rightarrow> lexer \<Rightarrow> lexed" where
  "lex_backslash rd i l =
     (let s = rd_s rd in
      if i + 1 \<ge> length s then (let l = flush l in Stop (unterminated rd l) l)
      else if s ! (i + 1) = nl then Go (i + 1) l
      else Go (i + 1) (add_text [s ! (i + 1)] (set_litDollar (s ! (i + 1) = dollar) (markQuoted (begin_word l)))))"

definition lex_single :: "reading \<Rightarrow> nat \<Rightarrow> lexer \<Rightarrow> lexed" where
  "lex_single rd i l =
     (let s = rd_s rd; ansi = (rd_program rd \<and> lx_dollarAt l \<ge> 0 \<and> lx_dollarAt l = int i - 1) in
      if ansi \<and> even (lx_dollars l) then Stop ErrUncertain l
      else (case (if ansi then ansiCEnd (drop (i + 1) s) else IndexByte (drop (i + 1) s) sq) of
              None \<Rightarrow> Stop (unterminated rd l) l
            | Some j \<Rightarrow>
                let q = slice s (i + 1) (i + 1 + j) in
                Go (i + j + 1) (add_text q (set_litDollar (dollar \<in> set q) (markQuoted (begin_word l))))))"

text \<open>The loop of \<open>double\<close>, from the byte after the opening quote.\<close>

function double_loop :: "reading \<Rightarrow> nat \<Rightarrow> nat \<Rightarrow> lexer \<Rightarrow> lexed" where
  "double_loop rd i dq0 l =
     (let s = rd_s rd; c = s ! i; n = s ! (i + 1); dqs = (if c = dollar then dq0 + 1 else 0) in
      if i \<ge> length s then Stop (unterminated rd l) l
      else if c = bsl \<and> i + 1 < length s
      then (if n \<in> {dq, bsl, dollar, btick}
            then double_loop rd (i + 2) dqs (add_text [n] (set_litDollar (n = dollar) l))
            else if n = nl then double_loop rd (i + 2) dqs l
            else double_loop rd (i + 1) dqs (add_text [c] l))
      else if c = dq then Go i l
      else if rd_program rd \<and> c = dollar \<and> i + 1 < length s \<and> n = CHR ''(''
      then (case (if odd dqs then substEnd (rd_r rd) i else None) of
              None \<Rightarrow> Stop ErrUncertain l
            | Some e \<Rightarrow> double_loop rd (e + 1) dqs (add_text (slice s i (e + 1)) (set_opaque True l)))
      else double_loop rd (i + 1) dqs
             (add_text [c] (add_tick (c = btick) (set_opaque (opens_expansion s i True) l))))"
  by pat_completeness auto
termination
  by (relation "measure (\<lambda>(rd, i, _). length (rd_s rd) - i)")
    (auto split: if_splits dest!: substEnd_at)

declare double_loop.simps [simp del]

definition lex_double :: "reading \<Rightarrow> nat \<Rightarrow> lexer \<Rightarrow> lexed" where
  "lex_double rd i l = double_loop rd (i + 1) 0 (markQuoted (begin_word l))"

text \<open>An operator is one byte, or two of the same where the shell doubles it.\<close>

definition op_end :: "string \<Rightarrow> nat \<Rightarrow> nat" where
  "op_end s i = (if i + 1 < length s \<and> s ! (i + 1) = s ! i \<and> s ! i \<in> set ''|&><'' then i + 2 else i + 1)"

definition lex_operator :: "reading \<Rightarrow> nat \<Rightarrow> lexer \<Rightarrow> lexed" where
  "lex_operator rd i l0 =
     (let s = rd_s rd; c = s ! i; l = flush l0;
          j = op_end s i;
          t = \<lparr>tk_text = slice s i j, tk_meta = True, tk_quotedAt = None, tk_opaque = False,
               tk_nlBefore = lx_sawNL l, tk_glued = (\<not> lx_gap l \<and> lx_toks l \<noteq> []),
               tk_litDollar = False, tk_ticks = 0\<rparr>;
          l = l\<lparr>lx_toks := lx_toks l @ [t], lx_sawNL := False, lx_gap := False,
                 lx_grouped := (lx_grouped l \<or> rd_docs rd \<and> c = CHR ''('')\<rparr> in
      if rd_docs rd \<and> c = CHR ''<'' \<and> j - i = 2 \<and> (j \<ge> length s \<or> s ! j \<noteq> CHR ''<'')
      then (if lx_grouped l \<or> lx_expanded l then Stop ErrUncertain l
            else Go (j - 1) (l\<lparr>lx_pending := lx_pending l @ [j]\<rparr>))
      else Go (j - 1) l)"

definition lex_plain :: "reading \<Rightarrow> nat \<Rightarrow> lexer \<Rightarrow> lexer" where
  "lex_plain rd i l0 =
     (let s = rd_s rd; c = s ! i; l = set_opaque (opens_expansion s i False) l0;
          l = (if c = dollar
               then l\<lparr>lx_dollars := (if lx_dollarAt l = int i - 1 then lx_dollars l + 1 else 1), lx_dollarAt := int i\<rparr>
               else l);
          l = (if c = btick then (add_tick True l)\<lparr>lx_grouped := True\<rparr> else l) in
      add_text [c] (begin_word l))"

definition lex_byte :: "reading \<Rightarrow> nat \<Rightarrow> lexer \<Rightarrow> lexed" where
  "lex_byte rd i l =
     (let c = rd_s rd ! i in
      if c \<in> {CHR '' '', tab, nl, CHR 0x0D} then lex_blank rd i l
      else if rd_program rd \<and> c = CHR ''#'' \<and> \<not> w_started (lx_w l) then Go (lex_comment (rd_s rd) i) l
      else if c = bsl then lex_backslash rd i l
      else if c = sq then lex_single rd i l
      else if c = dq then lex_double rd i l
      else if isMeta c then lex_operator rd i l
      else Go i (lex_plain rd i l))"

section \<open>The loop\<close>

lemma double_loop_on: "double_loop rd i d l = Go j l' \<Longrightarrow> i \<le> j"
proof (induction "length (rd_s rd) - i" arbitrary: i d l rule: less_induct)
  case less
  have ih: "i \<le> j" if "double_loop rd k e m = Go j l'" "i < k" "i < length (rd_s rd)" for k e m
    using less.hyps [of k e m] that by linarith
  show ?case
    using less.prems
    by (subst (asm) double_loop.simps)
      (auto simp: Let_def split: if_splits option.splits dest!: ih substEnd_at)
qed

lemma op_end_past [simp]: "i \<le> op_end s i - Suc 0"
  by (simp add: op_end_def)

lemma lex_byte_on: "lex_byte rd i l = Go j l' \<Longrightarrow> i \<le> j"
  unfolding lex_byte_def lex_blank_def lex_backslash_def lex_single_def lex_double_def lex_operator_def
  by (auto simp: Let_def lex_comment_def split: if_splits option.splits
      dest!: double_loop_on bodiesEnd_at)

function lex_loop :: "reading \<Rightarrow> nat \<Rightarrow> nat \<Rightarrow> lexer \<Rightarrow> token list \<times> lex_error option" where
  "lex_loop rd limit i l =
     (if i \<ge> length (rd_s rd)
      then (if lx_pending l \<noteq> [] then (lx_toks l, Some ErrUncertain) else (lx_toks (flush l), None))
      else if length (lx_toks l) > limit then (lx_toks l, Some ErrTokenBound)
      else (case lex_byte rd i l of
              Stop e l' \<Rightarrow> (lx_toks l', Some e)
            | Go j l' \<Rightarrow> lex_loop rd limit (j + 1) l'))"
  by pat_completeness auto
termination
  by (relation "measure (\<lambda>(rd, _, i, _). length (rd_s rd) - i)") (auto dest!: lex_byte_on)

declare lex_loop.simps [simp del]

definition lexTo :: "joined \<Rightarrow> bool \<Rightarrow> bool \<Rightarrow> nat \<Rightarrow> token list \<times> lex_error option" where
  "lexTo r program docs limit =
     lex_loop \<lparr>rd_r = r, rd_program = program, rd_docs = docs\<rparr> limit 0 new_lexer"

definition lex :: "joined \<Rightarrow> bool \<Rightarrow> bool \<Rightarrow> token list \<times> lex_error option" where
  "lex r program docs = lexTo r program docs maxTokens"

definition boundedTo :: "token list \<times> lex_error option \<Rightarrow> nat \<Rightarrow> token list \<times> lex_error option" where
  "boundedTo te limit = (if length (fst te) > limit then (take limit (fst te), Some ErrTokenBound) else te)"

definition bounded :: "token list \<times> lex_error option \<Rightarrow> token list \<times> lex_error option" where
  "bounded te = boundedTo te maxTokens"

definition unjoined :: "string \<Rightarrow> joined" where
  "unjoined s = \<lparr>jn_s = s, jn_joins = [], jn_lost = False\<rparr>"

definition tokenizeMarkedTo :: "string \<Rightarrow> nat \<Rightarrow> string list \<times> bool list \<times> lex_error option" where
  "tokenizeMarkedTo s limit =
     (case boundedTo (lexTo (unjoined s) False False limit) limit of
        (ts, e) \<Rightarrow> (map tk_text ts, map tk_meta ts, e))"

definition tokenizeShape :: "string \<Rightarrow> token list \<times> lex_error option" where
  "tokenizeShape s = bounded (lex (unjoined s) False False)"

definition tokenizeProgram :: "string \<Rightarrow> token list \<times> lex_error option" where
  "tokenizeProgram s = bounded (lex (joinLines s True) True False)"

definition tokenizeList :: "string \<Rightarrow> token list \<times> lex_error option" where
  "tokenizeList s = bounded (lex (joinLines s True) True True)"

section \<open>The token bound\<close>

text \<open>
  No reading of a line holds more than \<open>maxTokens\<close> tokens, 66,576, and a line with more
  ends in the token bound's error and not in a shorter list read as whole.
\<close>

theorem readings_bounded:
  "maxTokens = 66576 \<and>
   length (fst (tokenizeShape s)) \<le> maxTokens \<and>
   length (fst (tokenizeProgram s)) \<le> maxTokens \<and>
   length (fst (tokenizeList s)) \<le> maxTokens \<and>
   (if maxTokens < length (fst (lex (joinLines s True) True True))
    then snd (tokenizeList s) = Some ErrTokenBound
    else tokenizeList s = lex (joinLines s True) True True)"
  by (simp add: maxTokens_def shapeBudget_def bytesPerToken_def tokenizeShape_def tokenizeProgram_def
      tokenizeList_def bounded_def boundedTo_def)

section \<open>Well-formed tokens\<close>

definition operators :: "string list" where
  "operators = [''|'', ''||'', ''&'', ''&&'', '';'', ''<'', ''<<'', ''>'', ''>>'', ''('', '')'']"

definition token_ok :: "token \<Rightarrow> bool" where
  "token_ok t \<longleftrightarrow>
     (if tk_meta t
      then tk_text t \<in> set operators \<and> tk_quotedAt t = None \<and> \<not> tk_opaque t \<and> tk_ticks t = 0 \<and> \<not> tk_litDollar t
      else (case tk_quotedAt t of None \<Rightarrow> tk_text t \<noteq> [] | Some k \<Rightarrow> k \<le> length (tk_text t)))"

definition word_ok :: "word_state \<Rightarrow> bool" where
  "word_ok w \<longleftrightarrow>
     (if w_started w then (case w_quotedAt w of None \<Rightarrow> w_text w \<noteq> [] | Some k \<Rightarrow> k \<le> length (w_text w))
      else w_text w = [] \<and> w_quotedAt w = None)"

definition lexer_ok :: "lexer \<Rightarrow> bool" where
  "lexer_ok l \<longleftrightarrow> list_all token_ok (lx_toks l) \<and> word_ok (lx_w l)"

definition lexed_ok :: "lexed \<Rightarrow> bool" where
  "lexed_ok x = (case x of Stop _ l \<Rightarrow> list_all token_ok (lx_toks l) | Go _ l \<Rightarrow> lexer_ok l)"

lemma lexed_ok_simps [simp]:
  "lexed_ok (Stop e l) \<longleftrightarrow> list_all token_ok (lx_toks l)" "lexed_ok (Go j l) \<longleftrightarrow> lexer_ok l"
  by (simp_all add: lexed_ok_def)

lemma word_ok_new [simp]: "word_ok newWord"
  by (simp add: word_ok_def newWord_def)

lemma flush_ok: "lexer_ok l \<Longrightarrow> lexer_ok (flush l)"
  by (auto simp: lexer_ok_def flush_def word_token_def token_ok_def word_ok_def newWord_def Let_def
      split: option.splits if_splits)

lemma lexer_ok_toks: "lexer_ok l \<Longrightarrow> list_all token_ok (lx_toks l)"
  by (simp add: lexer_ok_def)

text \<open>A word begun and quoted, or about to take a byte, is well formed.\<close>

definition quoted_ok :: "lexer \<Rightarrow> bool" where
  "quoted_ok l \<longleftrightarrow> list_all token_ok (lx_toks l) \<and> w_started (lx_w l) \<and>
     (case w_quotedAt (lx_w l) of None \<Rightarrow> False | Some k \<Rightarrow> k \<le> length (w_text (lx_w l)))"

lemma quoted_ok_lexer: "quoted_ok l \<Longrightarrow> lexer_ok l"
  by (auto simp: quoted_ok_def lexer_ok_def word_ok_def split: option.splits)

lemma begin_quoted: "lexer_ok l \<Longrightarrow> quoted_ok (markQuoted (begin_word l))"
  by (auto simp: lexer_ok_def quoted_ok_def markQuoted_def begin_word_def word_ok_def split: option.splits if_splits)

lemma quoted_ok_add [simp]:
  "quoted_ok l \<Longrightarrow> quoted_ok (add_text t l)"
  "quoted_ok (set_litDollar b l) = quoted_ok l" "quoted_ok (set_opaque b l) = quoted_ok l"
  "quoted_ok (add_tick b l) = quoted_ok l"
  by (auto simp: quoted_ok_def add_text_def set_litDollar_def set_opaque_def add_tick_def split: option.splits)

lemma double_loop_ok: "quoted_ok l \<Longrightarrow> lexed_ok (double_loop rd i d l)"
proof (induction "length (rd_s rd) - i" arbitrary: i d l rule: less_induct)
  case less
  have ih: "lexed_ok (double_loop rd k e m)" if "quoted_ok m" "i < k" "i < length (rd_s rd)" for k e m
    using less.hyps [of k m e] that by linarith
  have sub: "substEnd (rd_r rd) i = Some e \<Longrightarrow> i < Suc e" for e using substEnd_at by fastforce
  show ?case
    using less.prems quoted_ok_lexer [OF less.prems] lexer_ok_toks
    by (subst double_loop.simps) (auto simp: Let_def intro!: ih dest!: sub split: option.splits)
qed

lemma operator_text:
  assumes "i < length s" and "isMeta (s ! i)"
  shows "slice s i (op_end s i) \<in> set operators"
proof -
  have one: "slice s i (i + 1) = [s ! i]" using assms(1) by (simp add: slice_def take_Suc_conv_app_nth)
  have two: "i + 1 < length s \<Longrightarrow> slice s i (i + 2) = [s ! i, s ! (i + 1)]"
    by (simp add: slice_def Cons_nth_drop_Suc [symmetric])
  show ?thesis using assms(2) one two by (auto simp: op_end_def isMeta_def operators_def)
qed

definition op_token :: "string \<Rightarrow> nat \<Rightarrow> lexer \<Rightarrow> token" where
  "op_token s i l =
     \<lparr>tk_text = slice s i (op_end s i), tk_meta = True, tk_quotedAt = None, tk_opaque = False,
      tk_nlBefore = lx_sawNL l, tk_glued = (\<not> lx_gap l \<and> lx_toks l \<noteq> []), tk_litDollar = False, tk_ticks = 0\<rparr>"

lemma lex_operator_ok:
  assumes "lexer_ok l" and "i < length (rd_s rd)" and "isMeta (rd_s rd ! i)"
  shows "lexed_ok (lex_operator rd i l)"
proof -
  have f: "list_all token_ok (lx_toks (flush l))" "word_ok (lx_w (flush l))"
    using flush_ok [OF assms(1)] by (simp_all add: lexer_ok_def)
  have t: "token_ok (op_token (rd_s rd) i (flush l))"
    using operator_text [OF assms(2,3)] by (simp add: op_token_def token_ok_def)
  show ?thesis
    unfolding lex_operator_def Let_def op_token_def [symmetric]
    using f t by (simp add: lexer_ok_def)
qed

lemma lex_plain_ok: "lexer_ok l \<Longrightarrow> lexer_ok (lex_plain rd i l)"
  by (auto simp: lex_plain_def Let_def lexer_ok_def word_ok_def add_text_def begin_word_def set_opaque_def add_tick_def
      split: option.splits if_splits)

lemma lex_byte_ok:
  assumes l: "lexer_ok l" and i: "i < length (rd_s rd)"
  shows "lexed_ok (lex_byte rd i l)"
proof -
  have f: "lexer_ok (flush l)" by (rule flush_ok [OF l])
  have "lexed_ok (lex_blank rd i l)"
    using f by (auto simp: lex_blank_def Let_def lexer_ok_def split: option.split)
  moreover have "lexed_ok (lex_backslash rd i l)"
    using f l begin_quoted [OF l] by (auto simp: lex_backslash_def Let_def lexer_ok_toks intro!: quoted_ok_lexer)
  moreover have "lexed_ok (lex_single rd i l)"
    using l begin_quoted [OF l]
    by (auto simp: lex_single_def Let_def lexer_ok_toks intro!: quoted_ok_lexer split: option.split)
  moreover have "lexed_ok (lex_double rd i l)"
    using double_loop_ok [OF begin_quoted [OF l]] by (simp add: lex_double_def)
  ultimately show ?thesis
    using lex_operator_ok [OF l i] lex_plain_ok [OF l] l by (auto simp: lex_byte_def Let_def)
qed

lemma lex_loop_ok: "lexer_ok l \<Longrightarrow> list_all token_ok (fst (lex_loop rd limit i l))"
proof (induction rd limit i l rule: lex_loop.induct)
  case (1 rd limit i l)
  show ?case
  proof (cases "i < length (rd_s rd)")
    case True
    then have "lexed_ok (lex_byte rd i l)" by (rule lex_byte_ok [OF "1.prems"])
    then show ?thesis using "1.IH" True "1.prems"
      by (subst lex_loop.simps) (auto simp: lexer_ok_toks split: lexed.split)
  next
    case False
    then show ?thesis using flush_ok [OF "1.prems"] "1.prems"
      by (subst lex_loop.simps) (auto simp: lexer_ok_toks)
  qed
qed

lemma lex_ok: "list_all token_ok (fst (lex r program docs))"
  unfolding lex_def lexTo_def by (rule lex_loop_ok) (simp add: lexer_ok_def new_lexer_def)

lemma bounded_ok: "list_all token_ok (fst te) \<Longrightarrow> list_all token_ok (fst (bounded te))"
  by (auto simp: bounded_def boundedTo_def list_all_iff dest: in_set_takeD)

lemma tokenizeList_ok: "list_all token_ok (fst (tokenizeList s))"
  unfolding tokenizeList_def by (rule bounded_ok [OF lex_ok])

text \<open>
  Every token of every reading is well formed: an operator is one of the eleven spellings,
  unquoted, with no expansion, and a word is empty only where quotes made it and has its first
  quoted byte within it.
\<close>

theorem readings_well_formed:
  "list_all token_ok (fst (tokenizeShape s)) \<and> list_all token_ok (fst (tokenizeProgram s)) \<and>
   list_all token_ok (fst (tokenizeList s))"
  unfolding tokenizeShape_def tokenizeProgram_def tokenizeList_def using bounded_ok [OF lex_ok] by blast

section \<open>A line well within the bound\<close>

text \<open>A reading that does not meet a limit does not depend on it.\<close>

lemma lex_loop_limit:
  "n \<le> m \<Longrightarrow> snd (lex_loop rd n i l) \<noteq> Some ErrTokenBound \<Longrightarrow> lex_loop rd m i l = lex_loop rd n i l"
proof (induction rd n i l rule: lex_loop.induct)
  case (1 rd n i l)
  show ?case
  proof (cases "i \<ge> length (rd_s rd)")
    case True
    then show ?thesis by (subst (1 2) lex_loop.simps) simp
  next
    case False
    then have small: "\<not> length (lx_toks l) > n"
      using "1.prems"(2) by (subst (asm) lex_loop.simps) (auto split: if_splits)
    have n: "lex_loop rd n i l = (case lex_byte rd i l of Stop e l' \<Rightarrow> (lx_toks l', Some e)
        | Go j l' \<Rightarrow> lex_loop rd n (j + 1) l')"
      by (subst lex_loop.simps) (simp only: False small if_False)
    have "\<not> length (lx_toks l) > m" using small "1.prems"(1) by simp
    then have m: "lex_loop rd m i l = (case lex_byte rd i l of Stop e l' \<Rightarrow> (lx_toks l', Some e)
        | Go j l' \<Rightarrow> lex_loop rd m (j + 1) l')"
      by (subst lex_loop.simps) (simp only: False if_False)
    show ?thesis
    proof (cases "lex_byte rd i l")
      case (Go j l')
      then show ?thesis using "1.IH" [OF False small Go "1.prems"(1)] "1.prems"(2) n m by simp
    qed (use n m in simp)
  qed
qed

lemma tokenizeProgram_within:
  assumes "lexTo (joinLines s True) True False n = (ts, None)" and "length ts \<le> n" and "n \<le> maxTokens"
  shows "tokenizeProgram s = (ts, None)"
  using assms lex_loop_limit [OF assms(3), of "\<lparr>rd_r = joinLines s True, rd_program = True, rd_docs = False\<rparr>" 0 new_lexer]
  by (simp add: tokenizeProgram_def lex_def lexTo_def bounded_def boundedTo_def)

lemma tokenizeList_within:
  assumes "lexTo (joinLines s True) True True n = (ts, None)" and "length ts \<le> n" and "n \<le> maxTokens"
  shows "tokenizeList s = (ts, None)"
  using assms lex_loop_limit [OF assms(3), of "\<lparr>rd_r = joinLines s True, rd_program = True, rd_docs = True\<rparr>" 0 new_lexer]
  by (simp add: tokenizeList_def lex_def lexTo_def bounded_def boundedTo_def)

end
