(* ===== verification/Commands.thy ===== *)
theory Commands
  imports Lexer
begin

text \<open>
  Which word of a line is the program it runs, and what its commands are,
  \<^verbatim>\<open>internal/shape/words.go\<close>, \<^verbatim>\<open>program.go\<close>, \<^verbatim>\<open>commands.go\<close>, \<^verbatim>\<open>leading.go\<close> and the stages of
  \<^verbatim>\<open>writetargets.go\<close>: redirections, assignments, the search for the program, the scan for a
  command's end, the leading directory changes, and \<open>Commands\<close>. An index result with a false
  \<open>ok\<close> is \<open>None\<close>; the separator \<open>-1\<close> is \<open>Some None\<close>.
\<close>

section \<open>Words and redirections\<close>

definition no_token :: token where
  "no_token = \<lparr>tk_text = [], tk_meta = False, tk_quotedAt = None, tk_opaque = False, tk_nlBefore = False,
               tk_glued = False, tk_litDollar = False, tk_ticks = 0\<rparr>"

definition tok_at :: "token list \<Rightarrow> nat \<Rightarrow> token" where
  "tok_at toks j = (if j < length toks then toks ! j else no_token)"

definition isDigit :: "char \<Rightarrow> bool" where
  "isDigit c = (c \<in> set ''0123456789'')"

definition isFDPrefix :: "token \<Rightarrow> bool" where
  "isFDPrefix t =
     (if tk_quotedAt t \<noteq> None \<or> tk_text t = [] then False
      else if HasPrefix (tk_text t) ''{'' \<and> HasSuffix (tk_text t) ''}'' then True
      else list_all isDigit (tk_text t))"

definition isRedirect :: "string \<Rightarrow> bool" where
  "isRedirect s = (s \<in> {''>'', ''<'', ''>>'', ''<<''})"

definition continuesRedirect :: "string \<Rightarrow> string \<Rightarrow> bool" where
  "continuesRedirect op next =
     (if op = ''>'' \<or> op = ''>>'' then next = ''&'' \<or> next = ''|''
      else if op = ''<'' then next = ''>'' \<or> next = ''&''
      else if op = ''<<'' then next = ''<''
      else False)"

primrec more_pieces :: "nat \<Rightarrow> token list \<Rightarrow> string \<Rightarrow> nat \<Rightarrow> nat" where
  "more_pieces 0 toks op i = i"
| "more_pieces (Suc n) toks op i =
     (if i + 1 < length toks \<and> tk_meta (toks ! (i + 1)) \<and> tk_glued (toks ! (i + 1)) \<and>
         continuesRedirect op (tk_text (toks ! (i + 1)))
      then more_pieces n toks op (i + 1) else i)"

definition operatorEnd :: "token list \<Rightarrow> nat \<Rightarrow> nat" where
  "operatorEnd toks i =
     (let op = tk_text (toks ! i) in
      more_pieces (if op = ''>'' \<or> op = ''>>'' then 2 else 1) toks op i)"

definition procSub :: "token list \<Rightarrow> nat \<Rightarrow> bool" where
  "procSub toks j =
     (let op = tk_text (toks ! j) in
      if op \<noteq> ''<'' \<and> op \<noteq> ''>'' \<or> j + 1 \<ge> length toks then False
      else tk_meta (toks ! (j + 1)) \<and> tk_glued (toks ! (j + 1)) \<and> tk_text (toks ! (j + 1)) = ''('')"

definition noTarget :: "token list \<Rightarrow> nat \<Rightarrow> bool" where
  "noTarget toks i =
     (if i + 1 \<ge> length toks then True
      else if tk_nlBefore (toks ! (i + 1)) then True
      else if \<not> tk_meta (toks ! (i + 1)) \<or> tk_text (toks ! (i + 1)) = ''('' then False
      else \<not> procSub toks (i + 1))"

definition redirectEnd :: "token list \<Rightarrow> nat \<Rightarrow> nat option" where
  "redirectEnd toks i0 =
     (let i = operatorEnd toks i0 in
      if noTarget toks i then None
      else if tk_meta (toks ! (i + 1)) then None
      else (let target = toks ! (i + 1) in
            if tk_opaque target \<or> tk_text target = ''!'' \<and> tk_quotedAt target = None then None
            else if i + 2 < length toks \<and> tk_meta (toks ! (i + 2)) \<and> tk_text (toks ! (i + 2)) = ''('' then None
            else Some (i + 1)))"

definition nameLetter :: "char \<Rightarrow> bool" where
  "nameLetter c = (isLetter c \<or> c = CHR ''_'')"

text \<open>The length of the variable name a word begins with.\<close>

definition name_length :: "string \<Rightarrow> nat" where
  "name_length s =
     (case s of [] \<Rightarrow> 0
      | c # cs \<Rightarrow> if nameLetter c then 1 + length (takeWhile (\<lambda>c. nameLetter c \<or> isDigit c) cs) else 0)"

text \<open>The index of the \<open>]\<close> that closes the brackets open at \<open>depth\<close>.\<close>

fun subscript_end :: "string \<Rightarrow> nat \<Rightarrow> nat option" where
  "subscript_end [] depth = None"
| "subscript_end (c # cs) depth =
     (if c = CHR ''['' then map_option Suc (subscript_end cs (depth + 1))
      else if c = CHR '']''
      then (if depth - 1 = 0 then Some 0 else map_option Suc (subscript_end cs (depth - 1)))
      else map_option Suc (subscript_end cs depth))"

definition isShellAssignment :: "token \<Rightarrow> bool" where
  "isShellAssignment t =
     (let s = tk_text t; j = name_length s in
      if j = 0 \<or> j \<ge> length s then False
      else (case (if s ! j = CHR ''['' then map_option (\<lambda>k. j + k + 1) (subscript_end (drop j s) 0) else Some j) of
              None \<Rightarrow> False
            | Some j \<Rightarrow>
                let eq = (if j < length s \<and> s ! j = CHR ''+'' then j + 1 else j) in
                if eq \<ge> length s \<or> s ! eq \<noteq> CHR ''='' then False
                else (case tk_quotedAt t of None \<Rightarrow> True | Some q \<Rightarrow> q > eq)))"

definition count_byte :: "string \<Rightarrow> char \<Rightarrow> nat" where
  "count_byte s c = length (filter (\<lambda>x. x = c) s)"

definition isNumericGlob :: "token \<Rightarrow> bool" where
  "isNumericGlob t =
     (if tk_meta t \<or> tk_quotedAt t \<noteq> None \<or> CHR ''-'' \<notin> set (tk_text t) then False
      else if \<not> list_all (\<lambda>c. c = CHR ''-'' \<or> isDigit c) (tk_text t) then False
      else count_byte (tk_text t) CHR ''-'' = 1)"

definition hereDoc :: "token list \<Rightarrow> nat \<Rightarrow> bool" where
  "hereDoc toks j =
     (if \<not> tk_meta (toks ! j) \<or> tk_text (toks ! j) \<noteq> ''<<'' then False
      else j + 1 \<ge> length toks \<or>
           \<not> (tk_meta (toks ! (j + 1)) \<and> tk_glued (toks ! (j + 1)) \<and> tk_text (toks ! (j + 1)) = ''<''))"

text \<open>The text from the first \<open>${\<close> on.\<close>

fun from_brace :: "string \<Rightarrow> string option" where
  "from_brace [] = None"
| "from_brace (c # cs) = (if HasPrefix (c # cs) ''${'' then Some (c # cs) else from_brace cs)"

definition openBrace :: "token \<Rightarrow> bool" where
  "openBrace t =
     (tk_opaque t \<and>
      (case from_brace (tk_text t) of None \<Rightarrow> False
       | Some s \<Rightarrow> count_byte s CHR ''{'' > count_byte s CHR ''}''))"

lemma more_pieces_le: "i \<le> more_pieces n toks op i"
  by (induction n arbitrary: i) (auto intro: Suc_leD)

lemma operatorEnd_le: "i \<le> operatorEnd toks i"
  unfolding operatorEnd_def Let_def by (rule more_pieces_le)

lemma redirectEnd_past: "redirectEnd toks i = Some e \<Longrightarrow> i < e \<and> e < length toks"
  using operatorEnd_le [of i toks]
  by (auto simp: redirectEnd_def Let_def noTarget_def split: if_splits)

section \<open>Where a command ends\<close>

definition unknownDepth :: "token list \<Rightarrow> nat \<Rightarrow> bool \<Rightarrow> bool" where
  "unknownDepth toks j heredoc =
     (let t = toks ! j in
      \<not> tk_meta t \<and> tk_quotedAt t = None \<and> tk_text t = ''case'' \<or> hereDoc toks j \<or> heredoc \<and> tk_nlBefore t)"

text \<open>The groups open, the innermost first.\<close>

fun inGroup :: "char list \<Rightarrow> token \<Rightarrow> char list" where
  "inGroup [] t = []"
| "inGroup (g # rest) t =
     (if odd (tk_ticks t) \<and> g = btick then rest
      else if odd (tk_ticks t) then btick # g # rest
      else if g = btick \<or> \<not> tk_meta t then g # rest
      else if tk_text t = ''('' then CHR ''('' # g # rest
      else if tk_text t = '')'' then rest
      else g # rest)"

definition separator :: "string \<Rightarrow> bool" where
  "separator s = (s \<in> {'';'', ''&&'', ''||'', ''|'', ''&''})"

definition amp_redirect :: "token list \<Rightarrow> nat \<Rightarrow> bool" where
  "amp_redirect toks j =
     (tk_text (toks ! j) = ''&'' \<and> j + 1 < length toks \<and> tk_meta (toks ! (j + 1)) \<and>
      tk_glued (toks ! (j + 1)) \<and> HasPrefix (tk_text (toks ! (j + 1))) ''>'')"

lemma operator_past: "j \<le> operatorEnd toks j" "j \<le> operatorEnd toks (Suc j)"
  using operatorEnd_le [of j toks] operatorEnd_le [of "Suc j" toks] by simp_all

function end_loop :: "token list \<Rightarrow> bool \<Rightarrow> nat \<Rightarrow> char list \<Rightarrow> bool \<Rightarrow> nat option option" where
  "end_loop toks uncertain j open heredoc =
     (if j \<ge> length toks then (if open \<noteq> [] \<or> uncertain then None else Some None)
      else if openBrace (toks ! j) then None
      else if open \<noteq> []
      then (if unknownDepth toks j heredoc then None
            else end_loop toks uncertain (j + 1) (inGroup open (toks ! j)) heredoc)
      else if tk_nlBefore (toks ! j) then Some None
      else if odd (tk_ticks (toks ! j)) then end_loop toks uncertain (j + 1) [btick] heredoc
      else if \<not> tk_meta (toks ! j) then end_loop toks uncertain (j + 1) [] heredoc
      else if tk_text (toks ! j) = ''(''
      then (if j + 1 < length toks \<and> tk_meta (toks ! (j + 1)) \<and> tk_text (toks ! (j + 1)) = '')'' then None
            else end_loop toks uncertain (j + 1) [CHR ''(''] heredoc)
      else if amp_redirect toks j \<or> isRedirect (tk_text (toks ! j))
      then (let k = (if amp_redirect toks j then j + 1 else j); e = operatorEnd toks k in
            if noTarget toks e then None
            else end_loop toks uncertain (e + 1) [] (heredoc \<or> hereDoc toks k))
      else if separator (tk_text (toks ! j)) then Some (Some j)
      else end_loop toks uncertain (j + 1) [] heredoc)"
  by pat_completeness auto

termination
  by (relation "measure (\<lambda>(toks, _, j, _). length toks - j)")
    (auto intro!: diff_less_mono2 simp: less_Suc_eq_le operator_past)

declare end_loop.simps [simp del]

definition commandEnd :: "token list \<Rightarrow> nat \<Rightarrow> bool \<Rightarrow> nat option option" where
  "commandEnd toks i uncertain = end_loop toks uncertain (i + 1) [] False"

definition definesFunctions :: "token list \<Rightarrow> nat \<Rightarrow> bool \<Rightarrow> bool" where
  "definesFunctions toks i uncertain = (commandEnd toks i uncertain = None)"

text \<open>A separator found lies past the command's word, on the line, and separates.\<close>

lemma end_loop_at:
  "end_loop toks u j open h = Some (Some e) \<Longrightarrow>
     j \<le> e \<and> e < length toks \<and> tk_meta (toks ! e) \<and> separator (tk_text (toks ! e))"
proof (induction "length toks - j" arbitrary: j "open" h rule: less_induct)
  case less
  have ih: "j \<le> e \<and> e < length toks \<and> tk_meta (toks ! e) \<and> separator (tk_text (toks ! e))"
    if "end_loop toks u k op h' = Some (Some e)" "j < k" "j < length toks" for k op h'
    using less.hyps [of k op h'] that by linarith
  have op: "j < Suc (operatorEnd toks j)" "j < Suc (operatorEnd toks (Suc j))"
    using operatorEnd_le [of j toks] operatorEnd_le [of "Suc j" toks] by simp_all
  show ?case
    using less.prems op
    by (subst (asm) end_loop.simps) (auto simp: Let_def split: if_splits dest!: ih)
qed

lemma commandEnd_at:
  "commandEnd toks i u = Some (Some e) \<Longrightarrow>
     i < e \<and> e < length toks \<and> tk_meta (toks ! e) \<and> separator (tk_text (toks ! e))"
  unfolding commandEnd_def by (drule end_loop_at) simp

section \<open>The program\<close>

text \<open>\<^verbatim>\<open>path.Base\<close>.\<close>

definition Base :: "string \<Rightarrow> string" where
  "Base p =
     (if p = [] then ''.''
      else (let q = TrimRight p CHR ''/'' in
            if q = [] then ''/'' else after_last q CHR ''/''))"

definition printable :: "char \<Rightarrow> bool" where
  "printable c = ((0x21::nat) \<le> of_char c \<and> (of_char c :: nat) \<le> 0x7e)"

definition plainWord :: "string \<Rightarrow> bool" where
  "plainWord s =
     (if s = [] then False
      else if HasSuffix s ''/'' then False
      else if HasPrefix s ''~'' \<and> CHR ''/'' \<notin> set s then False
      else if s \<noteq> ''.'' \<and> (Base s = ''.'' \<or> Base s = ''..'') then False
      else if HasPrefix s ''%'' then False
      else if \<not> list_all printable s then False
      else if ContainsAny s ''$*?^#'' \<or> CHR ''~'' \<in> set (tl s) then False
      else \<not> list_all isDigit s)"

definition runsOn :: "token list \<Rightarrow> nat \<Rightarrow> bool" where
  "runsOn toks i =
     (if i + 2 \<ge> length toks \<or> \<not> tk_meta (toks ! (i + 1)) \<or> \<not> tk_glued (toks ! (i + 1)) \<or>
         \<not> tk_glued (toks ! (i + 2)) then False
      else (let op = tk_text (toks ! (i + 1)); n = toks ! (i + 2) in
            if op \<noteq> ''<'' \<and> op \<noteq> ''>'' then False
            else tk_meta n \<and> tk_text n = ''('' \<or> op = ''<'' \<and> isNumericGlob n))"

definition plainPunctuation :: "string list" where
  "plainPunctuation = [''['', ''[['', ''{'', ''}'']"

definition isOp :: "token list \<Rightarrow> nat \<Rightarrow> string \<Rightarrow> bool" where
  "isOp toks j op = (tk_meta (tok_at toks j) \<and> tk_text (tok_at toks j) = op)"

text \<open>An \<open>=\<close> the shells read differently.\<close>

definition unsure_equals :: "token \<Rightarrow> bool" where
  "unsure_equals t =
     (case IndexByte (tk_text t) CHR ''='' of None \<Rightarrow> False
      | Some eq \<Rightarrow> (case tk_quotedAt t of None \<Rightarrow> True | Some q \<Rightarrow> q > eq))"

text \<open>What follows the tests a word must pass before it is named.\<close>

definition names_program :: "token list \<Rightarrow> bool \<Rightarrow> nat \<Rightarrow> bool" where
  "names_program toks uncertain i =
     (let t = toks ! i in
      if isOp toks (i + 1) ''('' \<or> ContainsAny (tk_text t) ''[]{}()'' \<and> tk_text t \<notin> set plainPunctuation then False
      else if unsure_equals t then False
      else if definesFunctions toks i uncertain then False
      else plainWord (tk_text t) \<and> \<not> runsOn toks i)"

function program_loop :: "token list \<Rightarrow> bool \<Rightarrow> nat \<Rightarrow> bool \<Rightarrow> nat option" where
  "program_loop toks uncertain i start =
     (if i \<ge> length toks then None
      else (let t = toks ! i in
        if tk_meta t
        then (if tk_text t = ''<'' \<and> isNumericGlob (tok_at toks (i + 1)) \<and> tk_meta (tok_at toks (i + 2)) \<and>
                 HasPrefix (tk_text (tok_at toks (i + 2))) ''>'' then None
              else if tk_text t = ''<<'' \<and> \<not> isOp toks (i + 1) ''<'' then None
              else if isRedirect (tk_text t)
              then (case redirectEnd toks i of None \<Rightarrow> None | Some e \<Rightarrow> program_loop toks uncertain (e + 1) False)
              else if tk_text t = ''('' \<and> isOp toks (i + 1) ''('' then None
              else if tk_text t = '')'' then None
              else program_loop toks uncertain (i + 1) True)
        else if tk_opaque t then None
        else if tk_text t = ''{'' \<and> tk_quotedAt t = None \<and> start then program_loop toks uncertain (i + 1) start
        else if isRedirect (tk_text (tok_at toks (i + 1))) \<and> tk_meta (tok_at toks (i + 1)) \<and> isFDPrefix t then None
        else if isShellAssignment t
        then (if isOp toks (i + 1) ''('' then None else program_loop toks uncertain (i + 1) False)
        else if names_program toks uncertain i then Some i
        else None))"
  by pat_completeness auto
termination
  by (relation "measure (\<lambda>(toks, _, i, _). length toks - i)") (auto dest!: redirectEnd_past)

declare program_loop.simps [simp del]

definition programToken :: "token list \<Rightarrow> bool \<Rightarrow> nat option" where
  "programToken toks uncertain = program_loop toks uncertain 0 True"

section \<open>The commands of a line\<close>

record Command =
  cm_Words :: "string list"
  cm_Expands :: "bool list"
  cm_Heredoc :: bool

definition control_char :: "char \<Rightarrow> bool" where
  "control_char c = ((of_char c :: nat) < 0x20 \<and> c \<noteq> tab \<and> c \<noteq> nl \<or> of_char c = (0x7f :: nat))"

definition controlByte :: "string \<Rightarrow> bool" where
  "controlByte cmd = list_ex control_char cmd"

definition stageSeparator :: "token list \<Rightarrow> nat \<Rightarrow> bool" where
  "stageSeparator toks j =
     (let t = toks ! j in
      if \<not> tk_meta t then False
      else if tk_text t \<in> {'';'', ''&&'', ''||'', ''|''} then True
      else if tk_text t = ''&''
      then (if j > 0 \<and> tk_glued t \<and> tk_meta (toks ! (j - 1)) \<and>
               tk_text (toks ! (j - 1)) \<in> {''>'', ''>>'', ''|''} then False
            else \<not> amp_redirect toks j)
      else False)"

function stage_loop :: "token list \<Rightarrow> nat \<Rightarrow> nat \<Rightarrow> nat \<times> nat" where
  "stage_loop toks s j =
     (if j \<ge> length toks then (length toks, length toks)
      else if j > s \<and> tk_nlBefore (toks ! j) then (j, j)
      else if tk_meta (toks ! j) \<and> isRedirect (tk_text (toks ! j))
      then stage_loop toks s (operatorEnd toks j + 1)
      else if stageSeparator toks j then (j, j + 1)
      else stage_loop toks s (j + 1))"
  by pat_completeness auto
termination
  by (relation "measure (\<lambda>(toks, _, j). length toks - j)")
    (auto intro!: diff_less_mono2 simp: less_Suc_eq_le operator_past)

declare stage_loop.simps [simp del]

definition stageEnd :: "token list \<Rightarrow> nat \<Rightarrow> nat \<times> nat" where
  "stageEnd toks s = stage_loop toks s s"

definition expands :: "token \<Rightarrow> bool" where
  "expands t =
     (if tk_opaque t \<or> tk_ticks t > 0 \<or> ContainsAny (tk_text t) [dollar, btick] then True
      else ContainsAny (case tk_quotedAt t of None \<Rightarrow> tk_text t | Some q \<Rightarrow> take q (tk_text t)) ''*?[{'')"

definition fdPrefix :: "token list \<Rightarrow> nat \<Rightarrow> nat \<Rightarrow> bool" where
  "fdPrefix toks j e =
     (j + 1 < e \<and> tk_meta (toks ! (j + 1)) \<and> tk_glued (toks ! (j + 1)) \<and>
      isRedirect (tk_text (toks ! (j + 1))) \<and> isFDPrefix (toks ! j))"

definition hasWord :: "token list \<Rightarrow> bool" where
  "hasWord toks = list_ex (\<lambda>t. \<not> tk_meta t) toks"

definition reservedWord :: "string \<Rightarrow> bool" where
  "reservedWord s =
     (s \<in> {''!'', ''if'', ''then'', ''else'', ''elif'', ''fi'', ''while'', ''until'', ''do'', ''done'', ''}'', ''esac''})"

definition assignmentsOnly :: "token list \<Rightarrow> bool" where
  "assignmentsOnly toks =
     (if list_ex (\<lambda>t. tk_opaque t \<or> \<not> isShellAssignment t) toks then False else length toks > 0)"

definition add_word :: "token \<Rightarrow> Command \<Rightarrow> Command" where
  "add_word t c = c\<lparr>cm_Words := cm_Words c @ [tk_text t], cm_Expands := cm_Expands c @ [expands t]\<rparr>"

text \<open>The loop of \<open>commandOf\<close>, from the token at \<open>j\<close>, and where a redirection's word ends.\<close>

definition redirect_past :: "token list \<Rightarrow> nat \<Rightarrow> nat \<Rightarrow> nat" where
  "redirect_past toks j e =
     (let k = operatorEnd toks j in if k + 1 < e \<and> \<not> tk_meta (toks ! (k + 1)) then k + 1 else k)"

lemma redirect_past_le: "j \<le> redirect_past toks j e"
  using operatorEnd_le [of j toks] by (simp add: redirect_past_def Let_def)

function command_loop :: "token list \<Rightarrow> nat \<Rightarrow> nat \<Rightarrow> Command \<Rightarrow> Command" where
  "command_loop toks j e c =
     (if j \<ge> e then c
      else if tk_meta (toks ! j) \<and> isRedirect (tk_text (toks ! j))
      then command_loop toks (redirect_past toks j e + 1) e
             (if tk_text (toks ! j) = ''<<'' then c\<lparr>cm_Heredoc := True\<rparr> else c)
      else if tk_meta (toks ! j) \<or> fdPrefix toks j e then command_loop toks (j + 1) e c
      else command_loop toks (j + 1) e (add_word (toks ! j) c))"
  by pat_completeness auto

termination
  by (relation "measure (\<lambda>(_, j, e, _). e - j)")
    (auto intro!: diff_less_mono2 simp: less_Suc_eq_le redirect_past_le)

declare command_loop.simps [simp del]

definition commandOf :: "token list \<Rightarrow> nat \<Rightarrow> nat \<Rightarrow> Command" where
  "commandOf toks p e = command_loop toks p e \<lparr>cm_Words = [], cm_Expands = [], cm_Heredoc = False\<rparr>"

text \<open>A stage's first token past the reserved words before its program.\<close>

definition past_reserved :: "token list \<Rightarrow> nat \<Rightarrow> nat \<Rightarrow> nat" where
  "past_reserved toks s e =
     s + length (takeWhile (\<lambda>t. \<not> tk_meta t \<and> tk_quotedAt t = None \<and> reservedWord (tk_text t))
                   (take (e - s) (drop s toks)))"

lemma stage_loop_end: "length toks \<le> j \<Longrightarrow> stage_loop toks s j = (length toks, length toks)"
  by (subst stage_loop.simps) simp

lemma stage_loop_cases:
  assumes "stage_loop toks s j = (e, next)" and "j < length toks"
  obtains "e = j" "next = j" "s < j" | "e = j" "next = Suc j"
    | k where "stage_loop toks s k = (e, next)" "j < k"
proof -
  have "\<not> j \<ge> length toks" using assms(2) by simp
  then have eq: "(e, next) =
      (if j > s \<and> tk_nlBefore (toks ! j) then (j, j)
       else if tk_meta (toks ! j) \<and> isRedirect (tk_text (toks ! j)) then stage_loop toks s (operatorEnd toks j + 1)
       else if stageSeparator toks j then (j, j + 1)
       else stage_loop toks s (j + 1))"
    by (subst assms(1) [symmetric], subst stage_loop.simps) (simp only: if_False)
  have op: "j < operatorEnd toks j + 1" using operatorEnd_le [of j toks] by simp
  consider "j > s \<and> tk_nlBefore (toks ! j)"
    | k where "(e, next) = stage_loop toks s k" "j < k" | "(e, next) = (j, j + 1)"
    using eq op by (metis less_add_one)
  then show thesis
  proof cases
    case 1
    with eq that(1) show thesis by simp
  next
    case (2 k)
    from 2(1) [symmetric] 2(2) show thesis by (rule that(3))
  next
    case 3
    with that(2) show thesis by simp
  qed
qed

lemma stage_loop_past:
  "stage_loop toks s j = (e, next) \<Longrightarrow> j < length toks \<Longrightarrow>
     j \<le> e \<and> j \<le> next \<and> (s = j \<longrightarrow> j < next) \<and> e \<le> length toks"
proof (induction "length toks - j" arbitrary: j rule: less_induct)
  case less
  show ?case
  proof (rule stage_loop_cases [OF less.prems])
    fix k
    assume k: "stage_loop toks s k = (e, next)" "j < k"
    have "k \<le> e \<and> k \<le> next \<and> e \<le> length toks" if "k < length toks" using less.hyps [of k] k that by simp
    moreover have "e = length toks \<and> next = length toks" if "\<not> k < length toks"
      using k(1) stage_loop_end [of toks k s] that by simp
    ultimately show ?thesis using k(2) less.prems(2) by fastforce
  qed (use less.prems(2) in simp_all)
qed

lemma stageEnd_le: "stageEnd toks s = (e, next) \<Longrightarrow> e \<le> length toks"
  unfolding stageEnd_def using stage_loop_past [of toks s s e "next"] stage_loop_end [of toks s s]
  by (cases "s < length toks") auto

lemma stageEnd_past: "stageEnd toks s = (e, next) \<Longrightarrow> s < length toks \<Longrightarrow> s < next"
  unfolding stageEnd_def by (blast dest: stage_loop_past)

function commands_loop :: "token list \<Rightarrow> bool \<Rightarrow> nat \<Rightarrow> Command list \<Rightarrow> Command list \<times> bool" where
  "commands_loop toks pastAssignments s out =
     (if s \<ge> length toks then (out, True)
      else (case stageEnd toks s of (e, next) \<Rightarrow>
        let b = past_reserved toks s e; stage = take (e - b) (drop b toks) in
        if b < e \<and> hasWord stage
        then (case programToken stage False of
                None \<Rightarrow>
                  if pastAssignments \<and> assignmentsOnly stage then commands_loop toks pastAssignments next out
                  else (out, False)
              | Some p \<Rightarrow>
                  if expands (toks ! (b + p)) then (out, False)
                  else commands_loop toks pastAssignments next (out @ [commandOf toks (b + p) e]))
        else commands_loop toks pastAssignments next out))"
  by pat_completeness auto
termination
  by (relation "measure (\<lambda>(toks, _, s, _). length toks - s)")
    (auto dest!: sym [of "(_, _)" "stageEnd _ _"] stageEnd_past)

declare commands_loop.simps [simp del]

text \<open>The commands read, and whether the whole line was.\<close>

definition commands :: "string \<Rightarrow> bool \<Rightarrow> Command list \<times> bool" where
  "commands line pastAssignments =
     (if controlByte line then ([], False)
      else (case tokenizeList line of
              (toks, None) \<Rightarrow> commands_loop toks pastAssignments 0 []
            | (_, Some _) \<Rightarrow> ([], False)))"

definition Commands :: "string \<Rightarrow> Command list \<times> bool" where
  "Commands line = commands line False"

section \<open>What a command is\<close>

text \<open>The word at a place the search returns.\<close>

definition program_at :: "token list \<Rightarrow> nat \<Rightarrow> bool" where
  "program_at toks p \<longleftrightarrow>
     p < length toks \<and> \<not> tk_meta (toks ! p) \<and> plainWord (tk_text (toks ! p)) \<and>
     \<not> (tk_meta (tok_at toks (p + 1)) \<and> isRedirect (tk_text (tok_at toks (p + 1))) \<and> isFDPrefix (toks ! p))"

lemma program_loop_at: "program_loop toks u i start = Some p \<Longrightarrow> program_at toks p"
proof (induction "length toks - i" arbitrary: i start rule: less_induct)
  case less
  have ih: "program_at toks p" if "program_loop toks u k st = Some p" "i < k" "i < length toks" for k st
    using less.hyps [of k st] that by linarith
  have here: "program_at toks k"
    if "k < length toks" "\<not> tk_meta (toks ! k)" "names_program toks u k"
      "\<not> (isRedirect (tk_text (tok_at toks (Suc k))) \<and> tk_meta (tok_at toks (Suc k)) \<and> isFDPrefix (toks ! k))" for k
    using that by (auto simp: program_at_def names_program_def Let_def split: if_splits)
  show ?case
    using less.prems
    by (subst (asm) program_loop.simps)
      (auto simp: Let_def not_le split: if_splits option.splits dest!: redirectEnd_past intro: ih here)
qed

lemma programToken_at: "programToken toks u = Some p \<Longrightarrow> program_at toks p"
  unfolding programToken_def by (rule program_loop_at)

definition grown :: "Command \<Rightarrow> Command \<Rightarrow> bool" where
  "grown c d \<longleftrightarrow> (\<exists>ws xs. cm_Words d = cm_Words c @ ws \<and> cm_Expands d = cm_Expands c @ xs \<and> length ws = length xs)"

lemma grown_simps [simp]: "grown c c" "grown (c\<lparr>cm_Heredoc := h\<rparr>) d = grown c d"
  by (simp_all add: grown_def)

lemma grown_add_word: "grown (add_word t c) d \<Longrightarrow> grown c d"
  by (auto simp: grown_def add_word_def)

lemma command_loop_grown: "grown c (command_loop toks j e c)"
proof (induction toks j e c rule: command_loop.induct)
  case (1 toks j e c)
  have eq: "command_loop toks j e c =
     (if j \<ge> e then c
      else if tk_meta (toks ! j) \<and> isRedirect (tk_text (toks ! j))
      then command_loop toks (redirect_past toks j e + 1) e
             (if tk_text (toks ! j) = ''<<'' then c\<lparr>cm_Heredoc := True\<rparr> else c)
      else if tk_meta (toks ! j) \<or> fdPrefix toks j e then command_loop toks (j + 1) e c
      else command_loop toks (j + 1) e (add_word (toks ! j) c))"
    by (rule command_loop.simps)
  show ?case
    unfolding eq
    by (split if_split, intro conjI impI grown_simps(1), split if_split, intro conjI impI)
      (use 1 in \<open>auto intro: grown_add_word\<close>)
qed

definition command_ok :: "Command \<Rightarrow> bool" where
  "command_ok c \<longleftrightarrow>
     cm_Words c \<noteq> [] \<and> length (cm_Expands c) = length (cm_Words c) \<and>
     \<not> hd (cm_Expands c) \<and> plainWord (hd (cm_Words c))"

lemma commandOf_ok:
  assumes "p < e" and "\<not> tk_meta (toks ! p)" and "\<not> fdPrefix toks p e" and "\<not> expands (toks ! p)"
    and "plainWord (tk_text (toks ! p))"
  shows "command_ok (commandOf toks p e)"
proof -
  let ?c = "add_word (toks ! p) \<lparr>cm_Words = [], cm_Expands = [], cm_Heredoc = False\<rparr>"
  have "commandOf toks p e = command_loop toks (p + 1) e ?c"
    unfolding commandOf_def by (subst command_loop.simps) (use assms(1-3) in simp)
  then show ?thesis
    using command_loop_grown [of ?c toks "p + 1" e] assms(4,5)
    by (auto simp: command_ok_def add_word_def grown_def)
qed

lemma commands_loop_ok:
  "list_all command_ok out \<Longrightarrow> list_all command_ok (fst (commands_loop toks pa s out))"
proof (induction "length toks - s" arbitrary: s out rule: less_induct)
  case less
  obtain e nx where st: "stageEnd toks s = (e, nx)" by (cases "stageEnd toks s")
  have past: "s < length toks \<Longrightarrow> s < nx" by (rule stageEnd_past [OF st])
  have ih: "list_all command_ok (fst (commands_loop toks pa nx out'))"
    if "list_all command_ok out'" "s < length toks" for out'
    using less.hyps [of nx out'] that past by simp
  define b where "b = past_reserved toks s e"
  define stage where "stage = take (e - b) (drop b toks)"
  have ok: "command_ok (commandOf toks (b + p) e)"
    if p: "programToken stage False = Some p" and x: "\<not> expands (toks ! (b + p))" for p
  proof -
    have at: "program_at stage p" by (rule programToken_at [OF p])
    then have lt: "b + p < e" "b + p < length toks" by (auto simp: program_at_def stage_def)
    then have same: "stage ! p = toks ! (b + p)" by (simp add: stage_def)
    have "tok_at stage (p + 1) = toks ! (b + p + 1)" if "b + p + 1 < e" "b + p + 1 < length toks"
      using that by (simp add: tok_at_def stage_def less_diff_conv add.commute)
    then have "\<not> fdPrefix toks (b + p) e" if "b + p + 1 < length toks"
      using at that same by (auto simp: program_at_def fdPrefix_def)
    moreover have "\<not> fdPrefix toks (b + p) e" if "\<not> b + p + 1 < length toks"
      using that stageEnd_le [OF st] by (auto simp: fdPrefix_def)
    ultimately show ?thesis
      using commandOf_ok [OF lt(1)] at same x by (auto simp: program_at_def)
  qed
  show ?case
    using less.prems ih ok
    by (subst commands_loop.simps, cases pa)
      (simp_all add: st b_def [symmetric] stage_def [symmetric] Let_def split: option.split)
qed

lemma Commands_ok: "list_all command_ok (fst (Commands line))"
  unfolding Commands_def commands_def by (auto intro: commands_loop_ok split: prod.split option.split)

text \<open>
  C35: every command \<open>Commands\<close> reads off a line has a program word that is plain and that the
  shell does not expand, and one mark of expansion for each word.
\<close>

theorem Commands_programs: "list_all command_ok (fst (Commands line))"
  by (rule Commands_ok)

section \<open>A line of quoted words\<close>

definition quote :: "string \<Rightarrow> string" where
  "quote w = sq # w @ [sq]"

definition quoted_line :: "string list \<Rightarrow> string" where
  "quoted_line ws = Join (map quote ws) '' ''"

definition quoted_token :: "string \<Rightarrow> token" where
  "quoted_token w =
     \<lparr>tk_text = w, tk_meta = False, tk_quotedAt = Some 0, tk_opaque = False, tk_nlBefore = False,
      tk_glued = False, tk_litDollar = (dollar \<in> set w), tk_ticks = 0\<rparr>"

lemma quoted_line_Cons:
  "quoted_line (w # ws) = sq # w @ sq # (if ws = [] then [] else CHR '' '' # quoted_line ws)"
  by (cases ws) (simp_all add: quoted_line_def quote_def)

text \<open>Between words, nothing pending.\<close>

definition between :: "lexer \<Rightarrow> bool" where
  "between l \<longleftrightarrow> lx_w l = newWord \<and> lx_dollarAt l = - 1 \<and> lx_pending l = [] \<and> \<not> lx_sawNL l \<and> (lx_toks l = [] \<or> lx_gap l)"

definition quoted_word :: "string \<Rightarrow> lexer \<Rightarrow> lexer" where
  "quoted_word w l = add_text w (set_litDollar (dollar \<in> set w) (markQuoted (begin_word l)))"

lemma drop_nth: "drop i s = c # cs \<Longrightarrow> i < length s \<and> s ! i = c \<and> drop (Suc i) s = cs"
  by (metis Cons_nth_drop_Suc drop_all list.discI list.inject not_le)

lemma lex_quoted_word:
  assumes "drop i (rd_s rd) = sq # w @ sq # rest" and "sq \<notin> set w" and "between l"
  shows "lex_byte rd i l = Go (i + length w + 1) (quoted_word w l)" "i < length (rd_s rd)"
    "drop (i + length w + 2) (rd_s rd) = rest"
proof -
  have d: "i < length (rd_s rd)" "rd_s rd ! i = sq" "drop (Suc i) (rd_s rd) = w @ sq # rest"
    using drop_nth [OF assms(1)] by simp_all
  have "slice (rd_s rd) (i + 1) (i + 1 + length w) = w" using d(3) by (simp add: slice_def)
  then show "lex_byte rd i l = Go (i + length w + 1) (quoted_word w l)"
    using d assms(2,3)
    by (simp add: lex_byte_def lex_single_def between_def quoted_word_def Let_def)
  have "drop (length w + 1) (drop (Suc i) (rd_s rd)) = rest" unfolding d(3) by simp
  then show "drop (i + length w + 2) (rd_s rd) = rest" by (simp add: add.commute add.left_commute)
  show "i < length (rd_s rd)" by (rule d(1))
qed

lemma flush_quoted_word:
  "between l \<Longrightarrow> lx_toks (flush (quoted_word w l)) = lx_toks l @ [quoted_token w]"
  "between l \<Longrightarrow> between ((flush (quoted_word w l))\<lparr>lx_gap := True\<rparr>)"
  by (auto simp: between_def quoted_word_def flush_def word_token_def quoted_token_def add_text_def
      set_litDollar_def markQuoted_def begin_word_def newWord_def Let_def)

lemma lex_loop_go:
  assumes "i < length (rd_s rd)" and "length (lx_toks l) \<le> limit" and "lex_byte rd i l = Go j l'"
  shows "lex_loop rd limit i l = lex_loop rd limit (j + 1) l'"
  by (subst lex_loop.simps) (use assms in simp)

lemma quoted_word_toks [simp]: "lx_toks (quoted_word w l) = lx_toks l"
  by (simp add: quoted_word_def add_text_def set_litDollar_def markQuoted_def begin_word_def)

lemma quoted_word_pending [simp]: "lx_pending (quoted_word w l) = lx_pending l"
  by (simp add: quoted_word_def add_text_def set_litDollar_def markQuoted_def begin_word_def)

lemma lex_quoted_line:
  "ws \<noteq> [] \<Longrightarrow> list_all (\<lambda>w. sq \<notin> set w) ws \<Longrightarrow> drop i (rd_s rd) = quoted_line ws \<Longrightarrow> between l \<Longrightarrow>
     length (lx_toks l) + length ws \<le> limit + 1 \<Longrightarrow>
     lex_loop rd limit i l = (lx_toks l @ map quoted_token ws, None)"
proof (induction ws arbitrary: i l)
  case (Cons w ws)
  let ?rest = "if ws = [] then [] else CHR '' '' # quoted_line ws" and ?j = "i + length w + 2"
  have dr: "drop i (rd_s rd) = sq # w @ sq # ?rest" using Cons.prems(3) by (simp add: quoted_line_Cons)
  note q = lex_quoted_word [OF dr _ Cons.prems(4)]
  have one: "lex_loop rd limit i l = lex_loop rd limit ?j (quoted_word w l)"
    using lex_loop_go [OF q(2) _ q(1)] Cons.prems(2,5) by simp
  show ?case
  proof (cases "ws = []")
    case True
    then have "?j \<ge> length (rd_s rd)" using q(3) Cons.prems(2) by simp
    then have "lex_loop rd limit ?j (quoted_word w l) = (lx_toks (flush (quoted_word w l)), None)"
      using Cons.prems(4) by (subst lex_loop.simps) (simp add: between_def)
    then show ?thesis using one flush_quoted_word(1) [OF Cons.prems(4)] True by simp
  next
    case False
    let ?l = "(flush (quoted_word w l))\<lparr>lx_gap := True\<rparr>"
    have d: "drop ?j (rd_s rd) = CHR '' '' # quoted_line ws" using q(3) Cons.prems(2) False by simp
    have j: "?j < length (rd_s rd)" "rd_s rd ! ?j = CHR '' ''" "drop (Suc ?j) (rd_s rd) = quoted_line ws"
      using drop_nth [OF d] by simp_all
    have "lex_byte rd ?j (quoted_word w l) = Go ?j ?l"
      using j(2) by (simp add: lex_byte_def lex_blank_def Let_def)
    from lex_loop_go [OF j(1) _ this] Cons.prems(5) False
    have "lex_loop rd limit ?j (quoted_word w l) = lex_loop rd limit (Suc ?j) ?l"
      by (cases ws) auto
    also have "\<dots> = (lx_toks ?l @ map quoted_token ws, None)"
      using Cons.IH [OF False _ j(3) flush_quoted_word(2) [OF Cons.prems(4)]] Cons.prems(2,5)
        flush_quoted_word(1) [OF Cons.prems(4)] by simp
    finally show ?thesis using one flush_quoted_word(1) [OF Cons.prems(4)] by simp
  qed
qed simp

text \<open>Joining leaves a single-quoted line as it is, a backslash-newline in a word included.\<close>

lemma join_quoted_word:
  "sq \<notin> set w \<Longrightarrow> ji_single st \<Longrightarrow>
     join_loop c (w @ sq # rest) st =
       join_loop c rest (st\<lparr>ji_single := False, ji_written := ji_written st @ w @ [sq]\<rparr>)"
proof (induction w arbitrary: st)
  case Nil
  then show ?case by (simp add: join_turn_def)
next
  case (Cons x w)
  then have "join_turn c x (w @ sq # rest) st = (w @ sq # rest, st\<lparr>ji_written := ji_written st @ [x]\<rparr>)"
    by (auto simp: join_turn_def Let_def)
  with Cons show ?case by simp
qed

lemma join_quoted_line:
  "list_all (\<lambda>w. sq \<notin> set w) ws \<Longrightarrow> ws \<noteq> [] \<Longrightarrow> \<not> ji_single st \<Longrightarrow> \<not> ji_double st \<Longrightarrow>
     join_loop c (quoted_line ws) st =
       \<lparr>jn_s = ji_written st @ quoted_line ws, jn_joins = ji_joins st, jn_lost = ji_lost st\<rparr>"
proof (induction ws arbitrary: st)
  case (Cons w ws)
  let ?rest = "if ws = [] then [] else CHR '' '' # quoted_line ws"
  have "join_turn c sq (w @ sq # ?rest) st = (w @ sq # ?rest, st\<lparr>ji_single := True, ji_written := ji_written st @ [sq]\<rparr>)"
    using Cons.prems by (auto simp: join_turn_def Let_def)
  then have e: "join_loop c (quoted_line (w # ws)) st =
      join_loop c ?rest (st\<lparr>ji_single := False, ji_written := ji_written st @ sq # w @ [sq]\<rparr>)"
    using Cons.prems by (simp add: quoted_line_Cons join_quoted_word)
  show ?case
  proof (cases "ws = []")
    case True
    then show ?thesis unfolding e by (simp add: quoted_line_Cons)
  next
    case False
    have "join_turn c CHR '' '' (quoted_line ws) t = (quoted_line ws, t\<lparr>ji_written := ji_written t @ '' ''\<rparr>)"
      if "\<not> ji_single t" for t
      using that by (simp add: join_turn_def Let_def)
    then show ?thesis unfolding e using Cons.IH Cons.prems False by (simp add: quoted_line_Cons [of w])
  qed
qed simp

lemma joinLines_quoted:
  "list_all (\<lambda>w. sq \<notin> set w) ws \<Longrightarrow> ws \<noteq> [] \<Longrightarrow> joinLines (quoted_line ws) c = unjoined (quoted_line ws)"
  by (simp add: joinLines_def unjoined_def join_quoted_line)

lemma tokenizeList_quoted:
  assumes "ws \<noteq> []" and "list_all (\<lambda>w. sq \<notin> set w) ws" and "length ws \<le> maxTokens"
  shows "tokenizeList (quoted_line ws) = (map quoted_token ws, None)"
proof -
  have "between new_lexer" by (simp add: between_def new_lexer_def)
  then have "lex (unjoined (quoted_line ws)) True True = (map quoted_token ws, None)"
    unfolding lex_def lexTo_def
    by (subst lex_quoted_line [OF assms(1,2)]) (use assms(3) in \<open>simp_all add: unjoined_def new_lexer_def\<close>)
  then show ?thesis
    using joinLines_quoted [OF assms(2,1)] assms(3) by (simp add: tokenizeList_def bounded_def boundedTo_def)
qed

lemma quoted_token_simps [simp]:
  "tk_text (quoted_token w) = w" "\<not> tk_meta (quoted_token w)" "tk_quotedAt (quoted_token w) = Some 0"
  "\<not> tk_opaque (quoted_token w)" "\<not> tk_nlBefore (quoted_token w)" "\<not> tk_glued (quoted_token w)"
  "tk_ticks (quoted_token w) = 0"
  by (simp_all add: quoted_token_def)

lemma expands_quoted: "expands (quoted_token w) = ContainsAny w [dollar, btick]"
  by (simp add: expands_def ContainsAny_def)

lemma stageEnd_words: "list_all (\<lambda>t. \<not> tk_meta t \<and> \<not> tk_nlBefore t) toks \<Longrightarrow> stageEnd toks s = (length toks, length toks)"
proof -
  assume w: "list_all (\<lambda>t. \<not> tk_meta t \<and> \<not> tk_nlBefore t) toks"
  have "stage_loop toks s j = (length toks, length toks)" for j
  proof (induction "length toks - j" arbitrary: j rule: less_induct)
    case less
    then show ?case using w
      by (subst stage_loop.simps) (auto simp: list_all_length stageSeparator_def)
  qed
  then show ?thesis by (simp add: stageEnd_def)
qed

lemma commandEnd_words:
  "list_all (\<lambda>t. \<not> tk_meta t \<and> \<not> tk_nlBefore t \<and> \<not> tk_opaque t \<and> tk_ticks t = 0) toks \<Longrightarrow>
     commandEnd toks i False = Some None"
proof -
  assume w: "list_all (\<lambda>t. \<not> tk_meta t \<and> \<not> tk_nlBefore t \<and> \<not> tk_opaque t \<and> tk_ticks t = 0) toks"
  have "end_loop toks False j [] h = Some None" for j h
  proof (induction "length toks - j" arbitrary: j rule: less_induct)
    case less
    then show ?case using w
      by (subst end_loop.simps) (auto simp: list_all_length openBrace_def)
  qed
  then show ?thesis by (simp add: commandEnd_def)
qed

lemma command_loop_quoted:
  "j \<le> length ws \<Longrightarrow>
     command_loop (map quoted_token ws) j (length ws) c =
       c\<lparr>cm_Words := cm_Words c @ drop j ws,
         cm_Expands := cm_Expands c @ map (\<lambda>w. ContainsAny w [dollar, btick]) (drop j ws)\<rparr>"
proof (induction "length ws - j" arbitrary: j c)
  case 0
  then show ?case by (subst command_loop.simps) simp
next
  case (Suc n)
  then have j: "j < length ws" by simp
  have "\<not> fdPrefix (map quoted_token ws) j (length ws)"
    using j by (simp add: fdPrefix_def isFDPrefix_def)
  then have "command_loop (map quoted_token ws) j (length ws) c =
      command_loop (map quoted_token ws) (j + 1) (length ws) (add_word (quoted_token (ws ! j)) c)"
    using j by (subst command_loop.simps) simp
  then show ?case
    using Suc(1) [of "j + 1" "add_word (quoted_token (ws ! j)) c"] Suc(2) j
    by (simp add: add_word_def expands_quoted Cons_nth_drop_Suc [symmetric])
qed

text \<open>A word a quoted line may begin with: one that can name a program, and nothing the shell expands.\<close>

definition program_word :: "string \<Rightarrow> bool" where
  "program_word w \<longleftrightarrow> plainWord w \<and> \<not> ContainsAny w ''[]{}()'' \<and> btick \<notin> set w"

lemma plainWord_dollar: "plainWord w \<Longrightarrow> dollar \<notin> set w"
  by (auto simp: plainWord_def ContainsAny_def list_ex_iff split: if_splits)

lemma programToken_quoted:
  assumes "program_word w"
  shows "programToken (map quoted_token (w # ws)) False = Some 0"
proof -
  let ?toks = "map quoted_token (w # ws)"
  have meta: "\<not> tk_meta (tok_at ?toks j)" for j by (auto simp: tok_at_def no_token_def nth_Cons split: nat.split)
  have "isShellAssignment (quoted_token w) = False"
    by (auto simp: isShellAssignment_def Let_def split: option.splits)
  moreover have "names_program ?toks False 0"
    using assms meta [of 1] commandEnd_words [of ?toks 0]
    by (auto simp: names_program_def program_word_def isOp_def unsure_equals_def definesFunctions_def runsOn_def
        list_all_iff nth_Cons split: option.split nat.split)
  ultimately show ?thesis unfolding programToken_def
    by (subst program_loop.simps) (use meta [of 1] in \<open>simp add: Let_def\<close>)
qed

lemma Commands_quoted_aux:
  assumes "program_word w" and "list_all (\<lambda>x. sq \<notin> set x \<and> \<not> controlByte x) (w # ws)"
    and "length (w # ws) \<le> maxTokens"
  shows "Commands (quoted_line (w # ws)) =
    ([\<lparr>cm_Words = w # ws, cm_Expands = map (\<lambda>x. ContainsAny x [dollar, btick]) (w # ws), cm_Heredoc = False\<rparr>], True)"
proof -
  let ?vs = "w # ws" and ?toks = "map quoted_token (w # ws)"
  have sqs: "list_all (\<lambda>x. sq \<notin> set x) ?vs" using assms(2) by (simp add: list_all_iff)
  have byte: "\<not> control_char sq" "\<not> control_char CHR '' ''" by code_simp+
  have "\<not> controlByte (quoted_line us)" if "list_all (\<lambda>x. sq \<notin> set x \<and> \<not> controlByte x) us" for us
    using that
  proof (induction us)
    case (Cons u us)
    then show ?case using byte by (simp add: quoted_line_Cons controlByte_def)
  qed (simp add: quoted_line_def controlByte_def)
  then have nc: "\<not> controlByte (quoted_line ?vs)" using assms(2) by blast
  have toks: "tokenizeList (quoted_line ?vs) = (?toks, None)"
    by (rule tokenizeList_quoted [OF _ sqs assms(3)]) simp
  have st: "stageEnd ?toks 0 = (length ?toks, length ?toks)"
    by (rule stageEnd_words) (simp add: list_all_iff)
  have x: "\<not> expands (?toks ! 0)"
    using assms(1) plainWord_dollar [of w]
    by (auto simp: expands_quoted program_word_def ContainsAny_def list_ex_iff)
  have r: "past_reserved ?toks 0 e = 0" for e by (cases e) (simp_all add: past_reserved_def)
  have h: "hasWord ?toks" by (simp add: hasWord_def)
  have l: "(length ?toks \<le> 0) = False" "(0 < length ?toks) = True" and t: "take (length ?toks) ?toks = ?toks" by simp_all
  have "commands_loop ?toks False 0 [] = commands_loop ?toks False (length ?toks) [commandOf ?toks 0 (length ?toks)]"
    by (subst commands_loop.simps)
      (simp only: st x r h l t programToken_quoted [OF assms(1), of ws] Let_def prod.case option.case if_False if_True
        drop_0 minus_nat.diff_0 add_0 append_Nil not_le simp_thms)
  also have "\<dots> = ([commandOf ?toks 0 (length ?toks)], True)"
    by (subst commands_loop.simps) simp
  finally show ?thesis
    using nc toks command_loop_quoted [of 0 ?vs "\<lparr>cm_Words = [], cm_Expands = [], cm_Heredoc = False\<rparr>"]
    by (simp add: Commands_def commands_def commandOf_def del: list.map)
qed



end
