(* ===== verification/Leading.thy ===== *)
theory Leading
  imports Commands
begin

text \<open>
  The leading directory changes of a line, \<^verbatim>\<open>internal/shape/program.go\<close> and \<^verbatim>\<open>leading.go\<close>: the
  fold the program search steps over (\<open>directoryChanges\<close>), the run of literal \<open>cd DIR &&\<close>
  steps the hook reads a start directory from (\<open>leadingRun\<close>), the two readings' agreement,
  and whether a command closes the groups opened before it.
\<close>

section \<open>The program search's steps\<close>

definition MaxLeadingCd :: nat where
  "MaxLeadingCd = 64"

text \<open>
  \<open>directoryChanges\<close>: the index past the last separator stepped over, how many were, and the
  program after them, if it can be told.
\<close>

function directoryChanges_loop ::
  "token list \<Rightarrow> bool \<Rightarrow> nat \<Rightarrow> nat \<Rightarrow> nat \<Rightarrow> nat \<times> nat \<times> nat option" where
  "directoryChanges_loop toks uncertain i after steps =
     (if \<not> ((tk_text (toks ! i) = ''cd'' \<or> tk_text (toks ! i) = ''pushd'') \<and> tk_quotedAt (toks ! i) = None)
      then (after, steps, Some i)
      else (case commandEnd toks i uncertain of
              None \<Rightarrow> (after, steps, None)
            | Some None \<Rightarrow> (after, steps, Some i)
            | Some (Some sep) \<Rightarrow>
                if tk_text (toks ! sep) \<noteq> ''&&'' \<and> tk_text (toks ! sep) \<noteq> '';'' then (after, steps, Some i)
                else (case programToken (drop (sep + 1) toks) uncertain of
                        None \<Rightarrow> (sep + 1, steps + 1, None)
                      | Some k \<Rightarrow> directoryChanges_loop toks uncertain (sep + 1 + k) (sep + 1) (steps + 1))))"
  by pat_completeness auto
termination
  by (relation "measure (\<lambda>(toks, _, i, _). length toks - i)") (auto dest!: commandEnd_at)

declare directoryChanges_loop.simps [simp del]

definition directoryChanges :: "token list \<Rightarrow> nat \<Rightarrow> bool \<Rightarrow> nat \<times> nat \<times> nat option" where
  "directoryChanges toks i uncertain = directoryChanges_loop toks uncertain i 0 0"

definition pastDirectoryChange :: "token list \<Rightarrow> nat \<Rightarrow> bool \<Rightarrow> nat option" where
  "pastDirectoryChange toks i uncertain = snd (snd (directoryChanges toks i uncertain))"

definition leadingFold :: "token list \<Rightarrow> bool \<Rightarrow> nat" where
  "leadingFold toks uncertain =
     (case programToken toks uncertain of
        None \<Rightarrow> 0
      | Some i \<Rightarrow>
          (case directoryChanges toks i uncertain of
             (after, steps, _) \<Rightarrow> if steps > MaxLeadingCd then 0 else after))"

definition agreedFold :: "token list \<Rightarrow> token list \<Rightarrow> nat" where
  "agreedFold toks steps =
     (let after = leadingFold toks False in if take after toks \<noteq> steps then 0 else after)"

section \<open>The literal steps the hook reads\<close>

definition dirWord :: "token \<Rightarrow> bool" where
  "dirWord dir =
     (\<not> (tk_meta dir \<or> tk_quotedAt dir \<noteq> None \<or> tk_opaque dir \<or> tk_ticks dir > 0 \<or> tk_nlBefore dir \<or>
          tk_text dir = [] \<or> HasPrefix (tk_text dir) ''-'' \<or>
          HasPrefix (tk_text dir) ''~'' \<and> tk_text dir \<noteq> ''~'' \<and> \<not> HasPrefix (tk_text dir) ''~/'' \<or>
          ContainsAny (tk_text dir) (''$*?[{'' @ [btick, bsl])))"

definition leadingCd :: "token list \<Rightarrow> string option" where
  "leadingCd toks =
     (if length toks < 3 then None
      else (let cd = toks ! 0; dir = toks ! 1; conj = toks ! 2 in
            if tk_text cd \<noteq> ''cd'' \<and> tk_text cd \<noteq> ''pushd'' \<or> tk_quotedAt cd \<noteq> None \<or> tk_opaque cd then None
            else if \<not> dirWord dir \<or> tk_text cd = ''pushd'' \<and> HasPrefix (tk_text dir) ''+'' then None
            else if \<not> tk_meta conj \<or> tk_text conj \<noteq> ''&&'' \<or> tk_nlBefore conj then None
            else Some (tk_text dir)))"

function leadingRun_loop :: "token list \<Rightarrow> nat \<Rightarrow> string list \<Rightarrow> string list \<times> bool" where
  "leadingRun_loop toks i dirs =
     (if i \<ge> length toks then (dirs, dirs \<noteq> [])
      else (case programToken (drop i toks) False of
              None \<Rightarrow> (dirs, dirs \<noteq> [])
            | Some k \<Rightarrow>
                if tk_text (toks ! (i + k)) \<notin> {''cd'', ''pushd'', ''popd''} then (dirs, dirs \<noteq> [])
                else (case leadingCd (drop i toks) of
                        None \<Rightarrow> ([], False)
                      | Some dir \<Rightarrow>
                          if length (dirs @ [dir]) > MaxLeadingCd then (dirs @ [dir], True)
                          else leadingRun_loop toks (i + 3) (dirs @ [dir]))))"
  by pat_completeness auto
termination
  by (relation "measure (\<lambda>(toks, i, _). length toks - i)") auto

declare leadingRun_loop.simps [simp del]

definition leadingRun :: "token list \<times> lex_error option \<Rightarrow> string list \<times> bool" where
  "leadingRun te =
     (if snd te \<noteq> None \<and> snd te \<noteq> Some ErrTokenBound then ([], False) else leadingRun_loop (fst te) 0 [])"

definition leadingDirectories :: "string \<Rightarrow> string list \<times> bool" where
  "leadingDirectories cmd = leadingRun (tokenizeProgram cmd)"

text \<open>The directory of a \<open>git -C\<close> past the run, and whether the line may move again.\<close>

definition pastLeadingRun :: "token list \<Rightarrow> nat \<Rightarrow> lex_error option \<Rightarrow> string \<times> bool" where
  "pastLeadingRun toks n err =
     (if err \<noteq> None \<or> 3 * n > length toks then ([], True)
      else (let rest = drop (3 * n) toks in
        if list_ex (\<lambda>t. tk_text t \<in> {''cd'', ''pushd'', ''popd''}) rest then ([], True)
        else if length rest < 3 \<or> tk_text (rest ! 0) \<noteq> ''git'' \<or> tk_quotedAt (rest ! 0) \<noteq> None \<or>
                tk_opaque (rest ! 0) \<or> tk_text (rest ! 1) \<noteq> ''-C'' \<or> tk_quotedAt (rest ! 1) \<noteq> None \<or>
                \<not> dirWord (rest ! 2) \<or> length rest > 3 \<and> tk_text (rest ! 3) = ''-C'' then ([], False)
        else (tk_text (rest ! 2), False)))"

definition unreadFold :: "token list \<Rightarrow> bool \<Rightarrow> string" where
  "unreadFold toks uncertain =
     (case programToken toks uncertain of
        None \<Rightarrow> []
      | Some i \<Rightarrow>
          (case directoryChanges toks i uncertain of
             (after, _, _) \<Rightarrow>
               concat (map (\<lambda>t. tk_text t @ [CHR 0x00, if tk_quotedAt t \<noteq> None then CHR ''q'' else CHR ''p'', CHR 0x00])
                 (take after toks))))"

section \<open>The groups a command closes\<close>

definition bareWord :: "token \<Rightarrow> string \<Rightarrow> bool" where
  "bareWord t w = (\<not> tk_meta t \<and> tk_quotedAt t = None \<and> tk_text t = w)"

text \<open>The parens and braces open after the tokens before the command.\<close>

fun open_groups :: "token list \<Rightarrow> nat \<Rightarrow> nat \<Rightarrow> nat \<times> nat" where
  "open_groups [] parens braces = (parens, braces)"
| "open_groups (t # ts) parens braces =
     (if tk_meta t \<and> tk_text t = ''('' then open_groups ts (parens + 1) braces
      else if tk_meta t \<and> tk_text t = '')'' \<and> parens > 0 then open_groups ts (parens - 1) braces
      else if bareWord t ''{'' then open_groups ts parens (braces + 1)
      else if bareWord t ''}'' \<and> braces > 0 then open_groups ts parens (braces - 1)
      else open_groups ts parens braces)"

fun closedParens_loop :: "token list \<Rightarrow> nat \<Rightarrow> bool \<Rightarrow> nat \<Rightarrow> nat option" where
  "closedParens_loop [] depth ticks parens = Some parens"
| "closedParens_loop (t # ts) depth ticks parens =
     (if ticks then closedParens_loop ts depth (even (tk_ticks t)) parens
      else if odd (tk_ticks t) then closedParens_loop ts depth True parens
      else if \<not> tk_meta t then closedParens_loop ts depth ticks parens
      else if tk_text t = ''('' then closedParens_loop ts (depth + 1) ticks parens
      else if tk_text t = '')'' \<and> depth > 0 then closedParens_loop ts (depth - 1) ticks parens
      else if tk_text t = '')'' \<and> parens = 0 then None
      else if tk_text t = '')'' then closedParens_loop ts depth ticks (parens - 1)
      else closedParens_loop ts depth ticks parens)"

definition closedParens :: "token list \<Rightarrow> nat \<Rightarrow> nat option" where
  "closedParens toks parens = closedParens_loop toks 0 False parens"

function closesGroups_loop :: "token list \<Rightarrow> nat \<Rightarrow> nat \<Rightarrow> nat \<Rightarrow> bool" where
  "closesGroups_loop toks i parens braces =
     (case commandEnd toks i False of
        None \<Rightarrow> False
      | Some None \<Rightarrow>
          (case closedParens (drop (i + 1) toks) parens of
             None \<Rightarrow> False | Some open \<Rightarrow> open = 0 \<and> braces = 0)
      | Some (Some sep) \<Rightarrow>
          (case closedParens (take (sep - (i + 1)) (drop (i + 1) toks)) parens of
             None \<Rightarrow> False
           | Some open \<Rightarrow>
               if tk_text (toks ! sep) \<noteq> '';'' \<or> braces = 0 \<or> sep + 1 = length toks \<or>
                  \<not> bareWord (toks ! (sep + 1)) ''}'' then False
               else closesGroups_loop toks (sep + 1) open (braces - 1)))"
  by pat_completeness auto
termination
  by (relation "measure (\<lambda>(toks, i, _). length toks - i)") (auto dest!: commandEnd_at)

declare closesGroups_loop.simps [simp del]

definition closesGroups :: "token list \<Rightarrow> nat \<Rightarrow> bool" where
  "closesGroups toks i =
     (case open_groups (take i toks) 0 0 of (parens, braces) \<Rightarrow> closesGroups_loop toks i parens braces)"

section \<open>The two readings agree\<close>

lemma leadingCd_Some:
  assumes "leadingCd (drop i toks) = Some dir"
  shows "i + 3 \<le> length toks" and "tk_text (toks ! i) = ''cd'' \<or> tk_text (toks ! i) = ''pushd''"
    and "tk_quotedAt (toks ! i) = None" and "dirWord (toks ! (i + 1))" and "tk_text (toks ! (i + 1)) = dir"
    and "tk_meta (toks ! (i + 2))" and "tk_text (toks ! (i + 2)) = ''&&''" and "\<not> tk_nlBefore (toks ! (i + 2))"
  using assms by (auto simp: leadingCd_def Let_def split: if_splits)

lemma commandEnd_leadingCd:
  assumes "leadingCd (drop i toks) = Some dir" and ok: "list_all token_ok toks"
  shows "commandEnd toks i u = Some (Some (i + 2))"
proof -
  note c = leadingCd_Some [OF assms(1)]
  have one: "end_loop toks u (i + 1) [] False = end_loop toks u (i + 2) [] False"
    using c by (subst end_loop.simps) (auto simp: dirWord_def openBrace_def)
  have "tk_ticks (toks ! (i + 2)) = 0" using ok c(1,6) by (auto simp: list_all_length token_ok_def)
  then have "end_loop toks u (i + 2) [] False = Some (Some (i + 2))"
    using c by (subst end_loop.simps)
      (auto simp: openBrace_def amp_redirect_def isRedirect_def separator_def HasPrefix_def)
  then show ?thesis unfolding commandEnd_def one .
qed

lemma programToken_leadingCd:
  assumes "leadingCd (drop i toks) = Some dir" and ok: "list_all token_ok toks"
    and "programToken (drop i toks) u = Some k"
  shows "k = 0"
proof -
  note c = leadingCd_Some [OF assms(1)]
  let ?t = "drop i toks ! 0"
  have t: "?t = toks ! i" "0 < length (drop i toks)" using c(1) by simp_all
  have "token_ok (toks ! i)" using ok c(1) by (simp add: list_all_length)
  then have cd: "\<not> tk_meta ?t" "tk_text ?t \<noteq> ''{''" "\<not> isFDPrefix ?t" "\<not> isShellAssignment ?t"
    using c(2) t(1) by (auto simp: token_ok_def operators_def isFDPrefix_def HasPrefix_def isDigit_def
        isShellAssignment_def name_length_def nameLetter_def isLetter_def lower_char_def)
  show ?thesis
    using assms(3) unfolding programToken_def
    by (subst (asm) program_loop.simps) (use t cd in \<open>simp add: Let_def split: if_splits\<close>)
qed

text \<open>What is left of the run, where the search for the next program starts.\<close>

lemma leadingRun_loop_agrees:
  assumes "leadingRun_loop toks i dirs = (ds, True)" and "length ds \<le> MaxLeadingCd"
    and "list_all token_ok toks" and "i = 3 * length dirs"
  shows "case programToken (drop i toks) False of None \<Rightarrow> ds = dirs
    | Some k \<Rightarrow> \<exists>p. directoryChanges_loop toks False (i + k) i (length dirs) = (3 * length ds, length ds, p)"
  using assms
proof (induction toks i dirs rule: leadingRun_loop.induct)
  case (1 toks i dirs)
  show ?case
  proof (cases "programToken (drop i toks) False")
    case None
    then show ?thesis using "1.prems"(1) by (subst (asm) leadingRun_loop.simps) (auto split: if_splits)
  next
    case (Some k)
    then have i: "\<not> i \<ge> length toks" by (auto dest!: programToken_at simp: program_at_def)
    show ?thesis
    proof (cases "tk_text (toks ! (i + k)) \<in> {''cd'', ''pushd'', ''popd''}")
      case False
      then have "ds = dirs" using "1.prems"(1) Some i by (subst (asm) leadingRun_loop.simps) simp
      moreover have "directoryChanges_loop toks False (i + k) i (length dirs) = (i, length dirs, Some (i + k))"
        using False by (subst directoryChanges_loop.simps) simp
      ultimately show ?thesis using Some "1.prems"(4) by simp
    next
      case True
      have "leadingCd (drop i toks) \<noteq> None"
        using "1.prems"(1) Some i True by (subst (asm) leadingRun_loop.simps) (auto split: if_splits option.splits)
      then obtain dir where d: "leadingCd (drop i toks) = Some dir" by blast
      have k: "k = 0" by (rule programToken_leadingCd [OF d "1.prems"(3) Some])
      have run: "(if length (dirs @ [dir]) > MaxLeadingCd then (dirs @ [dir], True)
          else leadingRun_loop toks (i + 3) (dirs @ [dir])) = (ds, True)"
        using "1.prems"(1) Some i True d by (subst (asm) leadingRun_loop.simps) (auto split: if_splits)
      then have le: "\<not> length (dirs @ [dir]) > MaxLeadingCd" using "1.prems"(2) by (auto split: if_splits)
      have next3: "case programToken (drop (i + 3) toks) False of None \<Rightarrow> ds = dirs @ [dir]
          | Some k \<Rightarrow> \<exists>p. directoryChanges_loop toks False (i + 3 + k) (i + 3) (length (dirs @ [dir]))
              = (3 * length ds, length ds, p)"
        using "1.IH" [OF i Some _ d le] True run le "1.prems"(2-4) by simp
      note c = leadingCd_Some [OF d]
      have "directoryChanges_loop toks False i i (length dirs) =
          (case programToken (drop (i + 3) toks) False of
             None \<Rightarrow> (i + 3, length dirs + 1, None)
           | Some k \<Rightarrow> directoryChanges_loop toks False (i + 3 + k) (i + 3) (length dirs + 1))"
        using c commandEnd_leadingCd [OF d "1.prems"(3), of False]
        by (subst directoryChanges_loop.simps) (auto simp: eval_nat_numeral split: option.split)
      then show ?thesis using next3 Some k "1.prems"(4) by (auto split: option.splits)
    qed
  qed
qed

lemma tokenizeProgram_ok: "list_all token_ok (fst (tokenizeProgram s))"
  unfolding tokenizeProgram_def by (rule bounded_ok [OF lex_ok])

text \<open>
  Where the hook reads a start directory off a line's leading \<open>cd DIR &&\<close> steps, within
  the bound, the program search steps over those steps and no others.
\<close>

theorem leading_readings_agree:
  assumes "leadingDirectories cmd = (dirs, True)" and "length dirs \<le> MaxLeadingCd" and "dirs \<noteq> []"
  shows "\<exists>p. directoryChanges (fst (tokenizeProgram cmd)) 0 False = (3 * length dirs, length dirs, p)"
proof -
  let ?toks = "fst (tokenizeProgram cmd)"
  have run: "leadingRun_loop ?toks 0 [] = (dirs, True)"
    using assms(1) by (auto simp: leadingDirectories_def leadingRun_def split: if_splits)
  note agree = leadingRun_loop_agrees [OF run assms(2) tokenizeProgram_ok]
  then obtain k where k: "programToken ?toks False = Some k"
    using assms(3) by (auto split: option.splits)
  moreover have "k = 0"
  proof -
    have "leadingCd ?toks \<noteq> None"
      using run k assms(3)
      by (subst (asm) leadingRun_loop.simps) (auto split: if_splits option.splits dest!: programToken_at simp: program_at_def)
    then show ?thesis using programToken_leadingCd [of 0 ?toks _ False k] tokenizeProgram_ok k by auto
  qed
  ultimately show ?thesis using agree by (auto simp: directoryChanges_def)
qed

theorem leading_readings_agree_witness:
  "\<exists>p. directoryChanges (fst (tokenizeProgram ''cd sub && make'')) 0 False = (3, 1, p)"
proof -
  obtain ts where ts: "lexTo (joinLines ''cd sub && make'' True) True False 9 = (ts, None)"
    "length ts \<le> 9" "leadingRun (ts, None) = ([''sub''], True)"
    by (rule that [of "fst (lexTo (joinLines ''cd sub && make'' True) True False 9)"]) code_simp+
  have "tokenizeProgram ''cd sub && make'' = (ts, None)"
    by (rule tokenizeProgram_within [OF ts(1,2)]) (simp add: maxTokens_def shapeBudget_def bytesPerToken_def)
  then have "leadingDirectories ''cd sub && make'' = ([''sub''], True)"
    using ts(3) by (simp add: leadingDirectories_def)
  from leading_readings_agree [OF this] show ?thesis by (simp add: MaxLeadingCd_def)
qed

end
