(* ===== verification/ShapeWords.thy ===== *)
theory ShapeWords
  imports GoStrings
begin

text \<open>
  The closed words the recorder classifies a call with, \<^verbatim>\<open>internal/shape\<close>: the verb
  classes (shape.go), the status_masked words (masked.go), the runner rows and their
  ids (runner.go, masked.go, masked_name.go), the pipe stages and their ids
  (masked_name.go), the key a run and a gate meet at (\<open>RunnerKey\<close>), and the two
  classifications every reader of the record shares, \<open>GateRun\<close> and \<open>WrapperRun\<close>
  (gaterun.go). A string field of a record holds one of the closed words or any other
  text, so each vocabulary is a datatype with a last constructor for the rest.
\<close>

datatype verb_class =
  VerbRead | VerbWrite | VerbNetwork | VerbExecute | VerbVCS | VerbPackage | VerbAgent
| VerbMCP | VerbUnknown | VerbTest | VerbOther string

datatype masked_word = MaskedNone | MaskedTest | MaskedBuild | MaskedOther string

text \<open>The rules versions at which a reader may trust a word (masked_name.go, masked_probe.go).\<close>

definition OutputOutcomeRulesVersion :: int where
  "OutputOutcomeRulesVersion = 11"

definition PrintedStatusRulesVersion :: int where
  "PrintedStatusRulesVersion = 12"

section \<open>Runner rows and their names\<close>

definition testCommands :: "string list list" where
  "testCommands = [
    [''pytest''], [''jest''], [''vitest''], [''mocha''], [''rspec''], [''phpunit''],
    [''ctest''], [''tox''], [''nox''], [''go'', ''test''], [''cargo'', ''test''],
    [''npm'', ''test''], [''npm'', ''t''], [''npm'', ''run'', ''test''],
    [''yarn'', ''test''], [''pnpm'', ''test''], [''bun'', ''test''],
    [''dotnet'', ''test''], [''mvn'', ''test''], [''mvnw'', ''test''],
    [''gradle'', ''test''], [''gradlew'', ''test''], [''make'', ''test''],
    [''python'', ''-m'', ''pytest''], [''python3'', ''-m'', ''pytest''],
    [''python'', ''-m'', ''unittest''], [''python3'', ''-m'', ''unittest''],
    [''npx'', ''jest''], [''npx'', ''vitest''], [''uv'', ''run'', ''pytest''],
    [''poetry'', ''run'', ''pytest''], [''bundle'', ''exec'', ''rspec''],
    [''rake'', ''test''], [''composer'', ''test''], [''mix'', ''test''],
    [''bazel'', ''test'']]"

definition lintCommands :: "string list list" where
  "lintCommands = [
    [''golangci-lint'', ''run''], [''go'', ''vet''], [''staticcheck''],
    [''ruff'', ''check''], [''flake8''], [''pylint''], [''eslint''],
    [''npx'', ''eslint''], [''cargo'', ''clippy''], [''rubocop'']]"

definition typecheckCommands :: "string list list" where
  "typecheckCommands = [
    [''mypy''], [''python'', ''-m'', ''mypy''], [''python3'', ''-m'', ''mypy''],
    [''pyright''], [''tsc'', ''--noEmit''], [''npx'', ''tsc'', ''--noEmit''],
    [''cargo'', ''check'']]"

definition scanCommands :: "string list list" where
  "scanCommands = [
    [''semgrep''], [''bandit''], [''gosec''], [''govulncheck''],
    [''gitleaks'', ''detect''], [''pip-audit''], [''npm'', ''audit''],
    [''cargo'', ''audit'']]"

definition buildCommands :: "string list list" where
  "buildCommands = [
    [''make''], [''gmake''], [''go'', ''build''], [''cargo'', ''build''],
    [''npm'', ''run''], [''yarn'', ''run''], [''yarn'', ''build''],
    [''pnpm'', ''run''], [''pnpm'', ''build''], [''tsc''], [''npx'', ''tsc''],
    [''mvn''], [''mvnw''], [''gradle''], [''gradlew''], [''dotnet'', ''build''],
    [''cmake'', ''--build''], [''ninja''], [''bazel'', ''build'']]"

definition rowNames :: "string list list \<Rightarrow> string list" where
  "rowNames rows = map (\<lambda>r. Join r '' '') rows"

text \<open>A runner list: the kind it gives a runner, the masked word, its rows.\<close>

record runnerList =
  rl_kind :: string
  rl_masked :: masked_word
  rl_rows :: "string list list"

definition runnerLists :: "runnerList list" where
  "runnerLists =
     [\<lparr>rl_kind = ''test'', rl_masked = MaskedTest, rl_rows = testCommands\<rparr>,
      \<lparr>rl_kind = ''lint'', rl_masked = MaskedBuild, rl_rows = lintCommands\<rparr>,
      \<lparr>rl_kind = ''typecheck'', rl_masked = MaskedBuild, rl_rows = typecheckCommands\<rparr>,
      \<lparr>rl_kind = ''scan'', rl_masked = MaskedBuild, rl_rows = scanCommands\<rparr>,
      \<lparr>rl_kind = ''build'', rl_masked = MaskedBuild, rl_rows = buildCommands\<rparr>]"

definition rl_names :: "runnerList \<Rightarrow> string list" where
  "rl_names l = rowNames (rl_rows l)"

definition RunnerNames :: "string list" where
  "RunnerNames = concat (map rl_names runnerLists)"

text \<open>
  The id map is filled from the last name to the first, so the first of two equal names
  keeps its place, and not at all past 255 names (the loop's own bound); a name that is
  no key reads 0, Go's zero value.
\<close>

fun fill_ids :: "string list \<Rightarrow> nat \<Rightarrow> (string \<rightharpoonup> nat)" where
  "fill_ids [] i = Map.empty"
| "fill_ids (w # ws) i = (fill_ids ws (Suc i))(w \<mapsto> Suc i)"

definition RunnerNameID :: "string \<Rightarrow> nat" where
  "RunnerNameID name =
     (if length RunnerNames \<le> 255 then case fill_ids RunnerNames 0 name of None \<Rightarrow> 0 | Some i \<Rightarrow> i
      else 0)"

fun nth_in_lists :: "string list list \<Rightarrow> nat \<Rightarrow> string" where
  "nth_in_lists [] i = []"
| "nth_in_lists (n # ns) i = (if i < length n then n ! i else nth_in_lists ns (i - length n))"

definition RunnerNameOf :: "nat \<Rightarrow> string" where
  "RunnerNameOf i = (if i = 0 then [] else nth_in_lists (map rl_names runnerLists) (i - 1))"

section \<open>Pipe stages\<close>

definition stageNames :: "string list" where
  "stageNames = [''other'', ''tail'', ''tee'', ''cat'', ''head'', ''grep'', ''wc'', ''sort'', ''cut'']"

fun index_id :: "string list \<Rightarrow> nat \<Rightarrow> string \<Rightarrow> nat" where
  "index_id [] i word = 0"
| "index_id (w # ws) i word = (if w = word then Suc i else index_id ws (Suc i) word)"

definition MaskedByID :: "string \<Rightarrow> nat" where
  "MaskedByID word = index_id stageNames 0 word"

definition MaskedByOf :: "nat \<Rightarrow> string" where
  "MaskedByOf i = (if 0 < i \<and> i - 1 < length stageNames then stageNames ! (i - 1) else [])"

definition MaskedByKeeps :: "string \<Rightarrow> bool" where
  "MaskedByKeeps word \<longleftrightarrow> word = stageNames ! 1 \<or> word = stageNames ! 2 \<or> word = stageNames ! 3"

section \<open>The key a gate and a run meet at\<close>

definition launcherRows :: "string list" where
  "launcherRows = [''make'', ''gmake'', ''npm run'', ''yarn run'', ''pnpm run'', ''mvn'', ''mvnw'',
                   ''gradle'', ''gradlew'', ''ninja'']"

definition sameWork :: "(string \<times> string) list" where
  "sameWork =
     [(''python -m pytest'', ''pytest''), (''python3 -m pytest'', ''pytest''),
      (''uv run pytest'', ''pytest''), (''poetry run pytest'', ''pytest''),
      (''python -m unittest'', ''python3 -m unittest''),
      (''npx jest'', ''jest''), (''npx vitest'', ''vitest''), (''bundle exec rspec'', ''rspec''),
      (''npm t'', ''npm test''), (''npm run test'', ''npm test''),
      (''mvnw test'', ''mvn test''), (''gradlew test'', ''gradle test'')]"

definition same_name :: "string \<Rightarrow> string" where
  "same_name name = foldl (\<lambda>n w. if fst w = n then snd w else n) name sameWork"

definition RunnerKey :: "string \<Rightarrow> string option \<Rightarrow> string option" where
  "RunnerKey name digest =
     (case digest of None \<Rightarrow> None
      | Some d \<Rightarrow> if name \<noteq> [] \<and> name \<notin> set launcherRows then Some (CHR 0x00 # same_name name)
                  else Some d)"

section \<open>Gate runs and wrapper runs\<close>

definition GateRun :: "string option \<Rightarrow> masked_word option \<Rightarrow> verb_class \<Rightarrow> bool" where
  "GateRun runnerDigest statusMasked verbClass \<longleftrightarrow>
     runnerDigest \<noteq> None \<or> statusMasked = Some MaskedTest \<or> statusMasked = Some MaskedBuild
     \<or> verbClass = VerbTest"

definition WrapperRun ::
    "string \<Rightarrow> bool \<Rightarrow> string option \<Rightarrow> masked_word option \<Rightarrow> verb_class \<Rightarrow> bool" where
  "WrapperRun toolName launch runnerDigest statusMasked verbClass \<longleftrightarrow>
     toolName = ''Bash'' \<and> launch \<and> \<not> GateRun runnerDigest statusMasked verbClass"

definition wrapperProgram :: "string option \<Rightarrow> bool" where
  "wrapperProgram program =
     (case program of None \<Rightarrow> False
      | Some p \<Rightarrow> p \<in> {''bash'', ''sh'', ''zsh'', ''dash'', ''ksh''} \<or> HasSuffix p ''.sh'' \<or> HasSuffix p ''.bash'')"

definition RecordedLaunch :: "string option \<Rightarrow> bool \<Rightarrow> bool \<Rightarrow> bool" where
  "RecordedLaunch program launch recorded = (if recorded then launch else wrapperProgram program)"

section \<open>Facts\<close>

lemma fill_ids_dom: "dom (fill_ids ws i) = set ws"
  by (induction ws arbitrary: i) auto

lemma fill_ids_nth:
  "distinct ws \<Longrightarrow> k < length ws \<Longrightarrow> fill_ids ws i (ws ! k) = Some (Suc (i + k))"
proof (induction ws arbitrary: i k)
  case (Cons w ws)
  then show ?case
    by (cases k) auto
qed simp

lemma nth_in_lists_concat: "i < length (concat ns) \<Longrightarrow> nth_in_lists ns i = concat ns ! i"
  by (induction ns arbitrary: i) (auto simp: nth_append)

lemma index_id_nth: "distinct ws \<Longrightarrow> k < length ws \<Longrightarrow> index_id ws i (ws ! k) = Suc (i + k)"
proof (induction ws arbitrary: i k)
  case (Cons w ws)
  then show ?case by (cases k) auto
qed simp

lemma index_id_absent: "w \<notin> set ws \<Longrightarrow> index_id ws i w = 0"
  by (induction ws arbitrary: i) auto

lemma RunnerNames_distinct: "distinct RunnerNames"
  by code_simp

lemma RunnerNames_length: "length RunnerNames = 80"
  by code_simp

lemma RunnerNames_blank: "[] \<notin> set RunnerNames"
  by code_simp

lemma stageNames_distinct: "distinct stageNames"
  by (simp add: stageNames_def)

interpretation stage_codec: word_codec stageNames MaskedByID MaskedByOf
proof unfold_locales
  fix w assume "w \<in> set stageNames"
  then obtain k where k: "k < length stageNames" "w = stageNames ! k"
    by (auto simp: in_set_conv_nth)
  then have "MaskedByID w = Suc k"
    by (simp add: MaskedByID_def index_id_nth stageNames_distinct)
  with k show "MaskedByOf (MaskedByID w) = w" "0 < MaskedByID w"
    by (simp_all add: MaskedByOf_def)
next
  show "\<And>w. w \<notin> set stageNames \<Longrightarrow> MaskedByID w = 0"
    by (simp add: MaskedByID_def index_id_absent)
  show "MaskedByOf 0 = []" by (simp add: MaskedByOf_def)
  show "[] \<notin> set stageNames" by (simp add: stageNames_def)
qed

interpretation runner_codec: word_codec RunnerNames RunnerNameID RunnerNameOf
proof unfold_locales
  fix w assume "w \<in> set RunnerNames"
  then obtain k where k: "k < length RunnerNames" "w = RunnerNames ! k"
    by (auto simp: in_set_conv_nth)
  then have id: "RunnerNameID w = Suc k"
    using fill_ids_nth [OF RunnerNames_distinct, of k 0]
    by (simp add: RunnerNameID_def RunnerNames_length)
  show "RunnerNameOf (RunnerNameID w) = w"
  proof -
    have "nth_in_lists (map rl_names runnerLists) k = RunnerNames ! k"
      using k(1) by (simp add: RunnerNames_def nth_in_lists_concat)
    then show ?thesis unfolding id RunnerNameOf_def by (simp add: k(2))
  qed
  show "0 < RunnerNameID w" by (simp add: id)
next
  fix w assume "w \<notin> set RunnerNames"
  then have "fill_ids RunnerNames 0 w = None"
    using fill_ids_dom [of RunnerNames 0] by (metis domIff)
  then show "RunnerNameID w = 0" by (simp add: RunnerNameID_def)
next
  show "RunnerNameOf 0 = []" by (simp add: RunnerNameOf_def)
  show "[] \<notin> set RunnerNames" by (rule RunnerNames_blank)
qed

lemma foldl_rename_absent:
  "n \<notin> set (map fst ws) \<Longrightarrow> foldl (\<lambda>n w. if fst w = n then snd w else n) n ws = n"
  by (induction ws) auto

lemma foldl_rename_range:
  "foldl (\<lambda>n w. if fst w = n then snd w else n) n ws \<in> insert n (snd ` set ws)"
proof (induction ws arbitrary: n)
  case (Cons w ws)
  show ?case using Cons [of n] Cons [of "snd w"] by auto
qed simp

lemma foldl_rename_done:
  assumes "snd ` set ws \<inter> fst ` set ws = {}"
  shows "foldl (\<lambda>n w. if fst w = n then snd w else n) n ws \<notin> fst ` set ws"
  using assms
proof (induction ws arbitrary: n)
  case (Cons w ws)
  from Cons.prems have dj: "snd ` set ws \<inter> fst ` set ws = {}" by auto
  show ?case
  proof (cases "fst w = n")
    case True
    from Cons.prems have "snd w \<notin> set (map fst (w # ws))" by auto
    then show ?thesis using True by (simp add: foldl_rename_absent)
  next
    case False
    moreover have "fst w \<notin> snd ` set ws" using Cons.prems by auto
    ultimately have "foldl (\<lambda>n w. if fst w = n then snd w else n) n ws \<noteq> fst w"
      using foldl_rename_range [of n ws] by (metis insertE)
    then show ?thesis using Cons.IH [OF dj, of n] False by simp
  qed
qed simp

lemma sameWork_disjoint: "snd ` set sameWork \<inter> fst ` set sameWork = {}"
  by (simp add: sameWork_def)

lemma same_name_idem: "same_name (same_name n) = same_name n"
  using foldl_rename_done [OF sameWork_disjoint, of n] foldl_rename_absent [of "same_name n" sameWork]
  by (simp add: same_name_def)

end
