(* ===== verification/Verb.thy ===== *)
theory Verb
  imports Leading ShapeWords
begin

text \<open>
  What a command line does by its programs, \<^verbatim>\<open>internal/shape/verb.go\<close> and \<^verbatim>\<open>runner.go\<close>: the verb
  of a tool and of a program, the words that make a runner's command no run of it, the rows of
  the runner lists as a command matches them, and whether a line may write. Words compare
  without case as ASCII.
\<close>

section \<open>Verbs\<close>

definition readTools :: "string list" where
  "readTools = [''Read'', ''Glob'', ''Grep'', ''NotebookRead'']"

definition verbForTool :: "string \<Rightarrow> verb_class" where
  "verbForTool name =
     (if HasPrefix name ''mcp__'' then VerbMCP
      else if name \<in> set readTools then VerbRead
      else if name \<in> {''Write'', ''Edit'', ''MultiEdit'', ''NotebookEdit''} then VerbWrite
      else if name \<in> {''WebFetch'', ''WebSearch''} then VerbNetwork
      else if name \<in> {''Bash'', ''BashOutput'', ''KillShell''} then VerbExecute
      else if name \<in> {''Task'', ''Agent''} then VerbAgent
      else VerbUnknown)"

definition programVerb :: "(string list \<times> verb_class) list" where
  "programVerb =
     [([''cat'', ''less'', ''more'', ''head'', ''tail'', ''ls'', ''find'', ''grep'', ''rg'', ''wc'', ''stat'',
        ''file'', ''tree'', ''diff'', ''realpath'', ''pwd''], VerbRead),
      ([''rm'', ''mv'', ''cp'', ''mkdir'', ''rmdir'', ''touch'', ''tee'', ''ln'', ''chmod'', ''chown'', ''truncate''],
       VerbWrite),
      ([''curl'', ''wget'', ''ssh'', ''scp'', ''rsync'', ''nc'', ''dig'', ''host'', ''ping''], VerbNetwork),
      ([''git'', ''gh'', ''hg'', ''svn''], VerbVCS),
      ([''npm'', ''npx'', ''yarn'', ''pnpm'', ''pip'', ''pip3'', ''go'', ''cargo'', ''gem'', ''bundle'', ''brew'',
        ''apt'', ''apt-get'', ''uv'', ''poetry''], VerbPackage)]"

definition programVerb_of :: "string \<Rightarrow> verb_class option" where
  "programVerb_of prog = map_option snd (find (\<lambda>(ws, _). prog \<in> set ws) programVerb)"

definition verbForProgram :: "string \<Rightarrow> verb_class" where
  "verbForProgram prog = (case programVerb_of prog of Some v \<Rightarrow> v | None \<Rightarrow> VerbExecute)"

section \<open>Words that make a command no run\<close>

definition isFalse :: "string \<Rightarrow> bool" where
  "isFalse v = (v \<in> {''false'', ''False'', ''FALSE'', ''f'', ''F'', ''0''})"

definition CutSuffixByte :: "string \<Rightarrow> char \<Rightarrow> string option" where
  "CutSuffixByte s c = (if s \<noteq> [] \<and> last s = c then Some (butlast s) else None)"

definition onEntry :: "string \<Rightarrow> string \<Rightarrow> bool" where
  "onEntry word w =
     (case CutSuffixByte w CHR ''*'' of
        Some p \<Rightarrow> HasPrefix word p
      | None \<Rightarrow>
          (case Cut word CHR ''='' of
             (name, val, hasValue) \<Rightarrow>
               word = w \<or> hasValue \<and> HasPrefix w ''-'' \<and> name = w \<and> \<not> isFalse val))"

definition onList :: "string \<Rightarrow> string list \<Rightarrow> bool" where
  "onList word list = list_ex (onEntry word) list"

definition EqualFold :: "string \<Rightarrow> string \<Rightarrow> bool" where
  "EqualFold a b = (ToLower a = ToLower b)"

definition mavenTrue :: "string \<Rightarrow> string \<Rightarrow> bool" where
  "mavenTrue word p =
     (case Cut word CHR ''='' of
        (name, val, hasValue) \<Rightarrow> name = p \<and> (\<not> hasValue \<or> EqualFold val ''true''))"

definition mavenSkip :: "string \<Rightarrow> bool" where
  "mavenSkip word = list_ex (mavenTrue word) [''-DskipTests'', ''-Dmaven.test.skip'', ''-Dmaven.test.skip.exec'']"

text \<open>The runner whose refusals a row reads.\<close>

definition refusalsOf :: "string list \<Rightarrow> string" where
  "refusalsOf c =
     (if hd c \<in> {''npx'', ''uv'', ''poetry'', ''bundle''} then last c
      else if hd c = ''gradlew'' then ''gradle''
      else if hd c \<in> {''mvn'', ''mvnw''} then (if length c = 1 then ''mvn build'' else ''mvn'')
      else hd c)"

definition pytestNotARun :: "string list" where
  "pytestNotARun = [''--collect-only'', ''--co'', ''-V'', ''--fixtures*'', ''--markers'', ''--setup-plan'',
     ''--setup-only'', ''--cache-show*'']"

definition notARun :: "(string \<times> string list) list" where
  "notARun =
     [(''go'', [''-c'', ''--c'', ''-n'', ''--n'', ''-list*'', ''--list*'']),
      (''cargo'', [''--no-run'', ''--list'', ''-V'']),
      (''pytest'', pytestNotARun), (''python'', pytestNotARun), (''python3'', pytestNotARun),
      (''jest'', [''--listTests'', ''--showConfig'', ''--clearCache'', ''--init'', ''-v'']),
      (''vitest'', [''watch'', ''dev'', ''list'', ''bench'', ''init'', ''-w'', ''-v'']),
      (''mocha'', [''-w'', ''-V'', ''--dry-run'', ''--list-reporters'', ''--list-interfaces'']),
      (''rspec'', [''--dry-run'', ''--init'', ''-v'']),
      (''phpunit'', [''--list-*'', ''--generate-configuration'', ''--migrate-configuration'', ''--check-version'']),
      (''ctest'', [''-N'', ''--show-only*'']),
      (''dotnet'', [''--list-tests'', ''-t'']),
      (''mvn'', [''-v'']),
      (''gradle'', [''--dry-run'', ''-m'', ''-v'', ''-t'', ''--continuous'']),
      (''make'', [''-n'', ''--just-print'', ''--dry-run'', ''--recon'', ''-q'', ''--question'', ''-t'', ''--touch'', ''-v'']),
      (''tox'', [''-e*'', ''--env*'', ''-m'', ''-f'', ''-l'', ''-a'', ''--listenvs*'', ''--showconfig'', ''--help-ini'',
         ''--notest'', ''--devenv*'', ''list'', ''l'', ''config'', ''c'', ''depends'', ''de'', ''quickstart'', ''q'',
         ''exec'', ''e'', ''devenv'', ''d'']),
      (''nox'', [''-s*'', ''--session*'', ''-e*'', ''-k*'', ''--keywords*'', ''-t*'', ''--tags*'', ''-l'', ''--list*'',
         ''--install-only''])]"

definition notARunAny :: "string list" where
  "notARunAny = [''-h'', ''-help'', ''--help'', ''--version'', ''--watch'', ''--watchAll'']"

text \<open>\<open>strings.TrimSuffix(runner, " build")\<close>.\<close>

definition trim_build :: "string \<Rightarrow> string" where
  "trim_build runner = (if HasSuffix runner '' build'' then take (length runner - 6) runner else runner)"

definition refusals :: "string \<Rightarrow> string list" where
  "refusals runner = (case map_of notARun (trim_build runner) of Some l \<Rightarrow> l | None \<Rightarrow> [])"

definition refusesRun :: "string \<Rightarrow> token list \<Rightarrow> token list \<Rightarrow> bool" where
  "refusesRun runner before args =
     (if list_ex (\<lambda>t. onList (tk_text t) (refusals runner) \<or> onList (tk_text t) notARunAny \<or>
                      runner = ''mvn'' \<and> mavenSkip (tk_text t)) args then True
      else onList runner [''pytest'', ''python'', ''python3''] \<and>
           list_ex (\<lambda>t. HasPrefix (tk_text t) ''PYTEST_ADDOPTS='') before)"

section \<open>The rows of the runner lists\<close>

definition leadingFlags :: "(string \<times> string list) list" where
  "leadingFlags =
     (let maven = [''-B'', ''-q'', ''-fn!'', ''--fail-never!'', ''-Dmaven.test.failure.ignore!''];
          gradle = [''--no-daemon''];
          python = [''-u''] in
      [(''make'', [''-j#'', ''-i!'', ''--ignore-errors!'']),
       (''mvn'', maven), (''mvnw'', maven),
       (''cargo'', [''+*'']),
       (''gradle'', gradle), (''gradlew'', gradle),
       (''python'', python), (''python3'', python),
       (''npx'', [''--yes'', ''-y'']),
       (''npm'', [''--if-present!'']),
       (''bazel'', [''--output_base=*''])])"

definition flags_of :: "string \<Rightarrow> string list" where
  "flags_of prog = (case map_of leadingFlags prog of Some l \<Rightarrow> l | None \<Rightarrow> [])"

definition allDigits :: "string \<Rightarrow> bool" where
  "allDigits s = list_all isDigit s"

definition hidingWord :: "string \<Rightarrow> string \<Rightarrow> bool" where
  "hidingWord word name = (if HasPrefix name ''-D'' then mavenTrue word name else onEntry word name)"

definition hidingFlag :: "string \<Rightarrow> string \<Rightarrow> bool" where
  "hidingFlag word prog =
     list_ex (\<lambda>f. case CutSuffixByte f CHR ''!'' of Some name \<Rightarrow> hidingWord word name | None \<Rightarrow> False) (flags_of prog)"

definition literalWord :: "token list \<Rightarrow> nat \<Rightarrow> bool" where
  "literalWord toks k =
     (let t = toks ! k in
      \<not> (tk_meta t \<or> tk_quotedAt t \<noteq> None \<or> tk_opaque t \<or> tk_ticks t > 0 \<or> runsOn toks k \<or>
          ContainsAny (tk_text t) (''$*?[{'' @ [btick, bsl])))"

text \<open>One entry of \<open>leadingFlags\<close> against a word: \<open>!\<close> hides, \<open>*\<close> is a prefix, \<open>#\<close> takes a count.\<close>

definition flag_entry :: "string \<Rightarrow> string \<Rightarrow> bool" where
  "flag_entry text f =
     (case CutSuffixByte f CHR ''!'' of
        Some name \<Rightarrow> hidingWord text name
      | None \<Rightarrow>
          (case CutSuffixByte f CHR ''*'' of
             Some p \<Rightarrow> HasPrefix text p
           | None \<Rightarrow>
               (case CutSuffixByte f CHR ''#'' of
                  Some p \<Rightarrow> HasPrefix text p \<and> allDigits (drop (length p) text)
                | None \<Rightarrow> text = f)))"

definition leadingFlag :: "token list \<Rightarrow> nat \<Rightarrow> string \<Rightarrow> bool" where
  "leadingFlag toks k prog = (literalWord toks k \<and> list_ex (flag_entry (tk_text (toks ! k))) (flags_of prog))"

definition countFollows :: "token list \<Rightarrow> nat \<Rightarrow> string \<Rightarrow> bool" where
  "countFollows toks k prog =
     (if \<not> list_ex (\<lambda>f. CutSuffixByte f CHR ''#'' = Some (tk_text (toks ! k))) (flags_of prog) then False
      else (let n = tk_text (toks ! (k + 1)) in literalWord toks (k + 1) \<and> n \<noteq> [] \<and> allDigits n))"

fun row_words :: "token list \<Rightarrow> nat \<Rightarrow> nat \<Rightarrow> string list \<Rightarrow> bool" where
  "row_words toks k e [] = True"
| "row_words toks k e (w # ws) =
     (if k \<ge> e then False
      else if tk_quotedAt (toks ! k) \<noteq> None \<or> tk_text (toks ! k) \<noteq> w \<or> runsOn toks k then False
      else row_words toks (k + 1) e ws)"

definition rowAt :: "token list \<Rightarrow> nat \<Rightarrow> nat \<Rightarrow> string list \<Rightarrow> bool" where
  "rowAt toks from e c = row_words toks from e (tl c)"

text \<open>Past the flags before a row's words: where they begin, if they do, and whether a flag hides the status.\<close>

function past_flags :: "token list \<Rightarrow> nat \<Rightarrow> nat \<Rightarrow> string \<Rightarrow> string list \<Rightarrow> bool \<Rightarrow> nat option \<times> bool" where
  "past_flags toks from e prog c hides =
     (if rowAt toks from e c then (Some from, hides)
      else if from \<ge> e \<or> \<not> leadingFlag toks from prog then (None, hides)
      else past_flags toks
             (if from + 1 < e \<and> countFollows toks from prog then from + 2 else from + 1) e prog c
             (hides \<or> hidingFlag (tk_text (toks ! from)) prog))"
  by pat_completeness auto
termination by (relation "measure (\<lambda>(_, from, e, _). e - from)") auto

declare past_flags.simps [simp del]

definition slice_tokens :: "token list \<Rightarrow> nat \<Rightarrow> nat \<Rightarrow> token list" where
  "slice_tokens toks a b = take (b - a) (drop a toks)"

fun runner_rows ::
  "token list \<Rightarrow> nat \<Rightarrow> string \<Rightarrow> nat \<Rightarrow> string list list \<Rightarrow> nat \<Rightarrow> bool \<Rightarrow> nat option \<times> bool" where
  "runner_rows toks i prog e [] n hides = (None, hides)"
| "runner_rows toks i prog e (c # cs) n hides =
     (if hd c \<noteq> prog then runner_rows toks i prog e cs (n + 1) hides
      else (case past_flags toks (i + 1) e prog c False of
              (None, hides) \<Rightarrow> runner_rows toks i prog e cs (n + 1) hides
            | (Some from, hides) \<Rightarrow>
                let args = slice_tokens toks (from + length c - 1) e in
                if refusesRun (refusalsOf c) (take i toks) args then (None, False)
                else (Some n, hides \<or> list_ex (\<lambda>t. hidingFlag (tk_text t) prog) args)))"

definition runnerRow :: "token list \<Rightarrow> nat \<Rightarrow> string \<Rightarrow> nat \<Rightarrow> string list list \<Rightarrow> nat option \<times> bool" where
  "runnerRow toks i prog e list = runner_rows toks i prog e list 0 False"

definition runnerOn :: "token list \<Rightarrow> nat \<Rightarrow> string \<Rightarrow> nat \<Rightarrow> string list list \<Rightarrow> bool \<times> bool" where
  "runnerOn toks i prog e list =
     (case runnerRow toks i prog e list of (row, hides) \<Rightarrow> (row \<noteq> None, hides))"

section \<open>A test run\<close>

definition isDuration :: "string \<Rightarrow> bool" where
  "isDuration w0 =
     (let w = (if w0 \<noteq> [] \<and> last w0 \<in> set ''smhd'' then butlast w0 else w0) in
      case Cut w CHR ''.'' of
        (whole, frac, dot) \<Rightarrow> whole \<noteq> [] \<and> allDigits whole \<and> allDigits frac \<and> (\<not> dot \<or> frac \<noteq> []))"

definition plain_at :: "token list \<Rightarrow> nat \<Rightarrow> bool" where
  "plain_at toks j =
     (if j \<ge> length toks then False
      else (let t = toks ! j in
            \<not> tk_meta t \<and> \<not> tk_nlBefore t \<and> \<not> tk_opaque t \<and> tk_quotedAt t = None \<and> \<not> runsOn toks j))"

definition word_at :: "token list \<Rightarrow> nat \<Rightarrow> bool" where
  "word_at toks j = (plain_at toks j \<and> plainWord (tk_text (toks ! j)))"

text \<open>Past a \<open>timeout\<close> and a \<open>time\<close>: the program they run, if it is plain.\<close>

definition past_timeout :: "token list \<Rightarrow> nat \<Rightarrow> string \<Rightarrow> nat \<times> string \<times> bool" where
  "past_timeout toks i prog =
     (if prog \<noteq> ''timeout'' then (i, prog, True)
      else if \<not> plain_at toks (i + 1) \<or> \<not> isDuration (tk_text (toks ! (i + 1))) \<or> \<not> word_at toks (i + 2)
      then (i, prog, False)
      else (i + 2, Base (tk_text (toks ! (i + 2))), True))"

definition past_time :: "token list \<Rightarrow> nat \<Rightarrow> string \<Rightarrow> nat \<times> string \<times> bool" where
  "past_time toks i prog =
     (if prog \<noteq> ''time'' then (i, prog, True)
      else (let n = (if i + 1 < length toks \<and> tk_text (toks ! (i + 1)) = ''-p'' \<and> word_at toks (i + 1)
                     then i + 2 else i + 1) in
            if \<not> word_at toks n then (i, prog, False) else (n, Base (tk_text (toks ! n)), True)))"

definition runnerPrefix :: "token list \<Rightarrow> nat \<Rightarrow> string \<Rightarrow> nat \<times> string \<times> bool" where
  "runnerPrefix toks i prog =
     (case past_timeout toks i prog of
        (i, prog, ok) \<Rightarrow> if \<not> ok then (i, prog, False) else past_time toks i prog)"

definition wholeCommand :: "token list \<Rightarrow> nat \<Rightarrow> bool" where
  "wholeCommand toks i =
     (if list_ex tk_nlBefore (drop (i + 1) toks) then False else closesGroups toks i)"

definition runsTests :: "token list \<Rightarrow> nat \<Rightarrow> string \<Rightarrow> bool \<Rightarrow> bool" where
  "runsTests toks i prog whole =
     (if \<not> whole then False
      else (case runnerPrefix toks i prog of
              (i, prog, ok) \<Rightarrow>
                if \<not> ok then False
                else (case runnerOn toks i prog (length toks) testCommands of
                        (on, hides) \<Rightarrow> on \<and> \<not> hides \<and> wholeCommand toks i)))"

section \<open>Whether a line may write\<close>

definition inPlaceEditors :: "(string \<times> string list) list" where
  "inPlaceEditors =
     [(''sed'', [''-i*'', ''-I*'', ''--in-place*'']), (''perl'', [''-i*'', ''-pi*'', ''-ni*'', ''-0pi*'']),
      (''gofmt'', [''-w'']), (''go'', [''fmt'']), (''cargo'', [''fmt'']), (''ruff'', [''format'']),
      (''prettier'', [''--write'', ''-w'']), (''clang-format'', [''-i'']), (''eslint'', [''--fix'']),
      (''black'', []), (''isort'', []), (''rustfmt'', [])]"

record shortCluster =
  sc_letters :: string
  sc_consumes :: string

definition shortClusters :: "(string \<times> shortCluster) list" where
  "shortClusters =
     [(''sed'', \<lparr>sc_letters = ''iI'', sc_consumes = ''ef''\<rparr>),
      (''perl'', \<lparr>sc_letters = ''i'', sc_consumes = ''eEMmIFx''\<rparr>)]"

definition checkOnly :: "string list" where
  "checkOnly = [''--check'', ''--check-only'', ''--diff'', ''--list-different'', ''--dry-run'', ''--help'',
     ''--version'', ''-h'']"

fun cluster_letter :: "string \<Rightarrow> shortCluster \<Rightarrow> bool" where
  "cluster_letter [] c = False"
| "cluster_letter (x # xs) c =
     (if x \<in> set (sc_letters c) then True
      else if x \<in> set (sc_consumes c) then False
      else cluster_letter xs c)"

definition clusterHas :: "string \<Rightarrow> shortCluster \<Rightarrow> bool" where
  "clusterHas tok c =
     (if length tok < 2 \<or> hd tok \<noteq> CHR ''-'' \<or> \<not> (isLetter (tok ! 1) \<or> tok ! 1 = CHR ''0'') \<or> CHR ''='' \<in> set tok
      then False
      else cluster_letter (tl tok) c)"

record editing =
  ed_flags :: "string list option"
  ed_armed :: bool
  ed_checking :: bool
  ed_cluster :: "shortCluster option"

definition no_editor :: editing where
  "no_editor = \<lparr>ed_flags = None, ed_armed = False, ed_checking = False, ed_cluster = None\<rparr>"

definition edit_word :: "string \<Rightarrow> editing \<Rightarrow> editing" where
  "edit_word text st =
     (case map_of inPlaceEditors (Base text) of
        Some f \<Rightarrow> st\<lparr>ed_flags := Some f, ed_armed := (f = []), ed_cluster := map_of shortClusters (Base text)\<rparr>
      | None \<Rightarrow>
          (case ed_flags st of
             None \<Rightarrow> st
           | Some flags \<Rightarrow>
               if onList text checkOnly then st\<lparr>ed_checking := True\<rparr>
               else if onList text flags then st\<lparr>ed_armed := True\<rparr>
               else (case ed_cluster st of
                       None \<Rightarrow> st
                     | Some c \<Rightarrow> if clusterHas text c then st\<lparr>ed_armed := True\<rparr> else st)))"

function edit_loop :: "token list \<Rightarrow> nat \<Rightarrow> editing \<Rightarrow> bool" where
  "edit_loop toks j st =
     (if j \<ge> length toks then ed_armed st \<and> \<not> ed_checking st
      else if stageSeparator toks j
      then (if ed_armed st \<and> \<not> ed_checking st then True else edit_loop toks (j + 1) no_editor)
      else if tk_meta (toks ! j) then edit_loop toks (j + 1) st
      else edit_loop toks (j + 1) (edit_word (tk_text (toks ! j)) st))"
  by pat_completeness auto
termination by (relation "measure (\<lambda>(toks, j, _). length toks - j)") auto

declare edit_loop.simps [simp del]

definition inPlaceEdit :: "token list \<Rightarrow> bool" where
  "inPlaceEdit toks = edit_loop toks 0 no_editor"

definition devFile :: "string \<Rightarrow> bool" where
  "devFile target = (target \<in> {''/dev/null'', ''/dev/stdout'', ''/dev/stderr'', ''/dev/tty''})"

definition outputRedirect :: "token list \<Rightarrow> nat \<Rightarrow> bool" where
  "outputRedirect toks j =
     (let t = toks ! j in
      if tk_text t \<noteq> ''>'' \<and> tk_text t \<noteq> ''>>'' then False
      else if j > 0 \<and> tk_meta (toks ! (j - 1)) \<and> tk_text (toks ! (j - 1)) = ''<'' \<and> tk_glued t then True
      else (let e = operatorEnd toks j;
                dup = list_ex (\<lambda>k. tk_text (toks ! k) = ''&'') [j + 1..<e + 1] in
            if e + 1 \<ge> length toks \<or> tk_meta (toks ! (e + 1)) then e + 1 < length toks
            else (let target = tk_text (toks ! (e + 1)) in
                  if dup \<and> (target = ''-'' \<or> isFDPrefix (toks ! (e + 1))) then False
                  else \<not> devFile target)))"

definition gluedParen :: "token list \<Rightarrow> nat \<Rightarrow> bool" where
  "gluedParen toks j =
     (j < length toks \<and> tk_meta (toks ! j) \<and> tk_glued (toks ! j) \<and> tk_text (toks ! j) = ''('')"

text \<open>Arithmetic where the paren that closes the one open is followed by another.\<close>

fun arith_close :: "string \<Rightarrow> nat \<Rightarrow> bool" where
  "arith_close [] depth = False"
| "arith_close (c # cs) depth =
     (if c = CHR ''('' then arith_close cs (depth + 1)
      else if c = CHR '')''
      then (if depth - 1 = 0 then HasPrefix cs '')'' else arith_close cs (depth - 1))
      else arith_close cs depth)"

definition arithmeticAt :: "string \<Rightarrow> bool" where
  "arithmeticAt s = arith_close s 1"

definition parenText :: "token list \<Rightarrow> string" where
  "parenText toks =
     (let piece = (\<lambda>t. if tk_meta t then tk_text t else ''w'') in
      case toks of [] \<Rightarrow> []
      | t # ts \<Rightarrow> piece t @ concat (map (\<lambda>t. (if tk_glued t then [] else '' '') @ piece t) ts))"

definition opensSubstitution :: "token list \<Rightarrow> nat \<Rightarrow> bool" where
  "opensSubstitution toks j =
     (let t = toks ! j in
      if \<not> gluedParen toks (j + 1) then False
      else if tk_meta t then tk_text t = ''<'' \<or> tk_text t = ''>''
      else HasSuffix (tk_text t) ''$'' \<and>
           \<not> (gluedParen toks (j + 2) \<and> arithmeticAt (parenText (drop (j + 3) toks))))"

fun holdsSubstitution :: "string \<Rightarrow> bool" where
  "holdsSubstitution [] = False"
| "holdsSubstitution (c # cs) =
     (if HasPrefix (c # cs) ''$('' \<and> (\<not> HasPrefix (drop 1 cs) ''('' \<or> \<not> arithmeticAt (drop 2 cs)) then True
      else holdsSubstitution cs)"

definition curlArgumentOptions :: string where
  "curlArgumentOptions = ''AbcCdDeEFhHKmPQrtTuUwxXyYz''"

fun curl_cluster :: "string \<Rightarrow> bool" where
  "curl_cluster [] = False"
| "curl_cluster (c # cs) =
     (if c = CHR ''o'' \<or> c = CHR ''O'' then True
      else if c \<in> set curlArgumentOptions then False
      else if isLetter c \<or> isDigit c \<or> c = CHR ''#'' \<or> c = CHR '':'' then curl_cluster cs
      else False)"

definition curlOutputFlag :: "string \<Rightarrow> bool" where
  "curlOutputFlag w =
     (if w \<in> {''--output'', ''--remote-name'', ''--remote-name-all'', ''--output-dir''} \<or>
         HasPrefix w ''--output='' \<or> HasPrefix w ''--output-dir='' then True
      else if length w > 1 \<and> hd w = CHR ''-'' \<and> w ! 1 \<noteq> CHR ''-'' then curl_cluster (tl w)
      else False)"

definition inlineWriters :: "string list" where
  "inlineWriters = [''xargs'', ''tee'', ''wget'', ''rsync'', ''scp'']"

definition findWriteWords :: "string list" where
  "findWriteWords = [''-delete'', ''-exec'', ''-execdir'', ''-ok'', ''-okdir'']"

record stageWrites =
  sw_edit :: bool
  sw_redirect :: bool
  sw_substitution :: bool
  sw_writer :: bool

text \<open>The words of a stage: a token that opens a substitution is passed over, and so is an operator.\<close>

definition stage_word :: "token list \<Rightarrow> nat \<Rightarrow> bool" where
  "stage_word toks j = (\<not> opensSubstitution toks j \<and> \<not> tk_meta (toks ! j))"

definition writesIn :: "token list \<Rightarrow> nat \<Rightarrow> nat \<Rightarrow> stageWrites" where
  "writesIn toks s e =
     (let js = [s..<e]; ws = filter (stage_word toks) js; text = (\<lambda>j. tk_text (toks ! j)) in
      \<lparr>sw_edit = inPlaceEdit (slice_tokens toks s e),
       sw_redirect = list_ex (\<lambda>j. \<not> opensSubstitution toks j \<and> tk_meta (toks ! j) \<and> outputRedirect toks j) js,
       sw_substitution =
         (list_ex (opensSubstitution toks) js \<or>
          list_ex (\<lambda>j. tk_ticks (toks ! j) > 0 \<or> tk_opaque (toks ! j) \<and> holdsSubstitution (text j)) ws),
       sw_writer =
         (list_ex (\<lambda>j. Base (text j) \<in> set inlineWriters \<or> text j \<in> set findWriteWords) ws \<or>
          list_ex (\<lambda>j. Base (text j) = ''curl'') ws \<and> list_ex (\<lambda>j. curlOutputFlag (text j)) ws)\<rparr>)"

definition stageMayWrite :: "token list \<Rightarrow> nat \<Rightarrow> nat \<Rightarrow> bool" where
  "stageMayWrite toks s e =
     (let w = writesIn toks s e in sw_edit w \<or> sw_redirect w \<or> sw_substitution w \<or> sw_writer w)"

definition readsOrPrints :: "string \<Rightarrow> bool" where
  "readsOrPrints prog = (verbForProgram prog = VerbRead \<or> prog \<in> {''echo'', ''date''})"

text \<open>Where the command a separator or a newline at \<open>j\<close> begins starts.\<close>

definition command_start :: "token list \<Rightarrow> nat \<Rightarrow> nat option" where
  "command_start toks j =
     (if stageSeparator toks j then Some (j + 1)
      else if tk_nlBefore (toks ! j) then Some j
      else None)"

function writes_after :: "token list \<Rightarrow> nat \<Rightarrow> bool" where
  "writes_after toks j =
     (if j \<ge> length toks then False
      else (case command_start toks j of
              None \<Rightarrow> writes_after toks (j + 1)
            | Some start \<Rightarrow>
                if start \<ge> length toks then False
                else (case programToken (drop start toks) False of
                        None \<Rightarrow> True
                      | Some k \<Rightarrow>
                          if \<not> readsOrPrints (Base (tk_text (toks ! (start + k)))) then True
                          else writes_after toks (j + 1))))"
  by pat_completeness auto
termination by (relation "measure (\<lambda>(toks, j). length toks - j)") auto

declare writes_after.simps [simp del]

definition mayWrite :: "token list \<Rightarrow> nat \<Rightarrow> bool" where
  "mayWrite toks i = (if stageMayWrite toks 0 (length toks) then True else writes_after toks (i + 1))"

section \<open>What the readings say\<close>

lemma past_flags_row: "past_flags toks fr e prog c h = (Some k, h') \<Longrightarrow> fr \<le> k \<and> rowAt toks k e c"
proof (induction toks fr e prog c h rule: past_flags.induct)
  case (1 toks fr e prog c h)
  show ?case
  proof (cases "rowAt toks fr e c")
    case True
    then show ?thesis using "1.prems" by (subst (asm) past_flags.simps) auto
  next
    case False
    then have on: "\<not> (fr \<ge> e \<or> \<not> leadingFlag toks fr prog)"
      using "1.prems" by (subst (asm) past_flags.simps) (auto split: if_splits)
    then have "past_flags toks (if fr + 1 < e \<and> countFollows toks fr prog then fr + 2 else fr + 1) e prog c
        (h \<or> hidingFlag (tk_text (toks ! fr)) prog) = (Some k, h')"
      using "1.prems" False by (subst (asm) past_flags.simps) (simp only: if_False)
    from "1.IH" [OF False on this] show ?thesis by (auto split: if_splits)
  qed
qed

text \<open>A command that is a run of the row \<open>c\<close>.\<close>

definition row_runs :: "token list \<Rightarrow> nat \<Rightarrow> string \<Rightarrow> nat \<Rightarrow> string list \<Rightarrow> bool" where
  "row_runs toks i prog e c \<longleftrightarrow> hd c = prog \<and>
     (\<exists>fr > i. rowAt toks fr e c \<and>
        \<not> refusesRun (refusalsOf c) (take i toks) (slice_tokens toks (fr + length c - 1) e))"

lemma runner_rows_row:
  "fst (runner_rows toks i prog e cs n h) = Some m \<Longrightarrow>
     \<exists>k < length cs. m = n + k \<and> row_runs toks i prog e (cs ! k)"
proof (induction toks i prog e cs n h rule: runner_rows.induct)
  case (2 toks i prog e c cs n h)
  obtain r h' where p: "past_flags toks (i + 1) e prog c False = (r, h')"
    by (cases "past_flags toks (i + 1) e prog c False")
  show ?case
  proof (cases "hd c \<noteq> prog \<or> r = None")
    case True
    then have "\<exists>k < length cs. m = n + 1 + k \<and> row_runs toks i prog e (cs ! k)"
      using "2.IH" "2.prems" p by (cases "hd c = prog") auto
    then obtain k where "k < length cs" "m = n + 1 + k" "row_runs toks i prog e (cs ! k)" by blast
    then show ?thesis by (intro exI [of _ "Suc k"]) simp
  next
    case False
    then obtain fr where r: "r = Some fr" by auto
    then have "i < fr \<and> rowAt toks fr e c" using past_flags_row p by fastforce
    then have "m = n \<and> row_runs toks i prog e c"
      using False p r "2.prems" by (auto simp: Let_def row_runs_def split: if_splits)
    then show ?thesis by (intro exI [of _ 0]) simp
  qed
qed simp

text \<open>
  A command a runner list names matches the words of one of the list's rows past its
  leading flags, and no word after them is one that makes it no run: a list, a help, a dry run.
\<close>

theorem runnerRow_runs:
  "case fst (runnerRow toks i prog e list) of None \<Rightarrow> True
   | Some n \<Rightarrow> n < length list \<and> row_runs toks i prog e (list ! n)"
  using runner_rows_row [of toks i prog e list 0 False]
  by (auto simp: runnerRow_def split: option.split)

text \<open>A command that starts past a separator or a newline reads or prints.\<close>

definition start_reads :: "token list \<Rightarrow> nat \<Rightarrow> bool" where
  "start_reads toks j =
     (case command_start toks j of
        None \<Rightarrow> True
      | Some start \<Rightarrow>
          if start \<ge> length toks then True
          else (case programToken (drop start toks) False of
                  None \<Rightarrow> False
                | Some k \<Rightarrow> readsOrPrints (Base (tk_text (toks ! (start + k))))))"

lemma writes_after_iff: "writes_after toks j \<longleftrightarrow> \<not> list_all (start_reads toks) [j..<length toks]"
proof (induction "length toks - j" arbitrary: j)
  case 0
  then show ?case by (subst writes_after.simps) simp
next
  case (Suc n)
  then have j: "j < length toks" by simp
  have ih: "writes_after toks (j + 1) \<longleftrightarrow> \<not> list_all (start_reads toks) [j + 1..<length toks]"
    using Suc(1) [of "j + 1"] Suc(2) by simp
  have split: "list_all (start_reads toks) [j..<length toks] \<longleftrightarrow>
      start_reads toks j \<and> list_all (start_reads toks) [j + 1..<length toks]"
    using j by (simp add: upt_conv_Cons)
  have last: "start_reads toks j \<and> list_all (start_reads toks) [j + 1..<length toks]"
    if "command_start toks j = Some start" "start \<ge> length toks" for start
    using that j by (auto simp: command_start_def start_reads_def split: if_splits)
  have e: "writes_after toks j =
      (case command_start toks j of
         None \<Rightarrow> writes_after toks (j + 1)
       | Some start \<Rightarrow>
           if start \<ge> length toks then False
           else (case programToken (drop start toks) False of
                   None \<Rightarrow> True
                 | Some k \<Rightarrow>
                     if \<not> readsOrPrints (Base (tk_text (toks ! (start + k)))) then True
                     else writes_after toks (j + 1)))"
    by (subst writes_after.simps) (use j in simp)
  show ?case
    unfolding e split using ih last
    by (auto simp: start_reads_def split: option.splits if_splits)
qed

lemma mayWrite_reads:
  "\<not> mayWrite toks i \<longleftrightarrow>
     \<not> stageMayWrite toks 0 (length toks) \<and> list_all (start_reads toks) [i + 1..<length toks]"
  by (simp add: mayWrite_def writes_after_iff)


end
