(* ===== verification/RuleMatch.thy ===== *)
theory RuleMatch
  imports Verb
begin

text \<open>
  A spec's command patterns against the commands of a recorded line, \<^verbatim>\<open>internal/verify\<close>
  (rules.go): what is certain, possible or excluded as a value of the three-point order
  \<open>tri\<close>, in which \<open>max\<close> joins alternatives and \<open>min\<close> conditions. The spec's records are those
  of \<^verbatim>\<open>internal/spec\<close> (file.go, discover.go, spec.go). Go's \<open>FlagValues\<close> map is an
  association list with distinct keys; \<^verbatim>\<open>strings.EqualFold\<close> folds ASCII letters.
\<close>

section \<open>Three values\<close>

datatype tri = TriNo | TriMaybe | TriYes

primrec tri_rank :: "tri \<Rightarrow> nat" where
  "tri_rank TriNo = 0"
| "tri_rank TriMaybe = 1"
| "tri_rank TriYes = 2"

lemma tri_rank_inj [simp]: "tri_rank a = tri_rank b \<longleftrightarrow> a = b"
  by (cases a; cases b) simp_all

instantiation tri :: linorder
begin

definition "a \<le> b \<longleftrightarrow> tri_rank a \<le> tri_rank b"
definition "a < b \<longleftrightarrow> tri_rank a < tri_rank b"

instance
  by standard (auto simp: less_eq_tri_def less_tri_def simp flip: tri_rank_inj)

end

definition triOf :: "bool \<Rightarrow> bool \<Rightarrow> tri" where
  "triOf every any = (if every then TriYes else if any then TriMaybe else TriNo)"

lemma tri_max_simps [simp]:
  "max TriNo t = t" "max t TriNo = t" "max TriYes t = TriYes" "max t TriYes = TriYes"
  "max TriMaybe TriMaybe = TriMaybe"
  by (cases t; simp add: max_def less_eq_tri_def)+

lemma tri_min_simps [simp]:
  "min TriYes t = t" "min t TriYes = t" "min TriNo t = TriNo" "min t TriNo = TriNo"
  "min TriMaybe TriMaybe = TriMaybe"
  by (cases t; simp add: min_def less_eq_tri_def)+

lemma tri_max_eq:
  "max a b = TriYes \<longleftrightarrow> a = TriYes \<or> b = TriYes"
  "max a b = TriNo \<longleftrightarrow> a = TriNo \<and> b = TriNo"
  by (cases a; cases b; simp)+

lemma tri_min_eq:
  "min a b = TriYes \<longleftrightarrow> a = TriYes \<and> b = TriYes"
  "min a b = TriNo \<longleftrightarrow> a = TriNo \<or> b = TriNo"
  by (cases a; cases b; simp)+

lemma triOf_eq [simp]:
  "triOf a b = TriYes \<longleftrightarrow> a"
  "triOf a b = TriNo \<longleftrightarrow> \<not> a \<and> \<not> b"
  "triOf a b = TriMaybe \<longleftrightarrow> \<not> a \<and> b"
  by (auto simp: triOf_def)

section \<open>The spec\<close>

record CommandMatch =
  cx_Argv :: "string list"
  cx_Flags :: "string list"
  cx_RequireFlags :: "string list"
  cx_FlagValues :: "(string \<times> string list) list"
  cx_SQL :: "string list"

definition ForbidCode :: string where "ForbidCode = ''forbid_code''"
definition ForbidCommand :: string where "ForbidCommand = ''forbid_command''"
definition ProtectPath :: string where "ProtectPath = ''protect_path''"
definition RequireEvidence :: string where "RequireEvidence = ''require_evidence''"
definition OrderKind :: string where "OrderKind = ''order''"

record Rule =
  ru_Kind :: string
  ru_HardControl :: string
  ru_Alternative :: string
  ru_Pattern :: string
  ru_Paths :: "string list"
  ru_ExcludePaths :: "string list"
  ru_Command :: "CommandMatch option"
  ru_Modes :: "string list"
  ru_At :: "string list"
  ru_Evidence :: "string list"
  ru_Then :: "CommandMatch option"
  ru_After :: "CommandMatch option"
  ru_SameRunKey :: "string list"
  ru_InvalidatedBy :: "string list"

section \<open>One command\<close>

definition rule_shells :: "string list" where
  "rule_shells = [''sh'', ''bash'', ''zsh'', ''dash'', ''ksh'', ''mksh'', ''ash'', ''fish'']"

definition isShell :: "string \<Rightarrow> bool" where
  "isShell p \<longleftrightarrow> p \<in> set rule_shells"

definition runWrappers :: "string list" where
  "runWrappers =
     [''sudo'', ''doas'', ''env'', ''nohup'', ''time'', ''nice'', ''exec'', ''command'', ''xargs'', ''timeout'',
      ''stdbuf'']"

definition isWrapper :: "string \<Rightarrow> bool" where
  "isWrapper p \<longleftrightarrow> p \<in> set runWrappers"

definition dashC :: "string list \<Rightarrow> bool" where
  "dashC words =
     list_ex (\<lambda>w. length w > 1 \<and> w ! 0 = CHR ''-'' \<and> w ! 1 \<noteq> CHR ''-'' \<and> CHR ''c'' \<in> set w) words"

definition nameByte :: "char \<Rightarrow> bool" where
  "nameByte c \<longleftrightarrow> isLetter c \<or> CHR ''0'' \<le> c \<and> c \<le> CHR ''9'' \<or> c \<in> set ''._+-/''"

text \<open>The runs of name bytes in a word, each read whole; the accumulator is reversed.\<close>

fun mentions_from :: "string \<Rightarrow> string \<Rightarrow> string \<Rightarrow> bool" where
  "mentions_from want name [] = (name \<noteq> [] \<and> Base (rev name) = want)"
| "mentions_from want name (c # cs) =
     (if nameByte c then mentions_from want (c # name) cs
      else if name \<noteq> [] \<and> Base (rev name) = want then True
      else mentions_from want [] cs)"

definition mentions :: "string \<Rightarrow> string \<Rightarrow> bool" where
  "mentions w want = mentions_from want [] w"

definition hiddenRun :: "string \<Rightarrow> string \<Rightarrow> Command \<Rightarrow> tri" where
  "hiddenRun prog want c =
     (let sh = isShell prog in
      if sh \<and> cm_Heredoc c then TriMaybe
      else if sh \<and> dashC (tl (cm_Words c)) \<or> prog = ''eval'' \<or> isWrapper prog
      then (if list_ex (\<lambda>(w, e). e \<or> mentions w want) (zip (tl (cm_Words c)) (tl (cm_Expands c)))
            then TriMaybe else TriNo)
      else TriNo)"

definition flag_word :: "string \<Rightarrow> string \<Rightarrow> bool" where
  "flag_word w f \<longleftrightarrow> w = f \<or> length w > length f \<and> w ! length f = CHR ''='' \<and> HasPrefix w f"

definition anyFlag :: "string list \<Rightarrow> string list \<Rightarrow> bool list \<Rightarrow> bool" where
  "anyFlag flags words exp = list_ex (\<lambda>(w, e). \<not> e \<and> list_ex (flag_word w) flags) (zip words exp)"

definition foldIn :: "string list \<Rightarrow> string \<Rightarrow> bool" where
  "foldIn vals s = list_ex (\<lambda>v. EqualFold v s) vals"

text \<open>The value may be joined to its flag by an equals sign or be the next word.\<close>

definition flag_set :: "(string \<times> string list) list \<Rightarrow> string \<Rightarrow> (string \<times> bool) option \<Rightarrow> bool" where
  "flag_set values w after =
     (case Cut w CHR ''='' of (flag, val, eq) \<Rightarrow>
       (case map_of values flag of
          None \<Rightarrow> False
        | Some vals \<Rightarrow>
            if eq then foldIn vals val
            else (case after of None \<Rightarrow> False | Some (v, e) \<Rightarrow> \<not> e \<and> foldIn vals v)))"

fun flagValue :: "(string \<times> string list) list \<Rightarrow> (string \<times> bool) list \<Rightarrow> bool \<Rightarrow> tri" where
  "flagValue values [] opaque = triOf False opaque"
| "flagValue values ((w, e) # rest) opaque =
     (if \<not> e \<and> flag_set values w (case rest of [] \<Rightarrow> None | v # _ \<Rightarrow> Some v) then TriYes
      else flagValue values rest opaque)"

definition conditions :: "CommandMatch \<Rightarrow> string list \<Rightarrow> bool list \<Rightarrow> tri" where
  "conditions m rest exp =
     (if cx_Flags m = [] \<and> cx_FlagValues m = [] \<and> cx_RequireFlags m = [] \<and> cx_SQL m = [] then TriYes
      else
        (let opaque = True \<in> set exp;
             t0 = triOf False (cx_SQL m \<noteq> []);
             t1 = (if cx_Flags m \<noteq> [] then max t0 (triOf (anyFlag (cx_Flags m) rest exp) opaque) else t0);
             t2 = (if cx_FlagValues m \<noteq> [] then max t1 (flagValue (cx_FlagValues m) (zip rest exp) opaque) else t1)
         in if cx_RequireFlags m \<noteq> [] \<and> \<not> anyFlag (cx_RequireFlags m) rest exp
            then max t2 (triOf (\<not> opaque) True) else t2))"

text \<open>The loop over the argv past the program; \<open>TriNo\<close> is its early return.\<close>

fun argv_match :: "string list \<Rightarrow> string list \<Rightarrow> bool list \<Rightarrow> tri \<Rightarrow> tri" where
  "argv_match [] words exp t = t"
| "argv_match (a # as) (w # ws) (e # es) t =
     (if e then argv_match as ws es TriMaybe else if w \<noteq> a then TriNo else argv_match as ws es t)"
| "argv_match (a # as) _ _ t = TriNo"

definition commandMatch :: "CommandMatch \<Rightarrow> Command \<Rightarrow> tri" where
  "commandMatch m c =
     (let prog = Base (hd (cm_Words c)); want = Base (hd (cx_Argv m)); n = length (cx_Argv m) in
      if prog \<noteq> want then hiddenRun prog want c
      else min (argv_match (tl (cx_Argv m)) (tl (cm_Words c)) (tl (cm_Expands c)) TriYes)
               (conditions m (drop n (cm_Words c)) (drop n (cm_Expands c))))"

section \<open>A certain match\<close>

text \<open>
  A match is certain exactly when the words of the pattern stand in the line, none of them one
  the shell expands, and the conditions hold of the words after them; a wrapper or a shell that
  may run the program is never more than possible.
\<close>

lemma hiddenRun_never: "hiddenRun prog want c \<noteq> TriYes"
  by (simp add: hiddenRun_def Let_def)

lemma argv_match_yes:
  "length exp = length words \<Longrightarrow>
     argv_match argv words exp t = TriYes \<longleftrightarrow>
       t = TriYes \<and> take (length argv) words = argv \<and> True \<notin> set (take (length argv) exp)"
proof (induction argv arbitrary: words exp t)
  case (Cons a as)
  then show ?case by (cases words; cases exp) auto
qed auto

definition literal_match :: "CommandMatch \<Rightarrow> Command \<Rightarrow> bool" where
  "literal_match m c \<longleftrightarrow>
     Base (hd (cm_Words c)) = Base (hd (cx_Argv m)) \<and>
     take (length (cx_Argv m) - 1) (tl (cm_Words c)) = tl (cx_Argv m) \<and>
     True \<notin> set (take (length (cx_Argv m) - 1) (tl (cm_Expands c))) \<and>
     conditions m (drop (length (cx_Argv m)) (cm_Words c)) (drop (length (cx_Argv m)) (cm_Expands c)) = TriYes"

lemma commandMatch_yes:
  assumes "command_ok c"
  shows "commandMatch m c = TriYes \<longleftrightarrow> literal_match m c"
proof -
  have "length (tl (cm_Expands c)) = length (tl (cm_Words c))"
    using assms by (simp add: command_ok_def)
  from argv_match_yes [OF this, of "tl (cx_Argv m)" TriYes]
  show ?thesis
    by (auto simp: commandMatch_def literal_match_def Let_def tri_min_eq hiddenRun_never)
qed

end
