(* ===== verification/PathMatch.thy ===== *)
theory PathMatch
  imports GoStrings
begin

text \<open>
  The one path matcher of a spec, \<^verbatim>\<open>internal/spec/match.go\<close>: \<open>matchSegment\<close>, the linear
  wildcard match that backtracks only to the last star, \<open>matchSegments\<close> over
  slash-joined segments with \<open>**\<close>, and \<open>MatchPath\<close>. Each is proved equal to a
  declarative match over characters or over lists of segments. Patterns and paths are
  ASCII, where one rune is one byte.
\<close>

section \<open>The matcher\<close>

definition star :: char where
  "star = CHR ''*''"

definition slash :: char where
  "slash = CHR ''/''"

text \<open>
  The loop of \<open>matchSegment\<close>, over what is left of the pattern and of the segment. The
  code's star and mark are the pattern after the last star and what of the segment was
  read since it: the mark is that much before the place read.
\<close>

function seg_loop :: "string \<Rightarrow> string \<Rightarrow> (string \<times> string) option \<Rightarrow> bool" where
  "seg_loop ps [] b = (dropWhile (\<lambda>x. x = star) ps = [])"
| "seg_loop ps (c # cs) b =
     (if ps \<noteq> [] \<and> hd ps = star then seg_loop (tl ps) (c # cs) (Some (tl ps, []))
      else if ps \<noteq> [] \<and> (hd ps = CHR ''?'' \<or> hd ps = c)
      then seg_loop (tl ps) cs (map_option (\<lambda>(sp, u). (sp, u @ [c])) b)
      else (case b of
              None \<Rightarrow> False
            | Some (sp, u) \<Rightarrow> seg_loop sp (tl (u @ c # cs)) (Some (sp, []))))"
  by pat_completeness auto
termination
  by (relation "measures [\<lambda>(ps, s, b). length (case b of None \<Rightarrow> s | Some (sp, u) \<Rightarrow> u @ s),
                          \<lambda>(ps, s, b). length ps]")
    (auto split: option.splits)

declare seg_loop.simps(2) [simp del]

definition matchSegment :: "string \<Rightarrow> string \<Rightarrow> bool" where
  "matchSegment pat seg = seg_loop pat seg None"

lemma Cut_rest_shorter:
  "(a, r, f) = Cut s c \<Longrightarrow> s \<noteq> [] \<Longrightarrow> length r < length s"
  "Cut s c = (a, r, f) \<Longrightarrow> s \<noteq> [] \<Longrightarrow> length r < length s"
  using Cut_tail_shorter [of s c] by (metis fst_conv snd_conv)+

text \<open>Runs of \<open>**\<close> are passed over together.\<close>

function skip_stars :: "string \<Rightarrow> string" where
  "skip_stars pat =
     (if pat = [] then []
      else (case Cut pat slash of (h, r, _) \<Rightarrow> if h \<noteq> ''**'' then pat else skip_stars r))"
  by auto
termination by (relation "measure length") (auto intro: Cut_rest_shorter)

declare skip_stars.simps [simp del]

lemma skip_stars_length: "length (skip_stars pat) \<le> length pat"
proof (induction pat rule: skip_stars.induct)
  case (1 pat)
  obtain h r f where c: "Cut pat slash = (h, r, f)" by (cases "Cut pat slash")
  have "length (skip_stars r) \<le> length r" if "pat \<noteq> []" "h = ''**''"
    using 1 [OF that(1) c [symmetric] refl] that(2) by simp
  moreover have "pat \<noteq> [] \<Longrightarrow> length r < length pat" by (rule Cut_rest_shorter(2) [OF c])
  ultimately show ?case using c by (subst skip_stars.simps) (auto intro: order_trans less_imp_le)
qed

lemma skip_stars_shorter:
  "(a, r, f) = Cut s c \<Longrightarrow> s \<noteq> [] \<Longrightarrow> length (skip_stars r) < length s"
  using skip_stars_length [of r] Cut_rest_shorter(1) [of a r f s c] by simp

function matchSegments :: "string \<Rightarrow> string \<Rightarrow> bool" and try_rests :: "string \<Rightarrow> string \<Rightarrow> bool" where
  "matchSegments pat segs =
     (if pat = [] then segs = []
      else (case Cut pat slash of
              (head, rest, _) \<Rightarrow>
                if head \<noteq> ''**''
                then (if segs = [] then False
                      else (case Cut segs slash of
                              (seg, segRest, _) \<Rightarrow>
                                if \<not> matchSegment head seg then False else matchSegments rest segRest))
                else (let pat' = skip_stars rest in if pat' = [] then True else try_rests pat' segs)))"
| "try_rests pat s =
     (if s = [] then False
      else if matchSegments pat s then True
      else (case Cut s slash of (_, rest, _) \<Rightarrow> try_rests pat rest))"
  by pat_completeness auto
termination
  by (relation "measures [\<lambda>x. case x of Inl (p, s) \<Rightarrow> length p | Inr (p, s) \<Rightarrow> length p,
                          \<lambda>x. case x of Inl _ \<Rightarrow> 0 | Inr (p, s) \<Rightarrow> Suc (length s)]")
    (auto intro: Cut_rest_shorter skip_stars_shorter)

declare matchSegments.simps [simp del] try_rests.simps [simp del]

definition cleanSegments :: "string \<Rightarrow> bool" where
  "cleanSegments p =
     (if p = [] \<or> HasPrefix p [slash] then False
      else list_all (\<lambda>w. w \<noteq> [] \<and> w \<noteq> ''.'' \<and> w \<noteq> ''..'') (Split p slash))"

definition TrimPrefixSlash :: "string \<Rightarrow> string" where
  "TrimPrefixSlash p = (if HasPrefix p [slash] then tl p else p)"

definition TrimSuffixSlash :: "string \<Rightarrow> string" where
  "TrimSuffixSlash p = (if HasSuffix p [slash] then butlast p else p)"

text \<open>The places in \<open>rel\<close> where a segment ends, each with the prefix up to it, shortest first.\<close>

function try_prefixes :: "string \<Rightarrow> string \<Rightarrow> string \<Rightarrow> bool" where
  "try_prefixes pat past rest =
     (if rest = [] then False
      else (let seg = takeWhile (\<lambda>c. c \<noteq> slash) rest; after = dropWhile (\<lambda>c. c \<noteq> slash) rest in
            if matchSegments pat (past @ seg) then True
            else (case after of [] \<Rightarrow> False | s # rest' \<Rightarrow> try_prefixes pat (past @ seg @ [s]) rest')))"
  by auto
termination
proof (relation "measure (\<lambda>(pat, past, rest). length rest)", goal_cases)
  case prems: (2 pat past rest seg after s rest')
  have "length (s # rest') \<le> length rest"
    using length_dropWhile_le [of "\<lambda>c. c \<noteq> slash" rest] prems by metis
  then show ?case by simp
qed simp

declare try_prefixes.simps [simp del]

definition MatchPath :: "string \<Rightarrow> string \<Rightarrow> bool" where
  "MatchPath pattern rel =
     (if \<not> cleanSegments rel then False
      else
        (let anchored = HasPrefix pattern [slash]; pat = TrimSuffixSlash (TrimPrefixSlash pattern) in
         if \<not> cleanSegments pat then False
         else if \<not> anchored \<and> \<not> slash \<in> set pat
         then list_ex (matchSegment pat) (Split rel slash)
         else try_prefixes pat [] rel))"

section \<open>One segment\<close>

definition matches_char :: "char \<Rightarrow> char \<Rightarrow> bool" where
  "matches_char p c \<longleftrightarrow> p = CHR ''?'' \<or> p = c"

text \<open>The match as it is defined: a star is any run, a question mark any one, else itself.\<close>

fun glob :: "string \<Rightarrow> string \<Rightarrow> bool" where
  "glob [] s = (s = [])"
| "glob (p # ps) s =
     (if p = star then glob ps s \<or> (case s of [] \<Rightarrow> False | c # cs \<Rightarrow> glob (p # ps) cs)
      else (case s of [] \<Rightarrow> False | c # cs \<Rightarrow> matches_char p c \<and> glob ps cs))"

lemma glob_star: "glob (star # ps) s \<longleftrightarrow> (\<exists>k \<le> length s. glob ps (drop k s))"
proof (induction s)
  case (Cons c cs)
  have "(\<exists>k \<le> length (c # cs). glob ps (drop k (c # cs))) \<longleftrightarrow>
      glob ps (c # cs) \<or> (\<exists>k \<le> length cs. glob ps (drop k cs))"
    by (metis (no_types, lifting) Suc_le_mono drop0 drop_Suc_Cons le0 length_Cons not0_implies_Suc)
  with Cons show ?case by simp
qed simp

lemma glob_app:
  "star \<notin> set w \<Longrightarrow> glob (w @ ps) t \<longleftrightarrow>
     length w \<le> length t \<and> list_all2 matches_char w (take (length w) t) \<and> glob ps (drop (length w) t)"
proof (induction w arbitrary: t)
  case (Cons x w)
  then show ?case by (cases t) auto
qed simp

lemma glob_Nil: "glob ps [] \<longleftrightarrow> dropWhile (\<lambda>x. x = star) ps = []"
  by (induction ps) auto

definition later :: "string \<Rightarrow> string \<Rightarrow> bool" where
  "later sp t \<longleftrightarrow> (\<exists>k. 0 < k \<and> k \<le> length t \<and> glob sp (drop k t))"

lemma later_Cons: "later sp (c # t) \<longleftrightarrow> glob sp t \<or> later sp t"
proof
  assume "later sp (c # t)"
  then obtain k where "0 < k" "k \<le> Suc (length t)" "glob sp (drop k (c # t))" by (auto simp: later_def)
  then obtain j where "j \<le> length t" "glob sp (drop j t)" by (cases k) auto
  then show "glob sp t \<or> later sp t" unfolding later_def by (cases "j = 0") auto
next
  assume "glob sp t \<or> later sp t"
  then obtain j where "j \<le> length t" "glob sp (drop j t)" unfolding later_def by (metis drop0 le0)
  then show "later sp (c # t)" unfolding later_def by (intro exI [of _ "Suc j"]) simp
qed

lemma star_later: "glob (star # ps) s \<longleftrightarrow> glob ps s \<or> later ps s"
proof -
  have "(\<exists>k \<le> length s. glob ps (drop k s)) \<longleftrightarrow> glob ps s \<or> later ps s"
    unfolding later_def by (metis drop0 le0 neq0_conv)
  then show ?thesis unfolding glob_star .
qed

text \<open>What was read since the last star matched the pattern between, which holds no star.\<close>

definition since_star :: "string \<Rightarrow> (string \<times> string) option \<Rightarrow> bool" where
  "since_star ps b =
     (case b of None \<Rightarrow> True
      | Some (sp, u) \<Rightarrow> (\<exists>w. sp = w @ ps \<and> star \<notin> set w \<and> list_all2 matches_char w u))"

lemma since_star_later:
  assumes "since_star (star # ps) (Some (sp, u))" and "later sp (u @ s)"
  shows "glob (star # ps) s"
proof -
  obtain w where w: "sp = w @ star # ps" "star \<notin> set w" "length w = length u"
    using assms(1) by (auto simp: since_star_def dest: list_all2_lengthD)
  obtain k where k: "0 < k" "k \<le> length (u @ s)" "glob sp (drop k (u @ s))"
    using assms(2) by (auto simp: later_def)
  have le: "length w \<le> length (drop k (u @ s))" and g: "glob (star # ps) (drop (length w) (drop k (u @ s)))"
    using k(3) unfolding w(1) glob_app [OF w(2)] by simp_all
  have d: "drop (length w) (drop k (u @ s)) = drop k s" unfolding drop_drop w(3) by simp
  obtain j where j: "j \<le> length (drop k s)" "glob ps (drop j (drop k s))"
    using g unfolding d glob_star by blast
  have "length w + k \<le> length (u @ s)" using le k(2) unfolding length_drop by linarith
  then have "j + k \<le> length s" using w(3) j(1) by simp
  then show ?thesis unfolding glob_star using j(2) unfolding drop_drop by blast
qed

lemma seg_loop_star: "seg_loop (star # ps) (c # cs) b = seg_loop ps (c # cs) (Some (ps, []))"
  by (subst seg_loop.simps(2)) simp

lemma seg_loop_one:
  "p \<noteq> star \<Longrightarrow> matches_char p c \<Longrightarrow>
     seg_loop (p # ps) (c # cs) b = seg_loop ps cs (map_option (\<lambda>(sp, u). (sp, u @ [c])) b)"
  by (subst seg_loop.simps(2)) (simp add: matches_char_def)

lemma seg_loop_back:
  "qs = [] \<or> hd qs \<noteq> star \<and> \<not> matches_char (hd qs) c \<Longrightarrow>
     seg_loop qs (c # cs) b =
       (case b of None \<Rightarrow> False | Some (sp, u) \<Rightarrow> seg_loop sp (tl (u @ c # cs)) (Some (sp, [])))"
  by (subst seg_loop.simps(2)) (auto simp only: matches_char_def if_True if_False simp_thms)

lemma seg_loop_glob:
  "since_star ps b \<Longrightarrow> seg_loop ps s b \<longleftrightarrow>
     glob ps s \<or> (case b of None \<Rightarrow> False | Some (sp, u) \<Rightarrow> later sp (u @ s))"
proof (induction ps s b rule: seg_loop.induct)
  case (1 ps b)
  have "\<not> later sp u" if b: "b = Some (sp, u)" for sp u
  proof
    assume "later sp u"
    then obtain k where k: "0 < k" "k \<le> length u" "glob sp (drop k u)" by (auto simp: later_def)
    from 1 b obtain w where w: "sp = w @ ps" "star \<notin> set w" "length w = length u"
      by (auto simp: since_star_def dest: list_all2_lengthD)
    from k(3) have "length w \<le> length (drop k u)" unfolding w(1) glob_app [OF w(2)] by simp
    with w k show False by simp
  qed
  then show ?case by (auto simp: glob_Nil split: option.split)
next
  case (2 ps c cs b)
  consider (star) ps' where "ps = star # ps'" | (one) p ps' where "ps = p # ps'" "p \<noteq> star" "matches_char p c"
    | (no) "ps = [] \<or> hd ps \<noteq> star \<and> \<not> matches_char (hd ps) c"
    by (cases ps) auto
  then show ?case
  proof cases
    case star
    have "seg_loop ps (c # cs) b \<longleftrightarrow> glob ps' (c # cs) \<or> later ps' ([] @ c # cs)"
      using 2(1) unfolding star seg_loop_star by (simp add: since_star_def)
    also have "\<dots> \<longleftrightarrow> glob ps (c # cs)" by (simp only: star star_later append_Nil)
    finally have g: "seg_loop ps (c # cs) b \<longleftrightarrow> glob ps (c # cs)" .
    have "glob ps (c # cs)" if "b = Some (sp, u)" "later sp (u @ c # cs)" for sp u
      using since_star_later [of ps' sp u "c # cs"] 2(4) that unfolding star by simp
    then show ?thesis unfolding g by (auto split: option.split)
  next
    case one
    let ?b = "map_option (\<lambda>(sp, u). (sp, u @ [c])) b"
    have s: "since_star ps' ?b"
    proof (cases b)
      case (Some x)
      then obtain sp u w where "x = (sp, u)" "sp = w @ p # ps'" "star \<notin> set w" "list_all2 matches_char w u"
        using 2(4) one by (cases x) (auto simp: since_star_def)
      with Some one show ?thesis
        by (auto simp: since_star_def intro!: exI [of _ "w @ [p]"] list_all2_appendI)
    qed (simp add: since_star_def)
    have "seg_loop ps (c # cs) b \<longleftrightarrow> seg_loop ps' cs ?b"
      unfolding one(1) seg_loop_one [OF one(2,3)] ..
    also have "\<dots> \<longleftrightarrow> glob ps' cs \<or> (case ?b of None \<Rightarrow> False | Some (sp, u) \<Rightarrow> later sp (u @ cs))"
      using 2(2) s one by (simp add: matches_char_def)
    finally show ?thesis using one by (auto split: option.splits)
  next
    case no
    have g: "\<not> glob ps (c # cs)" using no by (cases ps) auto
    show ?thesis
    proof (cases b)
      case None
      then show ?thesis using seg_loop_back [OF no, of cs b] g by simp
    next
      case (Some x)
      then obtain sp u where x: "b = Some (sp, u)" by (cases x) auto
      have "seg_loop ps (c # cs) b \<longleftrightarrow> seg_loop sp (tl (u @ c # cs)) (Some (sp, []))"
        using seg_loop_back [OF no, of cs b] x by simp
      also have "\<dots> \<longleftrightarrow> glob sp (tl (u @ c # cs)) \<or> later sp (tl (u @ c # cs))"
        using 2(3) no x by (auto simp: matches_char_def since_star_def)
      also have "\<dots> \<longleftrightarrow> later sp (u @ c # cs)"
        using later_Cons [of sp "hd (u @ c # cs)" "tl (u @ c # cs)"] by simp
      finally show ?thesis using g x by simp
    qed
  qed
qed

lemma matchSegment_eq: "matchSegment pat seg = glob pat seg"
  using seg_loop_glob [of pat None seg] by (simp add: matchSegment_def since_star_def)

text \<open>
  The linear match, which backtracks only to the last star, is the match as
  defined: it never misses one a longer backtrack would find.
\<close>

theorem matchSegment_glob: "matchSegment pat seg = glob pat seg"
  by (rule matchSegment_eq)

section \<open>Whole segments\<close>

function segments :: "string \<Rightarrow> string list" where
  "segments s = (if s = [] then [] else (case Cut s slash of (h, r, _) \<Rightarrow> h # segments r))"
  by auto
termination by (relation "measure length") (auto intro: Cut_rest_shorter)

declare segments.simps [simp del]

lemma segments_Nil [simp]: "segments [] = []"
  by (subst segments.simps) simp

lemma segments_Cut: "s \<noteq> [] \<Longrightarrow> Cut s slash = (h, r, f) \<Longrightarrow> segments s = h # segments r"
  by (subst segments.simps) simp

lemma segments_empty_iff: "segments s = [] \<longleftrightarrow> s = []"
  by (cases "s = []", simp, cases "Cut s slash", simp add: segments_Cut)

text \<open>The match over lists of segments, as the documentation defines it.\<close>

fun segs_match :: "string list \<Rightarrow> string list \<Rightarrow> bool" where
  "segs_match [] ss = (ss = [])"
| "segs_match (p # ps) ss =
     (if p = ''**'' then segs_match ps ss \<or> (case ss of [] \<Rightarrow> False | _ # ss' \<Rightarrow> segs_match (p # ps) ss')
      else (case ss of [] \<Rightarrow> False | s # ss' \<Rightarrow> glob p s \<and> segs_match ps ss'))"

lemma segs_match_all [simp]: "segs_match [''**''] ss"
  by (induction ss) auto

lemma segs_match_stars: "segs_match (''**'' # ''**'' # ps) ss = segs_match (''**'' # ps) ss"
proof (induction ss)
  case (Cons s ss)
  then show ?case by (metis list.simps(5) segs_match.simps(2))
qed simp

lemma segs_match_skip_stars:
  "segs_match (''**'' # segments pat) ss = segs_match (''**'' # segments (skip_stars pat)) ss"
proof (induction pat rule: skip_stars.induct)
  case (1 pat)
  obtain h r f where c: "Cut pat slash = (h, r, f)" by (cases "Cut pat slash")
  show ?case
  proof (cases "pat \<noteq> [] \<and> h = ''**''")
    case True
    then have "skip_stars pat = skip_stars r" using c by (subst skip_stars.simps) simp
    moreover have "segments pat = ''**'' # segments r" using segments_Cut [OF _ c] True by simp
    ultimately show ?thesis using 1 [OF _ c [symmetric] refl] True
      by (simp add: segs_match_stars del: segs_match.simps(2))
  next
    case False
    then have "skip_stars pat = pat" using c by (subst skip_stars.simps) auto
    then show ?thesis by simp
  qed
qed

lemma skip_stars_head:
  assumes "skip_stars pat \<noteq> []" and "Cut (skip_stars pat) slash = (h, r, f)"
  shows "h \<noteq> ''**''"
  using assms
proof (induction pat rule: skip_stars.induct)
  case (1 pat)
  obtain h' r' f' where c: "Cut pat slash = (h', r', f')" by (cases "Cut pat slash")
  show ?case
  proof (cases "pat \<noteq> [] \<and> h' = ''**''")
    case True
    then have "skip_stars pat = skip_stars r'" using c by (subst skip_stars.simps) simp
    with 1 True c show ?thesis by auto
  next
    case False
    then have "skip_stars pat = pat" using c by (subst skip_stars.simps) auto
    with 1(2,3) False c show ?thesis by auto
  qed
qed

lemma matchSegments_seg:
  assumes "pat \<noteq> []" and "Cut pat slash = (h, r, f)" and "h \<noteq> ''**''"
  shows "matchSegments pat segs =
     (if segs = [] then False
      else (case Cut segs slash of (seg, sr, _) \<Rightarrow> matchSegment h seg \<and> matchSegments r sr))"
  by (subst matchSegments.simps) (use assms in \<open>simp split: prod.split\<close>)

lemma matchSegments_stars:
  assumes "pat \<noteq> []" and "Cut pat slash = (''**'', r, f)"
  shows "matchSegments pat segs = (skip_stars r = [] \<or> try_rests (skip_stars r) segs)"
  by (subst matchSegments.simps) (use assms in \<open>simp add: Let_def\<close>)

lemma try_rests_step:
  assumes "s \<noteq> []" and "Cut s slash = (g, r, f)"
  shows "try_rests pat s = (matchSegments pat s \<or> try_rests pat r)"
  by (subst try_rests.simps) (use assms in simp)

lemma segs_match_nonempty:
  "pat \<noteq> [] \<Longrightarrow> Cut pat slash = (h, r, f) \<Longrightarrow> h \<noteq> ''**'' \<Longrightarrow> \<not> segs_match (segments pat) []"
  by (simp add: segments_Cut)

lemma matchSegments_segs_aux:
  "matchSegments pat segs = segs_match (segments pat) (segments segs)"
  "pat \<noteq> [] \<and> fst (Cut pat slash) \<noteq> ''**'' \<Longrightarrow>
     try_rests pat s = segs_match (''**'' # segments pat) (segments s)"
proof (induction pat segs and pat s rule: matchSegments_try_rests.induct)
  case (1 pat segs)
  show ?case
  proof (cases "pat = []")
    case True
    then show ?thesis by (subst matchSegments.simps) (simp add: segments_empty_iff)
  next
    case pat: False
    obtain h r f where c: "Cut pat slash = (h, r, f)" by (cases "Cut pat slash")
    have sp: "segments pat = h # segments r" by (rule segments_Cut [OF pat c])
    show ?thesis
    proof (cases "h = ''**''")
      case False
      show ?thesis
      proof (cases "segs = []")
        case True
        then show ?thesis using matchSegments_seg [OF pat c False] sp False by simp
      next
        case segs: False
        obtain g sr k where d: "Cut segs slash = (g, sr, k)" by (cases "Cut segs slash")
        have "matchSegment h g \<Longrightarrow> matchSegments r sr = segs_match (segments r) (segments sr)"
          using 1(1) [OF pat c [symmetric] refl False segs d [symmetric] refl] by simp
        then show ?thesis
          using matchSegments_seg [OF pat c False] sp False segs d segments_Cut [OF segs d]
          by (auto simp: matchSegment_eq)
      qed
    next
      case True
      let ?q = "skip_stars r"
      have s: "segs_match (segments pat) (segments segs) = segs_match (''**'' # segments ?q) (segments segs)"
        using segs_match_skip_stars [of r] sp True by simp
      have h: "?q \<noteq> [] \<Longrightarrow> fst (Cut ?q slash) \<noteq> ''**''"
        using skip_stars_head [of r] by (cases "Cut ?q slash") auto
      have "?q \<noteq> [] \<Longrightarrow> try_rests ?q segs = segs_match (''**'' # segments ?q) (segments segs)"
        using 1(2) [OF pat c [symmetric] refl] True h by simp
      then show ?thesis
        using matchSegments_stars [OF pat c [unfolded True]] s
        by (cases "?q = []") (simp_all del: segs_match.simps(2))
    qed
  qed
next
  case (2 pat s)
  obtain h r f where c: "Cut pat slash = (h, r, f)" by (cases "Cut pat slash")
  have e: "\<not> segs_match (segments pat) []" using segs_match_nonempty [OF _ c] 2(3) c by simp
  show ?case
  proof (cases "s = []")
    case True
    then show ?thesis using e by (subst try_rests.simps) simp
  next
    case False
    obtain g sr k where d: "Cut s slash = (g, sr, k)" by (cases "Cut s slash")
    have "matchSegments pat s = segs_match (segments pat) (segments s)" using 2(1) [OF False] .
    moreover have "\<not> matchSegments pat s \<Longrightarrow> try_rests pat sr = segs_match (''**'' # segments pat) (segments sr)"
      using 2(2) [OF False _ d [symmetric] refl] 2(3) by simp
    ultimately show ?thesis
      using try_rests_step [OF False d, of pat] segments_Cut [OF False d] by auto
  qed
qed

lemma matchSegments_segs: "matchSegments pat segs = segs_match (segments pat) (segments segs)"
  by (rule matchSegments_segs_aux(1))

section \<open>The whole matcher\<close>

lemma Cut_cases:
  obtains "c \<notin> set s" "Cut s c = (s, [], False)"
  | a b where "s = a @ c # b" "c \<notin> set a" "Cut s c = (a, b, True)"
  using split_list_first [of c s] Cut_absent [of c s] Cut_append [of c] by blast

lemma segments_single: "s \<noteq> [] \<Longrightarrow> slash \<notin> set s \<Longrightarrow> segments s = [s]"
  using segments_Cut [OF _ Cut_absent] by simp

lemma segments_Split: "[] \<notin> set (Split s slash) \<Longrightarrow> segments s = Split s slash"
proof (induction s rule: segments.induct)
  case (1 s)
  show ?case
  proof (cases rule: Cut_cases [of slash s])
    case 1
    with "1.prems" show ?thesis by (simp add: Split_absent segments_single)
  next
    case (2 a b)
    then have n: "s \<noteq> []" by simp
    have sp: "Split s slash = a # Split b slash" using 2 by (simp add: Split_append Split_absent)
    have "segments b = Split b slash" using "1.IH" [OF n 2(3) [symmetric] refl] "1.prems" sp by simp
    then show ?thesis using segments_Cut [OF n 2(3)] sp by simp
  qed
qed

lemma segments_app:
  "a = [] \<or> last a = slash \<Longrightarrow> segments (a @ b) = segments a @ segments b"
proof (induction a rule: segments.induct)
  case (1 a)
  show ?case
  proof (cases "a = []")
    case False
    show ?thesis
    proof (cases rule: Cut_cases [of slash a])
      case 1
      with "1.prems" False show ?thesis by (metis last_in_set)
    next
      case (2 h r)
      then have "r = [] \<or> last r = slash" using "1.prems" by (cases r) auto
      then have i: "segments (r @ b) = segments r @ segments b"
        using "1.IH" [OF False 2(3) [symmetric] refl] by simp
      have "Cut (a @ b) slash = (h, r @ b, True)" using 2(1,2) Cut_append [of slash h "r @ b"] by simp
      then have "segments (a @ b) = h # segments (r @ b)" using segments_Cut False by blast
      then show ?thesis using i segments_Cut [OF False 2(3)] by simp
    qed
  qed simp
qed

lemma list_ex_upt_Suc: "list_ex P [1..<Suc (Suc n)] \<longleftrightarrow> P 1 \<or> list_ex (\<lambda>i. P (Suc i)) [1..<Suc n]"
proof -
  have "[1..<Suc (Suc n)] = 1 # map Suc [1..<Suc n]"
    using upt_conv_Cons [of 1 "Suc (Suc n)"] map_Suc_upt [of 1 "Suc n"] by simp
  moreover have "list_ex P (1 # map Suc ns) \<longleftrightarrow> P 1 \<or> list_ex (\<lambda>i. P (Suc i)) ns" for ns
    by (simp add: list_ex_iff)
  ultimately show ?thesis by (simp del: upt_Suc)
qed

lemma try_prefixes_ex:
  assumes "past = [] \<or> last past = slash" and "[] \<notin> set (segments rest)"
  shows "try_prefixes pat past rest =
    list_ex (\<lambda>n. segs_match (segments pat) (segments past @ take n (segments rest)))
      [1..<Suc (length (segments rest))]"
  using assms
proof (induction pat past rest rule: try_prefixes.induct)
  case (1 pat past rest)
  show ?case
  proof (cases "rest = []")
    case True
    then show ?thesis by (subst try_prefixes.simps) simp
  next
    case False
    show ?thesis
    proof (cases rule: Cut_cases [of slash rest])
      case 1
      have d: "takeWhile (\<lambda>c. c \<noteq> slash) rest = rest" "dropWhile (\<lambda>c. c \<noteq> slash) rest = []"
        using 1 takeWhile_eq_all_conv [of "\<lambda>c. c \<noteq> slash" rest] dropWhile_eq_Nil_conv [of "\<lambda>c. c \<noteq> slash" rest]
        by blast+
      have "try_prefixes pat past rest = matchSegments pat (past @ rest)"
        by (subst try_prefixes.simps) (simp add: d False)
      then show ?thesis
        using 1 False segments_app [OF "1.prems"(1)] by (simp add: matchSegments_segs segments_single)
    next
      case (2 h r)
      have d: "takeWhile (\<lambda>c. c \<noteq> slash) rest = h" "dropWhile (\<lambda>c. c \<noteq> slash) rest = slash # r"
        using 2 by simp_all
      have sr: "segments rest = h # segments r" by (rule segments_Cut [OF False 2(3)])
      then have h: "h \<noteq> []" using "1.prems"(2) by auto
      have e: "try_prefixes pat past rest \<longleftrightarrow>
          matchSegments pat (past @ h) \<or> try_prefixes pat (past @ h @ [slash]) r"
        by (subst try_prefixes.simps) (simp add: d False)
      have "segments (h @ [slash]) = [h]"
        using segments_Cut [of "h @ [slash]" h "[]" True] Cut_append [OF 2(2), of "[]"] by simp
      then have past': "segments (past @ h @ [slash]) = segments past @ [h]"
        using segments_app [OF "1.prems"(1)] by simp
      have "\<not> matchSegments pat (past @ h) \<longrightarrow> try_prefixes pat (past @ h @ [slash]) r =
          list_ex (\<lambda>n. segs_match (segments pat) (segments (past @ h @ [slash]) @ take n (segments r)))
            [1..<Suc (length (segments r))]"
        using "1.IH" [OF False refl refl] d "1.prems"(2) sr by simp
      then show ?thesis
        unfolding e sr length_Cons list_ex_upt_Suc past'
        using segments_app [OF "1.prems"(1), of h] segments_single [OF h 2(2)]
        by (auto simp: matchSegments_segs)
    qed
  qed
qed

lemma cleanSegments_iff:
  "cleanSegments p \<longleftrightarrow> p \<noteq> [] \<and> \<not> HasPrefix p [slash] \<and>
     list_all (\<lambda>w. w \<noteq> [] \<and> w \<noteq> ''.'' \<and> w \<noteq> ''..'') (Split p slash)"
  by (simp add: cleanSegments_def)

lemma cleanSegments_segments: "cleanSegments p \<Longrightarrow> segments p = Split p slash"
  by (rule segments_Split) (auto simp: cleanSegments_iff list_all_iff)

lemma MatchPath_segs:
  "MatchPath pattern rel \<longleftrightarrow>
     cleanSegments rel \<and>
     (let pat = TrimSuffixSlash (TrimPrefixSlash pattern); ws = Split rel slash in
      cleanSegments pat \<and>
      (if HasPrefix pattern [slash] \<or> slash \<in> set pat
       then list_ex (\<lambda>n. segs_match (Split pat slash) (take n ws)) [1..<Suc (length ws)]
       else list_ex (glob pat) ws))"
proof (cases "cleanSegments rel \<and> cleanSegments (TrimSuffixSlash (TrimPrefixSlash pattern))")
  case False
  then show ?thesis by (auto simp: MatchPath_def Let_def)
next
  case True
  then have "[] \<notin> set (segments rel)"
    by (simp add: cleanSegments_segments) (auto simp: cleanSegments_iff list_all_iff)
  then have "try_prefixes (TrimSuffixSlash (TrimPrefixSlash pattern)) [] rel =
      list_ex (\<lambda>n. segs_match (Split (TrimSuffixSlash (TrimPrefixSlash pattern)) slash) (take n (Split rel slash)))
        [1..<Suc (length (Split rel slash))]"
    using try_prefixes_ex [of "[]" rel] True by (simp add: cleanSegments_segments del: upt_Suc)
  moreover have "matchSegment p = glob p" for p by (rule ext) (rule matchSegment_eq)
  ultimately show ?thesis using True by (simp add: MatchPath_def Let_def del: upt_Suc)
qed


lemma MatchPath_under_aux:
  assumes "MatchPath pattern d" and "cleanSegments x"
  shows "MatchPath pattern (d @ slash # x)"
proof -
  have d: "cleanSegments d" using assms(1) by (simp add: MatchPath_segs)
  then obtain e d' where e: "d = e # d'" "e \<noteq> slash"
    by (cases d) (auto simp: cleanSegments_iff HasPrefix_def)
  then have "\<not> HasPrefix (d @ slash # x) [slash]" by (simp add: HasPrefix_def)
  then have c: "cleanSegments (d @ slash # x)"
    using d assms(2) by (simp add: cleanSegments_iff Split_append)
  have "list_ex (\<lambda>n. Q (take n (us @ ws))) [1..<Suc (length us + length ws)]"
    if q: "list_ex (\<lambda>n. Q (take n us)) [1..<Suc (length us)]" for Q :: "string list \<Rightarrow> bool" and us ws
  proof -
    from q obtain n where "1 \<le> n" "n \<le> length us" "Q (take n us)" by (auto simp: list_ex_iff)
    then show ?thesis unfolding list_ex_iff by (intro bexI [of _ n]) (simp_all del: upt_Suc)
  qed
  then show ?thesis
    using assms c by (auto simp: MatchPath_segs Let_def Split_append simp del: upt_Suc split: if_splits)
qed

text \<open>
  A pattern that covers a directory covers every path under it.
\<close>

theorem MatchPath_under:
  "MatchPath pattern d \<Longrightarrow> cleanSegments x \<Longrightarrow> MatchPath pattern (d @ slash # x)"
  by (rule MatchPath_under_aux)

theorem MatchPath_under_witness:
  "MatchPath ''/docs/*'' ''docs/a'' \<and> cleanSegments ''b.md'' \<and> MatchPath ''/docs/*'' (''docs/a'' @ slash # ''b.md'')"
proof -
  have "MatchPath ''/docs/*'' ''docs/a''" and "cleanSegments ''b.md''" by code_simp+
  then show ?thesis using MatchPath_under by blast
qed

end
