(* ===== verification/GateOutput.thy ===== *)
theory GateOutput
  imports ShapeWords "HOL-Library.Word"
begin

unbundle bit_operations_syntax

text \<open>
  What a gate run's output says, \<^verbatim>\<open>internal/gateout\<close>: the rows of the runner table
  (tables.go), the classification of an output text line by line (gateout.go), and the
  questions the readers of a record ask of the table (\<open>ProgramFor\<close>, \<open>Delegated\<close>,
  \<open>Runner\<close>, \<open>FailLineDecides\<close>). Matching a line against a pattern is Go's regexp
  package, a parameter \<open>rx\<close> of the definitions that match: \<open>rx p line\<close> says that pattern
  \<open>p\<close> matches \<open>line\<close>. The pattern sources are the table's own.
\<close>

text \<open>\<^verbatim>\<open>store.GateOutput\<close>'s kinds (record_v5.go), and the record itself.\<close>

datatype out_kind =
  OutSummaryPass | OutSummaryFail | OutFailLine | OutEmptyRun | OutNoSummary
| OutUnattributable | OutUnread | OutPrintedPass | OutPrintedFail | OutOther string

record gate_output =
  go_Kind :: out_kind
  go_Parser :: string
  go_Reason :: "string option"

definition gate_out :: "out_kind \<Rightarrow> string \<Rightarrow> gate_output" where
  "gate_out k p = \<lparr>go_Kind = k, go_Parser = p, go_Reason = None\<rparr>"

section \<open>The table\<close>

record table =
  tb_program :: string
  tb_delegate :: bool
  tb_pass :: "string list"
  tb_fail :: "string list"
  tb_failLine :: "string list"
  tb_empty :: "string list"
  tb_sig :: "string list"

text \<open>A pattern source, with a tilde for the backslash; no pattern of the table holds a tilde.\<close>

definition re :: "string \<Rightarrow> string" where
  "re s = ReplaceByte s CHR ''~'' CHR 0x5C"

definition tables :: "table list" where
  "tables =
    [\<lparr>tb_program = ''go'', tb_delegate = False,
      tb_pass = [re ''^ok~s''],
      tb_fail = [re ''^FAIL~s'',
        re ''^FAIL$''],
      tb_failLine = [re ''^--- FAIL''],
      tb_empty = [re ''~[no test files~]'',
        re ''~[no tests to run~]''],
      tb_sig = [re ''^(ok|FAIL)~s+~S+~s+(~(cached~)|~d+(~.~d+)?s)(~s.*)?$'',
        re ''^FAIL~s+~S+ ~[(build|setup) failed~]$'',
        re ''^~?~s+~S+~s+~[no test files~]$'',
        re ''^--- (FAIL|PASS|SKIP): ~S+ ~(~d+(~.~d+)?s~)$'']\<rparr>,
     \<lparr>tb_program = ''jest'', tb_delegate = False,
      tb_pass = [re ''^Tests:.*~d+ passed''],
      tb_fail = [re ''^Tests:.*~d+ failed''],
      tb_failLine = [],
      tb_empty = [],
      tb_sig = []\<rparr>,
     \<lparr>tb_program = ''vitest'', tb_delegate = False,
      tb_pass = [re ''^~s*Tests~s+.*~d+ passed''],
      tb_fail = [re ''^~s*Tests~s+.*~d+ failed''],
      tb_failLine = [],
      tb_empty = [],
      tb_sig = [re ''^~s*Test Files~s+(~d+ ~w+ ~| )*~d+ ~w+ ~(~d+~)$'',
        re ''^~s*Tests~s+(~d+ ~w+ ~| )*~d+ ~w+ ~(~d+~)$'']\<rparr>,
     \<lparr>tb_program = ''pytest'', tb_delegate = False,
      tb_pass = [re ''^(~d+ ~w+, )*~d+ passed(, [^=]*)? in ~d'',
        re ''^=+ .*~d+ passed.* in ~d[~d.]*s.* =+$''],
      tb_fail = [re ''^(~d+ ~w+, )*[1-9]~d* (failed|errors?)(, [^=]*)? in ~d'',
        re ''^=+ .*[1-9]~d* (failed|errors?).* in ~d[~d.]*s.* =+$'',
        re ''Fatal Python error'',
        re ''^Killed''],
      tb_failLine = [],
      tb_empty = [re ''no tests ran''],
      tb_sig = [re ''^=+ test session starts =+$'',
        re ''^=+ (~d+ (failed|passed|skipped|deselected|xfailed|xpassed|warnings?|errors?|rerun), )*~d+ (failed|passed|skipped|deselected|xfailed|xpassed|warnings?|errors?|rerun) in ~d+(~.~d+)?s( ~(~d+:~d~d:~d~d~))? =+$'',
        re ''^=+ no tests ran in ~d+(~.~d+)?s =+$'',
        re ''^(~d+ (failed|passed|skipped|deselected|xfailed|xpassed|warnings?|errors?|rerun), )*~d+ (failed|passed|skipped|deselected|xfailed|xpassed|warnings?|errors?|rerun) in ~d+(~.~d+)?s( ~(~d+:~d~d:~d~d~))?$'']\<rparr>,
     \<lparr>tb_program = ''cargo'', tb_delegate = False,
      tb_pass = [re ''^test result: ok''],
      tb_fail = [re ''^test result: FAILED'',
        re ''^error: test failed'',
        re ''^error: ~d+ targets? failed''],
      tb_failLine = [],
      tb_empty = [],
      tb_sig = [re ''^test result: (ok|FAILED)~. ~d+ passed; ~d+ failed; '']\<rparr>,
     \<lparr>tb_program = ''make'', tb_delegate = True,
      tb_pass = [],
      tb_fail = [re ''^make(~[~d+~])?: ~*~*~*''],
      tb_failLine = [],
      tb_empty = [],
      tb_sig = []\<rparr>,
     \<lparr>tb_program = ''npm'', tb_delegate = True,
      tb_pass = [],
      tb_fail = [re ''^npm (ERR!|error)'',
        re ''ELIFECYCLE''],
      tb_failLine = [],
      tb_empty = [],
      tb_sig = []\<rparr>,
     \<lparr>tb_program = ''yarn'', tb_delegate = True,
      tb_pass = [],
      tb_fail = [re ''^error Command failed''],
      tb_failLine = [],
      tb_empty = [],
      tb_sig = []\<rparr>,
     \<lparr>tb_program = ''pnpm'', tb_delegate = True,
      tb_pass = [],
      tb_fail = [re ''^ERR_PNPM''],
      tb_failLine = [],
      tb_empty = [],
      tb_sig = []\<rparr>]"

definition findProgram :: "string \<Rightarrow> table option" where
  "findProgram program = find (\<lambda>r. tb_program r = program) tables"

text \<open>The words of a runner's name, cut at its spaces; the first that is a program of the table.\<close>

definition ProgramFor :: "string \<Rightarrow> string \<Rightarrow> string" where
  "ProgramFor program runner =
     (case find (\<lambda>w. w \<noteq> [] \<and> findProgram w \<noteq> None) (Split runner CHR '' '') of
        None \<Rightarrow> program | Some w \<Rightarrow> w)"

definition Delegated :: "string \<Rightarrow> bool" where
  "Delegated program = (case findProgram program of None \<Rightarrow> False | Some row \<Rightarrow> tb_delegate row)"

definition Runner :: "string \<Rightarrow> bool" where
  "Runner program = (case findProgram program of None \<Rightarrow> False | Some row \<Rightarrow> \<not> tb_delegate row)"

definition FailLineDecides :: "string \<Rightarrow> bool" where
  "FailLineDecides program =
     (case findProgram program of None \<Rightarrow> False
      | Some row \<Rightarrow> \<not> tb_delegate row \<and> length (tb_fail row) = 0)"

section \<open>Matching a line\<close>

datatype line_result = LrNone | LrEmpty | LrFail | LrFailLine | LrPass

definition matches :: "(string \<Rightarrow> string \<Rightarrow> bool) \<Rightarrow> string list \<Rightarrow> string \<Rightarrow> bool" where
  "matches rx patterns line = list_ex (\<lambda>p. rx p line) patterns"

definition matchLine ::
    "(string \<Rightarrow> string \<Rightarrow> bool) \<Rightarrow> string \<Rightarrow> table option \<Rightarrow> string \<times> line_result" where
  "matchLine rx line row =
     (case row of None \<Rightarrow> ([], LrNone)
      | Some r \<Rightarrow>
          if matches rx (tb_empty r) line then (tb_program r, LrEmpty)
          else if matches rx (tb_fail r) line then (tb_program r, LrFail)
          else if matches rx (tb_failLine r) line then (tb_program r, LrFailLine)
          else if matches rx (tb_pass r) line then (tb_program r, LrPass)
          else ([], LrNone))"

text \<open>The rows counted in a delegated output are a bit set, one bit per row's index.\<close>

fun delegated_from ::
    "(string \<Rightarrow> string \<Rightarrow> bool) \<Rightarrow> string \<Rightarrow> 32 word \<Rightarrow> nat \<Rightarrow> table list \<Rightarrow> string \<times> line_result" where
  "delegated_from rx line counted i [] = ([], LrNone)"
| "delegated_from rx line counted i (r # rs) =
     (if counted AND push_bit i 1 = 0 then delegated_from rx line counted (Suc i) rs
      else (let m = matchLine rx line (Some r) in
            if snd m \<noteq> LrNone then m else delegated_from rx line counted (Suc i) rs))"

definition matchDelegatedLine ::
    "(string \<Rightarrow> string \<Rightarrow> bool) \<Rightarrow> string \<Rightarrow> 32 word \<Rightarrow> string \<times> line_result" where
  "matchDelegatedLine rx line counted = delegated_from rx line counted 0 tables"

text \<open>The lines the scan reads: the pieces between newlines, and no empty last one.\<close>

definition text_lines :: "string \<Rightarrow> string list" where
  "text_lines t = (let ws = Split t CHR 0x0A in
                   if t = [] then [] else if last ws = [] then butlast ws else ws)"

text \<open>
  The rows whose signature the text holds. A row with none counts at once, except in
  the output of a wrapper; the others wait in \<open>open\<close> for a line of theirs.
\<close>

fun open_rows :: "bool \<Rightarrow> nat \<Rightarrow> table list \<Rightarrow> 32 word \<times> 32 word \<Rightarrow> 32 word \<times> 32 word" where
  "open_rows wrapper i [] (counted, opn) = (counted, opn)"
| "open_rows wrapper i (r # rs) (counted, opn) =
     open_rows wrapper (Suc i) rs
       (if tb_sig r \<noteq> [] then (counted, opn OR push_bit i 1)
        else if \<not> wrapper then (counted OR push_bit i 1, opn)
        else (counted, opn))"

fun sign_line ::
    "(string \<Rightarrow> string \<Rightarrow> bool) \<Rightarrow> string \<Rightarrow> nat \<Rightarrow> table list \<Rightarrow> 32 word \<times> 32 word \<Rightarrow> 32 word \<times> 32 word" where
  "sign_line rx line i [] (counted, opn) = (counted, opn)"
| "sign_line rx line i (r # rs) (counted, opn) =
     sign_line rx line (Suc i) rs
       (if opn AND push_bit i 1 \<noteq> 0 \<and> matches rx (tb_sig r) line
        then (counted OR push_bit i 1, opn AND NOT (push_bit i 1)) else (counted, opn))"

fun sign_lines ::
    "(string \<Rightarrow> string \<Rightarrow> bool) \<Rightarrow> string list \<Rightarrow> 32 word \<times> 32 word \<Rightarrow> 32 word \<times> 32 word" where
  "sign_lines rx [] s = s"
| "sign_lines rx (l # ls) s = (if snd s = 0 then s else sign_lines rx ls (sign_line rx l 0 tables s))"

definition signedRows :: "(string \<Rightarrow> string \<Rightarrow> bool) \<Rightarrow> string \<Rightarrow> bool \<Rightarrow> 32 word" where
  "signedRows rx t wrapper =
     fst (sign_lines rx (text_lines t) (open_rows wrapper 0 tables (0, 0)))"

section \<open>The classification\<close>

text \<open>What the scan has seen so far: per result, the first parser that said it.\<close>

record seen =
  sn_pass :: "string option"
  sn_fail :: "string option"
  sn_failLine :: "string option"
  sn_empty :: "string option"

definition nothing_seen :: seen where
  "nothing_seen = \<lparr>sn_pass = None, sn_fail = None, sn_failLine = None, sn_empty = None\<rparr>"

text \<open>The flag is set, and the parser is the first that is not the empty string.\<close>

definition saw :: "string option \<Rightarrow> string \<Rightarrow> string option" where
  "saw old parser = (case old of None \<Rightarrow> Some parser | Some p \<Rightarrow> Some (if p = [] then parser else p))"

definition see :: "string \<times> line_result \<Rightarrow> seen \<Rightarrow> seen" where
  "see m s =
     (case snd m of
        LrEmpty \<Rightarrow> s\<lparr>sn_empty := saw (sn_empty s) (fst m)\<rparr>
      | LrFail \<Rightarrow> s\<lparr>sn_fail := saw (sn_fail s) (fst m)\<rparr>
      | LrFailLine \<Rightarrow> s\<lparr>sn_failLine := saw (sn_failLine s) (fst m)\<rparr>
      | LrPass \<Rightarrow> s\<lparr>sn_pass := saw (sn_pass s) (fst m)\<rparr>
      | LrNone \<Rightarrow> s)"

definition fallback :: "string \<Rightarrow> string \<Rightarrow> string" where
  "fallback parser program = (if parser \<noteq> [] then parser else program)"

fun first_counted :: "32 word \<Rightarrow> nat \<Rightarrow> table list \<Rightarrow> table option" where
  "first_counted counted i [] = None"
| "first_counted counted i (r # rs) =
     (if counted AND push_bit i 1 \<noteq> 0 then Some r else first_counted counted (Suc i) rs)"

definition MaxScanBytes :: nat where
  "MaxScanBytes = 2 ^ 20"

definition Wrapper :: string where
  "Wrapper = ''wrapper''"

definition line_reader ::
    "(string \<Rightarrow> string \<Rightarrow> bool) \<Rightarrow> table option \<Rightarrow> 32 word \<Rightarrow> string \<Rightarrow> string \<times> line_result" where
  "line_reader rx row counted line =
     (case row of None \<Rightarrow> matchDelegatedLine rx line counted | Some _ \<Rightarrow> matchLine rx line row)"

definition verdict_of :: "seen \<Rightarrow> bool \<Rightarrow> 32 word \<Rightarrow> string \<Rightarrow> gate_output" where
  "verdict_of s wrapper counted program =
     (case (sn_fail s, sn_failLine s, sn_pass s, sn_empty s) of
        (Some p, _) \<Rightarrow> gate_out OutSummaryFail (fallback p program)
      | (None, Some p, _) \<Rightarrow> gate_out OutFailLine (fallback p program)
      | (None, None, Some p, _) \<Rightarrow> gate_out OutSummaryPass (fallback p program)
      | (None, None, None, Some p) \<Rightarrow> gate_out OutEmptyRun (fallback p program)
      | (None, None, None, None) \<Rightarrow>
          (case (if wrapper then first_counted counted 0 tables else None) of
             Some r \<Rightarrow> gate_out OutNoSummary (tb_program r)
           | None \<Rightarrow> gate_out OutNoSummary program))"

text \<open>A delegated output is read line by line against every counted row, any other against its own row.\<close>

definition scan_delegated :: "string \<Rightarrow> bool" where
  "scan_delegated program \<longleftrightarrow> program = Wrapper \<or> Delegated program"

definition scan_counted :: "(string \<Rightarrow> string \<Rightarrow> bool) \<Rightarrow> string \<Rightarrow> string \<Rightarrow> 32 word" where
  "scan_counted rx program t =
     (if scan_delegated program then signedRows rx t (program = Wrapper) else 0)"

definition scan_line ::
    "(string \<Rightarrow> string \<Rightarrow> bool) \<Rightarrow> string \<Rightarrow> string \<Rightarrow> string \<Rightarrow> string \<times> line_result" where
  "scan_line rx program t =
     line_reader rx (if scan_delegated program then None else findProgram program) (scan_counted rx program t)"

definition ClassifyOutput ::
    "(string \<Rightarrow> string \<Rightarrow> bool) \<Rightarrow> string \<Rightarrow> string \<Rightarrow> string \<Rightarrow> gate_output" where
  "ClassifyOutput rx kind program t =
     (if kind \<notin> {''test'', ''build'', ''lint'', ''typecheck'', ''scan''}
      then gate_out OutUnattributable []
      else if kind \<noteq> ''test'' then gate_out OutNoSummary program
      else if length t > MaxScanBytes
      then \<lparr>go_Kind = OutUnread, go_Parser = [], go_Reason = Some ''too_large''\<rparr>
      else if findProgram program = None \<and> program \<noteq> Wrapper then gate_out OutUnattributable []
      else if program = Wrapper \<and> scan_counted rx program t = 0 then gate_out OutNoSummary program
      else verdict_of
             (foldl (\<lambda>s l. see (scan_line rx program t l) s) nothing_seen (text_lines t))
             (program = Wrapper) (scan_counted rx program t) program)"

section \<open>The table decides what a fail line may say\<close>

lemma tables_fail: "\<forall>r \<in> set tables. tb_fail r \<noteq> []"
  by (simp add: tables_def)

text \<open>
  Every row of the table has a fail pattern of its own, so no program's fail
  line decides an outcome: the branch of \<open>readsOutput\<close> for it is never taken.
\<close>

theorem FailLineDecides_never: "\<not> FailLineDecides program"
proof (cases "findProgram program")
  case (Some r)
  then have "r \<in> set tables" by (auto simp: findProgram_def dest: map_fst_find)
  then have "tb_fail r \<noteq> []" using tables_fail by blast
  with Some show ?thesis by (simp add: FailLineDecides_def)
qed (simp add: FailLineDecides_def)

section \<open>The classification never overstates\<close>

lemma saw_Some [simp]: "saw old p \<noteq> None"
  by (auto simp: saw_def split: option.splits)

lemma seen_fold:
  "sn_fail (foldl (\<lambda>s l. see (f l) s) s ls) \<noteq> None \<longleftrightarrow>
     sn_fail s \<noteq> None \<or> (\<exists>l \<in> set ls. snd (f l) = LrFail)"
  "sn_failLine (foldl (\<lambda>s l. see (f l) s) s ls) \<noteq> None \<longleftrightarrow>
     sn_failLine s \<noteq> None \<or> (\<exists>l \<in> set ls. snd (f l) = LrFailLine)"
  "sn_pass (foldl (\<lambda>s l. see (f l) s) s ls) \<noteq> None \<longleftrightarrow>
     sn_pass s \<noteq> None \<or> (\<exists>l \<in> set ls. snd (f l) = LrPass)"
  by (induction ls arbitrary: s) (auto simp: see_def split: line_result.splits)

lemma verdict_kind:
  "go_Kind (verdict_of s w c p) = OutSummaryPass \<longleftrightarrow>
     sn_fail s = None \<and> sn_failLine s = None \<and> sn_pass s \<noteq> None"
  "go_Kind (verdict_of s w c p) = OutSummaryFail \<longleftrightarrow> sn_fail s \<noteq> None"
  by (auto simp: verdict_of_def gate_out_def split: option.splits)

definition scanned :: "(string \<Rightarrow> string \<Rightarrow> bool) \<Rightarrow> string \<Rightarrow> string \<Rightarrow> string \<Rightarrow> bool" where
  "scanned rx kind program t \<longleftrightarrow>
     kind = ''test'' \<and> length t \<le> MaxScanBytes \<and>
     (findProgram program \<noteq> None \<or> program = Wrapper \<and> scan_counted rx program t \<noteq> 0)"

lemma findProgram_Wrapper: "findProgram Wrapper = None"
  by (simp add: findProgram_def tables_def Wrapper_def)

lemma ClassifyOutput_scanned:
  "scanned rx kind program t \<Longrightarrow> ClassifyOutput rx kind program t =
     verdict_of (foldl (\<lambda>s l. see (scan_line rx program t l) s) nothing_seen (text_lines t))
       (program = Wrapper) (scan_counted rx program t) program"
  using findProgram_Wrapper by (auto simp: ClassifyOutput_def scanned_def)

lemma ClassifyOutput_unscanned:
  "\<not> scanned rx kind program t \<Longrightarrow>
     go_Kind (ClassifyOutput rx kind program t) \<in> {OutUnattributable, OutNoSummary, OutUnread}"
  by (auto simp: ClassifyOutput_def scanned_def gate_out_def)

lemma nothing_seen_simps [simp]:
  "sn_pass nothing_seen = None" "sn_fail nothing_seen = None"
  "sn_failLine nothing_seen = None" "sn_empty nothing_seen = None"
  by (simp_all add: nothing_seen_def)

text \<open>
  C32: an output reads as a passing summary exactly when it is a test run's output that
  was scanned, some line of it is a pass and no line of it is a fail or a fail line: a
  pass beside any failure is never reported as one.
\<close>

theorem ClassifyOutput_pass_iff:
  "go_Kind (ClassifyOutput rx kind program t) = OutSummaryPass \<longleftrightarrow>
     scanned rx kind program t \<and>
     list_ex (\<lambda>l. snd (scan_line rx program t l) = LrPass) (text_lines t) \<and>
     \<not> list_ex (\<lambda>l. snd (scan_line rx program t l) \<in> {LrFail, LrFailLine}) (text_lines t)"
proof (cases "scanned rx kind program t")
  case True
  let ?s = "foldl (\<lambda>s l. see (scan_line rx program t l) s) nothing_seen (text_lines t)"
  have "sn_pass ?s \<noteq> None \<longleftrightarrow> (\<exists>l \<in> set (text_lines t). snd (scan_line rx program t l) = LrPass)"
    "sn_fail ?s \<noteq> None \<longleftrightarrow> (\<exists>l \<in> set (text_lines t). snd (scan_line rx program t l) = LrFail)"
    "sn_failLine ?s \<noteq> None \<longleftrightarrow> (\<exists>l \<in> set (text_lines t). snd (scan_line rx program t l) = LrFailLine)"
    by (simp_all only: seen_fold) simp_all
  then show ?thesis
    using True by (auto simp: ClassifyOutput_scanned verdict_kind list_ex_iff)
next
  case False
  then show ?thesis using ClassifyOutput_unscanned [OF False] by auto
qed

end
