(* ===== verification/StoreRecord.thy ===== *)
theory StoreRecord
  imports GateOutput
begin

text \<open>
  The record a session leaves, as its readers hold it in memory, \<^verbatim>\<open>internal/store\<close>:
  declarations, executions, terminals, coverage and outcome joins, and the run that
  collects them (record.go, record_v5.go, read.go, outcomejoin.go). Each Isabelle record has the
  fields the modelled readers use, in the code's order, a nil pointer as \<open>None\<close>. Seq and
  the clock fields are int64, held as \<open>int\<close>: the readers only compare them.
\<close>

datatype exec_outcome = ExecOK | ExecFailed | ExecInterrupted | ExecOther string

text \<open>The file labels a declaration may carry (shape/label.go); only the test label is read here.\<close>

datatype file_label = LabelTestFile | LabelOther string

record shape =
  sh_Program :: "string option"
  sh_VerbClass :: verb_class
  sh_Digest :: string
  sh_MayWrite :: bool
  sh_StatusMasked :: "masked_word option"
  sh_RunnerDigest :: "string option"
  sh_RunnerKind :: "string option"

text \<open>What a cap left out of a stored command, and the spans masked in it.\<close>

record cut_mark =
  cut_Offset :: int
  cut_RemovedBytes :: int

record mask_span =
  ms_Rule :: string
  ms_Start :: int
  ms_End :: int

record decl =
  d_SchemaVersion :: int
  d_Seq :: int
  d_ToolUseID :: string
  d_PromptID :: "string option"
  d_AgentID :: "string option"
  d_ToolName :: string
  d_Shape :: shape
  d_CWDDigest :: string
  d_FileLabel :: "file_label option"
  d_StoreNamed :: bool
  d_Launch :: bool
  d_CommandWithheld :: "string option"
  d_CWD :: "string option"
  d_Project :: "string option"
  d_FilePath :: "string option"
  d_WrittenPaths :: "string list"
  d_WrittenPathsComplete :: "bool option"
  d_WrittenPathsWithheld :: "string option"
  d_FilePathWithheld :: "string option"
  d_ProjectWithheld :: "string option"
  d_Command :: "string option"
  d_CommandCut :: "cut_mark option"
  d_Masked :: "mask_span list"

text \<open>The marks an edit moved: a Go map each, held as an association list with distinct keys.\<close>

record edit_marks =
  em_Added :: "(string \<times> int) list"
  em_Removed :: "(string \<times> int) list"
  em_Basis :: string

record execution =
  e_SchemaVersion :: int
  e_Seq :: "int option"
  e_ToolUseID :: string
  e_Outcome :: exec_outcome
  e_ExitCode :: "int option"
  e_ExecutedDigest :: string
  e_Backgrounded :: bool
  e_StatusMasked :: "masked_word option"
  e_RunnerDigest :: "string option"
  e_RunnerKind :: "string option"
  e_RunnerName :: "string option"
  e_MaskedBy :: "string option"
  e_RulesVersion :: int
  e_EditMarks :: "edit_marks option"
  e_GateOutput :: "gate_output option"
  e_ContentSHA256 :: "string option"
  e_ExecutedCommand :: "string option"
  e_ExecutedCommandCut :: "cut_mark option"
  e_ExecutedMasked :: "mask_span list"
  e_ExecutedCommandWithheld :: "string option"

record terminal =
  t_Seq :: "int option"
  t_ToolUseID :: string
  t_Reason :: "string option"

record coverage =
  c_Phase :: string
  c_State :: string
  c_Reason :: "string option"
  c_HookEntry :: string
  c_Probe :: string

record outcome_join =
  oj_ToolUseID :: string
  oj_Outcome :: exec_outcome
  oj_ExitCode :: "int option"

text \<open>What the hook found of a spec's rules when a call landed.\<close>

record spec_event =
  se_Reason :: string
  se_RuleID :: string
  se_SourceDigest :: string
  se_LandedSeq :: int

record after_hit =
  ah_RuleID :: string
  ah_SourceDigest :: string
  ah_LandedSeq :: int
  ah_ExitCode :: "int option"
  ah_Foreground :: bool
  ah_CWDDigest :: string
  ah_Maybe :: bool

record then_check =
  th_RuleID :: string
  th_SourceDigest :: string
  th_LandedSeq :: int
  th_Then :: string

record run =
  r_Declarations :: "decl list"
  r_Executions :: "execution list"
  r_Terminals :: "terminal list"
  r_Coverage :: "coverage list"
  r_OutcomeJoins :: "outcome_join list"
  r_Skipped :: nat
  r_SpecEvents :: "spec_event list"
  r_AfterHits :: "after_hit list"
  r_ThenChecks :: "then_check list"

definition empty_run :: run where
  "empty_run = \<lparr>r_Declarations = [], r_Executions = [], r_Terminals = [], r_Coverage = [],
                r_OutcomeJoins = [], r_Skipped = 0, r_SpecEvents = [], r_AfterHits = [],
                r_ThenChecks = []\<rparr>"

definition FlushFailed :: "terminal \<Rightarrow> bool" where
  "FlushFailed t \<longleftrightarrow> t_Reason t = Some ''flush_failed''"

end
