(* ===== verification/PathClass.thy ===== *)
theory PathClass
  imports GoStrings
begin

text \<open>
  The class of a project path, \<^verbatim>\<open>internal/verify\<close> (pathclass.go): the word lists, the
  normalised path, and \<open>ClassOf\<close>, a decision list from the most to the least specific
  class; and the two readings of a path that lies in the record's own store. A write of
  an unknown target carries no class, \<open>ClassNone\<close>, Go's empty string.
\<close>

datatype path_class =
  ClassSource | ClassTest | ClassConfig | ClassCI | ClassDocs | ClassGenerated | ClassNone

definition PathClasses :: "path_class list" where
  "PathClasses = [ClassSource, ClassTest, ClassConfig, ClassCI, ClassDocs, ClassGenerated]"

definition Relevant :: "path_class \<Rightarrow> bool" where
  "Relevant c \<longleftrightarrow> c \<noteq> ClassCI \<and> c \<noteq> ClassDocs \<and> c \<noteq> ClassGenerated"

section \<open>The word lists\<close>

definition generatedSegments :: "string list" where
  "generatedSegments = [''vendor'', ''node_modules'', ''__pycache__'', ''.next'', ''__generated__'']"

definition generatedRootSegments :: "string list" where
  "generatedRootSegments = [''dist'', ''target'']"

definition generatedSuffixes :: "string list" where
  "generatedSuffixes =
     [''.pb.go'', ''.gen.go'', ''.gen.ts'', ''.gen.js'', ''_generated.go'', ''.min.js'', ''.min.css'',
      ''.generated.ts'', ''.g.dart'', ''.freezed.dart'', ''.pb.dart'', ''.pbenum.dart'',
      ''.pbjson.dart'', ''.pbserver.dart'', ''.pbgrpc.dart'']"

definition generatedPrefixes :: "string list" where
  "generatedPrefixes = [''zz_generated.'']"

definition ciSegments :: "string list" where
  "ciSegments = [''.github'', ''.gitlab'', ''.circleci'', ''.buildkite'']"

definition ciBasenames :: "string list" where
  "ciBasenames = [''.gitlab-ci.yml'', ''.travis.yml'', ''azure-pipelines.yml'', ''jenkinsfile'']"

definition testSegments :: "string list" where
  "testSegments = [''test'', ''tests'', ''spec'', ''__tests__'', ''testdata'', ''e2e'']"

definition testSuffixes :: "string list" where
  "testSuffixes =
     [''_test.go'', ''_test.py'', ''_spec.rb'', ''_test.rb'', ''_test.exs'', ''.spec.ts'', ''.spec.tsx'',
      ''.spec.js'', ''.spec.jsx'', ''.test.ts'', ''.test.tsx'', ''.test.js'', ''.test.jsx'']"

definition camelTestExtensions :: "string list" where
  "camelTestExtensions = [''.java'', ''.kt'', ''.cs'', ''.swift'', ''.scala'']"

definition docsRootSegments :: "string list" where
  "docsRootSegments = [''docs'', ''doc'']"

definition docsExtensions :: "string list" where
  "docsExtensions = [''.md'', ''.rst'', ''.adoc'']"

definition docsBasenames :: "string list" where
  "docsBasenames = [''license'', ''changelog'', ''authors'', ''notice'']"

definition configExtensions :: "string list" where
  "configExtensions =
     [''.json'', ''.yaml'', ''.yml'', ''.toml'', ''.ini'', ''.cfg'', ''.conf'', ''.lock'', ''.sum'',
      ''.properties'', ''.xml'', ''.pbxproj'']"

definition configBasenames :: "string list" where
  "configBasenames =
     [''makefile'', ''dockerfile'', ''go.mod'', ''go.work'', ''cmakelists.txt'', ''build'', ''build.bazel'',
      ''workspace'', ''workspace.bazel'', ''module.bazel'', ''package.swift'']"

section \<open>The normalised path\<close>

record normalised =
  nm_dir :: string
  nm_first :: string
  nm_base :: string
  nm_ext :: string
  nm_raw :: string

definition normalise :: "string \<Rightarrow> normalised" where
  "normalise p0 =
     (let p = ReplaceByte p0 CHR 0x5C CHR ''/'';
          raw = after_last p CHR ''/'';
          lower = ToLower p;
          dir = upto_last lower CHR ''/'';
          base = after_last lower CHR ''/''
      in \<lparr>nm_dir = dir, nm_first = fst (Cut dir CHR ''/''), nm_base = base, nm_ext = Ext base, nm_raw = raw\<rparr>)"

definition inSet :: "string \<Rightarrow> string list \<Rightarrow> bool" where
  "inSet s words \<longleftrightarrow> s \<in> set words"

lemma Cut_shorter: "(seg, rest, b) = Cut dir c \<Longrightarrow> dir \<noteq> [] \<Longrightarrow> length rest < length dir"
proof -
  assume h: "(seg, rest, b) = Cut dir c" and ne: "dir \<noteq> []"
  have "length (dropWhile (\<lambda>x. x \<noteq> c) dir) \<le> length dir" by (rule length_dropWhile_le)
  then show ?thesis using h ne by (cases "dropWhile (\<lambda>x. x \<noteq> c) dir") (auto simp: Cut_def split: if_splits)
qed

text \<open>The loop cuts one element at a time until nothing is left of the directory.\<close>

function hasSegment :: "string \<Rightarrow> string list \<Rightarrow> bool" where
  "hasSegment dir s =
     (if dir = [] then False
      else (case Cut dir CHR ''/'' of (seg, rest, _) \<Rightarrow> if inSet seg s then True else hasSegment rest s))"
  by pat_completeness auto
termination
  by (relation "measure (\<lambda>(dir, s). length dir)") (auto dest: Cut_shorter)

declare hasSegment.simps [simp del]

definition hasAnySuffix :: "string \<Rightarrow> string list \<Rightarrow> bool" where
  "hasAnySuffix s suffixes = list_ex (\<lambda>x. HasSuffix s x) suffixes"

definition hasAnyPrefix :: "string \<Rightarrow> string list \<Rightarrow> bool" where
  "hasAnyPrefix s prefixes = list_ex (\<lambda>x. HasPrefix s x) prefixes"

definition isTestName :: "normalised \<Rightarrow> bool" where
  "isTestName n \<longleftrightarrow>
     nm_base n = ''conftest.py'' \<or> HasPrefix (nm_base n) ''test_'' \<and> HasSuffix (nm_base n) ''.py'' \<or>
     (let ext = Ext (nm_raw n); stem = take (length (nm_raw n) - length ext) (nm_raw n) in
      inSet (nm_ext n) camelTestExtensions \<and> (HasSuffix stem ''Test'' \<or> HasSuffix stem ''Tests'')) \<or>
     hasAnySuffix (nm_base n) testSuffixes"

definition isConfigName :: "string \<Rightarrow> bool" where
  "isConfigName base \<longleftrightarrow>
     inSet base configBasenames \<or>
     HasSuffix base ''.txt'' \<and> (HasPrefix base ''requirements'' \<or> HasPrefix base ''constraints'')"

definition isDotfile :: "string \<Rightarrow> bool" where
  "isDotfile base \<longleftrightarrow> HasPrefix base ''.'' \<and> TrimLeft base CHR ''.'' \<noteq> []"

definition ClassOf :: "string \<Rightarrow> path_class" where
  "ClassOf p =
     (let n = normalise p in
      if hasSegment (nm_dir n) generatedSegments \<or> inSet (nm_first n) generatedRootSegments \<or>
         hasAnySuffix (nm_base n) generatedSuffixes \<or> hasAnyPrefix (nm_base n) generatedPrefixes
      then ClassGenerated
      else if hasSegment (nm_dir n) ciSegments \<or> inSet (nm_base n) ciBasenames then ClassCI
      else if hasSegment (nm_dir n) testSegments \<or> isTestName n then ClassTest
      else if inSet (nm_first n) docsRootSegments \<or> inSet (nm_ext n) docsExtensions \<or>
              inSet (nm_base n) docsBasenames then ClassDocs
      else if inSet (nm_ext n) configExtensions \<or> isConfigName (nm_base n) \<or> isDotfile (nm_base n)
      then ClassConfig
      else ClassSource)"

section \<open>Paths in a directory\<close>

definition slashed :: "string \<Rightarrow> string" where
  "slashed s = ReplaceByte s CHR 0x5C CHR ''/''"

definition samePrefix :: "string \<Rightarrow> string \<Rightarrow> bool" where
  "samePrefix a b =
     (if length a \<ge> 2 \<and> a ! 1 = CHR '':'' \<and> b ! 1 = CHR '':'' \<and> isLetter (a ! 0) \<and> isLetter (b ! 0)
      then lower_char (a ! 0) = lower_char (b ! 0) \<and> drop 2 a = drop 2 b
      else a = b)"

text \<open>The rest of \<open>p\<close> below \<open>dir\<close>, when it lies there.\<close>

definition under :: "string \<Rightarrow> string \<Rightarrow> string option" where
  "under p dir0 =
     (let dir = TrimRight dir0 CHR ''/'' in
      if dir = [] \<or> length p \<le> length dir \<or> p ! length dir \<noteq> CHR ''/'' \<or>
         \<not> samePrefix (take (length dir) p) dir
      then None else Some (drop (length dir + 1) p))"

fun strip_dot :: "string \<Rightarrow> string" where
  "strip_dot (a # b # p) = (if a = CHR ''.'' \<and> b = CHR ''/'' then strip_dot p else a # b # p)"
| "strip_dot p = p"

definition relativise :: "string \<Rightarrow> string option \<Rightarrow> string option \<Rightarrow> string" where
  "relativise filePath project cwd =
     (let p = slashed filePath;
          try = (\<lambda>dir. case dir of None \<Rightarrow> None | Some d \<Rightarrow> under p (slashed d))
      in strip_dot (case try project of Some rel \<Rightarrow> rel
                    | None \<Rightarrow> (case try cwd of Some rel \<Rightarrow> rel | None \<Rightarrow> p)))"

definition RelevantUnder :: "string \<Rightarrow> string \<Rightarrow> string \<Rightarrow> bool" where
  "RelevantUnder path root cwd =
     (let rel = relativise path (Some root) (Some cwd) in
      if IsAbs rel \<or> rel = ''..'' \<or> HasPrefix rel ''../'' then False else Relevant (ClassOf rel))"

definition inStore :: "string \<Rightarrow> bool" where
  "inStore p \<longleftrightarrow> Contains (''/'' @ Clean p @ ''/'') ''/.claude/rashomon/''"

definition underStore :: "string \<Rightarrow> string \<Rightarrow> bool" where
  "underStore p root =
     (if root = [] \<or> p = [] then False
      else let p' = Clean p; r = Clean (slashed root) in under p' r \<noteq> None \<or> p' = r)"

section \<open>Facts\<close>

lemma ClassOf_known: "ClassOf p \<in> set PathClasses"
  by (simp add: ClassOf_def PathClasses_def Let_def)

lemma ClassOf_slashed: "ClassOf (slashed p) = ClassOf p"
proof -
  have "ReplaceByte (ReplaceByte p CHR 0x5C CHR ''/'') CHR 0x5C CHR ''/'' = ReplaceByte p CHR 0x5C CHR ''/''"
    by (rule ReplaceByte_id) (rule ReplaceByte_absent, simp)
  then show ?thesis by (simp add: ClassOf_def normalise_def slashed_def)
qed

text \<open>Joining a directory without a trailing slash and a relative path lies under the directory.\<close>

lemma samePrefix_refl [simp]: "samePrefix a a"
  by (simp add: samePrefix_def)

lemma under_join:
  "dir \<noteq> [] \<Longrightarrow> last dir \<noteq> CHR ''/'' \<Longrightarrow> under (dir @ ''/'' @ rel) dir = Some rel"
proof -
  assume h: "dir \<noteq> []" "last dir \<noteq> CHR ''/''"
  then have "TrimRight dir CHR ''/'' = dir"
    by (cases dir rule: rev_cases) (auto simp: TrimRight_def)
  with h show ?thesis by (simp add: under_def)
qed

lemma strip_dot_done: "\<not> HasPrefix (strip_dot p) ''./''"
  by (induction p rule: strip_dot.induct) (auto simp: HasPrefix_def)

lemma strip_dot_id: "\<not> HasPrefix p ''./'' \<Longrightarrow> strip_dot p = p"
  by (induction p rule: strip_dot.induct) (auto simp: HasPrefix_def)

end
