(* ===== verification/Cover.thy ===== *)
theory Cover
  imports StoreRecord PathClass
begin

text \<open>
  Which files a gate speaks for, \<^verbatim>\<open>internal/verify\<close> (cover.go, and the \<^verbatim>\<open>write\<close> of
  classify.go): the project a call ran in, whether a write lies in the project whose
  files a gate's run covers, the projects a turn's calls ran in, and the small ids a run
  holds its project by.
\<close>

text \<open>One write of a call: a named path, or an unknown target.\<close>

record wr =
  w_Seq :: int
  w_decl :: "decl option"
  w_Path :: "string option"
  w_Class :: path_class
  w_Tool :: string
  w_SHA :: "string option"

definition w_agent :: "wr \<Rightarrow> string option" where
  "w_agent w = (case w_decl w of None \<Rightarrow> None | Some d \<Rightarrow> d_AgentID d)"

text \<open>A call's project: the one it names, no project where its directory is known, else not known.\<close>

definition projectOf :: "decl \<Rightarrow> string option" where
  "projectOf d =
     (if d_Project d \<noteq> None then d_Project d
      else if d_ProjectWithheld d = None \<and> d_CWD d \<noteq> None then Some []
      else None)"

definition w_project :: "wr \<Rightarrow> string option" where
  "w_project w = (case w_decl w of None \<Rightarrow> None | Some d \<Rightarrow> projectOf d)"

text \<open>
  Every caller asks of a named write only; the code would panic on a nil path, which
  reads \<open>False\<close> here.
\<close>

definition covers :: "string \<Rightarrow> wr \<Rightarrow> bool" where
  "covers root0 w =
     (case w_project w of
        None \<Rightarrow> True
      | Some project \<Rightarrow>
          if root0 = [] then True
          else (case w_Path w of
             None \<Rightarrow> False
           | Some p \<Rightarrow>
               let root = slashed root0 in
               if IsAbs p then under p root \<noteq> None
               else let proj = slashed project in
                 if proj = [] \<or> p = ''..'' \<or> HasPrefix p ''../'' then False
                 else if under proj root \<noteq> None \<or> proj = root then True
                 else (case under root proj of
                         None \<Rightarrow> False
                       | Some rel \<Rightarrow> p = rel \<or> HasPrefix p (rel @ ''/''))))"

text \<open>A nil list of roots covers everything.\<close>

definition coveredByAny :: "string list option \<Rightarrow> wr \<Rightarrow> bool" where
  "coveredByAny roots w = (case roots of None \<Rightarrow> True | Some rs \<Rightarrow> list_ex (\<lambda>r. covers r w) rs)"

section \<open>The turn's projects\<close>

definition acts :: "decl \<Rightarrow> bool" where
  "acts d \<longleftrightarrow> d_SchemaVersion d < 3 \<or> sh_VerbClass (d_Shape d) \<noteq> VerbRead \<or> sh_MayWrite (d_Shape d)"

definition maxProjectKeys :: nat where
  "maxProjectKeys = 255"

text \<open>\<open>None\<close> is the early return: a call whose project is not known, or one project too many.\<close>

fun projects_from :: "decl list \<Rightarrow> string \<Rightarrow> int \<Rightarrow> bool \<Rightarrow> string list \<Rightarrow> string list option" where
  "projects_from [] promptID at acting ps = Some ps"
| "projects_from (d # ds) promptID at acting ps =
     (if d_PromptID d = None \<or> d_PromptID d = Some [] \<or> d_PromptID d \<noteq> Some promptID \<or> d_Seq d > at \<or>
         acting \<and> \<not> acts d
      then projects_from ds promptID at acting ps
      else (case projectOf d of
              None \<Rightarrow> None
            | Some p \<Rightarrow>
                if p = [] \<or> p \<in> set ps then projects_from ds promptID at acting ps
                else if length ps = maxProjectKeys then None
                else projects_from ds promptID at acting (ps @ [p])))"

definition projectsOf :: "run \<Rightarrow> string \<Rightarrow> int \<Rightarrow> bool \<Rightarrow> string list option" where
  "projectsOf r promptID at acting = projects_from (r_Declarations r) promptID at acting []"

text \<open>
  The latest prompt is the one whose first call is the latest: per prompt the least seq
  of its declarations, then the prompt with the greatest, seq -1 and below counting for none.
\<close>

definition prompt_of :: "decl \<Rightarrow> string option" where
  "prompt_of d = (case d_PromptID d of None \<Rightarrow> None | Some p \<Rightarrow> if p = [] then None else Some p)"

definition note_first :: "(string \<rightharpoonup> int) \<Rightarrow> decl \<Rightarrow> (string \<rightharpoonup> int)" where
  "note_first m d =
     (case prompt_of d of
        None \<Rightarrow> m
      | Some p \<Rightarrow> (case m p of
                     None \<Rightarrow> m(p \<mapsto> d_Seq d)
                   | Some s \<Rightarrow> if d_Seq d < s then m(p \<mapsto> d_Seq d) else m))"

definition prompts :: "decl list \<Rightarrow> string list" where
  "prompts ds = remdups (List.map_filter prompt_of ds)"

definition latestPrompt :: "decl list \<Rightarrow> string" where
  "latestPrompt ds =
     (let first = foldl note_first Map.empty ds;
          at = (\<lambda>p. case first p of None \<Rightarrow> -1 | Some s \<Rightarrow> s)
      in case fold_best (\<lambda>p q. at p > at q) (filter (\<lambda>p. at p > -1) (prompts ds)) of
           None \<Rightarrow> [] | Some p \<Rightarrow> p)"

text \<open>
  The projects of the turn's acting calls; of every call of it where no acting call
  names one; the empty list, Go's nil, where a project is not known.
\<close>

definition turnProjects :: "run \<Rightarrow> string \<Rightarrow> int \<Rightarrow> string list" where
  "turnProjects r promptID0 at =
     (let promptID = (if promptID0 = [] then latestPrompt (r_Declarations r) else promptID0) in
      case projectsOf r promptID at True of
        None \<Rightarrow> []
      | Some [] \<Rightarrow> (case projectsOf r promptID at False of None \<Rightarrow> [] | Some ps \<Rightarrow> ps)
      | Some ps \<Rightarrow> ps)"

definition touches :: "string list \<Rightarrow> string \<Rightarrow> bool" where
  "touches projects root0 =
     (if projects = [] \<or> root0 = [] then True
      else let root = slashed root0 in
        list_ex (\<lambda>p0. let p = slashed p0 in under p root \<noteq> None \<or> p = root \<or> under root p \<noteq> None) projects)"

section \<open>Project ids\<close>

type_synonym projectKeys = "string list"

fun key_index :: "projectKeys \<Rightarrow> nat \<Rightarrow> string \<Rightarrow> 8 word option" where
  "key_index [] i p = None"
| "key_index (s # k) i p = (if s = p then Some (of_nat (i + 1)) else key_index k (i + 1) p)"

definition pk_id :: "projectKeys \<Rightarrow> string option \<Rightarrow> 8 word \<times> projectKeys" where
  "pk_id k p =
     (case p of
        None \<Rightarrow> (0, k)
      | Some s \<Rightarrow>
          (case key_index k 0 s of
             Some i \<Rightarrow> (i, k)
           | None \<Rightarrow> if length k \<ge> maxProjectKeys then (0, k)
                     else (of_nat (length (k @ [s])), k @ [s])))"

definition pk_key :: "projectKeys \<Rightarrow> 8 word \<Rightarrow> string" where
  "pk_key k i = (if i = 0 \<or> unat i > length k then [] else k ! (unat i - 1))"

section \<open>Facts\<close>

lemma covers_no_root [simp]: "covers [] w"
  by (auto simp: covers_def split: option.splits)

lemma covers_unknown_project: "w_project w = None \<Longrightarrow> covers root w"
  by (simp add: covers_def)

lemma covers_own_project:
  "w_project w = Some root \<Longrightarrow> w_Path w = Some p \<Longrightarrow> root \<noteq> [] \<Longrightarrow> \<not> IsAbs p \<Longrightarrow>
     p \<noteq> ''..'' \<Longrightarrow> \<not> HasPrefix p ''../'' \<Longrightarrow> covers root w"
  by (auto simp: covers_def Let_def slashed_def ReplaceByte_def)

lemma key_index_Some:
  "key_index k i p = Some j \<Longrightarrow> \<exists>n < length k. k ! n = p \<and> j = of_nat (i + n + 1)"
proof (induction k arbitrary: i)
  case (Cons s k)
  show ?case
  proof (cases "s = p")
    case True
    with Cons.prems show ?thesis by auto
  next
    case False
    with Cons.prems have "key_index k (i + 1) p = Some j" by simp
    from Cons.IH [OF this] obtain n where
      "n < length k" "k ! n = p" "j = of_nat (i + 1 + n + 1)" by blast
    then show ?thesis by (intro exI [of _ "Suc n"]) simp
  qed
qed simp

lemma key_index_None: "key_index k i p = None \<Longrightarrow> p \<notin> set k"
  by (induction k arbitrary: i) (auto split: if_splits)

lemma unat_of_nat_8: "n < 256 \<Longrightarrow> unat (of_nat n :: 8 word) = n"
  by (simp add: unat_of_nat)

lemma pk_id_bounded: "length k \<le> maxProjectKeys \<Longrightarrow> length (snd (pk_id k p)) \<le> maxProjectKeys"
  by (auto simp: pk_id_def split: option.splits)

lemma pk_id_prefix: "\<exists>ext. snd (pk_id k p) = k @ ext"
  by (auto simp: pk_id_def split: option.splits)

lemma pk_key_at: "n < length k \<Longrightarrow> length k \<le> maxProjectKeys \<Longrightarrow> pk_key k (of_nat (n + 1)) = k ! n"
proof -
  assume h: "n < length k" "length k \<le> maxProjectKeys"
  then have "unat (of_nat (n + 1) :: 8 word) = n + 1"
    by (intro unat_of_nat_8) (simp add: maxProjectKeys_def)
  moreover from this have "(of_nat (n + 1) :: 8 word) \<noteq> 0"
    by (metis Suc_eq_plus1 nat.distinct(1) unat_0)
  ultimately show ?thesis using h by (simp add: pk_key_def)
qed

text \<open>
  A project id reads back the project it was given for, and goes on doing so
  whatever projects are added later; the byte never wraps, because no id is given past
  255 projects, where a project has id 0 and reads as no project at all.
\<close>

theorem projectKeys_roundtrip:
  assumes "length k \<le> maxProjectKeys" and "length (k' @ ext) \<le> maxProjectKeys"
    and "pk_id k (Some p) = (i, k')"
  shows "pk_key (k' @ ext) i = p \<or> i = 0 \<and> length k = maxProjectKeys \<and> p \<notin> set k"
proof (cases "key_index k 0 p")
  case (Some j)
  then obtain n where n: "n < length k" "k ! n = p" "j = of_nat (n + 1)"
    using key_index_Some [OF Some] by auto
  from Some assms(3) have k': "i = j" "k' = k" by (auto simp: pk_id_def)
  have "pk_key (k @ ext) (of_nat (n + 1)) = (k @ ext) ! n"
    using n(1) assms(2) k' by (intro pk_key_at) auto
  with n k' show ?thesis by (simp add: nth_append)
next
  case None
  then have new: "p \<notin> set k" by (rule key_index_None)
  show ?thesis
  proof (cases "length k \<ge> maxProjectKeys")
    case True
    with None assms(1,3) new show ?thesis by (auto simp: pk_id_def)
  next
    case False
    with None assms(3) have k': "i = of_nat (length k + 1)" "k' = k @ [p]" by (auto simp: pk_id_def)
    have "pk_key (k' @ ext) (of_nat (length k + 1)) = (k' @ ext) ! length k"
      using assms(2) k' by (intro pk_key_at) auto
    with k' show ?thesis by (simp add: nth_append)
  qed
qed

theorem projectKeys_roundtrip_witness:
  "pk_id [''/a''] (Some ''/b'') = (2, [''/a'', ''/b'']) \<and> pk_key [''/a'', ''/b'', ''/c''] 2 = ''/b''"
proof -
  have id: "pk_id [''/a''] (Some ''/b'') = (2, [''/a'', ''/b''])" by (simp add: pk_id_def maxProjectKeys_def)
  have "pk_key ([''/a'', ''/b''] @ [''/c'']) 2 = ''/b'' \<or>
      (2 :: 8 word) = 0 \<and> length [''/a''] = maxProjectKeys \<and> ''/b'' \<notin> set [''/a'']"
    by (rule projectKeys_roundtrip [OF _ _ id]) (simp_all add: maxProjectKeys_def)
  then show ?thesis using id by (simp add: maxProjectKeys_def)
qed

end
