(* ===== verification/Classify.thy ===== *)
theory Classify
  imports Cover
begin

text \<open>
  From the record to gate runs and writes, \<^verbatim>\<open>internal/verify\<close> (classify.go, and the
  reading of a masked run's outcome in gates.go). One pass over the declarations: a
  call's picked execution (\<open>pickExecutions\<close>), the writes it may make
  (\<open>appendWrites\<close>), and, for a Bash call that ran a runner, a gate run (\<open>newRun\<close>); then
  the kinds old records do not hold are inferred (\<open>inferKinds\<close>) and everything is sorted
  by seq.
\<close>

section \<open>A gate run\<close>

record gate_run =
  g_Seq :: int
  g_ExecSeq :: "int option"
  g_ToolUseID :: string
  g_AgentID :: "string option"
  g_Runner :: "string option"
  g_Location :: string
  g_Kind :: string
  g_Program :: string
  g_Outcome :: exec_outcome
  g_ExitCode :: "int option"
  g_Masked :: "masked_word option"
  g_Output :: "gate_output option"
  g_Backgrounded :: bool
  g_FromOutput :: bool
  g_Wrapped :: bool
  g_KindRecorded :: bool
  g_FromPrinted :: bool
  g_RunnerID :: nat
  g_MaskedByID :: nat
  g_ProjectID :: "8 word"

text \<open>A family key: location, then runner.\<close>

type_synonym familyKey = "string \<times> string"

definition run_family :: "gate_run \<Rightarrow> familyKey option" where
  "run_family g =
     (case g_Runner g of None \<Rightarrow> None
      | Some r \<Rightarrow> if g_Location g = [] then None else Some (g_Location g, r))"

definition statusHidden :: "gate_run \<Rightarrow> bool" where
  "statusHidden r \<longleftrightarrow> g_Masked r = Some MaskedTest \<or> g_Masked r = Some MaskedBuild"

definition readsPrinted :: "gate_run \<Rightarrow> int \<Rightarrow> bool" where
  "readsPrinted r rulesVersion \<longleftrightarrow>
     statusHidden r \<and> rulesVersion \<ge> PrintedStatusRulesVersion \<and> g_Outcome r = ExecOK \<and>
     \<not> g_Backgrounded r \<and>
     (case g_Output r of None \<Rightarrow> False | Some out \<Rightarrow> go_Kind out = OutPrintedPass \<or> go_Kind out = OutPrintedFail)"

definition maskedFromRulesVersion :: int where
  "maskedFromRulesVersion = OutputOutcomeRulesVersion"

definition readsOutput :: "gate_run \<Rightarrow> int \<Rightarrow> bool" where
  "readsOutput r rulesVersion =
     (case g_Output r of
        None \<Rightarrow> False
      | Some out \<Rightarrow>
          if \<not> statusHidden r \<or> rulesVersion < maskedFromRulesVersion \<or> g_Outcome r \<noteq> ExecOK \<or>
             g_Backgrounded r \<or> \<not> MaskedByKeeps (MaskedByOf (g_MaskedByID r))
          then False
          else (case go_Kind out of
                  OutSummaryPass \<Rightarrow> \<not> Delegated (g_Program r)
                | OutSummaryFail \<Rightarrow> True
                | OutEmptyRun \<Rightarrow> True
                | OutFailLine \<Rightarrow> FailLineDecides (g_Program r)
                | _ \<Rightarrow> False))"

section \<open>A call's execution\<close>

definition execSeq :: "execution \<Rightarrow> int" where
  "execSeq e = (case e_Seq e of None \<Rightarrow> -1 | Some s \<Rightarrow> s)"

definition outranks :: "execution \<Rightarrow> execution \<Rightarrow> bool" where
  "outranks cur e =
     (let cf = (e_Outcome cur = ExecFailed); ef = (e_Outcome e = ExecFailed) in
      if cf \<noteq> ef then cf else execSeq cur > execSeq e)"

definition pick_step :: "(string \<rightharpoonup> execution) \<Rightarrow> execution \<Rightarrow> (string \<rightharpoonup> execution)" where
  "pick_step picked e =
     (case picked (e_ToolUseID e) of
        None \<Rightarrow> picked(e_ToolUseID e \<mapsto> e)
      | Some cur \<Rightarrow> if \<not> outranks cur e then picked(e_ToolUseID e \<mapsto> e) else picked)"

definition pickExecutions :: "run \<Rightarrow> (string \<rightharpoonup> execution)" where
  "pickExecutions r = foldl pick_step Map.empty (r_Executions r)"

definition taskEnds :: "run \<Rightarrow> (string \<rightharpoonup> outcome_join)" where
  "taskEnds r =
     foldl (\<lambda>m j. case m (oj_ToolUseID j) of None \<Rightarrow> m(oj_ToolUseID j \<mapsto> j) | Some _ \<Rightarrow> m)
       Map.empty (r_OutcomeJoins r)"

text \<open>The line as it ran: the execution's own words where it holds them, else the declaration's.\<close>

definition asRan ::
    "decl \<Rightarrow> execution \<Rightarrow> masked_word option \<times> string option \<times> string option \<times> int" where
  "asRan d e =
     (if e_SchemaVersion e \<ge> 4 \<and> e_ExecutedDigest e \<noteq> []
      then (e_StatusMasked e, e_RunnerDigest e, e_RunnerKind e, e_SchemaVersion e)
      else (sh_StatusMasked (d_Shape d), sh_RunnerDigest (d_Shape d), sh_RunnerKind (d_Shape d), d_SchemaVersion d))"

definition isGateRun :: "decl \<Rightarrow> masked_word option \<Rightarrow> string option \<Rightarrow> bool" where
  "isGateRun d masked runner = GateRun runner masked (sh_VerbClass (d_Shape d))"

definition endedBy :: "gate_run \<Rightarrow> outcome_join \<Rightarrow> gate_run" where
  "endedBy g tend = g\<lparr>g_Outcome := oj_Outcome tend, g_ExitCode := oj_ExitCode tend, g_Backgrounded := False\<rparr>"

definition newRun ::
    "decl \<Rightarrow> execution \<Rightarrow> masked_word option \<Rightarrow> string option \<Rightarrow> outcome_join option \<Rightarrow> gate_run" where
  "newRun d e masked runner tend =
     (let g0 = \<lparr>g_Seq = d_Seq d, g_ExecSeq = e_Seq e, g_ToolUseID = d_ToolUseID d, g_AgentID = d_AgentID d,
                g_Runner = runner, g_Location = d_CWDDigest d, g_Kind = [], g_Program = [],
                g_Outcome = e_Outcome e, g_ExitCode = e_ExitCode e, g_Masked = masked,
                g_Output = e_GateOutput e, g_Backgrounded = e_Backgrounded e, g_FromOutput = False,
                g_Wrapped = False, g_KindRecorded = False, g_FromPrinted = False, g_RunnerID = 0,
                g_MaskedByID = 0, g_ProjectID = 0\<rparr>;
          g1 = (case tend of None \<Rightarrow> g0 | Some j \<Rightarrow> if g_Backgrounded g0 then endedBy g0 j else g0);
          g2 = (case sh_Program (d_Shape d) of None \<Rightarrow> g1 | Some p \<Rightarrow> g1\<lparr>g_Program := p\<rparr>);
          g3 = (if e_SchemaVersion e \<ge> 8
                then g2\<lparr>g_RunnerID := (case e_RunnerName e of None \<Rightarrow> 0 | Some n \<Rightarrow> RunnerNameID n),
                        g_MaskedByID := (case e_MaskedBy e of None \<Rightarrow> 0 | Some m \<Rightarrow> MaskedByID m)\<rparr>
                else g2);
          g4 = g3\<lparr>g_Program := ProgramFor (g_Program g3) (RunnerNameOf (g_RunnerID g3))\<rparr>;
          g5 = g4\<lparr>g_FromOutput := readsOutput g4 (e_RulesVersion e)\<rparr>
      in g5\<lparr>g_FromPrinted := readsPrinted g5 (e_RulesVersion e)\<rparr>)"

section \<open>The writes of a call\<close>

definition hashed :: "decl \<Rightarrow> bool" where
  "hashed d \<longleftrightarrow> d_ToolName d \<noteq> ''Bash'' \<and> sh_VerbClass (d_Shape d) = VerbWrite \<and> d_FilePath d \<noteq> None"

text \<open>The file a file tool names, and the paths a shell line may write.\<close>

definition writeTargets :: "decl \<Rightarrow> string option \<times> string list" where
  "writeTargets d =
     (if sh_VerbClass (d_Shape d) = VerbMCP then (None, [])
      else if d_ToolName d \<noteq> ''Bash'' \<and> sh_VerbClass (d_Shape d) = VerbWrite then (d_FilePath d, [])
      else (None, d_WrittenPaths d))"

definition named_write :: "decl \<Rightarrow> string \<Rightarrow> wr" where
  "named_write d p =
     (let rel = relativise p (d_Project d) (d_CWD d) in
      \<lparr>w_Seq = d_Seq d, w_decl = Some d, w_Path = Some rel, w_Class = ClassOf rel, w_Tool = d_ToolName d, w_SHA = None\<rparr>)"

definition blind_write :: "decl \<Rightarrow> wr" where
  "blind_write d =
     \<lparr>w_Seq = d_Seq d, w_decl = Some d, w_Path = None, w_Class = ClassNone, w_Tool = d_ToolName d, w_SHA = None\<rparr>"

text \<open>What \<open>appendWrites\<close> appends: the call's writes, and its seq for each unnamed one.\<close>

definition appendWrites :: "decl \<Rightarrow> wr list \<times> int list" where
  "appendWrites d =
     (let file = fst (writeTargets d); shell = snd (writeTargets d); blind = ([blind_write d], [d_Seq d]) in
      if sh_VerbClass (d_Shape d) = VerbMCP then blind
      else if d_ToolName d \<noteq> ''Bash'' \<and> sh_VerbClass (d_Shape d) = VerbWrite
      then (case file of None \<Rightarrow> blind | Some f \<Rightarrow> ([named_write d f], []))
      else if shell \<noteq> []
      then (map (named_write d) shell, if d_WrittenPathsComplete d \<noteq> Some True then [d_Seq d] else [])
      else if sh_MayWrite (d_Shape d) then blind
      else ([], []))"

section \<open>The classification\<close>

record cstate =
  cs_runs :: "gate_run list"
  cs_writes :: "wr list"
  cs_unnamed :: "int list"
  cs_rewritten :: "int list"
  cs_keys :: projectKeys
  cs_pending :: "nat list"

definition kindCustom :: string where
  "kindCustom = ''custom''"

definition add_writes :: "decl \<Rightarrow> execution option \<Rightarrow> cstate \<Rightarrow> cstate" where
  "add_writes d e s =
     (let ws = fst (appendWrites d); us = snd (appendWrites d);
          ws' = (case e of
                   None \<Rightarrow> ws
                 | Some x \<Rightarrow> if hashed d then (case ws of [] \<Rightarrow> [] | w # rest \<Rightarrow> w\<lparr>w_SHA := e_ContentSHA256 x\<rparr> # rest)
                             else ws)
      in s\<lparr>cs_writes := cs_writes s @ ws', cs_unnamed := cs_unnamed s @ us\<rparr>)"

text \<open>A line a hook rewrote after its declaration ran nowhere the record knows.\<close>

definition was_rewritten :: "decl \<Rightarrow> execution \<Rightarrow> bool" where
  "was_rewritten d e \<longleftrightarrow> e_ExecutedDigest e \<noteq> [] \<and> e_ExecutedDigest e \<noteq> sh_Digest (d_Shape d)"

definition add_run :: "(string \<rightharpoonup> outcome_join) \<Rightarrow> decl \<Rightarrow> execution \<Rightarrow> cstate \<Rightarrow> cstate" where
  "add_run ended d e s =
     (case asRan d e of
        (masked, runner, kind, schema) \<Rightarrow>
          if \<not> isGateRun d masked runner then s
          else
            (let g = newRun d e masked runner (ended (d_ToolUseID d));
                 idk = pk_id (cs_keys s) (d_Project d);
                 g1 = g\<lparr>g_ProjectID := fst idk\<rparr>;
                 moved = was_rewritten d e;
                 g2 = (if moved then g1\<lparr>g_Location := []\<rparr> else g1);
                 waits = (kind = None \<and> runner \<noteq> None \<and> schema < 6);
                 g3 = (case kind of
                         Some k \<Rightarrow> g2\<lparr>g_Kind := k, g_KindRecorded := True\<rparr>
                       | None \<Rightarrow> if waits then g2 else g2\<lparr>g_Kind := kindCustom\<rparr>)
             in s\<lparr>cs_runs := cs_runs s @ [g3],
                  cs_keys := snd idk,
                  cs_rewritten := cs_rewritten s @ (if moved then [d_Seq d] else []),
                  cs_pending := cs_pending s @ (if waits then [length (cs_runs s)] else [])\<rparr>))"

definition classify_decl ::
    "(string \<rightharpoonup> execution) \<Rightarrow> (string \<rightharpoonup> outcome_join) \<Rightarrow> cstate \<Rightarrow> decl \<Rightarrow> cstate" where
  "classify_decl picked ended s d =
     (let e = picked (d_ToolUseID d); s1 = add_writes d e s in
      case e of None \<Rightarrow> s1
      | Some x \<Rightarrow> if d_ToolName d \<noteq> ''Bash'' then s1 else add_run ended d x s1)"

text \<open>
  The runners some call of the record shows to be test runners, and those shown to be
  build runners only.
\<close>

definition shown_runner :: "(string \<rightharpoonup> execution) \<Rightarrow> bool \<Rightarrow> decl \<Rightarrow> string option" where
  "shown_runner picked test d =
     (case picked (d_ToolUseID d) of
        None \<Rightarrow> None
      | Some e \<Rightarrow>
          if d_ToolName d \<noteq> ''Bash'' then None
          else (case asRan d e of (m, r, _, _) \<Rightarrow>
            let isTest = (sh_VerbClass (d_Shape d) = VerbTest \<or> m = Some MaskedTest) in
            if test then (if isTest then r else None)
            else (if \<not> isTest \<and> m = Some MaskedBuild then r else None)))"

definition infer_kind :: "run \<Rightarrow> (string \<rightharpoonup> execution) \<Rightarrow> string option \<Rightarrow> string" where
  "infer_kind r picked runner =
     (let shown = (\<lambda>test. runner \<noteq> None \<and> runner \<in> set (map (shown_runner picked test) (r_Declarations r))) in
      if shown True then ''test'' else if shown False then ''build'' else kindCustom)"

definition inferKinds :: "run \<Rightarrow> (string \<rightharpoonup> execution) \<Rightarrow> gate_run list \<Rightarrow> nat list \<Rightarrow> gate_run list" where
  "inferKinds r picked runs pending =
     foldl (\<lambda>rs i. rs[i := (rs ! i)\<lparr>g_Kind := infer_kind r picked (g_Runner (rs ! i))\<rparr>]) runs pending"

record classification =
  cl_runs :: "gate_run list"
  cl_writes :: "wr list"
  cl_unnamed :: "int list"
  cl_rewritten :: "int list"
  cl_keys :: projectKeys

definition cstate0 :: cstate where
  "cstate0 = \<lparr>cs_runs = [], cs_writes = [], cs_unnamed = [], cs_rewritten = [], cs_keys = [], cs_pending = []\<rparr>"

definition classifyWith :: "run \<Rightarrow> (string \<rightharpoonup> execution) \<Rightarrow> classification" where
  "classifyWith r picked =
     (let s = foldl (classify_decl picked (taskEnds r)) cstate0 (r_Declarations r) in
      \<lparr>cl_runs = sort_key g_Seq (inferKinds r picked (cs_runs s) (cs_pending s)),
       cl_writes = sort_key w_Seq (cs_writes s),
       cl_unnamed = sort (cs_unnamed s),
       cl_rewritten = sort (cs_rewritten s),
       cl_keys = cs_keys s\<rparr>)"

definition classify :: "run \<Rightarrow> classification" where
  "classify r = classifyWith r (pickExecutions r)"

section \<open>Which execution stands for a call\<close>

lemma outranks_alt:
  "outranks a b \<longleftrightarrow>
     e_Outcome a = ExecFailed \<and> e_Outcome b \<noteq> ExecFailed \<or>
     (e_Outcome a = ExecFailed \<longleftrightarrow> e_Outcome b = ExecFailed) \<and> execSeq b < execSeq a"
  unfolding outranks_def Let_def by argo

interpretation rank_exec: best_fold outranks
proof
  show "\<And>x y. outranks x y \<Longrightarrow> \<not> outranks y x" unfolding outranks_alt by linarith
  show "\<And>x z y. outranks x z \<Longrightarrow> outranks x y \<or> outranks y z" unfolding outranks_alt by linarith
qed

lemma pick_step_same:
  "pick_step m e (e_ToolUseID e) =
     Some (case m (e_ToolUseID e) of None \<Rightarrow> e | Some cur \<Rightarrow> if outranks cur e then cur else e)"
  by (auto simp: pick_step_def split: option.split)

lemma pick_step_other: "i \<noteq> e_ToolUseID e \<Longrightarrow> pick_step m e i = m i"
  by (auto simp: pick_step_def split: option.split)

lemma pick_member:
  "foldl pick_step Map.empty es i = Some p \<Longrightarrow> p \<in> set es \<and> e_ToolUseID p = i"
proof (induction es arbitrary: p rule: rev_induct)
  case (snoc x es)
  show ?case
  proof (cases "i = e_ToolUseID x")
    case True
    with snoc show ?thesis
      by (auto simp: pick_step_same split: option.splits if_splits)
  next
    case False
    with snoc show ?thesis by (simp add: pick_step_other)
  qed
qed simp

lemma pick_total: "e \<in> set es \<Longrightarrow> foldl pick_step Map.empty es (e_ToolUseID e) \<noteq> None"
proof (induction es rule: rev_induct)
  case (snoc x es)
  show ?case
  proof (cases "e_ToolUseID e = e_ToolUseID x")
    case True
    then show ?thesis by (simp add: pick_step_same)
  next
    case False
    with snoc show ?thesis by (auto simp: pick_step_other)
  qed
qed simp

lemma pick_best:
  "foldl pick_step Map.empty es (e_ToolUseID e) = Some p \<Longrightarrow> e \<in> set es \<Longrightarrow> \<not> outranks e p"
proof (induction es arbitrary: p rule: rev_induct)
  case (snoc x es)
  let ?m = "foldl pick_step Map.empty es"
  show ?case
  proof (cases "e_ToolUseID x = e_ToolUseID e")
    case False
    then have "?m (e_ToolUseID e) = Some p" and "e \<in> set es"
      using snoc.prems pick_step_other [of "e_ToolUseID e" x ?m] by auto
    then show ?thesis by (rule snoc.IH)
  next
    case True
    show ?thesis
    proof (cases "?m (e_ToolUseID e)")
      case None
      then have "e \<notin> set es" using pick_total by blast
      then have "e = x" using snoc.prems(2) by simp
      moreover have "p = x" using snoc.prems(1) None pick_step_same [of ?m x] True by simp
      ultimately show ?thesis by (simp add: rank_exec.best_irrefl)
    next
      case (Some cur)
      have *: "e \<in> set es \<Longrightarrow> \<not> outranks e cur" using snoc.IH [OF Some] .
      show ?thesis
      proof (cases "outranks cur x")
        case True': True
        then have "p = cur" using snoc.prems(1) Some pick_step_same [of ?m x] True by simp
        then show ?thesis using * snoc.prems(2) True' rank_exec.better_asym by auto
      next
        case False
        then have "p = x" using snoc.prems(1) Some pick_step_same [of ?m x] True by simp
        then show ?thesis
          using * snoc.prems(2) False rank_exec.better_negtrans rank_exec.best_irrefl by auto
      qed
    qed
  qed
qed simp

text \<open>
  A failure is never hidden by another execution of the same call: where any
  recorded execution of a call failed, the one that stands for the call failed too, and
  it is the latest failure; a spilled execution, which has no seq, counts as the earliest.
\<close>

theorem pickExecutions_failure:
  assumes "e \<in> set (r_Executions r)" and "e_Outcome e = ExecFailed"
  shows "\<exists>p. pickExecutions r (e_ToolUseID e) = Some p \<and> p \<in> set (r_Executions r) \<and>
           e_ToolUseID p = e_ToolUseID e \<and> e_Outcome p = ExecFailed \<and> execSeq e \<le> execSeq p"
proof -
  obtain p where p: "pickExecutions r (e_ToolUseID e) = Some p"
    using pick_total [OF assms(1)] by (auto simp: pickExecutions_def)
  have "\<not> outranks e p"
    using pick_best [of "r_Executions r" e p] p assms(1) by (simp add: pickExecutions_def)
  then have "e_Outcome p = ExecFailed" "execSeq e \<le> execSeq p"
    using assms(2) by (auto simp: outranks_def Let_def split: if_splits)
  then show ?thesis
    using p pick_member [of "r_Executions r"] by (auto simp: pickExecutions_def)
qed

definition exec_example :: "string \<Rightarrow> int option \<Rightarrow> exec_outcome \<Rightarrow> execution" where
  "exec_example i s out =
     \<lparr>e_SchemaVersion = 10, e_Seq = s, e_ToolUseID = i, e_Outcome = out, e_ExitCode = None,
      e_ExecutedDigest = [], e_Backgrounded = False, e_StatusMasked = None, e_RunnerDigest = None,
      e_RunnerKind = None, e_RunnerName = None, e_MaskedBy = None, e_RulesVersion = 13,
      e_EditMarks = None, e_GateOutput = None, e_ContentSHA256 = None,
      e_ExecutedCommand = None, e_ExecutedCommandCut = None, e_ExecutedMasked = [],
      e_ExecutedCommandWithheld = None\<rparr>"

theorem pickExecutions_failure_witness:
  "\<exists>p. pickExecutions (empty_run\<lparr>r_Executions :=
            [exec_example ''t'' (Some 4) ExecFailed, exec_example ''t'' (Some 9) ExecOK]\<rparr>) ''t'' = Some p \<and>
       e_Outcome p = ExecFailed"
  using pickExecutions_failure
    [of "exec_example ''t'' (Some 4) ExecFailed"
        "empty_run\<lparr>r_Executions := [exec_example ''t'' (Some 4) ExecFailed, exec_example ''t'' (Some 9) ExecOK]\<rparr>"]
  by (auto simp: exec_example_def)

section \<open>What the classification holds\<close>

definition gate_call :: "(string \<rightharpoonup> execution) \<Rightarrow> decl \<Rightarrow> bool" where
  "gate_call picked d =
     (case picked (d_ToolUseID d) of
        None \<Rightarrow> False
      | Some e \<Rightarrow> d_ToolName d = ''Bash'' \<and> (case asRan d e of (m, r, _, _) \<Rightarrow> isGateRun d m r))"

text \<open>What a run takes from its call and nothing later changes.\<close>

definition run_id :: "gate_run \<Rightarrow> int \<times> string \<times> string option" where
  "run_id g = (g_Seq g, g_ToolUseID g, g_AgentID g)"

lemma newRun_id: "run_id (newRun d e m k j) = (d_Seq d, d_ToolUseID d, d_AgentID d)"
  by (simp add: run_id_def newRun_def Let_def endedBy_def split: option.split)

lemma run_id_update [simp]:
  "run_id (g\<lparr>g_Kind := k\<rparr>) = run_id g" "run_id (g\<lparr>g_Location := l\<rparr>) = run_id g"
  "run_id (g\<lparr>g_ProjectID := i\<rparr>) = run_id g" "run_id (g\<lparr>g_KindRecorded := b\<rparr>) = run_id g"
  by (simp_all add: run_id_def)

lemma add_writes_frame [simp]:
  "cs_runs (add_writes d e s) = cs_runs s" "cs_keys (add_writes d e s) = cs_keys s"
  "cs_rewritten (add_writes d e s) = cs_rewritten s" "cs_pending (add_writes d e s) = cs_pending s"
  by (simp_all add: add_writes_def Let_def)

lemma add_run_frame [simp]:
  "cs_writes (add_run ended d e s) = cs_writes s" "cs_unnamed (add_run ended d e s) = cs_unnamed s"
  by (simp_all add: add_run_def Let_def split: prod.split)

lemma add_run_ids:
  "map run_id (cs_runs (add_run ended d e s)) =
     map run_id (cs_runs s) @
     (case asRan d e of (m, r, _, _) \<Rightarrow>
        if isGateRun d m r then [(d_Seq d, d_ToolUseID d, d_AgentID d)] else [])"
  by (auto simp: add_run_def Let_def newRun_id split: prod.split option.split)

lemma classify_decl_ids:
  "map run_id (cs_runs (classify_decl picked ended s d)) =
     map run_id (cs_runs s) @ (if gate_call picked d then [(d_Seq d, d_ToolUseID d, d_AgentID d)] else [])"
  by (auto simp: classify_decl_def Let_def gate_call_def add_run_ids split: option.split prod.split)

lemma classify_fold_ids:
  "map run_id (cs_runs (foldl (classify_decl picked ended) s ds)) =
     map run_id (cs_runs s) @ map (\<lambda>d. (d_Seq d, d_ToolUseID d, d_AgentID d)) (filter (gate_call picked) ds)"
  by (induction ds arbitrary: s) (simp_all add: classify_decl_ids)

lemma infer_step_ids: "map run_id (rs[i := (rs ! i)\<lparr>g_Kind := k\<rparr>]) = map run_id rs"
proof (cases "i < length rs")
  case True
  then show ?thesis by (simp add: map_update list_update_same_conv)
qed (simp add: list_update_beyond)

lemma inferKinds_ids: "map run_id (inferKinds r picked rs pending) = map run_id rs"
  unfolding inferKinds_def
  by (induction pending arbitrary: rs) (simp_all add: infer_step_ids)

lemma classify_run_ids:
  "mset (map run_id (cl_runs (classifyWith r picked))) =
     mset (map (\<lambda>d. (d_Seq d, d_ToolUseID d, d_AgentID d)) (filter (gate_call picked) (r_Declarations r)))"
proof -
  let ?s = "foldl (classify_decl picked (taskEnds r)) cstate0 (r_Declarations r)"
  have "mset (map run_id (cl_runs (classifyWith r picked))) =
      mset (map run_id (inferKinds r picked (cs_runs ?s) (cs_pending ?s)))"
    by (simp add: classifyWith_def Let_def)
  then show ?thesis by (simp add: inferKinds_ids classify_fold_ids cstate0_def)
qed

text \<open>
  The gate runs of a record are its gate calls and nothing else: with their seq, id
  and agent, the runs are exactly the Bash declarations that have an execution and ran a
  runner, each as often as it is declared.
\<close>

theorem classify_runs_exact:
  "image_mset (\<lambda>g. (g_Seq g, g_ToolUseID g, g_AgentID g)) (mset (cl_runs (classify r))) =
   image_mset (\<lambda>d. (d_Seq d, d_ToolUseID d, d_AgentID d))
     (filter_mset (gate_call (pickExecutions r)) (mset (r_Declarations r)))"
proof -
  have "run_id = (\<lambda>g. (g_Seq g, g_ToolUseID g, g_AgentID g))"
    by (simp add: fun_eq_iff run_id_def)
  then show ?thesis
    using classify_run_ids [of r "pickExecutions r"] by (simp add: classify_def)
qed

lemma classify_sorted:
  "sorted (map g_Seq (cl_runs (classifyWith r picked)))" "sorted (map w_Seq (cl_writes (classifyWith r picked)))"
  "sorted (cl_unnamed (classifyWith r picked))" "sorted (cl_rewritten (classifyWith r picked))"
  by (simp_all add: classifyWith_def Let_def)

end
