(* ===== verification/Tree.thy ===== *)
theory Tree
  imports Classify "HOL-Library.AList"
begin

text \<open>
  The tree a green gate run is bound to, \<^verbatim>\<open>internal/verify\<close> (tree.go): the files the
  claim point reads (\<open>TreeTargets\<close>), and how the content a run saw stands against the
  content now (\<open>bind\<close>). A Go map is an association list updated at a key; the point's
  tree is a finite map from a path to the sha read there, \<open>None\<close> for a file that is gone
  or not readable as one.
\<close>

type_synonym sha_tree = "string \<rightharpoonup> string option"

definition MaxTreeFiles :: nat where
  "MaxTreeFiles = 64"

record treeTarget =
  tt_Path :: string
  tt_File :: string

text \<open>The last hashed write of a path: its seq, the file it names, whether that file can be opened.\<close>

record named_file =
  nf_seq :: int
  nf_file :: string
  nf_ok :: bool

definition file_of :: "decl \<Rightarrow> string \<Rightarrow> named_file" where
  "file_of d f =
     (if IsAbs f then \<lparr>nf_seq = d_Seq d, nf_file = f, nf_ok = True\<rparr>
      else (case d_CWD d of
              None \<Rightarrow> \<lparr>nf_seq = d_Seq d, nf_file = f, nf_ok = False\<rparr>
            | Some c \<Rightarrow> \<lparr>nf_seq = d_Seq d, nf_file = JoinPath c f, nf_ok = True\<rparr>))"

definition target_step :: "(string \<times> named_file) list \<Rightarrow> decl \<Rightarrow> (string \<times> named_file) list" where
  "target_step m d =
     (case d_FilePath d of
        None \<Rightarrow> m
      | Some f \<Rightarrow>
          if \<not> hashed d then m
          else (let w = named_write d f; p = relativise f (d_Project d) (d_CWD d) in
            if \<not> Relevant (w_Class w) then m
            else (case map_of m p of
                    None \<Rightarrow> AList.update p (file_of d f) m
                  | Some cur \<Rightarrow> if d_Seq d > nf_seq cur then AList.update p (file_of d f) m else m)))"

definition TreeTargets :: "run \<Rightarrow> treeTarget list option" where
  "TreeTargets r =
     (let m = foldl target_step [] (r_Declarations r) in
      if length m > MaxTreeFiles then None
      else Some (sort_key tt_Path
             (map (\<lambda>(p, n). \<lparr>tt_Path = p, tt_File = nf_file n\<rparr>) (filter (\<lambda>(p, n). nf_ok n) m))))"

datatype treeBind = BoundUnknown | BoundMet | BoundOwn | BoundForeign

text \<open>A write the gate's tree counts: named, relevant, in the gate's project.\<close>

definition counts_in :: "string \<Rightarrow> wr \<Rightarrow> bool" where
  "counts_in root w \<longleftrightarrow> w_Path w \<noteq> None \<and> Relevant (w_Class w) \<and> covers root w"

definition w_path :: "wr \<Rightarrow> string" where
  "w_path w = (case w_Path w of None \<Rightarrow> [] | Some p \<Rightarrow> p)"

definition run_tree :: "wr list \<Rightarrow> string \<Rightarrow> int \<Rightarrow> (string \<times> string option) list" where
  "run_tree writes root ref =
     foldl (\<lambda>m w. AList.update (w_path w) (w_SHA w) m) []
       (filter (counts_in root) (takeWhile (\<lambda>w. w_Seq w < ref) writes))"

definition tree_known :: "sha_tree \<Rightarrow> string \<times> string option \<Rightarrow> bool" where
  "tree_known tree e \<longleftrightarrow> snd e \<noteq> None \<and> tree (fst e) \<noteq> None"

definition tree_moved :: "sha_tree \<Rightarrow> string \<times> string option \<Rightarrow> bool" where
  "tree_moved tree e \<longleftrightarrow> tree_known tree e \<and> tree (fst e) \<noteq> Some (snd e)"

definition bind ::
    "wr list \<Rightarrow> int list \<Rightarrow> string \<Rightarrow> int \<Rightarrow> int \<Rightarrow> sha_tree option \<Rightarrow> treeBind" where
  "bind writes unnamed root ref at tree =
     (case tree of
        None \<Rightarrow> BoundUnknown
      | Some t \<Rightarrow>
          (let saw = run_tree writes root ref;
               moved = list_ex (tree_moved t) saw;
               known = list_all (tree_known t) saw
           in if moved \<and> list_ex (\<lambda>s. s > ref \<and> s \<le> at) unnamed then BoundOwn
              else if moved then BoundForeign
              else if \<not> known then BoundUnknown
              else BoundMet))"

section \<open>Facts\<close>

lemma distinct_update_fold:
  "distinct (map fst m) \<Longrightarrow> distinct (map fst (foldl (\<lambda>m w. AList.update (f w) (g w) m) m ws))"
  by (induction ws arbitrary: m) (simp_all add: distinct_update)

lemma run_tree_distinct: "distinct (map fst (run_tree writes root ref))"
  unfolding run_tree_def by (rule distinct_update_fold) simp

text \<open>The run's tree holds, per path, the sha of the last counted write before the run.\<close>

definition last_sha :: "wr list \<Rightarrow> string \<Rightarrow> int \<Rightarrow> string \<Rightarrow> string option option" where
  "last_sha writes root ref p =
     map_option w_SHA (find (\<lambda>w. counts_in root w \<and> w_path w = p)
       (rev (takeWhile (\<lambda>w. w_Seq w < ref) writes)))"

lemma find_append: "find P (xs @ ys) = (case find P xs of None \<Rightarrow> find P ys | Some x \<Rightarrow> Some x)"
  by (induction xs) auto

lemma map_of_update_fold:
  "map_of (foldl (\<lambda>m w. AList.update (f w) (g w) m) m ws) k =
     (case find (\<lambda>w. f w = k) (rev ws) of None \<Rightarrow> map_of m k | Some w \<Rightarrow> Some (g w))"
  by (induction ws arbitrary: m) (auto simp: update_conv find_append split: option.splits)

lemma find_filter: "find P (filter Q xs) = find (\<lambda>x. Q x \<and> P x) xs"
  by (induction xs) auto

lemma run_tree_last: "map_of (run_tree writes root ref) p = last_sha writes root ref p"
  by (simp add: run_tree_def map_of_update_fold last_sha_def rev_filter find_filter split: option.split)

lemma run_tree_mem:
  "e \<in> set (run_tree writes root ref) \<longleftrightarrow> last_sha writes root ref (fst e) = Some (snd e)"
  by (simp add: run_tree_distinct flip: run_tree_last)

lemma tree_entry_met:
  "tree_known tree (p, sha) \<and> \<not> tree_moved tree (p, sha) \<longleftrightarrow>
     (\<exists>x. sha = Some x \<and> tree p = Some (Some x))"
  by (cases sha; cases "tree p") (auto simp: tree_known_def tree_moved_def)

text \<open>
  A green run's tree is bound exactly when every file it covers was last written,
  before the run, with a recorded sha, and reads the same sha at the claim point: one
  file that moved, is gone, or was never hashed is enough to lose the binding.
\<close>

theorem bind_met_iff:
  "bind writes unnamed root ref at (Some tree) = BoundMet \<longleftrightarrow>
     (\<forall>p sha. last_sha writes root ref p = Some sha \<longrightarrow>
        (\<exists>x. sha = Some x \<and> tree p = Some (Some x)))"
proof -
  have "bind writes unnamed root ref at (Some tree) = BoundMet \<longleftrightarrow>
      (\<forall>e \<in> set (run_tree writes root ref). tree_known tree e \<and> \<not> tree_moved tree e)"
    by (auto simp: bind_def Let_def list_ex_iff list_all_iff)
  also have "\<dots> \<longleftrightarrow> (\<forall>p sha. last_sha writes root ref p = Some sha \<longrightarrow>
        tree_known tree (p, sha) \<and> \<not> tree_moved tree (p, sha))"
    using run_tree_mem [of _ writes root ref] by (metis fst_conv snd_conv surj_pair)
  also have "\<dots> \<longleftrightarrow> (\<forall>p sha. last_sha writes root ref p = Some sha \<longrightarrow>
        (\<exists>x. sha = Some x \<and> tree p = Some (Some x)))"
    by (simp only: tree_entry_met)
  finally show ?thesis .
qed

definition wr_example :: "int \<Rightarrow> string \<Rightarrow> string option \<Rightarrow> wr" where
  "wr_example s p sha =
     \<lparr>w_Seq = s, w_decl = None, w_Path = Some p, w_Class = ClassOf p, w_Tool = ''Edit'', w_SHA = sha\<rparr>"

theorem bind_met_iff_witness:
  "bind [wr_example 1 ''a.go'' (Some ''x'')] [] [] 5 9 (Some [''a.go'' \<mapsto> Some ''x'']) = BoundMet"
proof (subst bind_met_iff, intro allI impI)
  fix p sha
  assume "last_sha [wr_example 1 ''a.go'' (Some ''x'')] [] 5 p = Some sha"
  then have "p = ''a.go'' \<and> sha = Some ''x''"
    by (auto simp: last_sha_def wr_example_def w_path_def split: if_splits)
  then show "\<exists>x. sha = Some x \<and> [''a.go'' \<mapsto> Some ''x''] p = Some (Some x)" by simp
qed

lemma bind_no_tree [simp]: "bind writes unnamed root ref at None = BoundUnknown"
  by (simp add: bind_def)

lemma bind_own_has_unnamed:
  "bind writes unnamed root ref at tree = BoundOwn \<Longrightarrow> \<exists>s \<in> set unnamed. ref < s \<and> s \<le> at"
  by (auto simp: bind_def Let_def list_ex_iff split: option.splits if_splits)

text \<open>
  The claim point reads at most \<open>MaxTreeFiles\<close> files, each once, in path order; a
  session that wrote more relevant files than that reads none of them.
\<close>

theorem TreeTargets_bounded:
  assumes "TreeTargets r = Some ts"
  shows "length ts \<le> MaxTreeFiles \<and> distinct (map tt_Path ts) \<and> sorted (map tt_Path ts)"
proof -
  let ?m = "foldl target_step [] (r_Declarations r)"
  have step: "\<And>m d. distinct (map fst m) \<Longrightarrow> distinct (map fst (target_step m d))"
    by (simp add: target_step_def Let_def distinct_update split: option.split)
  have "\<And>ds m. distinct (map fst m) \<Longrightarrow> distinct (map fst (foldl target_step m ds))"
    subgoal for ds m by (induction ds arbitrary: m) (simp_all add: step)
    done
  then have d: "distinct (map fst ?m)" by simp
  let ?k = "filter (\<lambda>(p, n). nf_ok n) ?m"
  let ?u = "map (\<lambda>(p, n). \<lparr>tt_Path = p, tt_File = nf_file n\<rparr>) ?k"
  have ts: "length ?m \<le> MaxTreeFiles" "ts = sort_key tt_Path ?u"
    using assms by (auto simp: TreeTargets_def Let_def split: if_splits)
  have k: "distinct (map fst ?k)" using d by (rule distinct_map_filter)
  have "map tt_Path ?u = map fst ?k" by auto
  then have "distinct (map tt_Path ?u)" using k by (simp only:)
  then have "distinct (map tt_Path ts)"
    unfolding ts(2) by (rule distinct_map_sort_key)
  moreover have "length ts \<le> MaxTreeFiles"
  proof -
    have "length ts = length ?k" using ts(2) by simp
    also have "length ?k \<le> length ?m" by (rule length_filter_le)
    finally show ?thesis using ts(1) by simp
  qed
  ultimately show ?thesis using ts(2) by simp
qed

definition decl_example :: "int \<Rightarrow> string \<Rightarrow> string \<Rightarrow> verb_class \<Rightarrow> string option \<Rightarrow> decl" where
  "decl_example s i tool verb file =
     \<lparr>d_SchemaVersion = 10, d_Seq = s, d_ToolUseID = i, d_PromptID = Some ''p'', d_AgentID = None,
      d_ToolName = tool,
      d_Shape = \<lparr>sh_Program = None, sh_VerbClass = verb, sh_Digest = ''d'', sh_MayWrite = False,
                 sh_StatusMasked = None, sh_RunnerDigest = None, sh_RunnerKind = None\<rparr>,
      d_CWDDigest = ''c'', d_FileLabel = None, d_StoreNamed = False, d_Launch = False,
      d_CommandWithheld = None, d_CWD = Some ''/w'', d_Project = Some ''/w'', d_FilePath = file,
      d_WrittenPaths = [], d_WrittenPathsComplete = None, d_WrittenPathsWithheld = None,
      d_FilePathWithheld = None, d_ProjectWithheld = None,
      d_Command = None, d_CommandCut = None, d_Masked = []\<rparr>"

theorem TreeTargets_bounded_witness:
  "TreeTargets (empty_run\<lparr>r_Declarations := [decl_example 1 ''t'' ''Edit'' VerbWrite (Some ''a.go'')]\<rparr>)
     = Some [\<lparr>tt_Path = ''a.go'', tt_File = ''/w/a.go''\<rparr>] \<and>
   distinct (map tt_Path [\<lparr>tt_Path = ''a.go'', tt_File = ''/w/a.go''\<rparr>])"
proof -
  have "TreeTargets (empty_run\<lparr>r_Declarations := [decl_example 1 ''t'' ''Edit'' VerbWrite (Some ''a.go'')]\<rparr>)
     = Some [\<lparr>tt_Path = ''a.go'', tt_File = ''/w/a.go''\<rparr>]"
    by code_simp
  then show ?thesis using TreeTargets_bounded by blast
qed

end
