(* ===== verification/Recording.thy ===== *)
theory Recording
  imports Tree "HOL-Library.Sublist"
begin

text \<open>
  Whether a session's record is complete at a point, \<^verbatim>\<open>internal/verify/recording.go\<close>: the
  notes an incomplete record is given, one per condition, and the pass over the
  declarations and their outcomes that decides them. The Go map from tool_use_id to
  declState is a map here; its iteration is one over the declared ids, whose order the
  code does not read.
\<close>

section \<open>The answer\<close>

datatype Recording = Complete | Incomplete

definition noteTable :: "string list" where
  "noteTable =
     [''skipped_lines'', ''declaration_without_outcome'', ''outcome_without_declaration'',
      ''spilled_outcome'', ''coverage_unverified'', ''coverage_absent'']"

record declState =
  due :: bool
  answered :: bool
  spilled :: bool

definition noState :: declState where
  "noState = \<lparr>due = False, answered = False, spilled = False\<rparr>"

definition byPoint :: "int option \<Rightarrow> int \<Rightarrow> bool" where
  "byPoint seq at = (case seq of None \<Rightarrow> True | Some s \<Rightarrow> s \<le> at)"

definition declare_id :: "int \<Rightarrow> (string \<rightharpoonup> declState) \<Rightarrow> decl \<Rightarrow> (string \<rightharpoonup> declState)" where
  "declare_id at ids d =
     (let s = (case ids (d_ToolUseID d) of None \<Rightarrow> noState | Some s \<Rightarrow> s) in
      ids(d_ToolUseID d \<mapsto> s\<lparr>due := due s \<or> d_Seq d \<le> at\<rparr>))"

definition answer :: "(string \<rightharpoonup> declState) \<Rightarrow> string \<Rightarrow> int option \<Rightarrow> (string \<rightharpoonup> declState) \<times> bool" where
  "answer ids i seq =
     (case ids i of
        None \<Rightarrow> (ids, False)
      | Some s \<Rightarrow> (ids(i \<mapsto> s\<lparr>answered := True, spilled := spilled s \<or> seq = None\<rparr>), True))"

text \<open>One outcome: the declaration it answers, and whether it is an orphan by the point.\<close>

definition take_outcome ::
    "int \<Rightarrow> (string \<rightharpoonup> declState) \<times> bool \<Rightarrow> string \<times> int option \<Rightarrow> (string \<rightharpoonup> declState) \<times> bool" where
  "take_outcome at s o1 =
     (let (ids, declared) = answer (fst s) (fst o1) (snd o1) in
      (ids, snd s \<or> \<not> declared \<and> byPoint (snd o1) at))"

definition outcomes :: "run \<Rightarrow> (string \<times> int option) list" where
  "outcomes r =
     map (\<lambda>e. (e_ToolUseID e, e_Seq e)) (r_Executions r) @ map (\<lambda>t. (t_ToolUseID t, t_Seq t)) (r_Terminals r)"

definition PhasePost :: string where
  "PhasePost = ''post''"

definition StateVerified :: string where
  "StateVerified = ''verified''"

definition EntryUnknown :: string where
  "EntryUnknown = ''unknown''"

definition ProbeUnknown :: string where
  "ProbeUnknown = ''unknown''"

definition post_verified :: "coverage \<Rightarrow> bool" where
  "post_verified c \<longleftrightarrow> c_Phase c = PhasePost \<and> c_State c = StateVerified \<and> c_Reason c = None"

definition post_unknown :: "coverage \<Rightarrow> bool" where
  "post_unknown c \<longleftrightarrow> c_Phase c = PhasePost \<and> (c_HookEntry c = EntryUnknown \<or> c_Probe c = ProbeUnknown)"

text \<open>The faults, in the order of \<open>noteTable\<close>.\<close>

definition faults :: "run \<Rightarrow> int \<Rightarrow> bool list" where
  "faults r at =
     (let ids0 = foldl (declare_id at) Map.empty (r_Declarations r);
          (ids, orphan) = foldl (take_outcome at) (ids0, False) (outcomes r);
          states = List.map_filter ids (map d_ToolUseID (r_Declarations r));
          verified = list_ex post_verified (r_Coverage r);
          unknown = list_ex post_unknown (r_Coverage r)
      in [r_Skipped r > 0,
          list_ex (\<lambda>s. due s \<and> \<not> answered s) states,
          orphan,
          list_ex (\<lambda>s. due s \<and> spilled s) states,
          length (r_Coverage r) > 0 \<and> (\<not> verified \<or> unknown),
          length (r_Coverage r) = 0])"

definition recording :: "run \<Rightarrow> int \<Rightarrow> Recording \<times> string list" where
  "recording r at =
     (let out = map snd (filter fst (zip (faults r at) noteTable)) in
      if out = [] then (Complete, []) else (Incomplete, out))"

definition RecordingAt :: "run \<Rightarrow> int \<Rightarrow> Recording \<times> string list" where
  "RecordingAt r at = recording r at"

section \<open>The two passes in closed form\<close>

definition declared :: "run \<Rightarrow> string \<Rightarrow> bool" where
  "declared r i \<longleftrightarrow> list_ex (\<lambda>d. d_ToolUseID d = i) (r_Declarations r)"

definition due_at :: "run \<Rightarrow> int \<Rightarrow> string \<Rightarrow> bool" where
  "due_at r at i \<longleftrightarrow> list_ex (\<lambda>d. d_ToolUseID d = i \<and> d_Seq d \<le> at) (r_Declarations r)"

lemma declare_ids:
  "foldl (declare_id at) ids ds i =
     (if list_ex (\<lambda>d. d_ToolUseID d = i) ds
      then Some ((case ids i of None \<Rightarrow> noState | Some s \<Rightarrow> s)
             \<lparr>due := due (case ids i of None \<Rightarrow> noState | Some s \<Rightarrow> s) \<or>
                list_ex (\<lambda>d. d_ToolUseID d = i \<and> d_Seq d \<le> at) ds\<rparr>)
      else ids i)"
proof (induction ds rule: rev_induct)
  case (snoc d ds)
  then show ?case
    by (cases "d_ToolUseID d = i") (auto simp: declare_id_def Let_def list_ex_iff noState_def disj_commute disj_left_commute split: option.splits)
qed simp

lemma declared_ids:
  "foldl (declare_id at) Map.empty (r_Declarations r) i =
     (if declared r i then Some \<lparr>due = due_at r at i, answered = False, spilled = False\<rparr> else None)"
  by (simp add: declare_ids declared_def due_at_def noState_def)

lemma take_outcomes_state:
  "fst (foldl (take_outcome at) (ids, b) os) i =
     map_option (\<lambda>s. s\<lparr>answered := answered s \<or> list_ex (\<lambda>p. fst p = i) os,
                        spilled := spilled s \<or> list_ex (\<lambda>p. p = (i, None)) os\<rparr>) (ids i)"
proof (induction os rule: rev_induct)
  case (snoc p os)
  then show ?case
    by (cases p; cases "fst p = i"; cases "ids i")
       (auto simp: take_outcome_def Let_def answer_def split: option.splits prod.splits)
qed (cases "ids i", simp_all)

lemma take_outcome_orphan:
  "snd (take_outcome at s p) \<longleftrightarrow> snd s \<or> fst s (fst p) = None \<and> byPoint (snd p) at"
  by (auto simp: take_outcome_def Let_def answer_def split: option.splits)

lemma take_outcomes_orphan:
  "snd (foldl (take_outcome at) (ids, b) os) \<longleftrightarrow>
     b \<or> list_ex (\<lambda>p. ids (fst p) = None \<and> byPoint (snd p) at) os"
  by (induction os rule: rev_induct) (auto simp: take_outcome_orphan take_outcomes_state)

definition has_outcome :: "run \<Rightarrow> string \<Rightarrow> bool" where
  "has_outcome r i \<longleftrightarrow> list_ex (\<lambda>p. fst p = i) (outcomes r)"

definition spilled_outcome :: "run \<Rightarrow> string \<Rightarrow> bool" where
  "spilled_outcome r i \<longleftrightarrow> list_ex (\<lambda>p. p = (i, None)) (outcomes r)"

definition orphan_outcome :: "run \<Rightarrow> int \<Rightarrow> bool" where
  "orphan_outcome r at \<longleftrightarrow> list_ex (\<lambda>p. \<not> declared r (fst p) \<and> byPoint (snd p) at) (outcomes r)"

lemma declared_mem: "d \<in> set (r_Declarations r) \<Longrightarrow> declared r (d_ToolUseID d)"
  by (auto simp: declared_def list_ex_iff)

lemma states_ex:
  "list_ex P (List.map_filter f (map g ds)) \<longleftrightarrow> list_ex (\<lambda>d. case f (g d) of None \<Rightarrow> False | Some s \<Rightarrow> P s) ds"
  by (induction ds) (auto split: option.split)

lemma due_ex:
  "list_ex (\<lambda>d. due_at r at (d_ToolUseID d) \<and> Q (d_ToolUseID d)) (r_Declarations r) \<longleftrightarrow>
   list_ex (\<lambda>d. d_Seq d \<le> at \<and> Q (d_ToolUseID d)) (r_Declarations r)"
  by (auto simp: list_ex_iff due_at_def)

lemma list_ex_cong_set: "(\<And>x. x \<in> set xs \<Longrightarrow> P x \<longleftrightarrow> Q x) \<Longrightarrow> list_ex P xs \<longleftrightarrow> list_ex Q xs"
  by (auto simp: list_ex_iff)

text \<open>Each fault as an existence test over the record.\<close>

lemma faults_closed:
  "faults r at =
     [r_Skipped r > 0,
      list_ex (\<lambda>d. d_Seq d \<le> at \<and> \<not> has_outcome r (d_ToolUseID d)) (r_Declarations r),
      orphan_outcome r at,
      list_ex (\<lambda>d. d_Seq d \<le> at \<and> spilled_outcome r (d_ToolUseID d)) (r_Declarations r),
      r_Coverage r \<noteq> [] \<and> (\<not> list_ex post_verified (r_Coverage r) \<or> list_ex post_unknown (r_Coverage r)),
      r_Coverage r = []]"
proof -
  let ?ids0 = "foldl (declare_id at) Map.empty (r_Declarations r)"
  let ?s = "foldl (take_outcome at) (?ids0, False) (outcomes r)"
  have st: "fst ?s i = (if declared r i
      then Some \<lparr>due = due_at r at i, answered = has_outcome r i, spilled = spilled_outcome r i\<rparr> else None)" for i
    by (simp add: take_outcomes_state declared_ids has_outcome_def spilled_outcome_def)
  have ex: "list_ex P (List.map_filter (fst ?s) (map d_ToolUseID (r_Declarations r))) \<longleftrightarrow>
      list_ex (\<lambda>d. P \<lparr>due = due_at r at (d_ToolUseID d), answered = has_outcome r (d_ToolUseID d),
                        spilled = spilled_outcome r (d_ToolUseID d)\<rparr>) (r_Declarations r)" for P
    unfolding states_ex by (rule list_ex_cong_set) (simp add: st declared_mem)
  have orph: "snd ?s \<longleftrightarrow> orphan_outcome r at"
    by (auto simp: take_outcomes_orphan declared_ids orphan_outcome_def list_ex_iff)
  show ?thesis
    unfolding faults_def Let_def case_prod_unfold orph ex
    using due_ex [of r at "\<lambda>i. \<not> has_outcome r i"] due_ex [of r at "spilled_outcome r"]
    by simp
qed

lemma complete_conditions:
  "fst (recording r at) = Complete \<longleftrightarrow>
     r_Skipped r = 0 \<and>
     \<not> list_ex (\<lambda>d. d_Seq d \<le> at \<and> \<not> has_outcome r (d_ToolUseID d)) (r_Declarations r) \<and>
     \<not> list_ex (\<lambda>d. d_Seq d \<le> at \<and> spilled_outcome r (d_ToolUseID d)) (r_Declarations r) \<and>
     \<not> orphan_outcome r at \<and>
     list_ex post_verified (r_Coverage r) \<and> \<not> list_ex post_unknown (r_Coverage r)"
  by (cases "r_Coverage r = []") (auto simp: recording_def faults_closed noteTable_def)

text \<open>
  C27: a record is complete at a point exactly when no line was skipped, every call
  declared by the point has an outcome and none of its outcomes was spilled, no outcome
  by the point lacks its declaration, and the coverage says verified after the session
  and nowhere unknown.
\<close>

theorem recording_complete_iff:
  "fst (recording r at) = Complete \<longleftrightarrow>
     r_Skipped r = 0 \<and>
     \<not> list_ex (\<lambda>d. d_Seq d \<le> at \<and> \<not> has_outcome r (d_ToolUseID d)) (r_Declarations r) \<and>
     \<not> list_ex (\<lambda>d. d_Seq d \<le> at \<and> spilled_outcome r (d_ToolUseID d)) (r_Declarations r) \<and>
     \<not> orphan_outcome r at \<and>
     list_ex post_verified (r_Coverage r) \<and> \<not> list_ex post_unknown (r_Coverage r)"
  by (rule complete_conditions)

text \<open>
  An incomplete record names its faults: the notes are those of the conditions that
  hold, in the table's order, and there is at least one exactly when the record is
  incomplete.
\<close>

theorem recording_notes:
  "snd (recording r at) = map snd (filter fst (zip (faults r at) noteTable)) \<and>
   (snd (recording r at) = []) = (fst (recording r at) = Complete) \<and>
   subseq (snd (recording r at)) noteTable"
proof -
  have "subseq (map snd (filter fst (zip bs ns))) ns" for bs and ns :: "string list"
    by (induction bs ns rule: list_induct2') auto
  then show ?thesis by (simp add: recording_def Let_def)
qed

lemma byPoint_mono: "byPoint s a \<Longrightarrow> a \<le> b \<Longrightarrow> byPoint s b"
  by (auto simp: byPoint_def split: option.splits)

lemma byPoint_list_ex_mono:
  "list_ex P xs \<Longrightarrow> (\<And>x. P x \<Longrightarrow> Q x) \<Longrightarrow> list_ex Q xs"
  by (auto simp: list_ex_iff)

text \<open>
  A record that is complete at a later point was complete at every earlier one: the
  conditions only grow as the point moves on.
\<close>

theorem recording_mono:
  assumes "fst (recording r b) = Complete" and "a \<le> b"
  shows "fst (recording r a) = Complete"
  using assms unfolding complete_conditions
  by (auto simp: list_ex_iff orphan_outcome_def dest: byPoint_mono)

text \<open>
  The answer does not depend on the order in which the record's lines were read.
\<close>

theorem recording_order:
  assumes "mset (r_Declarations r) = mset (r_Declarations q)" and "mset (r_Executions r) = mset (r_Executions q)"
    and "mset (r_Terminals r) = mset (r_Terminals q)" and "mset (r_Coverage r) = mset (r_Coverage q)"
    and "r_Skipped r = r_Skipped q"
  shows "recording r at = recording q at"
proof -
  note ss = assms(1-4) [THEN mset_eq_setD]
  have os: "set (outcomes r) = set (outcomes q)" using ss by (simp add: outcomes_def)
  have "r_Coverage r = [] \<longleftrightarrow> r_Coverage q = []" using ss(4) by (metis set_empty)
  then have "faults r at = faults q at"
    using ss os assms(5)
    by (simp add: faults_closed has_outcome_def spilled_outcome_def orphan_outcome_def declared_def list_ex_iff)
  then show ?thesis by (simp add: recording_def)
qed

section \<open>A record of one test call\<close>

definition ok_coverage :: coverage where
  "ok_coverage = \<lparr>c_Phase = PhasePost, c_State = StateVerified, c_Reason = None, c_HookEntry = ''present'',
                  c_Probe = ''fresh''\<rparr>"

definition one_run :: "decl list \<Rightarrow> execution list \<Rightarrow> run" where
  "one_run ds es = \<lparr>r_Declarations = ds, r_Executions = es, r_Terminals = [], r_Coverage = [ok_coverage],
                    r_OutcomeJoins = [], r_Skipped = 0, r_SpecEvents = [], r_AfterHits = [],
                    r_ThenChecks = []\<rparr>"

definition two_calls :: "run" where
  "two_calls = one_run [decl_example 1 ''a'' ''Bash'' VerbTest None, decl_example 3 ''b'' ''Bash'' VerbTest None]
                 [exec_example ''a'' (Some 2) ExecOK, exec_example ''b'' (Some 4) ExecFailed]"

theorem recording_mono_witness: "fst (recording two_calls 2) = Complete"
  by (rule recording_mono [of two_calls 9]) (code_simp, simp)

theorem recording_order_witness:
  "recording two_calls 3 =
   recording (two_calls\<lparr>r_Executions := [exec_example ''b'' (Some 4) ExecFailed, exec_example ''a'' (Some 2) ExecOK]\<rparr>) 3"
  by (rule recording_order) (simp_all add: two_calls_def one_run_def)

end
