(* ===== verification/Pairs.thy ===== *)
theory Pairs
  imports Recording
begin

text \<open>
  A failing test run made to pass by test edits alone, \<^verbatim>\<open>internal/verify/pairs.go\<close>: the
  result of a call, the calls that may edit, and the one walk over the declarations in
  seq order that pairs a passing run with the failing run of the same command before it.
\<close>

section \<open>What a call says\<close>

definition timeoutFired :: int where
  "timeoutFired = 124"

definition noWrite :: "string list" where
  "noWrite =
     [''TodoWrite'', ''TaskCreate'', ''TaskUpdate'', ''TaskList'', ''TaskGet'',
      ''TaskOutput'', ''TaskStop'', ''AskUserQuestion'', ''EnterPlanMode'',
      ''ExitPlanMode'', ''BashOutput'', ''KillShell'', ''KillBash'', ''Skill'',
      ''ToolSearch'', ''SendMessage'', ''CronCreate'', ''CronDelete'', ''CronList'',
      ''ListMcpResourcesTool'', ''ReadMcpResourceTool'']"

text \<open>Whether the call ended ok, and whether it failed.\<close>

definition result :: "decl \<Rightarrow> execution option \<Rightarrow> bool \<times> bool" where
  "result d ex =
     (case ex of
        None \<Rightarrow> (False, False)
      | Some e \<Rightarrow>
          if e_Outcome e = ExecFailed
          then (let stopped = sh_Program (d_Shape d) = Some ''timeout'' \<and> e_ExitCode e = Some timeoutFired in
                (False, \<not> stopped))
          else (e_Outcome e = ExecOK \<and> \<not> e_Backgrounded e, False))"

definition maskedAsRan :: "decl \<Rightarrow> execution option \<Rightarrow> bool" where
  "maskedAsRan d ex =
     (let m = (case ex of None \<Rightarrow> sh_StatusMasked (d_Shape d) | Some e \<Rightarrow> fst (asRan d e)) in
      m = Some MaskedTest \<or> m = Some MaskedBuild)"

definition mayEdit :: "decl \<Rightarrow> bool \<Rightarrow> bool" where
  "mayEdit d hidden =
     (if d_ToolName d \<in> set noWrite then False
      else if sh_MayWrite (d_Shape d) \<or> hidden then True
      else sh_VerbClass (d_Shape d) \<notin> {VerbRead, VerbNetwork, VerbAgent})"

section \<open>The walk\<close>

type_synonym command = "string \<times> string"

record mark =
  mk_seq :: int
  mk_failed :: bool
  mk_tests :: nat
  mk_others :: nat

record walk =
  wk_pairs :: "(int \<times> int) list"
  wk_tests :: nat
  wk_others :: nat
  wk_last :: "command \<rightharpoonup> mark"

definition walk0 :: walk where
  "walk0 = \<lparr>wk_pairs = [], wk_tests = 0, wk_others = 0, wk_last = Map.empty\<rparr>"

definition command_of :: "decl \<Rightarrow> command" where
  "command_of d = (sh_Digest (d_Shape d), d_CWDDigest d)"

definition isRun :: "decl \<Rightarrow> execution option \<Rightarrow> bool" where
  "isRun d e \<longleftrightarrow> sh_VerbClass (d_Shape d) = VerbTest \<and> \<not> maskedAsRan d e \<and> (fst (result d e) \<or> snd (result d e))"

text \<open>An edit that is no file tool's write to a test file, and one that is and ended ok.\<close>

definition otherEdit :: "decl \<Rightarrow> execution option \<Rightarrow> bool" where
  "otherEdit d e \<longleftrightarrow> mayEdit d (maskedAsRan d e) \<and>
     (sh_VerbClass (d_Shape d) \<noteq> VerbWrite \<or> d_FileLabel d \<noteq> Some LabelTestFile)"

definition testEdit :: "decl \<Rightarrow> execution option \<Rightarrow> bool" where
  "testEdit d e \<longleftrightarrow> mayEdit d (maskedAsRan d e) \<and> \<not> otherEdit d e \<and> fst (result d e)"

definition passes_after :: "walk \<Rightarrow> decl \<Rightarrow> execution option \<Rightarrow> int \<Rightarrow> int \<Rightarrow> mark \<Rightarrow> bool" where
  "passes_after s d e since at prev \<longleftrightarrow>
     isRun d e \<and> mk_failed prev \<and> fst (result d e) \<and> wk_others s = mk_others prev \<and>
     wk_tests s > mk_tests prev \<and> since < d_Seq d \<and> d_Seq d \<le> at"

definition visit :: "(string \<rightharpoonup> execution) \<Rightarrow> int \<Rightarrow> int \<Rightarrow> walk \<Rightarrow> decl \<Rightarrow> walk" where
  "visit picked since at s d =
     (let e = picked (d_ToolUseID d);
          pairs = (case wk_last s (command_of d) of
                     None \<Rightarrow> wk_pairs s
                   | Some prev \<Rightarrow>
                       if passes_after s d e since at prev
                       then wk_pairs s @ [(mk_seq prev, d_Seq d)] else wk_pairs s);
          others = (if otherEdit d e then wk_others s + 1 else wk_others s);
          tests = (if testEdit d e then wk_tests s + 1 else wk_tests s)
      in \<lparr>wk_pairs = pairs, wk_tests = tests, wk_others = others,
          wk_last = (if isRun d e \<and> d_CWDDigest d \<noteq> []
                     then (wk_last s)(command_of d \<mapsto>
                            \<lparr>mk_seq = d_Seq d, mk_failed = snd (result d e), mk_tests = tests, mk_others = others\<rparr>)
                     else wk_last s)\<rparr>)"

definition testPairs :: "run \<Rightarrow> (string \<rightharpoonup> execution) \<Rightarrow> int \<Rightarrow> int \<Rightarrow> (int \<times> int) list" where
  "testPairs r picked since at =
     wk_pairs (foldl (visit picked since at) walk0 (sort_key d_Seq (r_Declarations r)))"

definition undeclared :: "run \<Rightarrow> int \<Rightarrow> bool" where
  "undeclared r at \<longleftrightarrow>
     list_ex (\<lambda>e. \<not> declared r (e_ToolUseID e) \<and> byPoint (e_Seq e) at) (r_Executions r) \<or>
     list_ex (\<lambda>t. \<not> (FlushFailed t \<and> t_ToolUseID t = []) \<and> \<not> declared r (t_ToolUseID t) \<and> byPoint (t_Seq t) at)
       (r_Terminals r)"

definition testsOnlyThenGreen :: "run \<Rightarrow> (string \<rightharpoonup> execution) \<Rightarrow> int \<Rightarrow> int \<Rightarrow> (int \<times> int) list" where
  "testsOnlyThenGreen r picked since at =
     (let pairs = testPairs r picked since at in
      if pairs \<noteq> [] \<and> undeclared r at then [] else pairs)"

section \<open>What the walk holds\<close>

text \<open>
  The run that last set a command's mark: the declarations before it, itself, and
  those since, none of which is a run of the same command.
\<close>

definition last_run :: "(string \<rightharpoonup> execution) \<Rightarrow> decl list \<Rightarrow> command \<Rightarrow> decl list \<Rightarrow> decl \<Rightarrow> decl list \<Rightarrow> bool" where
  "last_run picked ds c xs d ys \<longleftrightarrow>
     ds = xs @ d # ys \<and> command_of d = c \<and> d_CWDDigest d \<noteq> [] \<and> isRun d (picked (d_ToolUseID d)) \<and>
     \<not> list_ex (\<lambda>x. command_of x = c \<and> isRun x (picked (d_ToolUseID x))) ys"

definition edits :: "(decl \<Rightarrow> execution option \<Rightarrow> bool) \<Rightarrow> (string \<rightharpoonup> execution) \<Rightarrow> decl list \<Rightarrow> nat" where
  "edits P picked ds = length (filter (\<lambda>d. P d (picked (d_ToolUseID d))) ds)"

lemma edits_append [simp]: "edits P picked (xs @ ys) = edits P picked xs + edits P picked ys"
  by (simp add: edits_def)

lemma edits_simps [simp]:
  "edits P picked [] = 0"
  "edits P picked (d # ds) = (if P d (picked (d_ToolUseID d)) then 1 else 0) + edits P picked ds"
  by (simp_all add: edits_def)

lemma visit_counts:
  "wk_tests (foldl (visit picked since at) walk0 ds) = edits testEdit picked ds"
  "wk_others (foldl (visit picked since at) walk0 ds) = edits otherEdit picked ds"
  by (induction ds rule: rev_induct) (auto simp: visit_def Let_def walk0_def)

lemma visit_wk_last:
  "wk_last (visit picked since at s d) =
     (let e = picked (d_ToolUseID d) in
      if isRun d e \<and> d_CWDDigest d \<noteq> []
      then (wk_last s)(command_of d \<mapsto>
             \<lparr>mk_seq = d_Seq d, mk_failed = snd (result d e),
              mk_tests = (if testEdit d e then wk_tests s + 1 else wk_tests s),
              mk_others = (if otherEdit d e then wk_others s + 1 else wk_others s)\<rparr>)
      else wk_last s)"
  by (simp add: visit_def Let_def)

lemma visit_last:
  "wk_last (foldl (visit picked since at) walk0 ds) c = Some m \<Longrightarrow>
     \<exists>xs d ys. last_run picked ds c xs d ys \<and> mk_seq m = d_Seq d \<and>
       mk_failed m = snd (result d (picked (d_ToolUseID d))) \<and>
       mk_tests m = edits testEdit picked (xs @ [d]) \<and> mk_others m = edits otherEdit picked (xs @ [d])"
proof (induction ds arbitrary: m rule: rev_induct)
  case (snoc e ds)
  let ?s = "foldl (visit picked since at) walk0 ds"
  let ?set = "isRun e (picked (d_ToolUseID e)) \<and> d_CWDDigest e \<noteq> [] \<and> command_of e = c"
  show ?case
  proof (cases ?set)
    case True
    with snoc.prems show ?thesis
      by (intro exI [of _ ds] exI [of _ e] exI [of _ "[]"])
         (auto simp: visit_wk_last Let_def last_run_def visit_counts)
  next
    case False
    with snoc.prems have "wk_last ?s c = Some m"
      by (auto simp: visit_wk_last Let_def split: if_splits)
    then obtain xs d ys where l: "last_run picked ds c xs d ys" "mk_seq m = d_Seq d"
        "mk_failed m = snd (result d (picked (d_ToolUseID d)))"
        "mk_tests m = edits testEdit picked (xs @ [d])" "mk_others m = edits otherEdit picked (xs @ [d])"
      using snoc.IH by blast
    moreover have "last_run picked (ds @ [e]) c xs d (ys @ [e])"
      using l(1) False by (auto simp: last_run_def command_of_def)
    ultimately show ?thesis by blast
  qed
qed (simp add: walk0_def)

text \<open>
  A passing run at the end of \<open>ds\<close>, whose command's last run failed, with at least one
  ok edit of a test file between them and no other edit.
\<close>

definition paired :: "(string \<rightharpoonup> execution) \<Rightarrow> int \<Rightarrow> int \<Rightarrow> decl list \<Rightarrow> decl list \<Rightarrow> decl \<Rightarrow> decl list \<Rightarrow> decl \<Rightarrow> bool" where
  "paired picked since at all xs d ys e \<longleftrightarrow>
     prefix (xs @ d # ys @ [e]) all \<and> last_run picked (xs @ d # ys) (command_of e) xs d ys \<and>
     snd (result d (picked (d_ToolUseID d))) \<and> isRun e (picked (d_ToolUseID e)) \<and>
     fst (result e (picked (d_ToolUseID e))) \<and>
     edits otherEdit picked ys = 0 \<and> edits testEdit picked ys > 0 \<and> since < d_Seq e \<and> d_Seq e \<le> at"

lemma visit_pairs:
  "wk_pairs (visit picked since at s d) =
     wk_pairs s @
     (case wk_last s (command_of d) of None \<Rightarrow> []
      | Some prev \<Rightarrow>
          if passes_after s d (picked (d_ToolUseID d)) since at prev then [(mk_seq prev, d_Seq d)] else [])"
  by (simp add: visit_def Let_def split: option.split)

lemma walk_sound:
  "(s, t) \<in> set (wk_pairs (foldl (visit picked since at) walk0 ds)) \<Longrightarrow>
     \<exists>xs d ys e. paired picked since at ds xs d ys e \<and> s = d_Seq d \<and> t = d_Seq e"
proof (induction ds rule: rev_induct)
  case (snoc e ds)
  let ?s = "foldl (visit picked since at) walk0 ds"
  consider "(s, t) \<in> set (wk_pairs ?s)"
    | prev where "wk_last ?s (command_of e) = Some prev" "s = mk_seq prev" "t = d_Seq e"
        "passes_after ?s e (picked (d_ToolUseID e)) since at prev"
    using snoc.prems
    by (cases "wk_last ?s (command_of e)") (auto simp: visit_pairs split: if_splits)
  then show ?case
  proof cases
    case 1
    then obtain xs d ys x where "paired picked since at ds xs d ys x" "s = d_Seq d" "t = d_Seq x"
      using snoc.IH by blast
    moreover from this(1) have "paired picked since at (ds @ [e]) xs d ys x"
      by (auto simp: paired_def)
    ultimately show ?thesis by blast
  next
    case 2
    from visit_last [OF 2(1)] obtain xs d ys where l: "last_run picked ds (command_of e) xs d ys"
        "mk_seq prev = d_Seq d" "mk_failed prev = snd (result d (picked (d_ToolUseID d)))"
        "mk_tests prev = edits testEdit picked (xs @ [d])" "mk_others prev = edits otherEdit picked (xs @ [d])"
      by blast
    have ds: "ds = xs @ d # ys" using l(1) by (simp add: last_run_def)
    have "paired picked since at (ds @ [e]) xs d ys e"
      using 2(4) l unfolding paired_def passes_after_def visit_counts by (simp add: ds split: if_splits)
    then show ?thesis using 2 l(2) by blast
  qed
qed (simp add: walk0_def)

lemma last_run_unique:
  assumes "last_run picked ds c xs d ys" and "last_run picked ds c xs' d' ys'"
  shows "xs = xs' \<and> d = d' \<and> ys = ys'"
proof -
  have eq: "xs @ d # ys = xs' @ d' # ys'" using assms by (simp add: last_run_def)
  have no: "\<not> (command_of x = c \<and> isRun x (picked (d_ToolUseID x)))" if "x \<in> set ys \<or> x \<in> set ys'" for x
    using that assms by (auto simp: last_run_def list_ex_iff)
  have at: "command_of d = c \<and> isRun d (picked (d_ToolUseID d))" "command_of d' = c \<and> isRun d' (picked (d_ToolUseID d'))"
    using assms by (auto simp: last_run_def)
  from eq show ?thesis
    unfolding append_eq_append_conv2 using no at
    by (auto simp: append_eq_Cons_conv Cons_eq_append_conv)
qed

lemma visit_has_last:
  assumes "last_run picked ds c xs d ys"
  shows "wk_last (foldl (visit picked since at) walk0 ds) c \<noteq> None"
  using assms
proof (induction ds arbitrary: ys rule: rev_induct)
  case (snoc e ds)
  show ?case
  proof (cases ys rule: rev_cases)
    case Nil
    with snoc.prems show ?thesis by (auto simp: last_run_def visit_wk_last Let_def)
  next
    case (snoc zs z)
    with snoc.prems have "last_run picked ds c xs d zs" by (auto simp: last_run_def)
    then have "wk_last (foldl (visit picked since at) walk0 ds) c \<noteq> None" by (rule snoc.IH)
    then show ?thesis by (auto simp: visit_wk_last Let_def)
  qed
qed (simp add: last_run_def)

lemma walk_mono: "set (wk_pairs (foldl (visit picked since at) walk0 xs)) \<subseteq>
    set (wk_pairs (foldl (visit picked since at) walk0 (xs @ ys)))"
  by (induction ys rule: rev_induct)
    (auto simp: visit_pairs simp flip: append_assoc)

lemma walk_complete:
  assumes p: "paired picked since at ds xs d ys e"
  shows "(d_Seq d, d_Seq e) \<in> set (wk_pairs (foldl (visit picked since at) walk0 ds))"
proof -
  let ?s = "foldl (visit picked since at) walk0 (xs @ d # ys)"
  have l: "last_run picked (xs @ d # ys) (command_of e) xs d ys" using p by (simp add: paired_def)
  obtain m where m: "wk_last ?s (command_of e) = Some m" using visit_has_last [OF l] by blast
  then obtain xs' d' ys' where l': "last_run picked (xs @ d # ys) (command_of e) xs' d' ys'" "mk_seq m = d_Seq d'"
      "mk_failed m = snd (result d' (picked (d_ToolUseID d')))"
      "mk_tests m = edits testEdit picked (xs' @ [d'])" "mk_others m = edits otherEdit picked (xs' @ [d'])"
    using visit_last by blast
  have same: "xs' = xs" "d' = d" "ys' = ys" using last_run_unique [OF l'(1) l] by simp_all
  have "passes_after ?s e (picked (d_ToolUseID e)) since at m"
    using p l'(3-5) unfolding same paired_def passes_after_def visit_counts by simp
  then have "(d_Seq d, d_Seq e) \<in> set (wk_pairs (foldl (visit picked since at) walk0 ((xs @ d # ys) @ [e])))"
    using m l'(2) unfolding same foldl_append by (simp add: visit_pairs)
  moreover obtain zs where "ds = ((xs @ d # ys) @ [e]) @ zs" using p by (auto simp: paired_def prefix_def)
  ultimately show ?thesis using walk_mono by blast
qed

text \<open>
  C29: the pairs are exactly these: a run that passed in the window, whose command's
  last run before it failed, with an ok edit of a test file between the two and no
  other call that may have edited.
\<close>

theorem testPairs_iff:
  "(s, t) \<in> set (testPairs r picked since at) \<longleftrightarrow>
     (\<exists>xs d ys e. paired picked since at (sort_key d_Seq (r_Declarations r)) xs d ys e \<and>
        s = d_Seq d \<and> t = d_Seq e)"
  unfolding testPairs_def using walk_sound walk_complete by blast

section \<open>The point cuts the record\<close>

lemma walk_after:
  assumes "list_all (\<lambda>d. d_Seq d > at) ys"
  shows "wk_pairs (foldl (visit picked since at) s ys) = wk_pairs s"
  using assms
  by (induction ys rule: rev_induct) (auto simp: visit_pairs passes_after_def split: option.split)

lemma sorted_split:
  assumes "sorted (map f xs)"
  shows "xs = filter (\<lambda>x. f x \<le> (n::'a::linorder)) xs @ filter (\<lambda>x. \<not> f x \<le> n) xs"
  using assms
proof (induction xs)
  case (Cons x xs)
  show ?case
  proof (cases "f x \<le> n")
    case False
    then have "filter (\<lambda>y. f y \<le> n) xs = []"
      using Cons.prems by (force simp: filter_empty_conv)
    moreover have "filter (\<lambda>y. \<not> f y \<le> n) xs = xs"
      using Cons.prems False by (force simp: filter_id_conv)
    ultimately show ?thesis using False by simp
  qed (use Cons in simp)
qed simp

text \<open>
  The pairs at a point are those of the record cut at the point: nothing declared
  after it is read.
\<close>

theorem testPairs_prefix:
  "testPairs (r\<lparr>r_Declarations := filter (\<lambda>d. d_Seq d \<le> at) (r_Declarations r)\<rparr>) picked since at =
   testPairs r picked since at"
proof -
  let ?ds = "sort_key d_Seq (r_Declarations r)"
  have "sort_key d_Seq (filter (\<lambda>d. d_Seq d \<le> at) (r_Declarations r)) = filter (\<lambda>d. d_Seq d \<le> at) ?ds"
    by (rule filter_sort [symmetric])
  moreover have "foldl (visit picked since at) walk0 ?ds =
      foldl (visit picked since at) (foldl (visit picked since at) walk0 (filter (\<lambda>d. d_Seq d \<le> at) ?ds))
        (filter (\<lambda>d. \<not> d_Seq d \<le> at) ?ds)"
    by (subst sorted_split [of d_Seq ?ds at]) (simp_all only: sorted_sort_key foldl_append)
  moreover have "list_all (\<lambda>d. d_Seq d > at) (filter (\<lambda>d. \<not> d_Seq d \<le> at) ?ds)"
    by (auto simp: list_all_iff)
  ultimately show ?thesis by (simp add: testPairs_def walk_after)
qed

text \<open>
  On a record that reads complete the guard of \<open>testsOnlyThenGreen\<close> never voids the
  pairs, so a caller that has established completeness may take the walk alone.
\<close>

theorem testsOnlyThenGreen_complete:
  assumes "fst (recording r at) = Complete"
  shows "testsOnlyThenGreen r picked since at = testPairs r picked since at"
proof -
  have "\<not> orphan_outcome r at" using assms by (simp add: complete_conditions)
  then have "\<not> undeclared r at"
    by (auto simp: undeclared_def orphan_outcome_def outcomes_def list_ex_iff ball_Un)
  then show ?thesis by (simp add: testsOnlyThenGreen_def Let_def)
qed

text \<open>A failing test, an edit of its file, the test again.\<close>

definition bent_tests :: run where
  "bent_tests = one_run
     [decl_example 1 ''a'' ''Bash'' VerbTest None,
      (decl_example 3 ''b'' ''Edit'' VerbWrite (Some ''a_test.go''))\<lparr>d_FileLabel := Some LabelTestFile\<rparr>,
      decl_example 5 ''c'' ''Bash'' VerbTest None]
     [exec_example ''a'' (Some 2) ExecFailed, exec_example ''b'' (Some 4) ExecOK, exec_example ''c'' (Some 6) ExecOK]"

theorem testsOnlyThenGreen_complete_witness:
  "testsOnlyThenGreen bent_tests (pickExecutions bent_tests) 0 9 = [(1, 5)]"
proof -
  have "fst (recording bent_tests 9) = Complete" by code_simp
  then have "testsOnlyThenGreen bent_tests (pickExecutions bent_tests) 0 9 =
      testPairs bent_tests (pickExecutions bent_tests) 0 9"
    by (rule testsOnlyThenGreen_complete)
  also have "\<dots> = [(1, 5)]" by code_simp
  finally show ?thesis .
qed

end
