(* ===== verification/GateVocab.thy ===== *)
theory GateVocab
  imports GoStrings
begin

text \<open>
  The states and reasons of a gate and the one order over states, \<^verbatim>\<open>internal/verify\<close>
  (state.go). A Go \<open>State\<close> is a string type with seven constants; any other string is
  \<open>OtherState\<close>. The verdict of a claim is the worst state of the gates it maps to.
\<close>

datatype state =
  Green | Red | MaskedInconclusive | Stale | Absent | Backgrounded | Unknown | OtherState string

datatype reason =
  FailedExit | FailedOutput | MaskedWithSuccessLine | MaskedNoSuccessLine | MaskedUnattributable
| EmptyRun | PartialAfterRed | PartialOnly | RedThenWrites | MaskedThenWrites | WritesAfterGreen
| WriteDuringRun | StaleForeign | NeverRunAfterWrite | BackgroundLaunch | OrderUnknown
| OutcomeUnknown | RecordingIncomplete | Budget | OK | NoReason

definition States :: "state list" where
  "States = [Green, Red, MaskedInconclusive, Stale, Absent, Backgrounded, Unknown]"

definition Order :: "state list" where
  "Order = [Red, MaskedInconclusive, Backgrounded, Stale, Absent, Unknown, Green]"

fun rank_in :: "state list \<Rightarrow> int \<Rightarrow> state \<Rightarrow> int" where
  "rank_in [] i s = -1"
| "rank_in (x # xs) i s = (if x = s then i else rank_in xs (i + 1) s)"

definition Rank :: "state \<Rightarrow> int" where
  "Rank s = rank_in Order 0 s"

definition Worse :: "state \<Rightarrow> state \<Rightarrow> bool" where
  "Worse a b \<longleftrightarrow> Rank a < Rank b"

definition Worst :: "state list \<Rightarrow> state option" where
  "Worst states = fold_best Worse states"

datatype verdict = NoGateKnown | StateVerdict state

definition VerdictOf :: "state list \<Rightarrow> verdict" where
  "VerdictOf states = (case Worst states of None \<Rightarrow> NoGateKnown | Some w \<Rightarrow> StateVerdict w)"

section \<open>Facts\<close>

lemma Rank_simps [simp]:
  "Rank Red = 0" "Rank MaskedInconclusive = 1" "Rank Backgrounded = 2" "Rank Stale = 3"
  "Rank Absent = 4" "Rank Unknown = 5" "Rank Green = 6" "Rank (OtherState x) = -1"
  by (simp_all add: Rank_def Order_def)

interpretation worst: best_fold Worse
  by unfold_locales (auto simp: Worse_def)

lemma Rank_le_Green: "Rank s \<le> 6"
  by (cases s) simp_all

lemma Rank_Green_iff: "Rank s = 6 \<longleftrightarrow> s = Green"
  by (cases s) simp_all

lemma Rank_valid_inj: "Rank a = Rank b \<Longrightarrow> 0 \<le> Rank a \<Longrightarrow> a = b"
  by (cases a; cases b) simp_all

lemma Rank_neg_iff: "Rank s < 0 \<longleftrightarrow> (\<exists>x. s = OtherState x)"
  by (cases s) simp_all

lemma Worst_member: "Worst ss = Some w \<Longrightarrow> w \<in> set ss"
  unfolding Worst_def by (rule fold_best_in_set)

lemma Worst_least: "Worst ss = Some w \<Longrightarrow> s \<in> set ss \<Longrightarrow> Rank w \<le> Rank s"
  using worst.best_maximal [of ss w s] by (auto simp: Worst_def Worse_def)

lemma Worst_Nil [simp]: "Worst ss = None \<longleftrightarrow> ss = []"
  by (simp add: Worst_def)

lemma Worst_Green: "Worst ss = Some Green \<longleftrightarrow> ss \<noteq> [] \<and> list_all (\<lambda>s. s = Green) ss"
proof
  assume w: "Worst ss = Some Green"
  then have "\<And>s. s \<in> set ss \<Longrightarrow> s = Green"
    using Worst_least [OF w] Rank_le_Green Rank_Green_iff by (metis Rank_simps(7) order_antisym)
  moreover have "ss \<noteq> []" using w by (metis Worst_Nil option.distinct(1))
  ultimately show "ss \<noteq> [] \<and> list_all (\<lambda>s. s = Green) ss" by (simp add: list_all_iff)
next
  assume a: "ss \<noteq> [] \<and> list_all (\<lambda>s. s = Green) ss"
  then obtain w where w: "Worst ss = Some w" using Worst_Nil [of ss] by (cases "Worst ss") auto
  then have "w = Green" using a Worst_member [OF w] by (auto simp: list_all_iff)
  with w show "Worst ss = Some Green" by simp
qed

text \<open>
  A claim's verdict is green exactly when it maps to at least one gate and every
  gate it maps to is green; no other state, not even one outside the vocabulary, is
  hidden by a green.
\<close>

theorem VerdictOf_green_iff:
  "VerdictOf states = StateVerdict Green \<longleftrightarrow> states \<noteq> [] \<and> list_all (\<lambda>s. s = Green) states"
  using Worst_Green [of states] by (auto simp: VerdictOf_def split: option.splits)

text \<open>
  When a gate is red and every gate's state is in the vocabulary, the verdict is
  red; when some state is outside it, the verdict is such a state, the defect surfaces.
\<close>

theorem VerdictOf_red_or_defect:
  assumes "Red \<in> set states"
  shows "VerdictOf states = StateVerdict Red \<or>
         (\<exists>x. OtherState x \<in> set states \<and> VerdictOf states = StateVerdict (OtherState x))"
proof -
  from assms have "states \<noteq> []" by auto
  then obtain w where w: "Worst states = Some w"
    using Worst_Nil [of states] by (cases "Worst states") auto
  have "Rank w \<le> 0" using Worst_least [OF w assms] by simp
  then have "w = Red \<or> (\<exists>x. w = OtherState x)"
    by (cases w) simp_all
  with w Worst_member [OF w] show ?thesis by (auto simp: VerdictOf_def)
qed

theorem VerdictOf_red_or_defect_witness:
  "VerdictOf [Green, Red, Stale] = StateVerdict Red"
  using VerdictOf_red_or_defect [of "[Green, Red, Stale]"] by simp

text \<open>Over states of the vocabulary, the worst does not depend on the order they are read in.\<close>

lemma Worst_perm:
  assumes "mset xs = mset ys" and "list_all (\<lambda>s. s \<in> set States) xs"
  shows "Worst xs = Worst ys"
  unfolding Worst_def
proof (rule worst.best_perm [OF assms(1)])
  fix x y assume "x \<in> set xs" "y \<in> set xs" "x \<noteq> y"
  moreover from this have "0 \<le> Rank x"
    using assms(2) by (auto simp: list_all_iff States_def)
  ultimately have "Rank x \<noteq> Rank y" using Rank_valid_inj [of x y] by blast
  then show "Worse x y \<or> Worse y x" unfolding Worse_def by linarith
qed

end
