(* ===== verification/Gates.thy ===== *)
theory Gates
  imports Tree GateVocab
begin

text \<open>
  A gate family's state at a point, \<^verbatim>\<open>internal/verify\<close> (gates.go, the types of
  snapshot.go): what a run says of itself, the decision table over a family's last run,
  its last green run, the writes since and the tree, and the state record the table
  fills (\<open>stateOf\<close>); \<open>gateStates\<close> does it for every family of the record.
\<close>

section \<open>What a run says\<close>

definition landed :: "gate_run \<Rightarrow> int \<times> bool" where
  "landed r = (case g_ExecSeq r of Some s \<Rightarrow> (s, True) | None \<Rightarrow> (g_Seq r, False))"

definition kindOf :: "gate_run list \<Rightarrow> string" where
  "kindOf fr = (case find g_KindRecorded (rev fr) of Some r \<Rightarrow> g_Kind r | None \<Rightarrow> g_Kind (last fr))"

definition masked :: "gate_run \<Rightarrow> bool" where
  "masked r \<longleftrightarrow> statusHidden r \<and> \<not> g_FromOutput r \<and> \<not> g_FromPrinted r \<and> \<not> g_Wrapped r"

definition out_is :: "gate_run \<Rightarrow> out_kind list \<Rightarrow> bool" where
  "out_is r ks = (case g_Output r of None \<Rightarrow> False | Some out \<Rightarrow> go_Kind out \<in> set ks)"

definition emptyRun :: "gate_run \<Rightarrow> bool" where
  "emptyRun r \<longleftrightarrow> out_is r [OutEmptyRun]"

definition failedByExit :: "gate_run \<Rightarrow> bool" where
  "failedByExit r \<longleftrightarrow>
     g_Outcome r = ExecFailed \<or> g_FromPrinted r \<and> out_is r [OutPrintedFail] \<or>
     g_Outcome r = ExecInterrupted \<and> g_ExitCode r \<noteq> None \<and> g_ExitCode r \<noteq> Some 0"

definition failed :: "gate_run \<Rightarrow> bool" where
  "failed r \<longleftrightarrow>
     (if g_Wrapped r then out_is r [OutSummaryFail]
      else failedByExit r \<or> out_is r [OutSummaryFail, OutFailLine])"

definition outcomeNotKnown :: "gate_run \<Rightarrow> bool" where
  "outcomeNotKnown r \<longleftrightarrow>
     g_Outcome r \<noteq> ExecOK \<or> out_is r [OutUnread] \<or> g_Wrapped r \<and> \<not> g_FromOutput r"

definition orderNotKnown :: "gate_run \<Rightarrow> bool" where
  "orderNotKnown r \<longleftrightarrow> \<not> snd (landed r)"

definition green :: "gate_run \<Rightarrow> bool" where
  "green r \<longleftrightarrow> \<not> g_Backgrounded r \<and> \<not> masked r \<and> \<not> emptyRun r \<and> \<not> failed r \<and>
     \<not> outcomeNotKnown r \<and> \<not> orderNotKnown r"

section \<open>The decision table\<close>

record fam =
  f_last :: gate_run
  f_green :: "gate_run option"
  f_ref :: gate_run
  f_counted :: "wr list"
  f_bound :: treeBind

definition written_after_last :: "fam \<Rightarrow> bool" where
  "written_after_last f = list_ex (\<lambda>w. w_Seq w > g_Seq (f_last f)) (f_counted f)"

definition lastBackgrounded :: "fam \<Rightarrow> bool" where
  [row_defs]: "lastBackgrounded f \<longleftrightarrow> g_Backgrounded (f_last f)"

definition maskedThenWritten :: "fam \<Rightarrow> bool" where
  [row_defs]: "maskedThenWritten f \<longleftrightarrow> masked (f_last f) \<and> written_after_last f"

definition lastMasked :: "fam \<Rightarrow> bool" where
  [row_defs]: "lastMasked f \<longleftrightarrow> masked (f_last f)"

definition lastEmptyRun :: "fam \<Rightarrow> bool" where
  [row_defs]: "lastEmptyRun f \<longleftrightarrow> emptyRun (f_last f)"

definition lastFailed :: "fam \<Rightarrow> bool" where
  [row_defs]: "lastFailed f \<longleftrightarrow> failed (f_last f)"

definition lastOutcomeNotKnown :: "fam \<Rightarrow> bool" where
  [row_defs]: "lastOutcomeNotKnown f \<longleftrightarrow> outcomeNotKnown (f_last f)"

definition lastOrderNotKnown :: "fam \<Rightarrow> bool" where
  [row_defs]: "lastOrderNotKnown f \<longleftrightarrow> orderNotKnown (f_last f)"

definition writtenSince :: "fam \<Rightarrow> bool" where
  [row_defs]: "writtenSince f \<longleftrightarrow> length (f_counted f) > 0"

definition treeMovedOwn :: "fam \<Rightarrow> bool" where
  [row_defs]: "treeMovedOwn f \<longleftrightarrow> f_bound f = BoundOwn"

definition treeMovedForeign :: "fam \<Rightarrow> bool" where
  [row_defs]: "treeMovedForeign f \<longleftrightarrow> f_bound f = BoundForeign"

definition maskedReason :: "fam \<Rightarrow> reason" where
  "maskedReason f =
     (case g_Output (f_last f) of
        None \<Rightarrow> MaskedNoSuccessLine
      | Some out \<Rightarrow>
          (if go_Kind out = OutSummaryPass then MaskedWithSuccessLine
           else if go_Kind out \<in> {OutNoSummary, OutEmptyRun} then MaskedNoSuccessLine
           else MaskedUnattributable))"

definition redReason :: "fam \<Rightarrow> reason" where
  "redReason f =
     (if written_after_last f then RedThenWrites
      else if g_Wrapped (f_last f) \<or> \<not> failedByExit (f_last f) then FailedOutput
      else FailedExit)"

record gate_row =
  gr_when :: "fam \<Rightarrow> bool"
  gr_state :: state
  gr_reason :: "fam \<Rightarrow> reason"

definition row :: "(fam \<Rightarrow> bool) \<Rightarrow> state \<Rightarrow> (fam \<Rightarrow> reason) \<Rightarrow> gate_row" where
  "row w s q = \<lparr>gr_when = w, gr_state = s, gr_reason = q\<rparr>"

definition gateTable :: "gate_row list" where
  "gateTable =
     [row lastBackgrounded Backgrounded (\<lambda>_. BackgroundLaunch),
      row maskedThenWritten Stale (\<lambda>_. MaskedThenWrites),
      row lastMasked MaskedInconclusive maskedReason,
      row lastEmptyRun Absent (\<lambda>_. EmptyRun),
      row lastFailed Red redReason,
      row lastOutcomeNotKnown Unknown (\<lambda>_. OutcomeUnknown),
      row lastOrderNotKnown Unknown (\<lambda>_. OrderUnknown),
      row writtenSince Stale (\<lambda>_. WritesAfterGreen),
      row treeMovedOwn Stale (\<lambda>_. WritesAfterGreen),
      row treeMovedForeign Stale (\<lambda>_. StaleForeign),
      row (\<lambda>_. True) Green (\<lambda>_. OK)]"

text \<open>The state and reason of the first row that matches; the fail-closed pair without one.\<close>

definition tableState :: "fam \<Rightarrow> state \<times> reason" where
  "tableState f =
     (case find (\<lambda>r. gr_when r f) gateTable of
        None \<Rightarrow> (Unknown, OutcomeUnknown) | Some r \<Rightarrow> (gr_state r, gr_reason r f))"

section \<open>The references a state carries\<close>

datatype wrapWord = WrapNone | WrapRead | WrapUnread | WrapBackground

datatype outcomeSource = SourceExit | SourceOutput

record runRef =
  rr_Seq :: int
  rr_ToolUseID :: string
  rr_AgentID :: "string option"
  rr_Outcome :: exec_outcome
  rr_ExitCode :: "int option"
  rr_Masked :: "masked_word option"
  rr_GateOutput :: "gate_output option"
  rr_Scope :: string
  rr_OutcomeFrom :: outcomeSource
  rr_MaskedBy :: nat
  rr_RunnerName :: nat
  rr_OtherArgs :: bool
  rr_Wrapped :: wrapWord

definition run_ref :: "gate_run \<Rightarrow> runRef" where
  "run_ref r =
     \<lparr>rr_Seq = g_Seq r, rr_ToolUseID = g_ToolUseID r, rr_AgentID = g_AgentID r, rr_Outcome = g_Outcome r,
      rr_ExitCode = g_ExitCode r, rr_Masked = g_Masked r, rr_GateOutput = g_Output r, rr_Scope = ''unknown'',
      rr_OutcomeFrom = (if g_FromOutput r then SourceOutput else SourceExit),
      rr_MaskedBy = g_MaskedByID r, rr_RunnerName = g_RunnerID r, rr_OtherArgs = False,
      rr_Wrapped = (if g_Wrapped r then WrapRead else WrapNone)\<rparr>"

record writeRef =
  wf_Seq :: int
  wf_AgentID :: "string option"
  wf_Path :: "string option"
  wf_Tool :: string

definition later_write :: "wr \<Rightarrow> wr \<Rightarrow> bool" where
  "later_write w l \<longleftrightarrow> w_Seq w > w_Seq l \<or> w_Seq w = w_Seq l \<and> w_path w > w_path l"

definition lastWrite :: "wr list \<Rightarrow> writeRef option" where
  "lastWrite counted =
     (case fold_best later_write counted of
        None \<Rightarrow> None
      | Some w \<Rightarrow> Some \<lparr>wf_Seq = w_Seq w, wf_AgentID = w_agent w, wf_Path = w_Path w, wf_Tool = w_Tool w\<rparr>)"

record agentCount =
  ac_AgentID :: "string option"
  ac_Writes :: nat

definition MaxWriters :: nat where
  "MaxWriters = 8"

text \<open>Per agent: the first of its counted writes' seqs, and how many there are.\<close>

fun note_writer :: "wr \<Rightarrow> (string option \<times> int \<times> nat) list \<Rightarrow> (string option \<times> int \<times> nat) list" where
  "note_writer w [] = [(w_agent w, w_Seq w, 1)]"
| "note_writer w ((a, since, n) # as) =
     (if a = w_agent w then (a, min since (w_Seq w), n + 1) # as
      else (a, since, n) # note_writer w as)"

definition writers :: "wr list \<Rightarrow> agentCount list \<times> nat" where
  "writers counted =
     (let as = sort_key (\<lambda>a. fst (snd a)) (foldl (\<lambda>as w. note_writer w as) [] counted) in
      (map (\<lambda>a. \<lparr>ac_AgentID = fst a, ac_Writes = snd (snd a)\<rparr>) (take MaxWriters as),
       length as - MaxWriters))"

section \<open>A family's state\<close>

record gate_state =
  gs_Gate :: string
  gs_Kind :: string
  gs_Family :: string
  gs_Source :: string
  gs_Trust :: string
  gs_Required :: bool
  gs_State :: state
  gs_Reason :: reason
  gs_LastRun :: "runRef option"
  gs_LastGreen :: "runRef option"
  gs_LastWrite :: "writeRef option"
  gs_WritesSinceGreen :: nat
  gs_WritersSinceGreen :: "agentCount list"
  gs_WritersOmitted :: nat
  gs_UnknownTarget :: nat
  gs_PartialRunsSince :: nat
  gs_bound :: treeBind
  gs_offTurn :: bool
  gs_root :: string

definition sourceLearned :: string where
  "sourceLearned = ''learned''"

definition prefix12 :: "string \<Rightarrow> string" where
  "prefix12 s = take 12 s"

definition learnedGateID :: "string \<Rightarrow> familyKey \<Rightarrow> string" where
  "learnedGateID kind k =
     sourceLearned @ '':'' @ kind @ '':'' @ prefix12 (snd k) @ ''@'' @ prefix12 (fst k)"

definition kindOfGateID :: "string \<Rightarrow> string" where
  "kindOfGateID i =
     (case CutPrefix i (sourceLearned @ '':'') of
        (rest, ok) \<Rightarrow> if \<not> ok then []
          else (case Cut rest CHR '':'' of (kind, _, found) \<Rightarrow> if found then kind else []))"

definition family_name :: "familyKey \<Rightarrow> string" where
  "family_name k = snd k @ ''@'' @ fst k"

definition counted_writes :: "wr list \<Rightarrow> string \<Rightarrow> int \<Rightarrow> int \<Rightarrow> wr list" where
  "counted_writes writes root after at =
     filter (\<lambda>w. w_Path w \<noteq> None \<and> Relevant (w_Class w) \<and> w_Seq w > after \<and> w_Seq w \<le> at \<and> covers root w) writes"

text \<open>The family as the table reads it; \<open>fr\<close> is its runs at the point, in seq order, at least one.\<close>

definition fam_of ::
    "gate_run list \<Rightarrow> wr list \<Rightarrow> int list \<Rightarrow> string \<Rightarrow> int \<Rightarrow> sha_tree option \<Rightarrow> fam" where
  "fam_of fr writes unnamed root at tree =
     (let l = last fr; g = find green (rev fr); ref = (case g of Some x \<Rightarrow> x | None \<Rightarrow> l) in
      \<lparr>f_last = l, f_green = g, f_ref = ref,
       f_counted = counted_writes writes root (g_Seq ref) at,
       f_bound = (if green l then bind writes unnamed root (g_Seq l) at tree else BoundUnknown)\<rparr>)"

definition stateOf ::
    "familyKey \<Rightarrow> string \<Rightarrow> gate_run list \<Rightarrow> wr list \<Rightarrow> int list \<Rightarrow> string \<Rightarrow> int \<Rightarrow> sha_tree option \<Rightarrow> gate_state" where
  "stateOf k kind fr writes unnamed root at tree =
     (let f = fam_of fr writes unnamed root at tree; t = tableState f in
      \<lparr>gs_Gate = learnedGateID kind k, gs_Kind = kind, gs_Family = family_name k,
       gs_Source = sourceLearned, gs_Trust = ''builtin'', gs_Required = True,
       gs_State = fst t, gs_Reason = snd t, gs_LastRun = Some (run_ref (f_last f)),
       gs_LastGreen = map_option run_ref (f_green f),
       gs_LastWrite = lastWrite (f_counted f),
       gs_WritesSinceGreen = length (f_counted f),
       gs_WritersSinceGreen = fst (writers (f_counted f)),
       gs_WritersOmitted = snd (writers (f_counted f)),
       gs_UnknownTarget = length (filter (\<lambda>s. s > g_Seq (f_ref f) \<and> s \<le> at) unnamed),
       gs_PartialRunsSince = 0, gs_bound = f_bound f, gs_offTurn = False, gs_root = root\<rparr>)"

definition families :: "gate_run list \<Rightarrow> familyKey list" where
  "families runs = remdups (List.map_filter run_family runs)"

text \<open>A family's runs in seq order, and those whose outcome is in the record by the point.\<close>

definition family_runs :: "gate_run list \<Rightarrow> familyKey \<Rightarrow> gate_run list" where
  "family_runs runs k = sort_key g_Seq (filter (\<lambda>r. run_family r = Some k) runs)"

definition at_point :: "int \<Rightarrow> gate_run list \<Rightarrow> gate_run list" where
  "at_point at fr = filter (\<lambda>r. fst (landed r) \<le> at) fr"

definition family_state ::
    "gate_run list \<Rightarrow> wr list \<Rightarrow> int list \<Rightarrow> projectKeys \<Rightarrow> int \<Rightarrow> sha_tree option \<Rightarrow> familyKey \<Rightarrow> gate_state option" where
  "family_state runs writes unnamed keys at tree k =
     (let all = family_runs runs k; fr = at_point at all in
      if fr = [] then None
      else Some (stateOf k (kindOf all) fr writes unnamed (pk_key keys (g_ProjectID (last fr))) at tree))"

definition gate_key :: "gate_state \<Rightarrow> string \<times> string" where
  "gate_key g = (gs_Gate g, gs_Family g)"

definition gateStates ::
    "gate_run list \<Rightarrow> wr list \<Rightarrow> int list \<Rightarrow> projectKeys \<Rightarrow> int \<Rightarrow> sha_tree option \<Rightarrow> gate_state list" where
  "gateStates runs writes unnamed keys at tree =
     sort_key gate_key (List.map_filter (family_state runs writes unnamed keys at tree) (families runs))"

section \<open>The table\<close>

interpretation gate_table: decision_table gateTable gr_when "\<lambda>_. True"
  by unfold_locales (simp add: gateTable_def row_def)

lemma tableState_cases:
  "tableState f =
     (if lastBackgrounded f then (Backgrounded, BackgroundLaunch)
      else if maskedThenWritten f then (Stale, MaskedThenWrites)
      else if lastMasked f then (MaskedInconclusive, maskedReason f)
      else if lastEmptyRun f then (Absent, EmptyRun)
      else if lastFailed f then (Red, redReason f)
      else if lastOutcomeNotKnown f then (Unknown, OutcomeUnknown)
      else if lastOrderNotKnown f then (Unknown, OrderUnknown)
      else if writtenSince f then (Stale, WritesAfterGreen)
      else if treeMovedOwn f then (Stale, WritesAfterGreen)
      else if treeMovedForeign f then (Stale, StaleForeign)
      else (Green, OK))"
  by (simp add: tableState_def gateTable_def row_def)

lemma green_last_rows:
  "green (f_last f) \<longleftrightarrow>
     \<not> lastBackgrounded f \<and> \<not> lastMasked f \<and> \<not> lastEmptyRun f \<and> \<not> lastFailed f \<and>
     \<not> lastOutcomeNotKnown f \<and> \<not> lastOrderNotKnown f"
  by (simp add: green_def row_defs)

lemma masked_row: "maskedThenWritten f \<Longrightarrow> lastMasked f"
  by (simp add: row_defs)

lemma tableState_green:
  "fst (tableState f) = Green \<longleftrightarrow>
     green (f_last f) \<and> f_counted f = [] \<and> f_bound f \<noteq> BoundOwn \<and> f_bound f \<noteq> BoundForeign"
  using masked_row [of f]
  by (auto simp: tableState_cases green_last_rows writtenSince_def treeMovedOwn_def treeMovedForeign_def)

text \<open>
  The table never needs its fail-closed answer: some row matches every family, and
  the family's state and reason are that of the first row that does.
\<close>

theorem gateTable_total:
  "\<exists>i < length gateTable. gr_when (gateTable ! i) f \<and>
     \<not> list_ex (\<lambda>r. gr_when r f) (take i gateTable) \<and>
     tableState f = (gr_state (gateTable ! i), gr_reason (gateTable ! i) f)"
proof -
  obtain r where r: "find (\<lambda>r. gr_when r f) gateTable = Some r" "gr_when r f"
    using gate_table.table_total [of f] by blast
  obtain i where i: "i < length gateTable" "r = gateTable ! i" "gr_when r f"
    "\<forall>j < i. \<not> gr_when (gateTable ! j) f"
    using gate_table.table_first [OF r(1)] by blast
  have "tableState f = (gr_state r, gr_reason r f)" by (simp add: tableState_def r(1))
  with i show ?thesis by (intro exI [of _ i]) (auto simp: list_ex_iff in_set_conv_nth)
qed

section \<open>When a gate reads green\<close>

lemma fam_of_last [simp]: "f_last (fam_of fr writes unnamed root at tree) = last fr"
  by (simp add: fam_of_def Let_def)

lemma find_green_last: "green (last fr) \<Longrightarrow> fr \<noteq> [] \<Longrightarrow> find green (rev fr) = Some (last fr)"
  by (cases fr rule: rev_cases) auto

lemma fam_of_ref: "green (last fr) \<Longrightarrow> f_ref (fam_of fr writes unnamed root at tree) = last fr"
  by (cases "fr = []") (simp_all add: fam_of_def Let_def find_green_last)

lemma fam_of_counted:
  "f_counted (fam_of fr writes unnamed root at tree) =
     counted_writes writes root (g_Seq (f_ref (fam_of fr writes unnamed root at tree))) at"
  by (simp add: fam_of_def Let_def)

lemma fam_of_bound:
  "f_bound (fam_of fr writes unnamed root at tree) =
     (if green (last fr) then bind writes unnamed root (g_Seq (last fr)) at tree else BoundUnknown)"
  by (simp add: fam_of_def Let_def)

lemma stateOf_state:
  "gs_State (stateOf k kind fr writes unnamed root at tree) =
     fst (tableState (fam_of fr writes unnamed root at tree))"
  "gs_Reason (stateOf k kind fr writes unnamed root at tree) =
     snd (tableState (fam_of fr writes unnamed root at tree))"
  by (simp_all add: stateOf_def Let_def)

text \<open>
  C24: a gate is green exactly when its last run was, nothing the gate covers was written
  after that run's declaration by the point, and the tree the run saw has not moved.
\<close>

theorem stateOf_green_iff:
  "gs_State (stateOf k kind fr writes unnamed root at tree) = Green \<longleftrightarrow>
     green (last fr) \<and> counted_writes writes root (g_Seq (last fr)) at = [] \<and>
     bind writes unnamed root (g_Seq (last fr)) at tree \<notin> {BoundOwn, BoundForeign}"
  by (cases "green (last fr)")
    (simp_all add: stateOf_state tableState_green fam_of_counted fam_of_bound fam_of_ref)

text \<open>
  C25: a failure that can be seen is red, whatever was written since and whatever the
  tree says: a last run in the foreground, with its status unmasked, that failed and was
  not an empty run.
\<close>

theorem stateOf_red:
  assumes "\<not> g_Backgrounded (last fr)" and "\<not> masked (last fr)" and "\<not> emptyRun (last fr)"
    and "failed (last fr)"
  shows "gs_State (stateOf k kind fr writes unnamed root at tree) = Red"
  using assms masked_row [of "fam_of fr writes unnamed root at tree"]
  by (auto simp: stateOf_state tableState_cases lastBackgrounded_def lastMasked_def
      lastEmptyRun_def lastFailed_def)

definition run_example :: "int \<Rightarrow> exec_outcome \<Rightarrow> gate_run" where
  "run_example s out =
     \<lparr>g_Seq = s, g_ExecSeq = Some (s + 1), g_ToolUseID = ''t'', g_AgentID = None, g_Runner = Some ''r'',
      g_Location = ''l'', g_Kind = ''test'', g_Program = ''go'', g_Outcome = out, g_ExitCode = None,
      g_Masked = Some MaskedNone, g_Output = None, g_Backgrounded = False, g_FromOutput = False,
      g_Wrapped = False, g_KindRecorded = True, g_FromPrinted = False, g_RunnerID = 0,
      g_MaskedByID = 0, g_ProjectID = 0\<rparr>"

lemma run_example_facts:
  "\<not> g_Backgrounded (run_example s out)" "\<not> masked (run_example s out)" "\<not> emptyRun (run_example s out)"
  "failed (run_example s out) \<longleftrightarrow> out = ExecFailed" "green (run_example s out) \<longleftrightarrow> out = ExecOK"
  by (auto simp: run_example_def masked_def statusHidden_def emptyRun_def out_is_def failed_def
      failedByExit_def green_def outcomeNotKnown_def orderNotKnown_def landed_def)

theorem stateOf_red_witness:
  "gs_State (stateOf (''l'', ''r'') ''test'' [run_example 1 ExecOK, run_example 3 ExecFailed]
     [wr_example 9 ''a.go'' None] [] [] 20 None) = Red"
  using stateOf_red [of "[run_example 1 ExecOK, run_example 3 ExecFailed]"] by (simp add: run_example_facts)

text \<open>
  One relevant write the gate covers, declared after a green last run and by the
  point, makes the gate stale for that reason, even where the write was declared while
  the run was in flight.
\<close>

theorem stateOf_write_stales:
  assumes "green (last fr)" and "w \<in> set writes" and "w_Path w \<noteq> None" and "Relevant (w_Class w)"
    and "covers root w" and "g_Seq (last fr) < w_Seq w" and "w_Seq w \<le> at"
  shows "gs_State (stateOf k kind fr writes unnamed root at tree) = Stale \<and>
         gs_Reason (stateOf k kind fr writes unnamed root at tree) = WritesAfterGreen"
proof -
  let ?f = "fam_of fr writes unnamed root at tree"
  have "w \<in> set (f_counted ?f)"
    using assms by (simp add: fam_of_counted fam_of_ref counted_writes_def)
  then have "writtenSince ?f" by (auto simp: writtenSince_def)
  moreover have "\<not> lastBackgrounded ?f \<and> \<not> lastMasked ?f \<and> \<not> lastEmptyRun ?f \<and> \<not> lastFailed ?f \<and>
      \<not> lastOutcomeNotKnown ?f \<and> \<not> lastOrderNotKnown ?f"
    using assms(1) green_last_rows [of ?f] by simp
  ultimately show ?thesis
    using masked_row [of ?f] by (auto simp add: stateOf_state tableState_cases)
qed

theorem stateOf_write_stales_witness:
  "gs_State (stateOf (''l'', ''r'') ''test'' [run_example 1 ExecOK] [wr_example 2 ''a.go'' None] [] [] 9 None) = Stale"
proof -
  have rel: "Relevant (w_Class (wr_example 2 ''a.go'' None))" by code_simp
  show ?thesis
    using stateOf_write_stales [of "[run_example 1 ExecOK]" "wr_example 2 ''a.go'' None"
        "[wr_example 2 ''a.go'' None]" "[]" 9 "(''l'', ''r'')" "''test''" "[]" None] rel
    by (simp add: run_example_facts) (simp add: run_example_def wr_example_def)
qed

section \<open>A hidden status is never read as a pass\<close>

lemma mark_update:
  "g_Output (g\<lparr>g_FromOutput := b\<rparr>) = g_Output g"
  "g_Masked (g\<lparr>g_FromOutput := b\<rparr>) = g_Masked g"
  "g_Outcome (g\<lparr>g_FromOutput := b\<rparr>) = g_Outcome g"
  "g_Backgrounded (g\<lparr>g_FromOutput := b\<rparr>) = g_Backgrounded g"
  "g_MaskedByID (g\<lparr>g_FromOutput := b\<rparr>) = g_MaskedByID g"
  "g_Program (g\<lparr>g_FromOutput := b\<rparr>) = g_Program g"
  "g_Output (g\<lparr>g_FromPrinted := b\<rparr>) = g_Output g"
  "g_Masked (g\<lparr>g_FromPrinted := b\<rparr>) = g_Masked g"
  "g_Outcome (g\<lparr>g_FromPrinted := b\<rparr>) = g_Outcome g"
  "g_Backgrounded (g\<lparr>g_FromPrinted := b\<rparr>) = g_Backgrounded g"
  "g_MaskedByID (g\<lparr>g_FromPrinted := b\<rparr>) = g_MaskedByID g"
  "g_Program (g\<lparr>g_FromPrinted := b\<rparr>) = g_Program g"
  by simp_all

lemma reads_update:
  "readsOutput (g\<lparr>g_FromOutput := b\<rparr>) v = readsOutput g v"
  "readsPrinted (g\<lparr>g_FromOutput := b\<rparr>) v = readsPrinted g v"
  "readsOutput (g\<lparr>g_FromPrinted := b\<rparr>) v = readsOutput g v"
  "readsPrinted (g\<lparr>g_FromPrinted := b\<rparr>) v = readsPrinted g v"
  by (simp_all only: readsOutput_def readsPrinted_def statusHidden_def mark_update)

lemma newRun_marks:
  obtains g where
    "newRun d e m runner j =
       g\<lparr>g_FromOutput := readsOutput g (e_RulesVersion e), g_FromPrinted := readsPrinted g (e_RulesVersion e)\<rparr>"
    "\<not> g_Wrapped g"
proof -
  have "\<exists>g. newRun d e m runner j =
       g\<lparr>g_FromOutput := readsOutput g (e_RulesVersion e), g_FromPrinted := readsPrinted g (e_RulesVersion e)\<rparr> \<and>
    \<not> g_Wrapped g"
    unfolding newRun_def Let_def reads_update
    by (intro exI conjI, rule refl) (simp add: endedBy_def split: option.split)
  then show ?thesis using that by blast
qed

lemma newRun_reads:
  "g_FromOutput (newRun d e m runner j) \<longleftrightarrow> readsOutput (newRun d e m runner j) (e_RulesVersion e)"
  "g_FromPrinted (newRun d e m runner j) \<longleftrightarrow> readsPrinted (newRun d e m runner j) (e_RulesVersion e)"
  "\<not> g_Wrapped (newRun d e m runner j)"
proof -
  obtain g where g: "newRun d e m runner j =
       g\<lparr>g_FromOutput := readsOutput g (e_RulesVersion e), g_FromPrinted := readsPrinted g (e_RulesVersion e)\<rparr>"
    "\<not> g_Wrapped g"
    by (rule newRun_marks)
  show "g_FromOutput (newRun d e m runner j) \<longleftrightarrow> readsOutput (newRun d e m runner j) (e_RulesVersion e)"
    "g_FromPrinted (newRun d e m runner j) \<longleftrightarrow> readsPrinted (newRun d e m runner j) (e_RulesVersion e)"
    "\<not> g_Wrapped (newRun d e m runner j)"
    unfolding g(1) reads_update using g(2) by simp_all
qed


text \<open>A pytest run behind \<^verbatim>\<open>| tail\<close> whose output ended in its passing summary.\<close>

definition piped_decl :: decl where
  "piped_decl = (decl_example 3 ''t'' ''Bash'' VerbTest None)"

definition piped_exec :: "out_kind \<Rightarrow> execution" where
  "piped_exec k = (exec_example ''t'' (Some 4) ExecOK)\<lparr>e_MaskedBy := Some ''tail'', e_RunnerName := Some ''pytest'',
     e_GateOutput := Some (gate_out k ''pytest'')\<rparr>"


end
