(* ===== verification/Integrity.thy ===== *)
theory Integrity
  imports Pairs Gates "HOL-Library.AList"
begin

text \<open>
  The integrity checks still unresolved at a point, \<^verbatim>\<open>internal/verify\<close> (integrity.go,
  integrity_raise.go, the types of snapshot.go): the closed marker table, the fold of the
  edit marks a record carries into one net per path and marker, the writes to the store,
  and the entries and counts the checks give. A nil run is the empty run here: both give
  the same answers. The nets are a Go map, held as an association list with distinct
  keys; the entries are sorted, so its order is not read. Counts are Go's int, held as
  \<open>int\<close>: they are sums over one session's edits.
\<close>

section \<open>The kinds\<close>

datatype IntegrityKind =
  TestRemoved | SkipAdded | AssertionsRemoved | SuppressionAdded | GeneratedEdited
| TestsOnlyThenGreen | GateWeakened | GateConfigEdited | StoreTouched

definition IntegrityKinds :: "IntegrityKind list" where
  "IntegrityKinds =
     [TestRemoved, SkipAdded, AssertionsRemoved, SuppressionAdded, GeneratedEdited,
      TestsOnlyThenGreen, GateWeakened, GateConfigEdited, StoreTouched]"

fun index_in :: "'a list \<Rightarrow> 'a \<Rightarrow> nat" where
  "index_in [] x = 0"
| "index_in (y # ys) x = (if y = x then 0 else Suc (index_in ys x))"

text \<open>A check's place is its index in \<open>IntegrityKinds\<close>; entries are sorted by it.\<close>

definition kind_place :: "IntegrityKind \<Rightarrow> nat" where
  "kind_place k = index_in IntegrityKinds k"

lemma kind_place_inj: "kind_place a = kind_place b \<longleftrightarrow> a = b"
  by (cases a; cases b) (simp_all add: kind_place_def IntegrityKinds_def)

instantiation IntegrityKind :: linorder
begin

definition less_eq_IntegrityKind :: "IntegrityKind \<Rightarrow> IntegrityKind \<Rightarrow> bool" where
  "less_eq_IntegrityKind a b \<longleftrightarrow> kind_place a \<le> kind_place b"

definition less_IntegrityKind :: "IntegrityKind \<Rightarrow> IntegrityKind \<Rightarrow> bool" where
  "less_IntegrityKind a b \<longleftrightarrow> kind_place a < kind_place b"

instance
  by standard (auto simp: less_eq_IntegrityKind_def less_IntegrityKind_def kind_place_inj)

end

record IntegrityEntry =
  ie_Check :: IntegrityKind
  ie_Marker :: string
  ie_Seq :: int
  ie_Path :: string

record IntegrityCounts =
  ic_TestsDelta :: int
  ic_SkipsAdded :: int
  ic_SuppressionsAdded :: int

record integrity_view =
  iv_Unresolved :: "IntegrityEntry list"
  iv_Counts :: IntegrityCounts
  iv_UnknownMarks :: nat
  iv_UnreadBases :: nat

section \<open>The marker table\<close>

datatype markClass = MarkSkip | MarkTestDef | MarkAssert | MarkSuppression

fun checkOf :: "markClass \<Rightarrow> IntegrityKind" where
  "checkOf MarkSkip = SkipAdded"
| "checkOf MarkTestDef = TestRemoved"
| "checkOf MarkAssert = AssertionsRemoved"
| "checkOf MarkSuppression = SuppressionAdded"

definition markerRows :: "(string \<times> markClass) list" where
  "markerRows =
     map (\<lambda>i. (i, MarkSkip))
       [''go.t_skip'', ''py.pytest_skip'', ''py.unittest_skip'', ''py.xfail'', ''js.it_skip'', ''js.xit'',
        ''js.only'', ''rust.ignore'', ''jvm.disabled'', ''ruby.skip'', ''php.skip''] @
     map (\<lambda>i. (i, MarkSuppression))
       [''py.nosec'', ''py.noqa'', ''py.type_ignore'', ''py.pylint_disable'', ''go.nolint'', ''js.eslint_disable'',
        ''ts.ts_ignore'', ''ts.ts_expect_error'', ''rust.allow'', ''jvm.suppress_warnings'', ''any.nosemgrep'',
        ''any.gitleaks_allow''] @
     map (\<lambda>i. (i, MarkTestDef))
       [''go.test_def'', ''py.test_def'', ''js.test_def'', ''rust.test_def'', ''jvm.test_def'', ''ruby.test_def'',
        ''php.test_def'', ''dotnet.test_def''] @
     map (\<lambda>i. (i, MarkAssert))
       [''go.assert'', ''py.assert'', ''js.assert'', ''rust.assert'']"

definition markerTable :: "string \<rightharpoonup> markClass" where
  "markerTable = map_of markerRows"

definition adverse :: "markClass \<Rightarrow> int \<Rightarrow> bool" where
  "adverse c n = (if c = MarkSkip \<or> c = MarkSuppression then n > 0 else n < 0)"

definition markApplies :: "markClass \<Rightarrow> path_class \<Rightarrow> bool" where
  "markApplies c p = (if c = MarkSuppression then p = ClassSource \<or> p = ClassTest else p = ClassTest)"

section \<open>The fold of the marks\<close>

definition basisEditDelta :: string where
  "basisEditDelta = ''edit_delta''"

definition basisWriteVsBefore :: string where
  "basisWriteVsBefore = ''write_vs_before''"

text \<open>
  The marks of each file-tool call by its declaration's seq: those of the execution
  picked for the call, among the executions of calls that carry marks somewhere.
\<close>

definition carries_marks :: "run \<Rightarrow> string \<Rightarrow> bool" where
  "carries_marks r i = list_ex (\<lambda>e. e_EditMarks e \<noteq> None \<and> e_ToolUseID e = i) (r_Executions r)"

definition marks_pick :: "run \<Rightarrow> (string \<rightharpoonup> execution)" where
  "marks_pick r =
     foldl pick_step Map.empty (filter (\<lambda>e. carries_marks r (e_ToolUseID e)) (r_Executions r))"

definition marksByCall :: "run \<Rightarrow> (int \<rightharpoonup> edit_marks)" where
  "marksByCall r =
     foldl (\<lambda>m d. case marks_pick r (d_ToolUseID d) of
              None \<Rightarrow> m
            | Some e \<Rightarrow> if d_FilePath d \<noteq> None \<and> e_Outcome e = ExecOK then m(d_Seq d := e_EditMarks e) else m)
       Map.empty (r_Declarations r)"

type_synonym markKey = "string \<times> string"

record markNet =
  mn_class :: markClass
  mn_net :: int
  mn_last :: int

record mark_state =
  ms_nets :: "(markKey \<times> markNet) list"
  ms_unknown :: nat
  ms_unread :: nat

definition mark_state0 :: mark_state where
  "mark_state0 = \<lparr>ms_nets = [], ms_unknown = 0, ms_unread = 0\<rparr>"

definition moveMark :: "string \<Rightarrow> wr \<Rightarrow> mark_state \<Rightarrow> string \<times> int \<Rightarrow> mark_state" where
  "moveMark p w s mv =
     (case markerTable (fst mv) of
        None \<Rightarrow> s\<lparr>ms_unknown := ms_unknown s + 1\<rparr>
      | Some c \<Rightarrow>
          if \<not> markApplies c (w_Class w) then s
          else (let k = (p, fst mv);
                    n = (case map_of (ms_nets s) k of None \<Rightarrow> \<lparr>mn_class = c, mn_net = 0, mn_last = 0\<rparr> | Some n \<Rightarrow> n);
                    n' = n\<lparr>mn_net := mn_net n + snd mv,
                           mn_last := (if adverse c (snd mv) then max (mn_last n) (w_Seq w) else mn_last n)\<rparr>
                in s\<lparr>ms_nets := AList.update k n' (ms_nets s)\<rparr>))"

text \<open>The moves of one call's marks: each id once, by what was added less what was removed.\<close>

definition count_of :: "(string \<times> int) list \<Rightarrow> string \<Rightarrow> int" where
  "count_of m i = (case map_of m i of None \<Rightarrow> 0 | Some n \<Rightarrow> n)"

definition moves :: "edit_marks \<Rightarrow> (string \<times> int) list" where
  "moves em =
     map (\<lambda>p. (fst p, snd p - count_of (em_Removed em) (fst p))) (em_Added em) @
     map (\<lambda>p. (fst p, - snd p)) (filter (\<lambda>p. map_of (em_Added em) (fst p) = None) (em_Removed em))"

definition foldMark :: "(int \<rightharpoonup> edit_marks) \<Rightarrow> int \<Rightarrow> int \<Rightarrow> mark_state \<Rightarrow> wr \<Rightarrow> mark_state" where
  "foldMark marks since at s w =
     (case (marks (w_Seq w), w_Path w) of
        (Some em, Some p) \<Rightarrow>
          if w_Seq w \<le> since \<or> w_Seq w > at then s
          else if em_Basis em \<noteq> basisEditDelta \<and> em_Basis em \<noteq> basisWriteVsBefore
          then s\<lparr>ms_unread := ms_unread s + 1\<rparr>
          else foldl (moveMark p w) s (moves em)
      | _ \<Rightarrow> s)"

definition foldMarks :: "(int \<rightharpoonup> edit_marks) \<Rightarrow> wr list \<Rightarrow> int \<Rightarrow> int \<Rightarrow> mark_state" where
  "foldMarks marks writes since at = foldl (foldMark marks since at) mark_state0 writes"

section \<open>The writes to the store\<close>

definition namedWithheld :: "decl \<Rightarrow> bool" where
  "namedWithheld d \<longleftrightarrow> d_StoreNamed d \<and>
     (d_CommandWithheld d \<noteq> None \<or> d_FilePathWithheld d \<noteq> None \<or> d_WrittenPathsWithheld d \<noteq> None)"

definition writesUnnamed :: "decl \<Rightarrow> bool" where
  "writesUnnamed d =
     (let file = fst (writeTargets d); shell = snd (writeTargets d) in
      if sh_VerbClass (d_Shape d) = VerbMCP then True
      else if d_ToolName d \<noteq> ''Bash'' \<and> sh_VerbClass (d_Shape d) = VerbWrite then file = None
      else if shell \<noteq> [] then d_WrittenPathsComplete d \<noteq> Some True
      else sh_MayWrite (d_Shape d))"

text \<open>
  Whether a call is a store write, and what it passes on of each: the empty string for
  the store-root bit, else the path as the call named it.
\<close>

definition storeWrites :: "decl \<Rightarrow> string \<Rightarrow> bool \<times> string list" where
  "storeWrites d storeRoot =
     (if namedWithheld d then (True, [[]])
      else
        (let hits = (if storeRoot = [] then []
                     else (case fst (writeTargets d) of None \<Rightarrow> []
                           | Some f \<Rightarrow> if underStore (slashed f) storeRoot then [f] else []) @
                          filter (\<lambda>p. underStore (slashed p) storeRoot) (snd (writeTargets d)));
             hit = (hits \<noteq> []) in
         if \<not> hit \<and> d_StoreNamed d \<and> writesUnnamed d then (True, hits @ [[]]) else (hit, hits)))"

definition StoreWritten :: "run \<Rightarrow> string \<Rightarrow> int \<Rightarrow> bool" where
  "StoreWritten r storeRoot at =
     (if storeRoot = [] then False
      else list_ex (\<lambda>d. \<not> d_Seq d > at \<and> fst (storeWrites d storeRoot)) (r_Declarations r))"

section \<open>The view\<close>

definition entry_key :: "IntegrityEntry \<Rightarrow> int \<times> IntegrityKind \<times> string \<times> string" where
  "entry_key e = (ie_Seq e, ie_Check e, ie_Marker e, ie_Path e)"

definition entry :: "IntegrityKind \<Rightarrow> string \<Rightarrow> int \<Rightarrow> string \<Rightarrow> IntegrityEntry" where
  "entry k m s p = \<lparr>ie_Check = k, ie_Marker = m, ie_Seq = s, ie_Path = p\<rparr>"

definition tests_net :: "(markKey \<times> markNet) list \<Rightarrow> string \<Rightarrow> int" where
  "tests_net nets p =
     sum_list (map (\<lambda>kn. mn_net (snd kn)) (filter (\<lambda>kn. mn_class (snd kn) = MarkTestDef \<and> fst (fst kn) = p) nets))"

definition class_sum :: "(int \<Rightarrow> int) \<Rightarrow> markClass \<Rightarrow> (markKey \<times> markNet) list \<Rightarrow> int" where
  "class_sum f c nets = sum_list (map (\<lambda>kn. f (mn_net (snd kn))) (filter (\<lambda>kn. mn_class (snd kn) = c) nets))"

definition mark_stands :: "(markKey \<times> markNet) list \<Rightarrow> markKey \<times> markNet \<Rightarrow> bool" where
  "mark_stands nets kn \<longleftrightarrow>
     adverse (mn_class (snd kn)) (mn_net (snd kn)) \<and>
     (mn_class (snd kn) \<noteq> MarkAssert \<or> tests_net nets (fst (fst kn)) \<ge> 0)"

definition mark_entries :: "(markKey \<times> markNet) list \<Rightarrow> IntegrityEntry list" where
  "mark_entries nets =
     map (\<lambda>kn. entry (checkOf (mn_class (snd kn))) (snd (fst kn)) (mn_last (snd kn)) []) (filter (mark_stands nets) nets)"

definition path_entries :: "wr list \<Rightarrow> int \<Rightarrow> int \<Rightarrow> IntegrityEntry list" where
  "path_entries writes since at =
     concat (map (\<lambda>w. case w_Path w of None \<Rightarrow> []
        | Some p \<Rightarrow> if w_Seq w > since \<and> w_Seq w \<le> at \<and> inStore p then [entry StoreTouched [] (w_Seq w) p] else [])
       writes)"

definition store_entries :: "run \<Rightarrow> string \<Rightarrow> int \<Rightarrow> int \<Rightarrow> IntegrityEntry list" where
  "store_entries r storeRoot since at =
     concat (map (\<lambda>d.
        if d_Seq d > since \<and> d_Seq d \<le> at
        then concat (map (\<lambda>p. if p = [] then [entry StoreTouched [] (d_Seq d) []]
               else (let rel = relativise p (d_Project d) (d_CWD d) in
                     if \<not> inStore rel then [entry StoreTouched [] (d_Seq d) rel] else []))
             (snd (storeWrites d storeRoot)))
        else [])
      (r_Declarations r))"

definition pair_entries :: "run \<Rightarrow> (string \<rightharpoonup> execution) \<Rightarrow> int \<Rightarrow> int \<Rightarrow> IntegrityEntry list" where
  "pair_entries r picked since at = map (\<lambda>p. entry TestsOnlyThenGreen [] (snd p) []) (testPairs r picked since at)"

definition integrity :: "run \<Rightarrow> (string \<rightharpoonup> execution) \<Rightarrow> wr list \<Rightarrow> int \<Rightarrow> int \<Rightarrow> string \<Rightarrow> integrity_view" where
  "integrity r picked writes since at storeRoot =
     (let s = foldMarks (marksByCall r) writes since at; nets = ms_nets s in
      \<lparr>iv_Unresolved =
         sort_key entry_key
           (mark_entries nets @ pair_entries r picked since at @ path_entries writes since at @
            store_entries r storeRoot since at),
       iv_Counts = \<lparr>ic_TestsDelta = class_sum (\<lambda>n. n) MarkTestDef nets,
                    ic_SkipsAdded = class_sum (\<lambda>n. max n 0) MarkSkip nets,
                    ic_SuppressionsAdded = class_sum (\<lambda>n. max n 0) MarkSuppression nets\<rparr>,
       iv_UnknownMarks = ms_unknown s, iv_UnreadBases = ms_unread s\<rparr>)"

section \<open>Raising an entry at its call\<close>

definition oneWayDoor :: "IntegrityKind \<Rightarrow> bool" where
  "oneWayDoor k = (k \<in> {TestRemoved, GateWeakened, GateConfigEdited, StoreTouched})"

definition callDeclSeq :: "run \<Rightarrow> string \<Rightarrow> int" where
  "callDeclSeq r i =
     (if i = [] then 0
      else (case find (\<lambda>d. d_ToolUseID d = i) (rev (r_Declarations r)) of None \<Rightarrow> 0 | Some d \<Rightarrow> d_Seq d))"

text \<open>A gate run declared before the call, in seq order, that failed.\<close>

definition failedBefore :: "gate_run list \<Rightarrow> int \<Rightarrow> bool" where
  "failedBefore runs seq = list_ex failed (takeWhile (\<lambda>g. g_Seq g < seq) runs)"

section \<open>The nets in closed form\<close>

text \<open>The moves a call's marks make: the table's ids that count on the path's class.\<close>

definition move_of :: "string \<Rightarrow> wr \<Rightarrow> string \<times> int \<Rightarrow> (markKey \<times> int) list" where
  "move_of p w mv =
     (case markerTable (fst mv) of None \<Rightarrow> []
      | Some c \<Rightarrow> if markApplies c (w_Class w) then [((p, fst mv), snd mv)] else [])"

definition write_moves :: "(int \<rightharpoonup> edit_marks) \<Rightarrow> int \<Rightarrow> int \<Rightarrow> wr \<Rightarrow> (markKey \<times> int) list" where
  "write_moves marks since at w =
     (case (marks (w_Seq w), w_Path w) of
        (Some em, Some p) \<Rightarrow>
          if since < w_Seq w \<and> w_Seq w \<le> at \<and> em_Basis em \<in> {basisEditDelta, basisWriteVsBefore}
          then concat (map (move_of p w) (moves em)) else []
      | _ \<Rightarrow> [])"

definition all_moves :: "(int \<rightharpoonup> edit_marks) \<Rightarrow> wr list \<Rightarrow> int \<Rightarrow> int \<Rightarrow> (markKey \<times> int) list" where
  "all_moves marks writes since at = concat (map (write_moves marks since at) writes)"

definition moved :: "(markKey \<Rightarrow> bool) \<Rightarrow> (markKey \<times> int) list \<Rightarrow> int" where
  "moved P ms = sum_list (map snd (filter (\<lambda>m. P (fst m)) ms))"

definition nets_sum :: "(markKey \<Rightarrow> bool) \<Rightarrow> (markKey \<times> markNet) list \<Rightarrow> int" where
  "nets_sum P nets = sum_list (map (\<lambda>kn. mn_net (snd kn)) (filter (\<lambda>kn. P (fst kn)) nets))"

definition nets_ok :: "(markKey \<times> markNet) list \<Rightarrow> (markKey \<times> int) list \<Rightarrow> bool" where
  "nets_ok nets ms \<longleftrightarrow>
     distinct (map fst nets) \<and>
     (\<forall>k n. (k, n) \<in> set nets \<longrightarrow> markerTable (snd k) = Some (mn_class n)) \<and>
     fst ` set nets = fst ` set ms \<and> (\<forall>P. nets_sum P nets = moved P ms)"

lemma moved_append [simp]: "moved P (xs @ ys) = moved P xs + moved P ys"
  by (simp add: moved_def)

lemma moved_Nil [simp]: "moved P [] = 0"
  by (simp add: moved_def)

lemma nets_sum_update:
  assumes "distinct (map fst nets)"
  shows "nets_sum P (AList.update k n nets) =
           nets_sum P nets + (if P k then mn_net n - (case map_of nets k of None \<Rightarrow> 0 | Some o' \<Rightarrow> mn_net o') else 0)"
  using assms
proof (induction nets)
  case (Cons x nets)
  show ?case
  proof (cases "fst x = k")
    case True
    then show ?thesis by (cases x) (auto simp: nets_sum_def)
  next
    case False
    then show ?thesis using Cons by (cases x) (auto simp: nets_sum_def split: option.split)
  qed
qed (simp add: nets_sum_def)

lemma moveMark_ok:
  assumes ok: "nets_ok (ms_nets s) ms"
  shows "nets_ok (ms_nets (moveMark p w s mv)) (ms @ move_of p w mv)"
proof (cases "markerTable (fst mv)")
  case (Some c)
  show ?thesis
  proof (cases "markApplies c (w_Class w)")
    case True
    let ?k = "(p, fst mv)"
    let ?o = "case map_of (ms_nets s) ?k of None \<Rightarrow> \<lparr>mn_class = c, mn_net = 0, mn_last = 0\<rparr> | Some n \<Rightarrow> n"
    obtain l where st: "ms_nets (moveMark p w s mv) =
        AList.update ?k (?o\<lparr>mn_net := mn_net ?o + snd mv, mn_last := l\<rparr>) (ms_nets s)"
      using Some True by (simp add: moveMark_def Let_def)
    have cl: "mn_class ?o = c"
      using ok Some by (auto simp: nets_ok_def split: option.split dest!: map_of_SomeD)
    show ?thesis
      unfolding nets_ok_def st
    proof (intro conjI allI impI)
      show "distinct (map fst (AList.update ?k (?o\<lparr>mn_net := mn_net ?o + snd mv, mn_last := l\<rparr>) (ms_nets s)))"
        using ok by (simp add: nets_ok_def distinct_update)
      show "markerTable (snd k) = Some (mn_class n)"
        if "(k, n) \<in> set (AList.update ?k (?o\<lparr>mn_net := mn_net ?o + snd mv, mn_last := l\<rparr>) (ms_nets s))" for k n
      proof -
        have "map_of (AList.update ?k (?o\<lparr>mn_net := mn_net ?o + snd mv, mn_last := l\<rparr>) (ms_nets s)) k = Some n"
          using that ok by (intro map_of_is_SomeI) (simp_all add: nets_ok_def distinct_update)
        then show ?thesis
          using ok cl Some
          by (cases k) (auto simp: update_conv' nets_ok_def split: if_splits dest!: map_of_SomeD)
      qed
      show "fst ` set (AList.update ?k (?o\<lparr>mn_net := mn_net ?o + snd mv, mn_last := l\<rparr>) (ms_nets s)) =
          fst ` set (ms @ move_of p w mv)"
        using ok Some True by (simp add: nets_ok_def move_of_def dom_update)
      show "nets_sum P (AList.update ?k (?o\<lparr>mn_net := mn_net ?o + snd mv, mn_last := l\<rparr>) (ms_nets s)) =
          moved P (ms @ move_of p w mv)" for P
        using ok Some True
        by (auto simp: nets_ok_def nets_sum_update move_of_def moved_def split: option.split)
    qed
  next
    case False
    with ok Some show ?thesis by (simp add: moveMark_def move_of_def)
  qed
qed (use ok in \<open>simp add: moveMark_def move_of_def\<close>)

lemma moveMarks_ok:
  "nets_ok (ms_nets s) ms \<Longrightarrow>
     nets_ok (ms_nets (foldl (moveMark p w) s mvs)) (ms @ concat (map (move_of p w) mvs))"
proof (induction mvs arbitrary: s ms)
  case (Cons mv mvs)
  from Cons.IH [OF moveMark_ok [OF Cons.prems, of p w mv]] show ?case by simp
qed simp

lemma foldMark_ok:
  assumes "nets_ok (ms_nets s) ms"
  shows "nets_ok (ms_nets (foldMark marks since at s w)) (ms @ write_moves marks since at w)"
  using assms moveMarks_ok [OF assms]
  by (auto simp: foldMark_def write_moves_def split: option.split)

lemma foldMarks_ok: "nets_ok (ms_nets (foldMarks marks writes since at)) (all_moves marks writes since at)"
proof -
  have "nets_ok (ms_nets (foldl (foldMark marks since at) s ws)) (ms @ concat (map (write_moves marks since at) ws))"
    if "nets_ok (ms_nets s) ms" for s ms ws
    using that
  proof (induction ws arbitrary: s ms)
    case (Cons w ws)
    from Cons.IH [OF foldMark_ok [OF Cons.prems, of marks since at w]] show ?case by simp
  qed simp
  from this [of mark_state0 "[]" writes] show ?thesis
    by (simp add: foldMarks_def all_moves_def mark_state0_def nets_ok_def nets_sum_def)
qed

definition net_of :: "(markKey \<times> int) list \<Rightarrow> string \<Rightarrow> string \<Rightarrow> int" where
  "net_of ms p i = moved (\<lambda>k. k = (p, i)) ms"

definition tests_moved :: "(markKey \<times> int) list \<Rightarrow> string \<Rightarrow> int" where
  "tests_moved ms p = moved (\<lambda>k. markerTable (snd k) = Some MarkTestDef \<and> fst k = p) ms"

lemma nets_class:
  assumes "nets_ok nets ms"
  shows "filter (\<lambda>kn. mn_class (snd kn) = c \<and> Q (fst kn)) nets =
         filter (\<lambda>kn. markerTable (snd (fst kn)) = Some c \<and> Q (fst kn)) nets"
  using assms by (intro filter_cong) (auto simp: nets_ok_def)

lemma nets_sum_moved: "nets_ok nets ms \<Longrightarrow> nets_sum P nets = moved P ms"
  by (simp add: nets_ok_def)

lemma nets_class_of: "nets_ok nets ms \<Longrightarrow> (k, n) \<in> set nets \<Longrightarrow> markerTable (snd k) = Some (mn_class n)"
  unfolding nets_ok_def by blast

lemma nets_keys: "nets_ok nets ms \<Longrightarrow> fst ` set nets = fst ` set ms"
  unfolding nets_ok_def by blast

lemma tests_net_moved: "nets_ok nets ms \<Longrightarrow> tests_net nets p = tests_moved ms p"
  using nets_sum_moved [of nets ms "\<lambda>k. markerTable (snd k) = Some MarkTestDef \<and> fst k = p"]
    nets_class [of nets ms MarkTestDef "\<lambda>k. fst k = p"]
  by (simp add: tests_net_def tests_moved_def nets_sum_def)

lemma net_value:
  assumes ok: "nets_ok nets ms" and mem: "(k, n) \<in> set nets"
  shows "mn_net n = moved (\<lambda>x. x = k) ms"
proof -
  have d: "distinct (map fst nets)" using ok by (simp add: nets_ok_def)
  have "filter (\<lambda>kn. fst kn = k) nets = [(k, n)]"
    using d mem by (induction nets) (auto simp: filter_empty_conv image_iff)
  then show ?thesis using nets_sum_moved [OF ok, of "\<lambda>x. x = k"] by (simp add: nets_sum_def)
qed

lemma net_absent: "k \<notin> fst ` set ms \<Longrightarrow> moved (\<lambda>x. x = k) ms = 0"
proof -
  assume "k \<notin> fst ` set ms"
  then have "filter (\<lambda>m. fst m = k) ms = []" by (force simp: filter_empty_conv)
  then show ?thesis by (simp add: moved_def)
qed

section \<open>What stands unresolved\<close>

lemma other_entries:
  "ie_Check e = checkOf c \<Longrightarrow>
     e \<notin> set (pair_entries r picked since at @ path_entries writes since at @ store_entries r root since at)"
  by (cases c)
    (auto simp: pair_entries_def path_entries_def store_entries_def entry_def Let_def
      split: option.splits if_splits)

lemma checkOf_inj: "checkOf a = checkOf b \<longleftrightarrow> a = b"
  by (cases a; cases b) simp_all

lemma list_ex_map_filter_entries:
  "list_ex P (map f (filter Q xs)) \<longleftrightarrow> (\<exists>x \<in> set xs. Q x \<and> P (f x))"
  by (induction xs) auto

lemma mark_entries_ex:
  "list_ex P (mark_entries nets) \<longleftrightarrow>
     (\<exists>kn \<in> set nets. mark_stands nets kn \<and>
        P (entry (checkOf (mn_class (snd kn))) (snd (fst kn)) (mn_last (snd kn)) []))"
  unfolding mark_entries_def by (rule list_ex_map_filter_entries)

lemma entry_sel [simp]:
  "ie_Check (entry k m s p) = k" "ie_Marker (entry k m s p) = m" "ie_Seq (entry k m s p) = s"
  "ie_Path (entry k m s p) = p"
  by (simp_all add: entry_def)

lemma mark_entry_iff:
  assumes ok: "nets_ok nets ms"
  shows "list_ex (\<lambda>e. ie_Check e = checkOf c \<and> ie_Marker e = i) (mark_entries nets) \<longleftrightarrow>
     markerTable i = Some c \<and>
     (\<exists>p. adverse c (net_of ms p i) \<and> (if c = MarkAssert then tests_moved ms p \<ge> 0 else True))"
    (is "?L \<longleftrightarrow> ?R")
proof
  assume ?L
  then obtain kn where kn: "kn \<in> set nets" "mark_stands nets kn" "mn_class (snd kn) = c" "snd (fst kn) = i"
    unfolding mark_entries_ex entry_sel checkOf_inj by blast
  have "kn = ((fst (fst kn), i), snd kn)" using kn(4) by (simp add: prod_eq_iff)
  then obtain p n where k: "kn = ((p, i), n)" by blast
  have "markerTable i = Some c" using nets_class_of [OF ok, of "(p, i)" n] kn k by simp
  moreover have "mn_net n = net_of ms p i" using net_value [OF ok] kn(1) k by (simp add: net_of_def)
  moreover have "adverse c (mn_net n)" "c \<noteq> MarkAssert \<or> tests_moved ms p \<ge> 0"
    using kn(2,3) tests_net_moved [OF ok] unfolding k mark_stands_def by simp_all
  ultimately show ?R by auto
next
  assume ?R
  then obtain p where c: "markerTable i = Some c" and p: "adverse c (net_of ms p i)"
      "if c = MarkAssert then tests_moved ms p \<ge> 0 else True"
    by blast
  have "(p, i) \<in> fst ` set ms"
    using p(1) net_absent [of "(p, i)" ms] unfolding net_of_def by (metis adverse_def order_less_irrefl)
  then obtain n where n: "((p, i), n) \<in> set nets"
    unfolding nets_keys [OF ok, symmetric] by (auto simp: image_iff)
  have "mn_class n = c" using nets_class_of [OF ok n] c by simp
  moreover have "mn_net n = net_of ms p i" using net_value [OF ok n] by (simp add: net_of_def)
  ultimately have "mark_stands nets ((p, i), n)"
    using p tests_net_moved [OF ok] unfolding mark_stands_def by (simp split: if_splits)
  with n \<open>mn_class n = c\<close> show ?L
    unfolding mark_entries_ex entry_sel checkOf_inj by (intro bexI [of _ "((p, i), n)"]) simp_all
qed

text \<open>
  C30: a marker's check stands unresolved exactly when, over the writes in the window
  whose call ended ok and whose marks are a delta, some path's net of that marker is
  adverse: up for a skip or a suppression, down for a test definition, down for an
  assertion where the path's test definitions did not go down.
\<close>

theorem integrity_marks_iff:
  "list_ex (\<lambda>e. ie_Check e = checkOf c \<and> ie_Marker e = i)
       (iv_Unresolved (integrity r picked writes since at root)) \<longleftrightarrow>
     markerTable i = Some c \<and>
     (\<exists>p. adverse c (net_of (all_moves (marksByCall r) writes since at) p i) \<and>
          (if c = MarkAssert then tests_moved (all_moves (marksByCall r) writes since at) p \<ge> 0 else True))"
proof -
  let ?nets = "ms_nets (foldMarks (marksByCall r) writes since at)"
  have "list_ex (\<lambda>e. ie_Check e = checkOf c \<and> ie_Marker e = i)
       (iv_Unresolved (integrity r picked writes since at root)) \<longleftrightarrow>
     list_ex (\<lambda>e. ie_Check e = checkOf c \<and> ie_Marker e = i) (mark_entries ?nets)"
    using other_entries by (auto simp: integrity_def Let_def list_ex_iff)
  then show ?thesis using mark_entry_iff [OF foldMarks_ok] by simp
qed

lemma sum_list_pos_iff:
  "(\<And>x. x \<in> set xs \<Longrightarrow> (0::int) \<le> f x) \<Longrightarrow> sum_list (map f xs) > 0 \<longleftrightarrow> (\<exists>x \<in> set xs. f x > 0)"
proof (induction xs)
  case (Cons x xs)
  then have "sum_list (map f xs) \<ge> 0" by (intro sum_list_nonneg) auto
  with Cons show ?case by force
qed simp

text \<open>
  The count of skips added, and that of suppressions added, is positive exactly when
  an entry of its check stands.
\<close>

theorem integrity_counts_positive:
  fixes r picked writes since at root
  defines "v \<equiv> integrity r picked writes since at root"
  shows "(ic_SkipsAdded (iv_Counts v) > 0) = list_ex (\<lambda>e. ie_Check e = SkipAdded) (iv_Unresolved v) \<and>
         (ic_SuppressionsAdded (iv_Counts v) > 0) =
           list_ex (\<lambda>e. ie_Check e = SuppressionAdded) (iv_Unresolved v)"
proof -
  let ?nets = "ms_nets (foldMarks (marksByCall r) writes since at)"
  have iff: "class_sum (\<lambda>n. max n 0) c ?nets > 0 \<longleftrightarrow> list_ex (\<lambda>e. ie_Check e = checkOf c) (iv_Unresolved v)"
    if c: "c = MarkSkip \<or> c = MarkSuppression" for c
  proof -
    have st: "mark_stands ?nets kn \<and> mn_class (snd kn) = c \<longleftrightarrow> mn_class (snd kn) = c \<and> 0 < mn_net (snd kn)" for kn
      using c by (auto simp: mark_stands_def adverse_def)
    have "class_sum (\<lambda>n. max n 0) c ?nets > 0 \<longleftrightarrow>
        (\<exists>kn \<in> set (filter (\<lambda>kn. mn_class (snd kn) = c) ?nets). max (mn_net (snd kn)) 0 > 0)"
      unfolding class_sum_def by (rule sum_list_pos_iff) simp
    also have "\<dots> \<longleftrightarrow> (\<exists>kn \<in> set ?nets. mark_stands ?nets kn \<and> mn_class (snd kn) = c)"
      unfolding st by (simp add: Bex_def less_max_iff_disj conj_commute conj_left_commute)
    also have "\<dots> \<longleftrightarrow> list_ex (\<lambda>e. ie_Check e = checkOf c) (mark_entries ?nets)"
      by (simp add: mark_entries_ex checkOf_inj)
    also have "\<dots> \<longleftrightarrow> list_ex (\<lambda>e. ie_Check e = checkOf c) (iv_Unresolved v)"
      using other_entries by (auto simp: v_def integrity_def Let_def list_ex_iff)
    finally show ?thesis .
  qed
  show ?thesis using iff [of MarkSkip] iff [of MarkSuppression] by (simp add: v_def integrity_def Let_def)
qed

section \<open>Unnamed writes and the store\<close>

text \<open>
  The calls that may have written a path the record cannot name are those the
  classification lists as unnamed: the two readings of the four cases agree.
\<close>

theorem writesUnnamed_iff: "writesUnnamed d = (snd (appendWrites d) \<noteq> [])"
  by (auto simp: writesUnnamed_def appendWrites_def Let_def split: option.split)

definition target_of :: "wr \<Rightarrow> int \<times> string option" where
  "target_of w = (w_Seq w, w_Path w)"

lemma add_writes_targets:
  "map target_of (cs_writes (add_writes d e s)) = map target_of (cs_writes s) @ map target_of (fst (appendWrites d))"
  by (auto simp: add_writes_def Let_def target_of_def split: option.split list.split)

lemma classify_targets:
  "map target_of (cs_writes (foldl (classify_decl picked ended) s ds)) =
     map target_of (cs_writes s) @ concat (map (\<lambda>d. map target_of (fst (appendWrites d))) ds)"
proof (induction ds arbitrary: s)
  case (Cons d ds)
  have "map target_of (cs_writes (classify_decl picked ended s d)) =
      map target_of (cs_writes s) @ map target_of (fst (appendWrites d))"
    by (simp add: classify_decl_def Let_def add_writes_targets split: option.split)
  with Cons show ?case by simp
qed simp

lemma classified_write:
  assumes "d \<in> set (r_Declarations r)" and "w \<in> set (fst (appendWrites d))"
  shows "\<exists>x \<in> set (cl_writes (classifyWith r picked)). w_Seq x = w_Seq w \<and> w_Path x = w_Path w"
proof -
  have "target_of w \<in> set (map target_of (cs_writes (foldl (classify_decl picked (taskEnds r)) cstate0 (r_Declarations r))))"
    unfolding classify_targets using assms by auto
  then show ?thesis by (auto simp: classifyWith_def Let_def target_of_def)
qed

lemma storeWrites_hit: "fst (storeWrites d root) = (snd (storeWrites d root) \<noteq> [])"
  by (simp add: storeWrites_def Let_def)

lemma storeWrites_target:
  assumes "p \<in> set (snd (storeWrites d root))" and "p \<noteq> []"
  shows "named_write d p \<in> set (fst (appendWrites d))"
proof -
  have "fst (writeTargets d) = Some p \<or> p \<in> set (snd (writeTargets d))"
    using assms by (auto simp: storeWrites_def Let_def split: if_splits option.splits)
  then show ?thesis by (auto simp: writeTargets_def appendWrites_def Let_def split: if_splits)
qed

text \<open>
  C31: the drop of trust and the integrity view agree on the store: where a call by the
  point wrote under the store root, or named it on a record that withholds the paths,
  a store_touched entry stands, for the writes the classification of the same record
  gives.
\<close>

theorem StoreWritten_touched:
  assumes "StoreWritten r root at" and "list_all (\<lambda>d. since < d_Seq d) (r_Declarations r)"
  shows "list_ex (\<lambda>e. ie_Check e = StoreTouched)
           (iv_Unresolved (integrity r picked (cl_writes (classifyWith r picked)) since at root))"
proof -
  obtain d where d: "d \<in> set (r_Declarations r)" "since < d_Seq d" "d_Seq d \<le> at" "fst (storeWrites d root)"
    using assms by (auto simp: StoreWritten_def list_ex_iff list_all_iff split: if_splits)
  then obtain p where p: "p \<in> set (snd (storeWrites d root))"
    unfolding storeWrites_hit using last_in_set by blast
  let ?rel = "relativise p (d_Project d) (d_CWD d)"
  let ?ws = "cl_writes (classifyWith r picked)"
  consider "p = []" | "p \<noteq> []" "\<not> inStore ?rel" | "p \<noteq> []" "inStore ?rel" by blast
  then have "list_ex (\<lambda>e. ie_Check e = StoreTouched) (path_entries ?ws since at @ store_entries r root since at)"
  proof cases
    case 3
    obtain x where "x \<in> set ?ws" "w_Seq x = d_Seq d" "w_Path x = Some ?rel"
      using classified_write [OF d(1) storeWrites_target [OF p 3(1)]] by (auto simp: named_write_def Let_def)
    then have "entry StoreTouched [] (d_Seq d) ?rel \<in> set (path_entries ?ws since at)"
      unfolding path_entries_def using d 3 by (force simp: image_iff)
    then have "list_ex (\<lambda>e. ie_Check e = StoreTouched) (path_entries ?ws since at)"
      unfolding list_ex_iff by (rule bexI [rotated]) simp
    then show ?thesis by simp
  qed (use d p in \<open>force simp: store_entries_def list_ex_iff Let_def\<close>)+
  then show ?thesis by (auto simp: integrity_def Let_def list_ex_iff)
qed

theorem StoreWritten_touched_witness:
  "list_ex (\<lambda>e. ie_Check e = StoreTouched)
     (iv_Unresolved
       (integrity (one_run [decl_example 3 ''t'' ''Edit'' VerbWrite (Some ''/s/a.json'')] [])
         Map.empty
         (cl_writes (classifyWith (one_run [decl_example 3 ''t'' ''Edit'' VerbWrite (Some ''/s/a.json'')] []) Map.empty))
         0 9 ''/s''))"
proof -
  have "StoreWritten (one_run [decl_example 3 ''t'' ''Edit'' VerbWrite (Some ''/s/a.json'')] []) ''/s'' 9" by code_simp
  moreover have "list_all (\<lambda>d. 0 < d_Seq d)
      (r_Declarations (one_run [decl_example 3 ''t'' ''Edit'' VerbWrite (Some ''/s/a.json'')] []))"
    by (simp add: one_run_def decl_example_def)
  ultimately show ?thesis by (rule StoreWritten_touched)
qed

end
