(* ===== verification/Index.thy ===== *)
theory Index
  imports Gates
begin

text \<open>
  The project index, \<^verbatim>\<open>internal/verify/index.go\<close>: the gate families a project has
  exercised across sessions, which of them are required, what one session's runs add,
  the order \<open>ReadIndex\<close> insists on, and the eviction that keeps the file under its cap.
  The file itself is read and written by the operating system and encoding/json: an
  entry's encoded length and the frame's are parameters of the eviction. Times are int64
  milliseconds; the one subtraction wraps as Go's does.
\<close>

section \<open>The index\<close>

record IndexEntry =
  ix_Family :: string
  ix_Kind :: string
  ix_Sessions :: int
  ix_LastSession :: string
  ix_FirstSeen :: int
  ix_LastSeen :: int

record ProjectIndex =
  px_ProjectKey :: string
  px_Entries :: "IndexEntry list"

definition RequiredSessions :: int where
  "RequiredSessions = 2"

definition RequiredWindowMS :: int where
  "RequiredWindowMS = 30 * 24 * 60 * 60 * 1000"

definition MaxIndexBytes :: nat where
  "MaxIndexBytes = 64 * 1024"

text \<open>Go's binary search: the first place whose family is not below the one sought, in \<open>[i, j)\<close>.\<close>

function bsearch :: "IndexEntry list \<Rightarrow> string \<Rightarrow> nat \<Rightarrow> nat \<Rightarrow> nat" where
  "bsearch es f i j =
     (if i < j
      then (let h = (i + j) div 2 in
            if ix_Family (es ! h) < f then bsearch es f (h + 1) j else bsearch es f i h)
      else i)"
  by auto
termination by (relation "measure (\<lambda>(es, f, i, j). j - i)") auto

declare bsearch.simps [simp del]

definition atFamily :: "IndexEntry list \<Rightarrow> string \<Rightarrow> nat \<times> bool" where
  "atFamily es f =
     (let i = bsearch es f 0 (length es) in (i, i < length es \<and> ix_Family (es ! i) = f))"

definition Required :: "ProjectIndex option \<Rightarrow> string \<Rightarrow> int \<Rightarrow> bool" where
  "Required idx family nowMS =
     (case idx of None \<Rightarrow> False
      | Some x \<Rightarrow>
          (case atFamily (px_Entries x) family of
             (i, ok) \<Rightarrow>
               if \<not> ok then False
               else (let e = px_Entries x ! i in
                     ix_Sessions e \<ge> RequiredSessions \<and> wrap64 (nowMS - ix_LastSeen e) \<le> RequiredWindowMS)))"

text \<open>The order an index file must have to be read: strictly ascending by family.\<close>

fun in_order :: "IndexEntry list \<Rightarrow> bool" where
  "in_order (a # b # es) = (if ix_Family a \<ge> ix_Family b then False else in_order (b # es))"
| "in_order es = True"

section \<open>One session's runs\<close>

definition new_entry :: "string \<Rightarrow> string \<Rightarrow> string \<Rightarrow> int \<Rightarrow> IndexEntry" where
  "new_entry family kind sessionID nowMS =
     \<lparr>ix_Family = family, ix_Kind = kind, ix_Sessions = 1, ix_LastSession = sessionID,
      ix_FirstSeen = nowMS, ix_LastSeen = nowMS\<rparr>"

definition seen_again :: "string \<Rightarrow> string \<Rightarrow> int \<Rightarrow> IndexEntry \<Rightarrow> IndexEntry" where
  "seen_again kind sessionID nowMS e =
     (let held = ix_LastSeen e;
          e1 = e\<lparr>ix_LastSeen := max held nowMS, ix_FirstSeen := min (ix_FirstSeen e) nowMS\<rparr>;
          e2 = (if nowMS \<ge> held then e1\<lparr>ix_Kind := kind\<rparr> else e1)
      in if ix_LastSession e2 \<noteq> sessionID
         then e2\<lparr>ix_Sessions := ix_Sessions e2 + 1, ix_LastSession := sessionID\<rparr> else e2)"

definition observe_family ::
    "gate_run list \<Rightarrow> string \<Rightarrow> int \<Rightarrow> nat \<Rightarrow> IndexEntry list \<Rightarrow> familyKey \<Rightarrow> IndexEntry list" where
  "observe_family runs sessionID nowMS known es k =
     (let kind = kindOf (family_runs runs k); family = family_name k in
      case atFamily (take known es) family of
        (i, ok) \<Rightarrow>
          if \<not> ok then es @ [new_entry family kind sessionID nowMS]
          else es[i := seen_again kind sessionID nowMS (es ! i)])"

definition Observe :: "ProjectIndex \<Rightarrow> gate_run list \<Rightarrow> string \<Rightarrow> int \<Rightarrow> ProjectIndex" where
  "Observe idx runs sessionID nowMS =
     (let known = length (px_Entries idx) in
      idx\<lparr>px_Entries :=
            sort_key ix_Family
              (foldl (observe_family runs sessionID nowMS known) (px_Entries idx) (families runs))\<rparr>)"

section \<open>The eviction\<close>

fun evict_loop :: "(nat \<Rightarrow> nat) \<Rightarrow> nat list \<Rightarrow> nat \<Rightarrow> nat list" where
  "evict_loop sz [] bytes = []"
| "evict_loop sz (i # is) bytes =
     (if bytes \<le> MaxIndexBytes then [] else i # evict_loop sz is (bytes - sz i))"

definition evict_total :: "(IndexEntry \<Rightarrow> nat) \<Rightarrow> nat \<Rightarrow> IndexEntry list \<Rightarrow> nat" where
  "evict_total enc frame es = frame - 1 + sum_list (map (\<lambda>e. enc e + 1) es)"

definition stalest :: "IndexEntry list \<Rightarrow> nat list" where
  "stalest es = sort_key (\<lambda>i. (ix_LastSeen (es ! i), ix_Family (es ! i))) [0 ..< length es]"

definition evictToCap :: "(IndexEntry \<Rightarrow> nat) \<Rightarrow> nat \<Rightarrow> IndexEntry list \<Rightarrow> IndexEntry list \<times> nat" where
  "evictToCap enc frame es =
     (let gone = evict_loop (\<lambda>i. enc (es ! i) + 1) (stalest es) (evict_total enc frame es) in
      (map (\<lambda>i. es ! i) (filter (\<lambda>i. i \<notin> set gone) [0 ..< length es]), length gone))"

section \<open>The search\<close>

lemma in_order_iff: "in_order es \<longleftrightarrow> sorted_wrt (<) (map ix_Family es)"
proof (induction es rule: in_order.induct)
  case (1 a b es)
  then show ?case by (auto dest: order.strict_trans)
qed simp_all

lemma family_le:
  assumes "in_order es" and "i \<le> j" and "j < length es"
  shows "ix_Family (es ! i) \<le> ix_Family (es ! j)"
  using assms sorted_nth_mono [of "map ix_Family es" i j]
  by (simp add: in_order_iff strict_sorted_iff)

lemma bsearch_step:
  "i < j \<Longrightarrow> bsearch es f i j =
     (if ix_Family (es ! ((i + j) div 2)) < f then bsearch es f ((i + j) div 2 + 1) j
      else bsearch es f i ((i + j) div 2))"
  "\<not> i < j \<Longrightarrow> bsearch es f i j = i"
  by (subst bsearch.simps, simp add: Let_def)+

text \<open>The place found splits the entries: those below the family, and the rest.\<close>

definition splits_at :: "IndexEntry list \<Rightarrow> string \<Rightarrow> nat \<Rightarrow> bool" where
  "splits_at es f n \<longleftrightarrow> n \<le> length es \<and> (\<forall>k < n. ix_Family (es ! k) < f) \<and>
     (\<forall>k. n \<le> k \<longrightarrow> k < length es \<longrightarrow> \<not> ix_Family (es ! k) < f)"

lemma bsearch_splits:
  assumes ord: "in_order es"
  shows "i \<le> j \<Longrightarrow> j \<le> length es \<Longrightarrow> \<forall>k < i. ix_Family (es ! k) < f \<Longrightarrow>
    \<forall>k. j \<le> k \<longrightarrow> k < length es \<longrightarrow> \<not> ix_Family (es ! k) < f \<Longrightarrow> splits_at es f (bsearch es f i j)"
proof (induction "j - i" arbitrary: i j rule: less_induct)
  case less
  show ?case
  proof (cases "i < j")
    case False
    then show ?thesis using less.prems by (auto simp: bsearch_step splits_at_def)
  next
    case True
    let ?h = "(i + j) div 2"
    have h: "i \<le> ?h" "?h < j" using True by auto
    show ?thesis
    proof (cases "ix_Family (es ! ?h) < f")
      case lt: True
      have "\<forall>k < ?h + 1. ix_Family (es ! k) < f"
      proof (intro allI impI)
        fix k assume "k < ?h + 1"
        then have "ix_Family (es ! k) \<le> ix_Family (es ! ?h)"
          using h less.prems(2) by (intro family_le [OF ord]) auto
        then show "ix_Family (es ! k) < f" using lt by (rule le_less_trans)
      qed
      then have "splits_at es f (bsearch es f (?h + 1) j)"
        using h less.prems by (intro less.hyps) auto
      then show ?thesis using True lt by (simp add: bsearch_step)
    next
      case ge: False
      have "\<forall>k. ?h \<le> k \<longrightarrow> k < length es \<longrightarrow> \<not> ix_Family (es ! k) < f"
      proof (intro allI impI)
        fix k assume "?h \<le> k" "k < length es"
        then have "ix_Family (es ! ?h) \<le> ix_Family (es ! k)" by (rule family_le [OF ord])
        then show "\<not> ix_Family (es ! k) < f" using ge by (auto dest: le_less_trans)
      qed
      then have "splits_at es f (bsearch es f i ?h)"
        using h less.prems by (intro less.hyps) auto
      then show ?thesis using True ge by (simp add: bsearch_step)
    qed
  qed
qed

lemma atFamily_splits:
  assumes "in_order es"
  shows "splits_at es f (fst (atFamily es f)) \<and> (snd (atFamily es f) \<longleftrightarrow> list_ex (\<lambda>e. ix_Family e = f) es)"
proof -
  have sp: "splits_at es f (bsearch es f 0 (length es))" by (rule bsearch_splits [OF assms]) auto
  let ?i = "bsearch es f 0 (length es)"
  have "?i < length es \<and> ix_Family (es ! ?i) = f" if k: "k < length es" "ix_Family (es ! k) = f" for k
  proof -
    have "?i \<le> k" using sp k unfolding splits_at_def by (metis less_irrefl not_le_imp_less)
    then have "?i < length es" "ix_Family (es ! ?i) \<le> f"
      using k family_le [OF assms, of ?i k] by auto
    moreover have "\<not> ix_Family (es ! ?i) < f" using sp \<open>?i < length es\<close> unfolding splits_at_def by blast
    ultimately show ?thesis by simp
  qed
  then have "(?i < length es \<and> ix_Family (es ! ?i) = f) \<longleftrightarrow> (\<exists>e \<in> set es. ix_Family e = f)"
    by (metis in_set_conv_nth)
  then show ?thesis using sp by (simp add: atFamily_def Let_def list_ex_iff)
qed

lemma nth_family_unique:
  assumes "in_order es" and "i < length es" and "j < length es" and "ix_Family (es ! i) = ix_Family (es ! j)"
  shows "i = j"
  using assms nth_eq_iff_index_eq [of "map ix_Family es" i j] by (simp add: in_order_iff strict_sorted_iff)

lemma required_entry:
  assumes "in_order (px_Entries idx)"
  shows "Required (Some idx) family nowMS \<longleftrightarrow>
     list_ex (\<lambda>e. ix_Family e = family \<and> ix_Sessions e \<ge> RequiredSessions \<and>
                  wrap64 (nowMS - ix_LastSeen e) \<le> RequiredWindowMS) (px_Entries idx)"
proof -
  let ?es = "px_Entries idx"
  let ?i = "fst (atFamily ?es family)"
  have ok: "snd (atFamily ?es family) \<longleftrightarrow> list_ex (\<lambda>e. ix_Family e = family) ?es"
    using atFamily_splits [OF assms] by blast
  have at: "snd (atFamily ?es family) \<Longrightarrow> ?i < length ?es \<and> ix_Family (?es ! ?i) = family"
    by (simp add: atFamily_def Let_def)
  have un: "?es ! ?i = e" if "e \<in> set ?es" "ix_Family e = family" "snd (atFamily ?es family)" for e
  proof -
    obtain j where j: "j < length ?es" "e = ?es ! j" using \<open>e \<in> set ?es\<close> by (auto simp: in_set_conv_nth)
    have "?i = j" using at [OF that(3)] j that(2) by (intro nth_family_unique [OF assms]) auto
    then show ?thesis using j by simp
  qed
  show ?thesis
  proof (cases "snd (atFamily ?es family)")
    case True
    have m: "?es ! ?i \<in> set ?es" "ix_Family (?es ! ?i) = family" using at [OF True] nth_mem by blast+
    have "list_ex (\<lambda>e. ix_Family e = family \<and> P e) ?es \<longleftrightarrow> P (?es ! ?i)" for P
    proof
      assume "list_ex (\<lambda>e. ix_Family e = family \<and> P e) ?es"
      then obtain e where e: "e \<in> set ?es" "ix_Family e = family" "P e" by (auto simp: list_ex_iff)
      from un [OF e(1,2) True] e(3) show "P (?es ! ?i)" by simp
    next
      assume "P (?es ! ?i)"
      then show "list_ex (\<lambda>e. ix_Family e = family \<and> P e) ?es"
        unfolding list_ex_iff using m by (intro bexI [of _ "?es ! ?i"] conjI)
    qed
    from this [of "\<lambda>e. ix_Sessions e \<ge> RequiredSessions \<and> wrap64 (nowMS - ix_LastSeen e) \<le> RequiredWindowMS"]
    show ?thesis using True by (simp only: Required_def option.case split_beta Let_def if_False not_True_eq_False)
  next
    case False
    then have "\<not> list_ex (\<lambda>e. ix_Family e = family \<and> P e) ?es" for P
      using ok by (auto simp: list_ex_iff)
    then show ?thesis using False by (simp only: Required_def option.case split_beta if_True not_False_eq_True)
  qed
qed

text \<open>
  On an index in the order its file must have, the search decides: a family is
  required exactly when some entry of it was run by two sessions or more, the last
  within the window.
\<close>

theorem Required_iff:
  assumes "in_order (px_Entries idx)"
  shows "Required (Some idx) family nowMS \<longleftrightarrow>
     list_ex (\<lambda>e. ix_Family e = family \<and> ix_Sessions e \<ge> RequiredSessions \<and>
                  wrap64 (nowMS - ix_LastSeen e) \<le> RequiredWindowMS) (px_Entries idx)"
  using assms by (rule required_entry)

section \<open>What one session adds\<close>

definition updated ::
    "gate_run list \<Rightarrow> string \<Rightarrow> int \<Rightarrow> familyKey list \<Rightarrow> IndexEntry \<Rightarrow> IndexEntry" where
  "updated runs sid nowMS ks e =
     (case find (\<lambda>k. family_name k = ix_Family e) ks of
        None \<Rightarrow> e | Some k \<Rightarrow> seen_again (kindOf (family_runs runs k)) sid nowMS e)"

definition added ::
    "gate_run list \<Rightarrow> string \<Rightarrow> int \<Rightarrow> IndexEntry list \<Rightarrow> familyKey list \<Rightarrow> IndexEntry list" where
  "added runs sid nowMS es ks =
     map (\<lambda>k. new_entry (family_name k) (kindOf (family_runs runs k)) sid nowMS)
       (filter (\<lambda>k. \<not> list_ex (\<lambda>e. ix_Family e = family_name k) es) ks)"

lemma seen_again_family [simp]: "ix_Family (seen_again kind sid t e) = ix_Family e"
  by (simp add: seen_again_def Let_def)

lemma new_entry_family [simp]: "ix_Family (new_entry f kind sid t) = f"
  by (simp add: new_entry_def)

lemma updated_family [simp]: "ix_Family (updated runs sid t ks e) = ix_Family e"
  by (simp add: updated_def split: option.split)

lemma updated_families: "map ix_Family (map (updated runs sid t ks) es) = map ix_Family es"
  by simp

lemma in_order_families: "map ix_Family es = map ix_Family es' \<Longrightarrow> in_order es = in_order es'"
  by (simp add: in_order_iff)

lemma list_ex_family: "list_ex (\<lambda>e. ix_Family e = f) es \<longleftrightarrow> f \<in> set (map ix_Family es)"
  by (auto simp: list_ex_iff)

lemma list_ex_families:
  "map ix_Family es = map ix_Family es' \<Longrightarrow>
     list_ex (\<lambda>e. ix_Family e = f) es = list_ex (\<lambda>e. ix_Family e = f) es'"
  by (simp only: list_ex_family)

lemma find_snoc: "find P (xs @ [x]) = (case find P xs of None \<Rightarrow> if P x then Some x else None | Some y \<Rightarrow> Some y)"
  by (induction xs) auto

lemma updated_snoc_other:
  "ix_Family e \<noteq> family_name k \<Longrightarrow> updated runs sid t (ks @ [k]) e = updated runs sid t ks e"
  by (auto simp: updated_def find_snoc split: option.split)

lemma updated_snoc_new:
  assumes "ix_Family e = family_name k" and "family_name k \<notin> family_name ` set ks"
  shows "updated runs sid t (ks @ [k]) e = seen_again (kindOf (family_runs runs k)) sid t (updated runs sid t ks e)"
proof -
  have "find (\<lambda>x. family_name x = ix_Family e) ks = None"
    unfolding find_None_iff using assms by (metis image_eqI)
  then show ?thesis using assms(1) by (simp add: updated_def find_snoc)
qed

lemma observe_fold:
  assumes ord: "in_order es" and dist: "distinct (map family_name ks)"
  shows "foldl (observe_family runs sid t (length es)) es ks =
         map (updated runs sid t ks) es @ added runs sid t es ks"
  using dist
proof (induction ks rule: rev_induct)
  case Nil
  have "map (updated runs sid t []) es = es" by (induction es) (simp_all add: updated_def)
  then show ?case by (simp add: added_def)
next
  case (snoc k ks)
  let ?es = "map (updated runs sid t ks) es" and ?f = "family_name k"
  let ?i = "fst (atFamily ?es ?f)"
  have fresh: "?f \<notin> family_name ` set ks" using snoc.prems by auto
  have ord': "in_order ?es" using ord in_order_families [OF updated_families] by blast
  have here: "snd (atFamily ?es ?f) \<longleftrightarrow> list_ex (\<lambda>e. ix_Family e = ?f) es"
    using atFamily_splits [OF ord', of ?f] list_ex_families [OF updated_families, of ?f runs sid t ks es] by blast
  have fold: "foldl (observe_family runs sid t (length es)) es (ks @ [k]) =
      observe_family runs sid t (length es) (?es @ added runs sid t es ks) k"
    using snoc by simp
  show ?case
  proof (cases "snd (atFamily ?es ?f)")
    case True
    have i: "?i < length es" "ix_Family (es ! ?i) = ?f"
      using True by (auto simp: atFamily_def Let_def)
    have "map (updated runs sid t (ks @ [k])) es = ?es[?i := seen_again (kindOf (family_runs runs k)) sid t (?es ! ?i)]"
    proof (rule nth_equalityI)
      fix j assume j: "j < length (map (updated runs sid t (ks @ [k])) es)"
      show "map (updated runs sid t (ks @ [k])) es ! j =
          ?es[?i := seen_again (kindOf (family_runs runs k)) sid t (?es ! ?i)] ! j"
      proof (cases "j = ?i")
        case True
        then show ?thesis using i updated_snoc_new [OF i(2) fresh] by (simp add: nth_list_update)
      next
        case False
        then have "ix_Family (es ! j) \<noteq> ?f"
          using nth_family_unique [OF ord, of j ?i] i j by auto
        then show ?thesis using False j by (simp add: updated_snoc_other)
      qed
    qed simp
    moreover have "added runs sid t es (ks @ [k]) = added runs sid t es ks"
      using True here by (simp add: added_def)
    ultimately show ?thesis
      unfolding fold using True i by (simp add: observe_family_def split_beta Let_def list_update_append nth_append)
  next
    case False
    have "updated runs sid t (ks @ [k]) e = updated runs sid t ks e" if "e \<in> set es" for e
      using that False here by (intro updated_snoc_other) (auto simp: list_ex_iff)
    then have "map (updated runs sid t (ks @ [k])) es = ?es" by simp
    moreover have "added runs sid t es (ks @ [k]) =
        added runs sid t es ks @ [new_entry ?f (kindOf (family_runs runs k)) sid t]"
      using False here by (simp add: added_def)
    ultimately show ?thesis
      unfolding fold using False by (simp add: observe_family_def split_beta Let_def)
  qed
qed

lemma added_families:
  "map ix_Family (added runs sid t es ks) =
     map family_name (filter (\<lambda>k. \<not> list_ex (\<lambda>e. ix_Family e = family_name k) es) ks)"
  by (simp add: added_def comp_def)

definition same_names :: "gate_run list \<Rightarrow> bool" where
  "same_names runs \<longleftrightarrow> \<not> distinct (map family_name (families runs))"

lemma Observe_entries:
  assumes "in_order (px_Entries idx)" and "\<not> same_names runs"
  shows "px_Entries (Observe idx runs sid t) =
     sort_key ix_Family (map (updated runs sid t (families runs)) (px_Entries idx) @
       added runs sid t (px_Entries idx) (families runs))"
  using observe_fold [OF assms(1), of "families runs"] assms(2) by (simp add: Observe_def same_names_def)

lemma observe_ordered:
  assumes "in_order (px_Entries idx)" and "\<not> same_names runs"
  shows "in_order (px_Entries (Observe idx runs sid t))"
proof -
  let ?es = "px_Entries idx" and ?ks = "families runs"
  have "distinct (map ix_Family ?es)" using assms(1) by (simp add: in_order_iff strict_sorted_iff)
  moreover have "distinct (map ix_Family (added runs sid t ?es ?ks))"
    using assms(2) by (simp add: added_families same_names_def distinct_map_filter)
  moreover have "set (map ix_Family ?es) \<inter> set (map ix_Family (added runs sid t ?es ?ks)) = {}"
    unfolding added_families by (auto simp: list_ex_iff)
  ultimately have "distinct (map ix_Family (map (updated runs sid t ?ks) ?es @ added runs sid t ?es ?ks))"
    by (simp add: comp_def)
  then show ?thesis
    unfolding Observe_entries [OF assms] in_order_iff strict_sorted_iff
    by (simp only: sorted_sort_key distinct_map_sort_key)
qed

text \<open>
  What \<open>Observe\<close> leaves is in the order \<open>ReadIndex\<close> insists on, so a session's
  families are found at the next read and none is read as absent.
\<close>

theorem Observe_in_order:
  assumes "in_order (px_Entries idx)" and "\<not> same_names runs"
  shows "in_order (px_Entries (Observe idx runs sid t))"
  using assms by (rule observe_ordered)

lemma seen_again_twice: "seen_again kind sid t (seen_again kind sid t e) = seen_again kind sid t e"
  by (simp add: seen_again_def Let_def)

lemma seen_again_new: "seen_again kind sid t (new_entry f kind sid t) = new_entry f kind sid t"
  by (simp add: seen_again_def new_entry_def Let_def)

lemma updated_twice: "updated runs sid t ks (updated runs sid t ks e) = updated runs sid t ks e"
  by (auto simp: updated_def seen_again_twice split: option.split)

lemma find_family:
  assumes "k \<in> set ks" and "distinct (map family_name ks)"
  shows "find (\<lambda>x. family_name x = family_name k) ks = Some k"
  using assms by (induction ks) (auto simp: image_iff)

lemma updated_new:
  assumes "k \<in> set ks" and "distinct (map family_name ks)"
  shows "updated runs sid t ks (new_entry (family_name k) (kindOf (family_runs runs k)) sid t) =
         new_entry (family_name k) (kindOf (family_runs runs k)) sid t"
  using find_family [OF assms] by (simp add: updated_def seen_again_new)

lemma Observe_record: "Observe idx runs sid t = idx\<lparr>px_Entries := px_Entries (Observe idx runs sid t)\<rparr>"
  by (simp add: Observe_def)

text \<open>
  A session recapped again, at the same time and right after itself, changes
  nothing: it is counted once.
\<close>

theorem Observe_again:
  assumes "in_order (px_Entries idx)" and "\<not> same_names runs"
  shows "Observe (Observe idx runs sid t) runs sid t = Observe idx runs sid t"
proof -
  let ?ks = "families runs"
  let ?l = "map (updated runs sid t ?ks) (px_Entries idx) @ added runs sid t (px_Entries idx) ?ks"
  have es1: "px_Entries (Observe idx runs sid t) = sort_key ix_Family ?l" by (rule Observe_entries [OF assms])
  have dist: "distinct (map family_name ?ks)" using assms(2) by (simp add: same_names_def)
  have up: "map (updated runs sid t ?ks) (sort_key ix_Family ?l) = sort_key ix_Family ?l"
  proof (rule map_idI)
    fix e assume "e \<in> set (sort_key ix_Family ?l)"
    then consider x where "e = updated runs sid t ?ks x"
      | k where "k \<in> set ?ks" "e = new_entry (family_name k) (kindOf (family_runs runs k)) sid t"
      by (auto simp: added_def)
    then show "updated runs sid t ?ks e = e"
      by cases (simp_all add: updated_twice updated_new [OF _ dist])
  qed
  have "added runs sid t (sort_key ix_Family ?l) ?ks = []"
    unfolding added_def list_ex_family
    by (auto simp: filter_empty_conv added_def list_ex_iff image_Un image_image)
  with up have "px_Entries (Observe (Observe idx runs sid t) runs sid t) = sort_key ix_Family (sort_key ix_Family ?l)"
    unfolding Observe_entries [OF observe_ordered [OF assms] assms(2)] es1 by simp
  also have "\<dots> = sort_key ix_Family ?l" by (rule sort_key_id_if_sorted) simp
  finally have "px_Entries (Observe (Observe idx runs sid t) runs sid t) = px_Entries (Observe idx runs sid t)"
    using es1 by simp
  then show ?thesis using Observe_record [of "Observe idx runs sid t" runs sid t] by simp
qed

definition empty_index :: "string \<Rightarrow> ProjectIndex" where
  "empty_index key = \<lparr>px_ProjectKey = key, px_Entries = []\<rparr>"

lemma Observe_member:
  assumes "in_order (px_Entries idx)" and "\<not> same_names runs" and "k \<in> set (families runs)"
  shows "e \<in> set (px_Entries (Observe idx runs sid t)) \<and> ix_Family e = family_name k \<longleftrightarrow>
     (if list_ex (\<lambda>x. ix_Family x = family_name k) (px_Entries idx)
      then \<exists>x \<in> set (px_Entries idx). ix_Family x = family_name k \<and>
             e = seen_again (kindOf (family_runs runs k)) sid t x
      else e = new_entry (family_name k) (kindOf (family_runs runs k)) sid t)"
proof -
  let ?ks = "families runs" and ?es = "px_Entries idx"
  have dist: "distinct (map family_name ?ks)" using assms(2) by (simp add: same_names_def)
  have one: "k' = k" if "k' \<in> set ?ks" "family_name k' = family_name k" for k'
    using that dist assms(3) by (auto simp: distinct_map inj_on_def)
  have old: "updated runs sid t ?ks x = seen_again (kindOf (family_runs runs k)) sid t x"
    if "ix_Family x = family_name k" for x
    using that find_family [OF assms(3) dist] by (simp add: updated_def)
  have new: "e \<in> set (added runs sid t ?es ?ks) \<and> ix_Family e = family_name k \<longleftrightarrow>
      \<not> list_ex (\<lambda>x. ix_Family x = family_name k) ?es \<and>
      e = new_entry (family_name k) (kindOf (family_runs runs k)) sid t"
  proof
    assume "e \<in> set (added runs sid t ?es ?ks) \<and> ix_Family e = family_name k"
    then obtain k' where k': "k' \<in> set ?ks" "family_name k' = family_name k"
        "\<not> list_ex (\<lambda>x. ix_Family x = family_name k') ?es"
        "e = new_entry (family_name k') (kindOf (family_runs runs k')) sid t"
      unfolding added_def by (auto simp del: split_paired_All split_paired_Ex)
    then show "\<not> list_ex (\<lambda>x. ix_Family x = family_name k) ?es \<and>
      e = new_entry (family_name k) (kindOf (family_runs runs k)) sid t"
      using one [OF k'(1,2)] by simp
  qed (use assms(3) in \<open>auto simp: added_def\<close>)
  have upd: "e \<in> set (map (updated runs sid t ?ks) ?es) \<and> ix_Family e = family_name k \<longleftrightarrow>
      (\<exists>x \<in> set ?es. ix_Family x = family_name k \<and> e = seen_again (kindOf (family_runs runs k)) sid t x)"
    unfolding set_map image_iff using old updated_family by metis
  show ?thesis
    unfolding Observe_entries [OF assms(1,2)] using new upd by (auto simp: list_ex_iff)
qed

text \<open>
  A family is required after the second of two different sessions that ran it, and
  not after the same session twice, as long as the later of the two is in the window.
\<close>

theorem Required_after_two:
  assumes "k \<in> set (families runsA)" and "k \<in> set (families runsB)"
    and "\<not> same_names runsA" and "\<not> same_names runsB"
  shows "Required (Some (Observe (Observe (empty_index key) runsA sidA tA) runsB sidB tB)) (family_name k) nowMS \<longleftrightarrow>
     sidA \<noteq> sidB \<and> wrap64 (nowMS - max tA tB) \<le> RequiredWindowMS"
proof -
  let ?i1 = "Observe (empty_index key) runsA sidA tA"
  have o0: "in_order (px_Entries (empty_index key))" by (simp add: empty_index_def)
  have o1: "in_order (px_Entries ?i1)" by (rule observe_ordered [OF o0 assms(3)])
  have o2: "in_order (px_Entries (Observe ?i1 runsB sidB tB))" by (rule observe_ordered [OF o1 assms(4)])
  let ?e1 = "new_entry (family_name k) (kindOf (family_runs runsA k)) sidA tA"
  have m1: "x \<in> set (px_Entries ?i1) \<and> ix_Family x = family_name k \<longleftrightarrow> x = ?e1" for x
    unfolding Observe_member [OF o0 assms(3) assms(1)] by (simp add: empty_index_def)
  then have ex: "list_ex (\<lambda>x. ix_Family x = family_name k) (px_Entries ?i1)"
    unfolding list_ex_iff by blast
  let ?e2 = "seen_again (kindOf (family_runs runsB k)) sidB tB ?e1"
  have m2: "x \<in> set (px_Entries (Observe ?i1 runsB sidB tB)) \<and> ix_Family x = family_name k \<longleftrightarrow> x = ?e2" for x
    unfolding Observe_member [OF o1 assms(4) assms(2)] if_P [OF ex] by (metis m1)
  have "list_ex (\<lambda>e. ix_Family e = family_name k \<and> P e) (px_Entries (Observe ?i1 runsB sidB tB)) \<longleftrightarrow> P ?e2" for P
    unfolding list_ex_iff by (metis m2)
  from this [of "\<lambda>e. ix_Sessions e \<ge> RequiredSessions \<and> wrap64 (nowMS - ix_LastSeen e) \<le> RequiredWindowMS"]
  have "Required (Some (Observe ?i1 runsB sidB tB)) (family_name k) nowMS \<longleftrightarrow>
      ix_Sessions ?e2 \<ge> RequiredSessions \<and> wrap64 (nowMS - ix_LastSeen ?e2) \<le> RequiredWindowMS"
    unfolding required_entry [OF o2] .
  also have "\<dots> \<longleftrightarrow> sidA \<noteq> sidB \<and> wrap64 (nowMS - max tA tB) \<le> RequiredWindowMS"
    by (auto simp: seen_again_def new_entry_def Let_def RequiredSessions_def)
  finally show ?thesis .
qed

section \<open>What the eviction keeps\<close>

lemma evict_loop_take: "evict_loop sz is b = take (length (evict_loop sz is b)) is"
  by (induction sz "is" b rule: evict_loop.induct) auto

lemma evict_loop_enough:
  "length (evict_loop sz is b) < length is \<Longrightarrow>
     b - sum_list (map sz (take (length (evict_loop sz is b)) is)) \<le> MaxIndexBytes"
  by (induction sz "is" b rule: evict_loop.induct) auto

lemma evict_loop_least:
  "m < length (evict_loop sz is b) \<Longrightarrow> b - sum_list (map sz (take m is)) > MaxIndexBytes"
proof (induction sz "is" b arbitrary: m rule: evict_loop.induct)
  case (2 sz i "is" b)
  then show ?case by (cases m) (auto split: if_splits)
qed simp

text \<open>The entries left when the \<open>m\<close> least recently seen are gone.\<close>

definition less_stalest :: "nat \<Rightarrow> IndexEntry list \<Rightarrow> IndexEntry list" where
  "less_stalest m es = map (\<lambda>i. es ! i) (filter (\<lambda>i. i \<notin> set (take m (stalest es))) [0 ..< length es])"

lemma stalest_perm: "set (stalest es) = {0 ..< length es}" "distinct (stalest es)" "length (stalest es) = length es"
  by (simp_all add: stalest_def)

lemma less_stalest_total:
  "evict_total enc frame (less_stalest m es) =
     evict_total enc frame es - sum_list (map (\<lambda>i. enc (es ! i) + 1) (take m (stalest es)))"
proof -
  let ?f = "\<lambda>i. enc (es ! i) + 1" and ?g = "set (take m (stalest es))"
  have sub: "?g \<subseteq> {0 ..< length es}" using set_take_subset [of m "stalest es"] by (simp add: stalest_perm)
  have "sum_list (map ?f (take m (stalest es))) = sum ?f ?g"
    using stalest_perm(2) by (simp add: sum_list_distinct_conv_sum_set)
  moreover have "sum_list (map (\<lambda>e. enc e + 1) (less_stalest m es)) = sum ?f ({0 ..< length es} - ?g)"
    by (simp add: less_stalest_def comp_def sum_list_distinct_conv_sum_set set_diff_eq)
  moreover have "sum_list (map (\<lambda>e. enc e + 1) es) = sum ?f {0 ..< length es}"
    by (simp add: sum_list_sum_nth)
  moreover have "sum ?f {0 ..< length es} = sum ?f ({0 ..< length es} - ?g) + sum ?f ?g"
    using sub by (intro sum.subset_diff) auto
  ultimately show ?thesis by (simp add: evict_total_def)
qed

text \<open>
  The eviction takes the least recently seen entries and no more of them than it
  must: what it keeps fits under the cap unless nothing is left, and with one entry
  fewer gone it would not have.
\<close>

theorem evictToCap_least:
  fixes enc :: "IndexEntry \<Rightarrow> nat" and frame :: nat and es :: "IndexEntry list"
  defines "kept \<equiv> fst (evictToCap enc frame es)" and "n \<equiv> snd (evictToCap enc frame es)"
  shows "kept = less_stalest n es \<and> n \<le> length es \<and>
         (n = length es \<or> evict_total enc frame kept \<le> MaxIndexBytes) \<and>
         (n = 0 \<or> evict_total enc frame (less_stalest (n - 1) es) > MaxIndexBytes)"
proof -
  let ?g = "evict_loop (\<lambda>i. enc (es ! i) + 1) (stalest es) (evict_total enc frame es)"
  have n: "n = length ?g" by (simp add: n_def evictToCap_def Let_def)
  have g: "take n (stalest es) = ?g" using evict_loop_take [of _ "stalest es"] n by metis
  have k: "kept = less_stalest n es" by (simp add: kept_def evictToCap_def less_stalest_def Let_def g)
  have le: "n \<le> length es"
    using arg_cong [OF g, of length] n by (simp add: stalest_perm min_def split: if_splits)
  moreover have "n = length es \<or> evict_total enc frame kept \<le> MaxIndexBytes"
    using evict_loop_enough [of _ "stalest es" "evict_total enc frame es"] le n
    unfolding k less_stalest_total by (auto simp: stalest_perm le_less)
  moreover have "n = 0 \<or> evict_total enc frame (less_stalest (n - 1) es) > MaxIndexBytes"
    using evict_loop_least [of "n - 1"] n unfolding less_stalest_total by (cases n) auto
  ultimately show ?thesis using k by blast
qed

section \<open>Two sessions of one family\<close>

definition index_of :: "int \<Rightarrow> ProjectIndex" where
  "index_of t = Observe (empty_index ''k'') [run_example 1 ExecOK] ''s1'' t"

lemma run_example_names: "\<not> same_names [run_example s out]"
  by (simp add: same_names_def families_def run_example_def run_family_def map_filter_def)

theorem Required_iff_witness:
  "Required (Some (index_of 5)) ''r@l'' 9 = False"
proof -
  have "in_order (px_Entries (index_of 5))" by code_simp
  then have "Required (Some (index_of 5)) ''r@l'' 9 \<longleftrightarrow>
     list_ex (\<lambda>e. ix_Family e = ''r@l'' \<and> ix_Sessions e \<ge> RequiredSessions \<and>
                  wrap64 (9 - ix_LastSeen e) \<le> RequiredWindowMS) (px_Entries (index_of 5))"
    by (rule Required_iff)
  also have "\<dots> = False" by code_simp
  finally show ?thesis .
qed

theorem Observe_in_order_witness:
  "in_order (px_Entries (Observe (index_of 5) [run_example 2 ExecFailed] ''s2'' 7))"
  by (rule Observe_in_order) (code_simp, rule run_example_names)

theorem Observe_again_witness:
  "Observe (Observe (index_of 5) [run_example 2 ExecOK] ''s2'' 7) [run_example 2 ExecOK] ''s2'' 7 =
   Observe (index_of 5) [run_example 2 ExecOK] ''s2'' 7"
  by (rule Observe_again) (code_simp, rule run_example_names)

theorem Required_after_two_witness:
  "Required (Some (Observe (Observe (empty_index ''k'') [run_example 1 ExecOK] ''s1'' 5) [run_example 2 ExecOK] ''s2'' 7))
     (family_name (''l'', ''r'')) 9"
proof -
  have k: "(''l'', ''r'') \<in> set (families [run_example s ExecOK])" for s
    by (simp add: families_def run_example_def run_family_def map_filter_def)
  show ?thesis
    using Required_after_two [OF k k run_example_names run_example_names,
        where key = "''k''" and sidA = "''s1''" and tA = 5 and sidB = "''s2''" and tB = 7 and nowMS = 9]
    by (simp add: RequiredWindowMS_def wrap64_def)
qed

end
