(* ===== verification/Declared.thy ===== *)
theory Declared
  imports Gates
begin

text \<open>
  The gates a spec declares, \<^verbatim>\<open>internal/verify/declared.go\<close>: the Bash calls a declared
  gate may match (\<open>lineRuns\<close>), how a run is bound to a gate (\<open>gate_matches\<close>, \<open>readBy\<close>), a
  declared gate's row (\<open>dg_state\<close>, \<open>absentState\<close>), the join of the declared rows with the
  learned ones (\<open>withDeclared\<close>), and the quoting of an argv word. A declared gate's sets
  are Go maps to bool, held as lists; how its digests are derived from a spec's argv is
  the shell reader's, which is modelled apart from this.
\<close>

section \<open>The candidates\<close>

record declaredGate =
  dg_id :: string
  dg_kind :: string
  dg_source :: string
  dg_trust :: string
  dg_required :: bool
  dg_runners :: "string list"
  dg_words :: "string list"
  dg_lines :: "string list"
  dg_location :: string
  dg_program :: string

record lineRun =
  ln_run :: gate_run
  ln_digest :: string
  ln_wrapper :: bool
  ln_background :: bool

definition LaunchSchemaVersion :: int where
  "LaunchSchemaVersion = 10"

definition line_run :: "decl \<Rightarrow> execution \<Rightarrow> outcome_join option \<Rightarrow> lineRun" where
  "line_run d e tend =
     (case asRan d e of
        (m, runner, _, _) \<Rightarrow>
          (let g = newRun d e m runner tend;
               g' = (if e_ExecutedDigest e \<noteq> [] \<and> e_ExecutedDigest e \<noteq> sh_Digest (d_Shape d)
                     then g\<lparr>g_Location := []\<rparr> else g);
               wrapper = (WrapperRun (d_ToolName d)
                            (RecordedLaunch (sh_Program (d_Shape d)) (d_Launch d) (d_SchemaVersion d \<ge> LaunchSchemaVersion))
                            runner m (sh_VerbClass (d_Shape d)) \<or>
                          isGateRun d m runner \<and> Delegated (g_Program g'))
           in \<lparr>ln_run = g',
               ln_digest = (if e_ExecutedDigest e \<noteq> [] then e_ExecutedDigest e else sh_Digest (d_Shape d)),
               ln_wrapper = wrapper, ln_background = e_Backgrounded e\<rparr>))"

definition lineRuns :: "run \<Rightarrow> (string \<rightharpoonup> execution) \<Rightarrow> lineRun list" where
  "lineRuns r picked =
     (let ended = taskEnds r in
      List.map_filter
        (\<lambda>d. case picked (d_ToolUseID d) of
               None \<Rightarrow> None
             | Some e \<Rightarrow> if d_ToolName d \<noteq> ''Bash'' then None else Some (line_run d e (ended (d_ToolUseID d))))
        (r_Declarations r))"

section \<open>Binding a run to a gate\<close>

definition gate_matches :: "declaredGate \<Rightarrow> lineRun \<Rightarrow> bool" where
  "gate_matches g r =
     (if dg_location g = [] \<or> g_Location (ln_run r) \<noteq> dg_location g then False
      else (case RunnerKey (RunnerNameOf (g_RunnerID (ln_run r))) (g_Runner (ln_run r)) of
              None \<Rightarrow> False
            | Some k \<Rightarrow> k \<in> set (dg_runners g) \<or>
                (case g_Runner (ln_run r) of None \<Rightarrow> False | Some w \<Rightarrow> w \<in> set (dg_words g))) \<or>
           ln_digest r \<noteq> [] \<and> ln_digest r \<in> set (dg_lines g))"

definition readBy :: "declaredGate \<Rightarrow> lineRun \<Rightarrow> bool" where
  "readBy g r \<longleftrightarrow>
     ln_wrapper r \<and> dg_program g \<noteq> [] \<and> dg_location g \<noteq> [] \<and> g_Location (ln_run r) = dg_location g \<and>
     (case g_Output (ln_run r) of None \<Rightarrow> False | Some out \<Rightarrow> go_Parser out = dg_program g)"

definition wrapped :: "gate_run \<Rightarrow> gate_run" where
  "wrapped r =
     r\<lparr>g_Wrapped := True,
       g_FromOutput := (case g_Output r of None \<Rightarrow> False
                        | Some out \<Rightarrow> go_Kind out \<in> {OutSummaryPass, OutSummaryFail, OutEmptyRun})\<rparr>"

section \<open>A declared gate's row\<close>

definition familyDeclared :: string where
  "familyDeclared = ''declared''"

definition absentState :: "wr list \<Rightarrow> int list \<Rightarrow> string \<Rightarrow> int \<Rightarrow> gate_state" where
  "absentState writes unnamed root at =
     (let counted = filter (\<lambda>w. w_Path w \<noteq> None \<and> Relevant (w_Class w) \<and> w_Seq w \<le> at \<and> covers root w) writes in
      \<lparr>gs_Gate = [], gs_Kind = [], gs_Family = [], gs_Source = [], gs_Trust = [], gs_Required = False,
       gs_State = Absent, gs_Reason = (if length counted > 0 then NeverRunAfterWrite else EmptyRun),
       gs_LastRun = None, gs_LastGreen = None, gs_LastWrite = lastWrite counted,
       gs_WritesSinceGreen = length counted, gs_WritersSinceGreen = fst (writers counted),
       gs_WritersOmitted = snd (writers counted),
       gs_UnknownTarget = length (filter (\<lambda>s. s \<le> at) unnamed), gs_PartialRunsSince = 0,
       gs_bound = BoundUnknown, gs_offTurn = False, gs_root = root\<rparr>)"

text \<open>The last run was bound at its runner with words none of the gate's argv has.\<close>

definition other_args :: "declaredGate \<Rightarrow> gate_run list \<Rightarrow> runRef \<Rightarrow> bool" where
  "other_args g fr l =
     list_ex (\<lambda>r. g_Seq r = rr_Seq l \<and> \<not> g_Wrapped r \<and>
        (case g_Runner r of None \<Rightarrow> False | Some w \<Rightarrow> dg_words g \<noteq> [] \<and> w \<notin> set (dg_words g))) fr"

definition own_words :: "declaredGate \<Rightarrow> gate_state \<Rightarrow> gate_state" where
  "own_words g s =
     s\<lparr>gs_Gate := dg_id g, gs_Kind := dg_kind g, gs_Family := familyDeclared, gs_Source := dg_source g,
       gs_Trust := dg_trust g, gs_Required := dg_required g\<rparr>"

definition unread_ref :: "lineRun \<Rightarrow> runRef" where
  "unread_ref u = (run_ref (ln_run u))\<lparr>rr_Wrapped := (if ln_background u then WrapBackground else WrapUnread)\<rparr>"

definition mark_args :: "declaredGate \<Rightarrow> gate_run list \<Rightarrow> gate_state \<Rightarrow> gate_state" where
  "mark_args g fr s =
     (case gs_LastRun s of None \<Rightarrow> s
      | Some l \<Rightarrow> if other_args g fr l then s\<lparr>gs_LastRun := Some (l\<lparr>rr_OtherArgs := True\<rparr>)\<rparr> else s)"

text \<open>A later wrapper call whose output said nothing: the state is not known, and its last run is that call.\<close>

definition mark_unread :: "lineRun option \<Rightarrow> gate_state \<Rightarrow> gate_state" where
  "mark_unread unread s =
     (case (unread, gs_LastWrite s) of
        (Some u, Some w) \<Rightarrow>
          if (gs_State s = Absent \<or> gs_State s = Stale) \<and> g_Seq (ln_run u) > wf_Seq w
          then s\<lparr>gs_State := Unknown, gs_Reason := OutcomeUnknown, gs_LastRun := Some (unread_ref u)\<rparr>
          else s
      | _ \<Rightarrow> s)"

definition dg_state ::
    "declaredGate \<Rightarrow> gate_run list \<Rightarrow> lineRun option \<Rightarrow> wr list \<Rightarrow> int list \<Rightarrow> string \<Rightarrow> int \<Rightarrow> sha_tree option \<Rightarrow> gate_state" where
  "dg_state g fr unread writes unnamed root at tree =
     (let s = (if length fr > 0 then stateOf ([], dg_id g) (dg_kind g) fr writes unnamed root at tree
               else absentState writes unnamed root at)
      in mark_unread unread (mark_args g fr (own_words g s)))"

section \<open>The join\<close>

definition at_the_point :: "int \<Rightarrow> lineRun list \<Rightarrow> lineRun list" where
  "at_the_point at cands = filter (\<lambda>c. \<not> fst (landed (ln_run c)) > at) cands"

definition bound_runs :: "declaredGate \<Rightarrow> lineRun list \<Rightarrow> gate_run list" where
  "bound_runs g cands =
     List.map_filter
       (\<lambda>c. if gate_matches g c then Some (ln_run c) else if readBy g c then Some (wrapped (ln_run c)) else None) cands"

definition unread_of :: "declaredGate \<Rightarrow> lineRun list \<Rightarrow> lineRun option" where
  "unread_of g cands =
     foldl (\<lambda>u c. if gate_matches g c \<or> readBy g c then u
                  else if ln_wrapper c \<and> (case u of None \<Rightarrow> True | Some x \<Rightarrow> g_Seq (ln_run c) > g_Seq (ln_run x))
                  then Some c else u) None cands"

definition matched_seqs :: "declaredGate list \<Rightarrow> lineRun list \<Rightarrow> int list" where
  "matched_seqs dgs cands =
     concat (map (\<lambda>g. map (\<lambda>c. g_Seq (ln_run c)) (filter (\<lambda>c. gate_matches g c \<or> readBy g c) cands)) dgs)"

definition declared_row ::
    "lineRun list \<Rightarrow> wr list \<Rightarrow> int list \<Rightarrow> string \<Rightarrow> int \<Rightarrow> sha_tree option \<Rightarrow> declaredGate \<Rightarrow> gate_state" where
  "declared_row cands writes unnamed root at tree g =
     dg_state g (sort_key g_Seq (bound_runs g (at_the_point at cands))) (unread_of g (at_the_point at cands))
       writes unnamed root at tree"

text \<open>The families with a run at the point that no declared gate matched.\<close>

definition open_families :: "gate_run list \<Rightarrow> int list \<Rightarrow> int \<Rightarrow> string list" where
  "open_families runs matched at =
     List.map_filter
       (\<lambda>r. case run_family r of None \<Rightarrow> None
            | Some k \<Rightarrow> if g_Seq r \<notin> set matched \<and> fst (landed r) \<le> at then Some (family_name k) else None) runs"

definition withDeclared ::
    "gate_state list \<Rightarrow> declaredGate list \<Rightarrow> lineRun list \<Rightarrow> gate_run list \<Rightarrow> wr list \<Rightarrow> int list \<Rightarrow> string \<Rightarrow> int \<Rightarrow>
     sha_tree option \<Rightarrow> gate_state list" where
  "withDeclared gates dgs cands runs writes unnamed root at tree =
     (let opn = open_families runs (matched_seqs dgs (at_the_point at cands)) at in
      sort_key gate_key
        (filter (\<lambda>g. \<not> (gs_Source g = sourceLearned \<and> gs_Family g \<notin> set opn))
           (gates @ map (declared_row cands writes unnamed root at tree) dgs)))"

section \<open>A word of an argv\<close>

definition byte_range :: "char \<Rightarrow> char \<Rightarrow> char \<Rightarrow> bool" where
  "byte_range lo hi c \<longleftrightarrow> lo \<le> c \<and> c \<le> hi"

definition plain_byte :: "char \<Rightarrow> bool" where
  "plain_byte c \<longleftrightarrow>
     list_ex (\<lambda>r. byte_range (fst r) (snd r) c)
       [(CHR ''a'', CHR ''z''), (CHR ''A'', CHR ''Z''), (CHR ''0'', CHR ''9'')] \<or>
     c \<in> set ''%+,-./:=@_''"

definition quote_char :: char where
  "quote_char = CHR 0x27"

text \<open>Each quote in the word closed, escaped and reopened.\<close>

fun escape_quotes :: "string \<Rightarrow> string" where
  "escape_quotes [] = []"
| "escape_quotes (c # cs) =
     (if c = quote_char then [quote_char, CHR 0x5C, quote_char, quote_char] else [c]) @ escape_quotes cs"

definition shellWord :: "string \<Rightarrow> string" where
  "shellWord w =
     (if w \<noteq> [] \<and> list_all plain_byte w then w else quote_char # escape_quotes w @ [quote_char])"

section \<open>When a declared gate reads green\<close>

lemma marks_keep [simp]:
  "gs_State (own_words g s) = gs_State s" "gs_State (mark_args g fr s) = gs_State s"
  "gs_Source (mark_args g fr s) = gs_Source s" "gs_Source (mark_unread u s) = gs_Source s"
  "gs_Source (own_words g s) = dg_source g"
  by (simp_all add: own_words_def mark_args_def mark_unread_def split: option.split)

lemma mark_unread_green: "gs_State (mark_unread u s) = Green \<longleftrightarrow> gs_State s = Green"
  by (auto simp: mark_unread_def split: option.split)

lemma unread_state:
  "gs_State (dg_state g fr u writes unnamed root at tree) = Green \<longleftrightarrow>
     fr \<noteq> [] \<and> gs_State (stateOf ([], dg_id g) (dg_kind g) fr writes unnamed root at tree) = Green"
  unfolding dg_state_def Let_def mark_unread_green marks_keep by (auto simp: absentState_def Let_def)

text \<open>
  A declared gate is green exactly when its last bound run was, nothing it covers
  was written after that run by the point, and the tree the run saw has not moved; a
  call whose output said nothing never makes it so.
\<close>

theorem dg_state_green_iff:
  "gs_State (dg_state g fr u writes unnamed root at tree) = Green \<longleftrightarrow>
     fr \<noteq> [] \<and> green (last fr) \<and> counted_writes writes root (g_Seq (last fr)) at = [] \<and>
     bind writes unnamed root (g_Seq (last fr)) at tree \<notin> {BoundOwn, BoundForeign}"
  unfolding unread_state stateOf_state tableState_green
  by (cases "green (last fr)") (simp_all add: fam_of_counted fam_of_bound fam_of_ref)

text \<open>
  A run bound by what its wrapper's output said is green only on the runner's own
  passing summary, of a call that ended ok in the foreground and whose outcome is in
  the record.
\<close>

theorem wrapped_green_iff:
  "green (wrapped r) \<longleftrightarrow>
     \<not> g_Backgrounded r \<and> g_Outcome r = ExecOK \<and> out_is r [OutSummaryPass] \<and> g_ExecSeq r \<noteq> None"
  by (cases "g_Output r")
    (auto simp: green_def wrapped_def masked_def emptyRun_def failed_def outcomeNotKnown_def
      orderNotKnown_def out_is_def landed_def split: option.split)

section \<open>Where a bound run ran\<close>

lemma in_map_filter: "y \<in> set (List.map_filter f xs) \<longleftrightarrow> (\<exists>x \<in> set xs. f x = Some y)"
  by (induction xs) (auto split: option.split)

text \<open>
  Every run bound to a declared gate ran at the gate's own location, and a gate
  whose location is not known binds none.
\<close>

theorem bound_runs_location:
  assumes "r \<in> set (bound_runs g cands)"
  shows "g_Location r = dg_location g \<and> dg_location g \<noteq> []"
proof -
  obtain c where c: "gate_matches g c \<and> r = ln_run c \<or> readBy g c \<and> r = wrapped (ln_run c)"
    using assms unfolding bound_runs_def in_map_filter by (auto split: if_splits)
  have "gate_matches g c \<Longrightarrow> g_Location (ln_run c) = dg_location g \<and> dg_location g \<noteq> []"
    unfolding gate_matches_def by (auto split: if_splits)
  moreover have "readBy g c \<Longrightarrow> g_Location (ln_run c) = dg_location g \<and> dg_location g \<noteq> []"
    unfolding readBy_def by blast
  moreover have "g_Location (wrapped (ln_run c)) = g_Location (ln_run c)" by (simp add: wrapped_def)
  ultimately show ?thesis using c by auto
qed

definition gate_example :: declaredGate where
  "gate_example =
     \<lparr>dg_id = ''spec:unit'', dg_kind = ''test'', dg_source = ''declared'', dg_trust = ''trusted'',
      dg_required = True, dg_runners = [], dg_words = [''r''], dg_lines = [], dg_location = ''l'',
      dg_program = ''go''\<rparr>"

definition line_example :: "int \<Rightarrow> exec_outcome \<Rightarrow> lineRun" where
  "line_example s out = \<lparr>ln_run = run_example s out, ln_digest = ''d'', ln_wrapper = False, ln_background = False\<rparr>"

theorem bound_runs_location_witness:
  "g_Location (run_example 1 ExecOK) = ''l'' \<and> bound_runs gate_example [line_example 1 ExecOK] = [run_example 1 ExecOK]"
proof -
  have b: "bound_runs gate_example [line_example 1 ExecOK] = [run_example 1 ExecOK]" by code_simp
  then have "run_example 1 ExecOK \<in> set (bound_runs gate_example [line_example 1 ExecOK])" by simp
  from bound_runs_location [OF this] b show ?thesis by (simp add: gate_example_def)
qed

section \<open>The rows of the join\<close>

definition unmatched_family :: "gate_run list \<Rightarrow> int list \<Rightarrow> int \<Rightarrow> string \<Rightarrow> bool" where
  "unmatched_family runs ms at f =
     list_ex (\<lambda>r. case run_family r of None \<Rightarrow> False
                  | Some k \<Rightarrow> f = family_name k \<and> g_Seq r \<notin> set ms \<and> fst (landed r) \<le> at) runs"

lemma open_families_iff: "f \<in> set (open_families runs ms at) \<longleftrightarrow> unmatched_family runs ms at f"
  unfolding unmatched_family_def by (induction runs) (auto simp: open_families_def split: option.split)

lemma dg_state_source [simp]: "gs_Source (dg_state g fr u writes unnamed root at tree) = dg_source g"
  by (simp add: dg_state_def Let_def)

text \<open>
  C28: the joined rows are those of the declared gates, every one of them, and of the
  rows before: all that are not learned, and the learned ones whose family has a run
  at the point that no declared gate matched.
\<close>

theorem withDeclared_rows:
  assumes "list_all (\<lambda>g. dg_source g \<noteq> sourceLearned) dgs"
  shows "s \<in> set (withDeclared gates dgs cands runs writes unnamed root at tree) \<longleftrightarrow>
     s \<in> declared_row cands writes unnamed root at tree ` set dgs \<or>
     s \<in> set gates \<and>
       (gs_Source s \<noteq> sourceLearned \<or>
        unmatched_family runs (matched_seqs dgs (at_the_point at cands)) at (gs_Family s))"
proof -
  let ?open = "set (open_families runs (matched_seqs dgs (at_the_point at cands)) at)"
  let ?rows = "declared_row cands writes unnamed root at tree ` set dgs"
  have src: "gs_Source s \<noteq> sourceLearned" if "s \<in> ?rows"
    using that assms by (auto simp: list_all_iff declared_row_def)
  have "s \<in> set (withDeclared gates dgs cands runs writes unnamed root at tree) \<longleftrightarrow>
      (s \<in> set gates \<or> s \<in> ?rows) \<and> \<not> (gs_Source s = sourceLearned \<and> gs_Family s \<notin> ?open)"
    by (simp only: withDeclared_def Let_def set_sort set_filter set_append set_map mem_Collect_eq Un_iff)
  then show ?thesis unfolding open_families_iff using src by argo
qed

theorem withDeclared_rows_witness:
  "declared_row [] [] [] [] 9 None gate_example \<in> set (withDeclared [] [gate_example] [] [] [] [] [] 9 None)"
  using withDeclared_rows [of "[gate_example]" "declared_row [] [] [] [] 9 None gate_example" "[]" "[]" "[]" "[]" "[]" "[]" 9 None]
  by (simp add: gate_example_def sourceLearned_def)

section \<open>Quoting is read back\<close>

text \<open>One word as a shell reads it: outside quotes a plain byte or an escaped one, inside anything.\<close>

fun sh_read :: "bool \<Rightarrow> string \<Rightarrow> string option" where
  "sh_read False [] = Some []"
| "sh_read True [] = None"
| "sh_read True (c # cs) =
     (if c = quote_char then sh_read False cs else map_option ((#) c) (sh_read True cs))"
| "sh_read False (c # cs) =
     (if c = quote_char then sh_read True cs
      else if c = CHR 0x5C then (case cs of [] \<Rightarrow> None | d # ds \<Rightarrow> map_option ((#) d) (sh_read False ds))
      else if plain_byte c then map_option ((#) c) (sh_read False cs) else None)"

lemma sh_read_plain:
  assumes "list_all plain_byte w"
  shows "sh_read False w = Some w"
proof -
  have "\<not> plain_byte quote_char" "\<not> plain_byte (CHR 0x5C)" by (code_simp)+
  with assms show ?thesis by (induction w) (auto split: list.split)
qed

lemma sh_read_quoted: "sh_read True (escape_quotes w @ [quote_char]) = Some w"
  by (induction w) (auto simp: quote_char_def)

text \<open>A word of an argv, quoted for the line, is read back by a shell as the same one word.\<close>

theorem shellWord_read: "sh_read False (shellWord w) = Some w"
  using sh_read_plain [of w] sh_read_quoted [of w] by (simp add: shellWord_def)

end
