(* ===== verification/Summary.thy ===== *)
theory Summary
  imports Integrity Index Declared
begin

text \<open>
  What a snapshot says at the end of a turn, \<^verbatim>\<open>internal/verify\<close> (evaluate.go, rules.go's
  count of binding violations, cover.go's turn marks): the record-green decision over
  the gates, the turn's row and the count beside it, the project the turn ran in, and
  which gates and writes are the turn's. A snapshot here holds the fields these read.
\<close>

section \<open>Rule verdicts\<close>

datatype trust = Untrusted | Trusted | Managed | Builtin | OtherTrust string

definition trust_rank :: "trust \<Rightarrow> nat" where
  "trust_rank t = (if t = Trusted then 1 else if t = Managed then 2 else 0)"

definition Lowest :: "trust \<Rightarrow> trust \<Rightarrow> trust" where
  "Lowest a b =
     (if trust_rank a \<le> trust_rank b then (if trust_rank a = 0 then Untrusted else a)
      else if trust_rank b = 0 then Untrusted else b)"

datatype RuleVerdictValue = NoRecordedViolation | RuleUnknown | Insufficient | Violation

record RuleVerdict =
  rv_Rule :: string
  rv_Kind :: string
  rv_Verdict :: RuleVerdictValue
  rv_Seqs :: "int list"
  rv_HardControl :: string
  rv_trust :: trust
  rv_reason :: string

definition binding :: "trust \<Rightarrow> bool" where
  "binding t \<longleftrightarrow> t = Trusted \<or> t = Managed"

definition bindingViolations :: "RuleVerdict list \<Rightarrow> nat" where
  "bindingViolations vs = length (filter (\<lambda>v. rv_Verdict v = Violation \<and> binding (rv_trust v)) vs)"

text \<open>The seqs are sorted: the cut keeps those from the turn's first declaration on.\<close>

definition turnViolations :: "RuleVerdict list \<Rightarrow> int \<Rightarrow> RuleVerdict list" where
  "turnViolations vs since =
     (if since \<le> 0 then []
      else List.map_filter
        (\<lambda>v. if rv_Verdict v \<noteq> Violation \<or> \<not> binding (rv_trust v) then None
             else (let ss = dropWhile (\<lambda>s. s < since) (rv_Seqs v) in
                   if ss = [] then None else Some (v\<lparr>rv_Seqs := ss\<rparr>))) vs)"

definition wroteIn :: "wr list \<Rightarrow> int \<Rightarrow> bool" where
  "wroteIn writes at = list_ex (\<lambda>w. w_Seq w \<le> at \<and> w_Path w \<noteq> None \<and> Relevant (w_Class w)) writes"

section \<open>The snapshot\<close>

record Point =
  pt_Seq :: int
  pt_Kind :: string
  pt_SessionID :: string
  pt_PromptID :: "string option"
  pt_AgentID :: "string option"
  pt_TaskRef :: "string option"
  pt_StoreRoot :: string

definition PointStop :: string where "PointStop = ''stop''"
definition PointSubagentStop :: string where "PointSubagentStop = ''subagent_stop''"
definition PointSubtask :: string where "PointSubtask = ''subtask''"
definition PointCommit :: string where "PointCommit = ''commit''"
definition PointPush :: string where "PointPush = ''push''"
definition PointPR :: string where "PointPR = ''pr''"
definition PointQuery :: string where "PointQuery = ''query''"

definition point_at :: "int \<Rightarrow> string \<Rightarrow> Point" where
  "point_at s k = \<lparr>pt_Seq = s, pt_Kind = k, pt_SessionID = ''s'', pt_PromptID = None, pt_AgentID = None,
                   pt_TaskRef = None, pt_StoreRoot = []\<rparr>"

record Snapshot =
  sn_Point :: Point
  sn_ProjectRoot :: string
  sn_Recording :: Recording
  sn_Notes :: "string list"
  sn_Gates :: "gate_state list"
  sn_SpecVerdicts :: "RuleVerdict list"
  sn_Integrity :: integrity_view
  sn_RecordGreen :: bool
  sn_RecordGreenAtSeq :: "int option"

definition indexLearned :: "ProjectIndex option \<Rightarrow> int \<Rightarrow> bool" where
  "indexLearned idx nowMS =
     (case idx of None \<Rightarrow> False
      | Some x \<Rightarrow> list_ex (\<lambda>e. Required idx (ix_Family e) nowMS) (px_Entries x))"

definition requireGates :: "ProjectIndex option \<Rightarrow> int \<Rightarrow> gate_state list \<Rightarrow> gate_state list" where
  "requireGates idx nowMS gates =
     (let learned = indexLearned idx nowMS in
      map (\<lambda>g. g\<lparr>gs_Required := \<not> learned \<or> Required idx (gs_Family g) nowMS\<rparr>) gates)"

definition later_decl :: "decl \<Rightarrow> decl \<Rightarrow> bool" where
  "later_decl d l \<longleftrightarrow> d_Seq d > d_Seq l"

definition projectRoot :: "decl list \<Rightarrow> int \<Rightarrow> string" where
  "projectRoot decls at =
     (case fold_best later_decl (filter (\<lambda>d. d_Seq d \<le> at \<and> d_Project d \<noteq> None) decls) of
        None \<Rightarrow> []
      | Some d \<Rightarrow> (case d_Project d of None \<Rightarrow> [] | Some p \<Rightarrow> p))"

definition ProjectRoot :: "run \<Rightarrow> int \<Rightarrow> string" where
  "ProjectRoot r at = projectRoot (r_Declarations r) at"

definition recordFindings :: "Snapshot \<Rightarrow> nat" where
  "recordFindings snap =
     length (iv_Unresolved (sn_Integrity snap)) + bindingViolations (sn_SpecVerdicts snap)"

text \<open>\<open>None\<close> is the early return: a required gate of the turn that is not green.\<close>

fun green_scan :: "gate_state list \<Rightarrow> int option \<Rightarrow> int option option" where
  "green_scan [] at = Some at"
| "green_scan (g # gs) at =
     (if \<not> gs_Required g \<or> gs_offTurn g then green_scan gs at
      else (case gs_LastGreen g of
              None \<Rightarrow> None
            | Some l \<Rightarrow>
                if gs_State g \<noteq> Green then None
                else green_scan gs
                  (case at of None \<Rightarrow> Some (rr_Seq l) | Some a \<Rightarrow> Some (if rr_Seq l > a then rr_Seq l else a))))"

definition recordGreen :: "gate_state list \<Rightarrow> nat \<Rightarrow> bool \<times> int option" where
  "recordGreen gates unresolved =
     (if unresolved > 0 then (False, None)
      else (case green_scan gates None of Some (Some a) \<Rightarrow> (True, Some a) | _ \<Rightarrow> (False, None)))"

definition recordGreenOf :: "Snapshot \<Rightarrow> bool \<times> int option" where
  "recordGreenOf snap = recordGreen (sn_Gates snap) (recordFindings snap)"

section \<open>The turn's gates\<close>

definition markTurn :: "gate_state list \<Rightarrow> string list \<Rightarrow> gate_state list" where
  "markTurn gates projects = map (\<lambda>g. g\<lparr>gs_offTurn := \<not> touches projects (gs_root g)\<rparr>) gates"

fun note_root :: "string list \<Rightarrow> string \<Rightarrow> string list" where
  "note_root roots r = (if r \<in> set roots then roots else roots @ [r])"

fun roots_from :: "gate_state list \<Rightarrow> string list \<Rightarrow> string list option" where
  "roots_from [] roots = Some roots"
| "roots_from (g # gs) roots =
     (if gs_root g = [] then None else roots_from gs (note_root roots (gs_root g)))"

definition gateRoots :: "Snapshot \<Rightarrow> string list option" where
  "gateRoots snap =
     (if sn_Recording snap \<noteq> Complete \<or> sn_ProjectRoot snap = [] then None
      else roots_from (sn_Gates snap) [sn_ProjectRoot snap])"

definition onTurnRoots :: "Snapshot \<Rightarrow> string list option \<Rightarrow> string list option" where
  "onTurnRoots snap all =
     (case all of None \<Rightarrow> None
      | Some _ \<Rightarrow> Some (foldl (\<lambda>rs g. if gs_offTurn g then rs else note_root rs (gs_root g)) [] (sn_Gates snap)))"

definition Advisory :: "gate_state list \<Rightarrow> bool" where
  "Advisory gates \<longleftrightarrow> \<not> list_ex gs_Required gates"

definition TurnGate :: "gate_state \<Rightarrow> bool \<Rightarrow> bool" where
  "TurnGate g advisory \<longleftrightarrow> \<not> gs_offTurn g \<and> (gs_Required g \<or> advisory \<and> gs_Source g = sourceLearned)"

section \<open>The row\<close>

record TurnCounts =
  tc_Writes :: nat
  tc_PathsWritten :: nat
  tc_GateRuns :: nat
  tc_LastWriteSeq :: int
  tc_UnnamedWriteSeq :: int
  tc_RewrittenGateSeq :: int
  tc_FirstSeq :: int

datatype Row =
  RowNone | RowUnknown | RowRed | RowMasked | RowBackgrounded | RowRanOnly
| RowUnverified | RowNoGate | RowUnnamedWrite | RowVerified | RowFindings

definition Rows :: "Row list" where
  "Rows =
     [RowUnknown, RowRed, RowMasked, RowBackgrounded, RowRanOnly, RowUnverified, RowNoGate,
      RowUnnamedWrite, RowVerified, RowFindings]"

record Summary =
  su_Row :: Row
  su_Sentence :: string
  su_Findings :: nat

definition sentenceRecordingIncomplete :: string where
  "sentenceRecordingIncomplete = ''recording incomplete for this turn; verification state unknown''"

definition sentenceAdvisoryOnly :: string where
  "sentenceAdvisoryOnly = ''advisory only''"

fun Itoa :: "nat \<Rightarrow> string" where
  "Itoa n = (if n < 10 then [char_of (48 + n)] else Itoa (n div 10) @ [char_of (48 + n mod 10)])"

declare Itoa.simps [simp del]

definition findingsSentence :: "nat \<Rightarrow> string" where
  "findingsSentence k = Itoa k @ '' record finding(s) in this turn''"

fun rowFor :: "state \<Rightarrow> Row" where
  "rowFor Red = RowRed"
| "rowFor MaskedInconclusive = RowMasked"
| "rowFor Backgrounded = RowBackgrounded"
| "rowFor Stale = RowUnverified"
| "rowFor Absent = RowUnverified"
| "rowFor _ = RowUnknown"

definition summary_row :: "Row \<Rightarrow> string \<Rightarrow> nat \<Rightarrow> Summary" where
  "summary_row r s k = \<lparr>su_Row = r, su_Sentence = s, su_Findings = k\<rparr>"

definition advisory_summary :: "Summary \<Rightarrow> bool" where
  "advisory_summary s \<longleftrightarrow> su_Sentence s = sentenceAdvisoryOnly"

definition FindingsClause :: "Summary \<Rightarrow> string" where
  "FindingsClause s =
     (if su_Findings s = 0 \<or> su_Row s = RowFindings then [] else findingsSentence (su_Findings s))"

text \<open>What the walk over the turn's gates holds: the states it read, a defect seen, the earliest green.\<close>

record turn_walk =
  tw_states :: "state list"
  tw_defect :: bool
  tw_earliest :: int

definition turn_walk0 :: turn_walk where
  "turn_walk0 = \<lparr>tw_states = [], tw_defect = False, tw_earliest = -1\<rparr>"

definition turn_gate :: "bool \<Rightarrow> turn_walk \<Rightarrow> gate_state \<Rightarrow> turn_walk" where
  "turn_gate advisory s g =
     (if \<not> TurnGate g advisory then s
      else if Rank (gs_State g) < 0 then s\<lparr>tw_defect := True\<rparr>
      else if gs_State g = Green \<and> gs_LastGreen g = None then s\<lparr>tw_defect := True\<rparr>
      else (let green = (case gs_LastGreen g of None \<Rightarrow> 0 | Some l \<Rightarrow> rr_Seq l) in
            s\<lparr>tw_states := tw_states s @ [gs_State g],
              tw_earliest := (if tw_earliest s < 0 \<or> green < tw_earliest s then green else tw_earliest s)\<rparr>))"

definition turn_green :: "Snapshot \<Rightarrow> bool" where
  "turn_green snap =
     (if list_ex gs_offTurn (sn_Gates snap) then fst (recordGreen (sn_Gates snap) (recordFindings snap))
      else sn_RecordGreen snap)"

definition turn_row :: "Snapshot \<Rightarrow> TurnCounts \<Rightarrow> bool \<Rightarrow> turn_walk \<Rightarrow> state option \<Rightarrow> Row" where
  "turn_row snap turn advisory s worst =
     (if worst \<noteq> None \<and> worst \<noteq> Some Green then (case worst of None \<Rightarrow> RowUnknown | Some w \<Rightarrow> rowFor w)
      else if tw_defect s then RowUnknown
      else if tc_Writes turn = 0 then RowRanOnly
      else if advisory then RowUnverified
      else if tc_UnnamedWriteSeq turn > tw_earliest s then RowUnnamedWrite
      else if turn_green snap then RowVerified
      else RowFindings)"

definition TurnSummary :: "Snapshot \<Rightarrow> TurnCounts \<Rightarrow> Summary" where
  "TurnSummary snap turn =
     (if tc_Writes turn = 0 \<and> tc_GateRuns turn = 0 then summary_row RowNone [] 0
      else
        (let k = recordFindings snap in
         if sn_Recording snap \<noteq> Complete then summary_row RowUnknown sentenceRecordingIncomplete k
         else
           (let advisory = Advisory (sn_Gates snap);
                s = foldl (turn_gate advisory) turn_walk0 (sn_Gates snap);
                worst = Worst (tw_states s)
            in if worst = None \<and> \<not> tw_defect s \<and> tc_Writes turn = 0 then summary_row RowNone [] 0
               else if worst = None \<and> \<not> tw_defect s then summary_row RowNoGate [] k
               else (let row = turn_row snap turn advisory s worst in
                     summary_row row
                       (if advisory then sentenceAdvisoryOnly else if row = RowFindings then findingsSentence k else [])
                       k))))"

section \<open>Record-green\<close>

definition blocks :: "gate_state \<Rightarrow> bool" where
  "blocks g \<longleftrightarrow> gs_Required g \<and> \<not> gs_offTurn g"

lemma green_scan_simps:
  "green_scan [] at = Some at"
  "green_scan (g # gs) at =
     (if \<not> blocks g then green_scan gs at
      else if gs_State g \<noteq> Green then None
      else (case gs_LastGreen g of None \<Rightarrow> None
            | Some l \<Rightarrow> green_scan gs (Some (case at of None \<Rightarrow> rr_Seq l | Some a \<Rightarrow> max a (rr_Seq l)))))"
  by (auto simp: blocks_def max_def split: option.split)

declare green_scan.simps [simp del]

definition greens :: "gate_state list \<Rightarrow> int list" where
  "greens gates = List.map_filter (\<lambda>g. if blocks g then map_option rr_Seq (gs_LastGreen g) else None) gates"

lemma greens_simps [simp]:
  "greens [] = []"
  "greens (g # gs) = (if blocks g then (case gs_LastGreen g of None \<Rightarrow> [] | Some l \<Rightarrow> [rr_Seq l]) else []) @ greens gs"
  by (auto simp: greens_def split: option.split)

text \<open>A gate of the turn that is required is green, with the run that made it so.\<close>

definition stands_green :: "gate_state \<Rightarrow> bool" where
  "stands_green g \<longleftrightarrow> gs_State g = Green \<and> gs_LastGreen g \<noteq> None"

lemma green_scan_value:
  "green_scan gates at =
     (if list_ex (\<lambda>g. blocks g \<and> \<not> stands_green g) gates then None
      else Some (foldl (\<lambda>a s. Some (case a of None \<Rightarrow> s | Some x \<Rightarrow> max x s)) at (greens gates)))"
  by (induction gates arbitrary: at) (auto simp: green_scan_simps stands_green_def split: option.split)

lemma fold_max:
  "foldl (\<lambda>a s. Some (case a of None \<Rightarrow> s | Some x \<Rightarrow> max x s)) (Some (m::int)) xs = Some (Max (set (m # xs)))"
proof (induction xs arbitrary: m)
  case (Cons x xs)
  have "Max (set (max m x # xs)) = Max (set (m # x # xs))"
    by (cases "xs = []") (simp_all add: max.assoc)
  with Cons show ?case by simp
qed simp

lemma green_scan_Some:
  "green_scan gates None = Some (Some a) \<longleftrightarrow>
     \<not> list_ex (\<lambda>g. blocks g \<and> \<not> stands_green g) gates \<and> greens gates \<noteq> [] \<and> a = Max (set (greens gates))"
  by (cases "greens gates") (auto simp: green_scan_value fold_max)

lemma greens_Nil: "\<not> list_ex (\<lambda>g. blocks g \<and> \<not> stands_green g) gates \<Longrightarrow> greens gates = [] \<longleftrightarrow> \<not> list_ex blocks gates"
  by (induction gates) (auto simp: stands_green_def split: option.split)

lemma recordGreen_value:
  "recordGreen gates k = (True, at) \<longleftrightarrow>
     k = 0 \<and> list_ex blocks gates \<and> \<not> list_ex (\<lambda>g. blocks g \<and> \<not> stands_green g) gates \<and>
     at = Some (Max (set (greens gates)))"
proof -
  have "recordGreen gates k = (True, at) \<longleftrightarrow>
      k = 0 \<and> (\<exists>a. green_scan gates None = Some (Some a) \<and> at = Some a)"
    by (auto simp: recordGreen_def split: option.splits)
  then show ?thesis using greens_Nil [of gates] unfolding green_scan_Some by blast
qed

text \<open>
  C23: the record is green exactly when nothing is found against it, at least one gate
  of the turn is required, and every such gate is green with a run that made it so; and
  then as of the latest of those runs.
\<close>

theorem recordGreen_iff:
  "recordGreen gates k = (True, at) \<longleftrightarrow>
     k = 0 \<and> list_ex blocks gates \<and> \<not> list_ex (\<lambda>g. blocks g \<and> \<not> stands_green g) gates \<and>
     at = Some (Max (set (greens gates)))"
  by (rule recordGreen_value)

section \<open>The walk over the turn's gates\<close>

definition turn_gates :: "bool \<Rightarrow> gate_state list \<Rightarrow> gate_state list" where
  "turn_gates advisory gates = filter (\<lambda>g. TurnGate g advisory) gates"

definition defective :: "gate_state \<Rightarrow> bool" where
  "defective g \<longleftrightarrow> Rank (gs_State g) < 0 \<or> gs_State g = Green \<and> gs_LastGreen g = None"

lemma walk_parts:
  "tw_states (foldl (turn_gate adv) s gates) =
     tw_states s @ map gs_State (filter (\<lambda>g. \<not> defective g) (turn_gates adv gates))"
  "tw_defect (foldl (turn_gate adv) s gates) \<longleftrightarrow> tw_defect s \<or> list_ex defective (turn_gates adv gates)"
  by (induction gates arbitrary: s) (auto simp: turn_gate_def turn_gates_def defective_def Let_def)

lemma Worst_empty [simp]: "Worst [] = None"
  by simp

lemma in_vocabulary: "\<not> defective g \<Longrightarrow> 0 \<le> Rank (gs_State g)"
  by (simp add: defective_def)

lemma Worst_red: "Red \<in> set ss \<Longrightarrow> list_all (\<lambda>s. 0 \<le> Rank s) ss \<Longrightarrow> Worst ss = Some Red"
proof -
  assume r: "Red \<in> set ss" and a: "list_all (\<lambda>s. 0 \<le> Rank s) ss"
  then obtain w where w: "Worst ss = Some w" using Worst_Nil [of ss] by (cases "Worst ss") auto
  have "Rank w \<le> 0" using Worst_least [OF w r] by simp
  moreover have "0 \<le> Rank w" using a Worst_member [OF w] by (simp add: list_all_iff)
  ultimately have "Rank w = Rank Red" by simp
  then have "w = Red" using Rank_valid_inj [of w Red] \<open>0 \<le> Rank w\<close> by blast
  with w show ?thesis by simp
qed


definition gate_example_state :: "state \<Rightarrow> gate_state" where
  "gate_example_state st = (absentState [] [] [] 9)\<lparr>gs_Required := True, gs_State := st, gs_LastGreen := Some (run_ref (run_example 5 ExecOK))\<rparr>"

definition snap_example :: "gate_state list \<Rightarrow> Snapshot" where
  "snap_example gates =
     \<lparr>sn_Point = point_at 9 PointStop, sn_ProjectRoot = ''/w'', sn_Recording = Complete, sn_Notes = [], sn_Gates = gates, sn_SpecVerdicts = [],
      sn_Integrity = integrity empty_run Map.empty [] 0 9 [], sn_RecordGreen = fst (recordGreen gates 0),
      sn_RecordGreenAtSeq = snd (recordGreen gates 0)\<rparr>"

definition turn_example :: TurnCounts where
  "turn_example = \<lparr>tc_Writes = 1, tc_PathsWritten = 1, tc_GateRuns = 1, tc_LastWriteSeq = 2, tc_UnnamedWriteSeq = 0,
                   tc_RewrittenGateSeq = 0, tc_FirstSeq = 1\<rparr>"


section \<open>When a turn reads verified\<close>

definition green_seq :: "gate_state \<Rightarrow> int" where
  "green_seq g = (case gs_LastGreen g of None \<Rightarrow> 0 | Some l \<Rightarrow> rr_Seq l)"

lemma walk_earliest_pos:
  assumes "list_all (\<lambda>g. 0 \<le> green_seq g) gates" and "0 \<le> tw_earliest s"
  shows "0 \<le> tw_earliest (foldl (turn_gate adv) s gates) \<and>
         (u \<le> tw_earliest (foldl (turn_gate adv) s gates) \<longleftrightarrow>
            u \<le> tw_earliest s \<and> list_all (\<lambda>g. u \<le> green_seq g) (filter (\<lambda>g. \<not> defective g) (turn_gates adv gates)))"
  using assms
proof (induction gates arbitrary: s)
  case (Cons g gates)
  have pos: "0 \<le> tw_earliest (turn_gate adv s g)"
    using Cons.prems by (auto simp: turn_gate_def green_seq_def Let_def)
  have step: "u \<le> tw_earliest (turn_gate adv s g) \<longleftrightarrow>
      u \<le> tw_earliest s \<and> (TurnGate g adv \<and> \<not> defective g \<longrightarrow> u \<le> green_seq g)"
    using Cons.prems by (auto simp: turn_gate_def green_seq_def defective_def Let_def)
  from Cons.IH [OF _ pos] Cons.prems(1) step show ?case by (auto simp: turn_gates_def)
qed (simp add: turn_gates_def)

lemma walk_earliest:
  assumes "list_all (\<lambda>g. 0 \<le> green_seq g) gates" and "tw_earliest s < 0"
    and "filter (\<lambda>g. \<not> defective g) (turn_gates adv gates) \<noteq> []"
  shows "u \<le> tw_earliest (foldl (turn_gate adv) s gates) \<longleftrightarrow>
         list_all (\<lambda>g. u \<le> green_seq g) (filter (\<lambda>g. \<not> defective g) (turn_gates adv gates))"
  using assms
proof (induction gates arbitrary: s)
  case (Cons g gates)
  show ?case
  proof (cases "TurnGate g adv \<and> \<not> defective g")
    case True
    then have e: "tw_earliest (turn_gate adv s g) = green_seq g"
      using Cons.prems(2) by (simp add: turn_gate_def green_seq_def defective_def Let_def)
    then have "0 \<le> tw_earliest (turn_gate adv s g)" using Cons.prems(1) by simp
    from walk_earliest_pos [OF _ this, of gates adv u] Cons.prems(1) e True show ?thesis
      by (simp add: turn_gates_def)
  next
    case False
    then have "tw_earliest (turn_gate adv s g) = tw_earliest s"
      by (auto simp: turn_gate_def defective_def)
    moreover have "filter (\<lambda>g. \<not> defective g) (turn_gates adv (g # gates)) =
        filter (\<lambda>g. \<not> defective g) (turn_gates adv gates)"
      using False by (auto simp: turn_gates_def)
    ultimately show ?thesis using Cons by simp
  qed
qed (simp add: turn_gates_def)

lemma turn_gates_required: "turn_gates False gates = filter blocks gates"
  unfolding turn_gates_def by (rule filter_cong) (auto simp: TurnGate_def blocks_def)

lemma rowFor_unverified: "rowFor s \<noteq> RowVerified"
  by (cases s) simp_all

lemma stands_green_iff: "stands_green g \<longleftrightarrow> gs_State g = Green \<and> \<not> defective g"
  by (auto simp: stands_green_def defective_def)

lemma all_stand:
  "list_all (\<lambda>s. s = Green) (map gs_State (filter (\<lambda>g. \<not> defective g) gs)) \<and> \<not> list_ex defective gs \<longleftrightarrow>
     \<not> list_ex (\<lambda>g. \<not> stands_green g) gs"
  by (induction gs) (auto simp: stands_green_iff)

lemma row_of_turn:
  assumes "sn_Recording snap = Complete" and "tc_Writes turn > 0"
  shows "su_Row (TurnSummary snap turn) = RowVerified \<longleftrightarrow>
     (let adv = Advisory (sn_Gates snap); s = foldl (turn_gate adv) turn_walk0 (sn_Gates snap) in
      Worst (tw_states s) = Some Green \<and> \<not> tw_defect s \<and> \<not> adv \<and> \<not> tc_UnnamedWriteSeq turn > tw_earliest s \<and>
      turn_green snap)"
  using assms rowFor_unverified
  by (auto simp: TurnSummary_def Let_def summary_row_def turn_row_def split: option.split)

text \<open>
  C21: a turn reads verified exactly when its record is complete, it wrote, at least one
  gate of the turn is required, every such gate is green with a run to show for it, no
  write the record cannot name came after the earliest of those runs, and the record is
  green.
\<close>

theorem TurnSummary_verified_iff:
  assumes "list_all (\<lambda>g. 0 \<le> green_seq g) (sn_Gates snap)"
  shows "su_Row (TurnSummary snap turn) = RowVerified \<longleftrightarrow>
     sn_Recording snap = Complete \<and> tc_Writes turn > 0 \<and> list_ex blocks (sn_Gates snap) \<and>
     \<not> list_ex (\<lambda>g. blocks g \<and> \<not> stands_green g) (sn_Gates snap) \<and>
     \<not> list_ex (\<lambda>g. blocks g \<and> green_seq g < tc_UnnamedWriteSeq turn) (sn_Gates snap) \<and>
     turn_green snap"
proof (cases "sn_Recording snap = Complete \<and> tc_Writes turn > 0")
  case False
  then show ?thesis
    by (auto simp: TurnSummary_def Let_def summary_row_def turn_row_def rowFor_unverified split: option.split)
next
  case True
  let ?gs = "sn_Gates snap" and ?adv = "Advisory (sn_Gates snap)"
  let ?s = "foldl (turn_gate ?adv) turn_walk0 ?gs"
  show ?thesis
  proof (cases ?adv)
    case adv: True
    then have "\<not> list_ex blocks ?gs" by (auto simp: Advisory_def blocks_def list_ex_iff)
    then show ?thesis using row_of_turn [of snap turn] True adv by (simp add: Let_def)
  next
    case adv: False
    let ?ts = "filter blocks ?gs"
    have ts: "turn_gates ?adv ?gs = ?ts" using adv turn_gates_required by simp
    have stand: "Worst (tw_states ?s) = Some Green \<and> \<not> tw_defect ?s \<longleftrightarrow>
        list_ex blocks ?gs \<and> \<not> list_ex (\<lambda>g. blocks g \<and> \<not> stands_green g) ?gs"
    proof -
      have "Worst (tw_states ?s) = Some Green \<and> \<not> tw_defect ?s \<longleftrightarrow>
          filter (\<lambda>g. \<not> defective g) ?ts \<noteq> [] \<and> \<not> list_ex (\<lambda>g. \<not> stands_green g) ?ts"
        unfolding Worst_Green walk_parts ts all_stand [symmetric] by (auto simp: turn_walk0_def)
      also have "\<dots> \<longleftrightarrow> list_ex blocks ?gs \<and> \<not> list_ex (\<lambda>g. blocks g \<and> \<not> stands_green g) ?gs"
        by (auto simp: filter_empty_conv list_ex_iff stands_green_iff)
      finally show ?thesis .
    qed
    have un: "\<not> tc_UnnamedWriteSeq turn > tw_earliest ?s \<longleftrightarrow>
        \<not> list_ex (\<lambda>g. blocks g \<and> green_seq g < tc_UnnamedWriteSeq turn) ?gs"
      if ok: "list_ex blocks ?gs" "\<not> list_ex (\<lambda>g. blocks g \<and> \<not> stands_green g) ?gs"
    proof -
      have keep: "filter (\<lambda>g. \<not> defective g) ?ts = ?ts"
        using ok(2) unfolding filter_id_conv by (auto simp: list_ex_iff stands_green_iff)
      have "filter (\<lambda>g. \<not> defective g) (turn_gates ?adv ?gs) \<noteq> []"
        unfolding ts keep using ok(1) by (auto simp: filter_empty_conv list_ex_iff)
      from walk_earliest [OF assms _ this, of turn_walk0 "tc_UnnamedWriteSeq turn"]
      have "tc_UnnamedWriteSeq turn \<le> tw_earliest ?s \<longleftrightarrow> list_all (\<lambda>g. tc_UnnamedWriteSeq turn \<le> green_seq g) ?ts"
        unfolding ts keep by (simp add: turn_walk0_def)
      then show ?thesis by (auto simp: list_all_iff list_ex_iff)
    qed
    show ?thesis
      using row_of_turn [of snap turn] True adv stand un by (simp add: Let_def, blast)
  qed
qed

theorem TurnSummary_verified_iff_witness:
  "su_Row (TurnSummary (snap_example [gate_example_state Green]) turn_example) = RowVerified"
proof -
  have a: "list_all (\<lambda>g. 0 \<le> green_seq g) (sn_Gates (snap_example [gate_example_state Green]))" by code_simp
  show ?thesis
    unfolding TurnSummary_verified_iff [OF a] by code_simp
qed

end
