(* ===== verification/Rules.thy ===== *)
theory Rules
  imports RuleMatch PathMatch Summary
begin

text \<open>
  The verdicts of a spec's rules over a record, \<^verbatim>\<open>internal/verify\<close> (rules.go, rules_order.go):
  each rule read over the lines, the writes, the hits a hook filed when a call landed, or the
  gates at the point. A read gives the seqs of the calls that broke the rule and whether some
  call may have; the verdict follows. Go's maps of \<open>thenChecks\<close> are maps; a zero entry is an
  absent one, as the code reads them.
\<close>

section \<open>The spec that applies\<close>

record Source =
  so_Path :: string
  so_Digest :: string
  so_Trust :: trust

record DeclaredRule =
  dr_ID :: string
  dr_Source :: int
  dr_Rule :: Rule

record Compiled =
  cd_Sources :: "Source list"
  cd_Rules :: "DeclaredRule list"

definition SourceImplied :: int where
  "SourceImplied = -1"

definition sourceDigest :: "Compiled \<Rightarrow> int \<Rightarrow> string" where
  "sourceDigest sp src =
     (if src < 0 \<or> src \<ge> int (length (cd_Sources sp)) then [] else so_Digest (cd_Sources sp ! nat src))"

text \<open>A source outside the list panics in Go.\<close>

definition TrustOf :: "Compiled \<Rightarrow> int \<Rightarrow> trust option" where
  "TrustOf sp src =
     (if src = SourceImplied then Some Builtin
      else if src < 0 \<or> src \<ge> int (length (cd_Sources sp)) then None
      else Some (so_Trust (cd_Sources sp ! nat src)))"

section \<open>A rule's reading\<close>

record ruleRead =
  rd_seqs :: "int list"
  rd_undecided :: bool
  rd_reason :: string

definition rule_read :: "int list \<Rightarrow> bool \<Rightarrow> ruleRead" where
  "rule_read seqs u = \<lparr>rd_seqs = seqs, rd_undecided = u, rd_reason = []\<rparr>"

definition read_verdict :: "ruleRead \<Rightarrow> RuleVerdictValue" where
  "read_verdict r =
     (if rd_seqs r \<noteq> [] then Violation else if rd_undecided r then RuleUnknown else NoRecordedViolation)"

section \<open>The lines\<close>

record ruleLine =
  rl_seq :: int
  rl_cmds :: "Command list"
  rl_whole :: bool
  rl_id :: string
  rl_cwd :: string

definition lineOf :: "decl \<Rightarrow> string option \<Rightarrow> bool \<Rightarrow> bool \<Rightarrow> ruleLine" where
  "lineOf d line trimmed blanked =
     (let l = \<lparr>rl_seq = d_Seq d, rl_cmds = [], rl_whole = False, rl_id = d_ToolUseID d, rl_cwd = d_CWDDigest d\<rparr> in
      (case line of
         None \<Rightarrow> l
       | Some s \<Rightarrow>
           if trimmed then l
           else (case Commands s of (cmds, ok) \<Rightarrow> l\<lparr>rl_cmds := cmds, rl_whole := ok \<and> \<not> blanked\<rparr>)))"

definition decl_lines :: "(string \<rightharpoonup> execution) \<Rightarrow> decl \<Rightarrow> ruleLine list" where
  "decl_lines picked d =
     lineOf d (d_Command d) (d_CommandCut d \<noteq> None) (d_Masked d \<noteq> []) #
     (case picked (d_ToolUseID d) of
        None \<Rightarrow> []
      | Some e \<Rightarrow>
          if e_ExecutedCommand e \<noteq> None
          then [lineOf d (e_ExecutedCommand e) (e_ExecutedCommandCut e \<noteq> None) (e_ExecutedMasked e \<noteq> [])]
          else if e_ExecutedCommandWithheld e \<noteq> None then [lineOf d None False False]
          else [])"

definition ruleLines :: "run \<Rightarrow> (string \<rightharpoonup> execution) \<Rightarrow> int \<Rightarrow> ruleLine list" where
  "ruleLines r picked at =
     concat (map (decl_lines picked) (filter (\<lambda>d. \<not> (d_Seq d > at \<or> d_ToolName d \<noteq> ''Bash'')) (r_Declarations r)))"

text \<open>The join over a line's commands, which stops at the first certain match.\<close>

fun best_match :: "CommandMatch \<Rightarrow> Command list \<Rightarrow> tri \<Rightarrow> tri" where
  "best_match m [] t = t"
| "best_match m (c # cs) t = (let u = max t (commandMatch m c) in if u = TriYes then u else best_match m cs u)"

definition lineMatch :: "CommandMatch \<Rightarrow> ruleLine \<Rightarrow> tri" where
  "lineMatch m l = best_match m (rl_cmds l) (triOf False (\<not> rl_whole l))"

definition has_argv :: "CommandMatch option \<Rightarrow> bool" where
  "has_argv m = (case m of None \<Rightarrow> False | Some c \<Rightarrow> cx_Argv c \<noteq> [])"

definition forbid_line :: "CommandMatch \<Rightarrow> ruleRead \<Rightarrow> ruleLine \<Rightarrow> ruleRead" where
  "forbid_line m r l =
     (case lineMatch m l of
        TriYes \<Rightarrow> r\<lparr>rd_seqs := rd_seqs r @ [rl_seq l]\<rparr>
      | TriMaybe \<Rightarrow> r\<lparr>rd_undecided := True\<rparr>
      | TriNo \<Rightarrow> r)"

definition forbidOver :: "CommandMatch option \<Rightarrow> ruleLine list \<Rightarrow> ruleRead" where
  "forbidOver m lines =
     (case m of
        None \<Rightarrow> rule_read [] True
      | Some c \<Rightarrow> if cx_Argv c = [] then rule_read [] True else foldl (forbid_line c) (rule_read [] False) lines)"

section \<open>The hits of a landed call\<close>

text \<open>The first execution at the seq decides; its call's first declaration has the hit's seq.\<close>

definition hitSeq :: "run \<Rightarrow> int \<Rightarrow> int" where
  "hitSeq r at =
     (case find (\<lambda>x. e_Seq x = Some at) (r_Executions r) of
        None \<Rightarrow> at
      | Some x \<Rightarrow>
          (case find (\<lambda>d. d_ToolUseID d = e_ToolUseID x) (r_Declarations r) of
             None \<Rightarrow> at
           | Some d \<Rightarrow> d_Seq d))"

definition landed_by :: "int \<Rightarrow> int \<Rightarrow> bool" where
  "landed_by at s \<longleftrightarrow> s > 0 \<and> s \<le> at"

definition ruleHitSeqs :: "run \<Rightarrow> string \<Rightarrow> string \<Rightarrow> int \<Rightarrow> int list" where
  "ruleHitSeqs r rid digest at =
     (if digest = [] then []
      else map (\<lambda>h. hitSeq r (se_LandedSeq h))
             (filter (\<lambda>h. se_Reason h = ''rule_hit'' \<and> se_RuleID h = rid \<and> se_SourceDigest h = digest \<and>
                          landed_by at (se_LandedSeq h)) (r_SpecEvents r)))"

record afterHit =
  hh_seq :: int
  hh_exit :: "int option"
  hh_fg :: bool
  hh_cwd :: string
  hh_maybe :: bool

definition afterHits :: "run \<Rightarrow> string \<Rightarrow> string \<Rightarrow> int \<Rightarrow> afterHit list" where
  "afterHits r rid digest at =
     (if digest = [] then []
      else map (\<lambda>h. \<lparr>hh_seq = hitSeq r (ah_LandedSeq h), hh_exit = ah_ExitCode h, hh_fg = ah_Foreground h,
                     hh_cwd = ah_CWDDigest h, hh_maybe = ah_Maybe h\<rparr>)
             (filter (\<lambda>h. ah_RuleID h = rid \<and> ah_SourceDigest h = digest \<and> landed_by at (ah_LandedSeq h))
                     (r_AfterHits r)))"

definition at_key :: "('a \<rightharpoonup> int) \<Rightarrow> 'a \<Rightarrow> int" where
  "at_key m k = (case m k of None \<Rightarrow> 0 | Some v \<Rightarrow> v)"

definition then_tri :: "string \<Rightarrow> tri" where
  "then_tri w = (if w = ''yes'' then TriYes else if w = ''no'' then TriNo else TriMaybe)"

definition thenWord :: "tri \<Rightarrow> string" where
  "thenWord t = (case t of TriYes \<Rightarrow> ''yes'' | TriNo \<Rightarrow> ''no'' | TriMaybe \<Rightarrow> ''maybe'')"

definition first_decls :: "decl list \<Rightarrow> (string \<rightharpoonup> int)" where
  "first_decls ds =
     foldl (\<lambda>m d. if at_key m (d_ToolUseID d) = 0 then m(d_ToolUseID d \<mapsto> d_Seq d) else m) Map.empty ds"

definition landed_decls :: "(string \<rightharpoonup> int) \<Rightarrow> execution list \<Rightarrow> (int \<rightharpoonup> int)" where
  "landed_decls dm es =
     foldl (\<lambda>m x. case e_Seq x of
              None \<Rightarrow> m
            | Some s \<Rightarrow> if at_key m s = 0 \<and> at_key dm (e_ToolUseID x) \<noteq> 0
                        then m(s \<mapsto> at_key dm (e_ToolUseID x)) else m) Map.empty es"

definition note_check :: "(int \<rightharpoonup> int) \<Rightarrow> (int \<rightharpoonup> tri) \<Rightarrow> then_check \<Rightarrow> (int \<rightharpoonup> tri)" where
  "note_check dm m c =
     (let t = then_tri (th_Then c);
          s = (if at_key dm (th_LandedSeq c) \<noteq> 0 then at_key dm (th_LandedSeq c) else th_LandedSeq c)
      in m(s \<mapsto> (case m s of None \<Rightarrow> t | Some old \<Rightarrow> if old \<noteq> t then TriMaybe else t)))"

definition thenChecks :: "run \<Rightarrow> string \<Rightarrow> string \<Rightarrow> int \<Rightarrow> (int \<rightharpoonup> tri)" where
  "thenChecks r rid digest at =
     (if digest = [] \<or> r_ThenChecks r = [] then Map.empty
      else foldl (note_check (landed_decls (first_decls (r_Declarations r)) (r_Executions r))) Map.empty
             (filter (\<lambda>c. \<not> (th_RuleID c \<noteq> rid \<or> th_SourceDigest c \<noteq> digest \<or> th_LandedSeq c \<le> 0 \<or>
                             th_LandedSeq c > at)) (r_ThenChecks r)))"

section \<open>The writes\<close>

definition projectPath :: "string \<Rightarrow> string \<times> bool" where
  "projectPath p =
     (let q = Clean p in
      if IsAbs q \<or> q = ''..'' \<or> HasPrefix q ''../'' \<or> length q > 1 \<and> q ! 1 = CHR '':'' then ([], False)
      else (q, True))"

definition projectRel :: "wr \<Rightarrow> string \<times> bool" where
  "projectRel w = (case w_Path w of None \<Rightarrow> ([], False) | Some p \<Rightarrow> projectPath p)"

definition anyPath :: "string list \<Rightarrow> string \<Rightarrow> bool" where
  "anyPath patterns rel = list_ex (\<lambda>p. MatchPath p rel) patterns"

definition protects :: "Rule \<Rightarrow> string \<Rightarrow> bool" where
  "protects r rel \<longleftrightarrow> anyPath (ru_Paths r) rel \<and> \<not> anyPath (ru_ExcludePaths r) rel"

definition modeTri :: "string \<Rightarrow> string list \<Rightarrow> tri" where
  "modeTri tool modes =
     (if modes = [] then TriYes
      else (let create = ''create'' \<in> set modes; modify = ''modify'' \<in> set modes; del = ''delete'' \<in> set modes in
        if tool = ''Edit'' \<or> tool = ''MultiEdit'' \<or> tool = ''NotebookEdit'' then triOf modify modify
        else if tool = ''Write'' then triOf (create \<and> modify) (create \<or> modify)
        else triOf (create \<and> modify \<and> del) (create \<or> modify \<or> del)))"

text \<open>A path word of a shell line that may stand for several files.\<close>

definition globbed :: "wr \<Rightarrow> string \<Rightarrow> bool" where
  "globbed w rel \<longleftrightarrow> w_Tool w = ''Bash'' \<and> ContainsAny rel ''*?[{''"

definition mcp_tool :: "wr \<Rightarrow> bool" where
  "mcp_tool w \<longleftrightarrow> HasPrefix (w_Tool w) ''mcp__''"

record protect_walk =
  pw_read :: ruleRead
  pw_blind :: nat

definition protect_write :: "Rule \<Rightarrow> int \<Rightarrow> protect_walk \<Rightarrow> wr \<Rightarrow> protect_walk" where
  "protect_write r at s w =
     (let out = pw_read s; rel = fst (projectRel w); inside = snd (projectRel w) in
      if w_Seq w > at then s
      else if w_Path w = None
      then s\<lparr>pw_blind := pw_blind s + 1, pw_read := out\<lparr>rd_undecided := rd_undecided out \<or> \<not> mcp_tool w\<rparr>\<rparr>
      else if \<not> inside then s
      else if globbed w rel then s\<lparr>pw_read := out\<lparr>rd_undecided := True\<rparr>\<rparr>
      else if \<not> protects r rel then s
      else (case modeTri (w_Tool w) (ru_Modes r) of
              TriYes \<Rightarrow> s\<lparr>pw_read := out\<lparr>rd_seqs := rd_seqs out @ [w_Seq w]\<rparr>\<rparr>
            | TriMaybe \<Rightarrow> s\<lparr>pw_read := out\<lparr>rd_undecided := True\<rparr>\<rparr>
            | TriNo \<Rightarrow> s))"

definition protectOver :: "Rule \<Rightarrow> classification \<Rightarrow> int \<Rightarrow> ruleRead" where
  "protectOver r c at =
     (if ru_Paths r = [] then rule_read [] True
      else
        (let s = foldl (protect_write r at) \<lparr>pw_read = rule_read [] False, pw_blind = 0\<rparr> (cl_writes c);
             unnamed = length (filter (\<lambda>x. x \<le> at) (cl_unnamed c)); out = pw_read s in
         out\<lparr>rd_undecided := rd_undecided out \<or> unnamed > pw_blind s\<rparr>))"

definition ReasonContentNotRead :: string where
  "ReasonContentNotRead = ''content not read''"

definition empty_rule :: Rule where
  "empty_rule =
     \<lparr>ru_Kind = [], ru_HardControl = [], ru_Alternative = [], ru_Pattern = [], ru_Paths = [],
      ru_ExcludePaths = [], ru_Command = None, ru_Modes = [], ru_At = [], ru_Evidence = [], ru_Then = None,
      ru_After = None, ru_SameRunKey = [], ru_InvalidatedBy = []\<rparr>"

definition codeOver :: "Rule \<Rightarrow> classification \<Rightarrow> int \<Rightarrow> ruleRead" where
  "codeOver r c at =
     (if ru_Pattern r = [] \<or> ru_Paths r = [] then rule_read [] True
      else
        (let w = protectOver (empty_rule\<lparr>ru_Paths := ru_Paths r, ru_ExcludePaths := ru_ExcludePaths r\<rparr>) c at in
         if rd_seqs w = [] \<and> \<not> rd_undecided w then rule_read [] False
         else (rule_read [] True)\<lparr>rd_reason := ReasonContentNotRead\<rparr>))"

section \<open>Order\<close>

definition hasHit :: "afterHit list \<Rightarrow> int \<Rightarrow> bool" where
  "hasHit hits s = list_ex (\<lambda>h. hh_seq h = s) hits"

definition afterRan :: "afterHit \<Rightarrow> ruleLine \<Rightarrow> tri" where
  "afterRan h l =
     (if hh_maybe h then TriMaybe
      else if hh_exit h = None \<or> hh_exit h \<noteq> Some 0 \<or> \<not> hh_fg h then TriNo
      else if hh_cwd h = [] \<or> rl_cwd l = [] then TriMaybe
      else if hh_cwd h \<noteq> rl_cwd l then TriNo
      else TriYes)"

fun untouched_from :: "string list \<Rightarrow> wr list \<Rightarrow> int \<Rightarrow> int \<Rightarrow> int \<Rightarrow> tri \<Rightarrow> tri" where
  "untouched_from pats [] since before at t = t"
| "untouched_from pats (w # ws) since before at t =
     (let rel = fst (projectRel w); inside = snd (projectRel w) in
      if w_Seq w \<le> since \<or> w_Seq w \<ge> before \<or> w_Seq w > at then untouched_from pats ws since before at t
      else if w_Path w = None
      then untouched_from pats ws since before at (if mcp_tool w then t else TriMaybe)
      else if \<not> inside then untouched_from pats ws since before at t
      else if globbed w rel then untouched_from pats ws since before at TriMaybe
      else if anyPath pats rel then TriNo
      else untouched_from pats ws since before at t)"

definition untouched :: "Rule \<Rightarrow> classification \<Rightarrow> int \<Rightarrow> int \<Rightarrow> int \<Rightarrow> tri" where
  "untouched r c since before at =
     (if ru_InvalidatedBy r = [] then TriYes
      else untouched_from (ru_InvalidatedBy r) (cl_writes c) since before at TriYes)"

text \<open>The best the record shows of the command that must come first, before line \<open>l\<close>.\<close>

definition before_best ::
  "Rule \<Rightarrow> CommandMatch \<Rightarrow> ruleLine list \<Rightarrow> afterHit list \<Rightarrow> classification \<Rightarrow> int \<Rightarrow> tri \<Rightarrow> ruleLine \<Rightarrow> tri" where
  "before_best r am lines hits c at own l =
     (let b0 = (if own \<noteq> TriNo then TriMaybe else TriNo);
          b1 = foldl (\<lambda>b h. if hh_seq h \<ge> rl_seq l then b
                            else max b (min (afterRan h l) (untouched r c (hh_seq h) (rl_seq l) at))) b0 hits
      in foldl (\<lambda>b a. if rl_seq a < rl_seq l \<and> rl_cmds a \<noteq> [] \<and> lineMatch am a \<noteq> TriNo \<and> \<not> hasHit hits (rl_seq a)
                      then max b TriMaybe else b) b1 lines)"

text \<open>
  What a line is to the rule: its own reading, or the check the hook filed of a line the
  record does not hold whole.
\<close>

definition order_own ::
  "CommandMatch \<Rightarrow> CommandMatch \<Rightarrow> afterHit list \<Rightarrow> (int \<rightharpoonup> tri) \<Rightarrow> ruleLine \<Rightarrow> tri \<times> tri" where
  "order_own tm am hits checks l =
     (case checks (rl_seq l) of
        Some t \<Rightarrow> if \<not> rl_whole l then (t, triOf False (hasHit hits (rl_seq l))) else (lineMatch tm l, lineMatch am l)
      | None \<Rightarrow> (lineMatch tm l, lineMatch am l))"

definition order_line ::
  "Rule \<Rightarrow> CommandMatch \<Rightarrow> CommandMatch \<Rightarrow> ruleLine list \<Rightarrow> afterHit list \<Rightarrow> (int \<rightharpoonup> tri) \<Rightarrow> classification \<Rightarrow> int \<Rightarrow>
     ruleRead \<Rightarrow> ruleLine \<Rightarrow> ruleRead" where
  "order_line r tm am lines hits checks c at out l =
     (let own = order_own tm am hits checks l in
      if fst own = TriNo then out
      else (let best = before_best r am lines hits c at (snd own) l in
        if best = TriYes then out
        else if best = TriMaybe \<or> fst own = TriMaybe then out\<lparr>rd_undecided := True\<rparr>
        else out\<lparr>rd_seqs := rd_seqs out @ [rl_seq l]\<rparr>))"

definition orderOver ::
  "Rule \<Rightarrow> ruleLine list \<Rightarrow> afterHit list \<Rightarrow> (int \<rightharpoonup> tri) \<Rightarrow> classification \<Rightarrow> int \<Rightarrow> ruleRead" where
  "orderOver r lines hits checks c at =
     (case (ru_Then r, ru_After r) of
        (Some tm, Some am) \<Rightarrow>
          if cx_Argv tm = [] \<or> cx_Argv am = [] \<or> ru_SameRunKey r \<noteq> [] then rule_read [] True
          else foldl (order_line r tm am lines hits checks c at) (rule_read [] False) lines
      | _ \<Rightarrow> rule_read [] True)"

section \<open>Evidence\<close>

definition gateTri :: "state \<Rightarrow> tri" where
  "gateTri s = (if s = Green then TriYes else if s = Unknown then TriMaybe else TriNo)"

definition atWord :: "string \<Rightarrow> string option" where
  "atWord kind =
     (if kind = PointStop then Some ''done''
      else if kind \<in> {PointCommit, PointPush, PointPR, PointSubtask} then Some kind
      else None)"

definition evidenceTri :: "string \<Rightarrow> gate_state list \<Rightarrow> tri" where
  "evidenceTri ev gates =
     (case CutPrefix ev ''kind:'' of (k, ok) \<Rightarrow>
       if ok
       then (let gs = filter (\<lambda>g. gs_Kind g = k) gates;
                 t = foldl (\<lambda>t g. max t (gateTri (gs_State g))) TriNo gs in
             triOf (gs \<noteq> [] \<and> t = TriYes) (gs = [] \<or> t \<noteq> TriNo))
       else (case find (\<lambda>g. CutPrefix (gs_Gate g) ''spec:'' = (ev, True)) gates of
               None \<Rightarrow> TriMaybe
             | Some g \<Rightarrow> gateTri (gs_State g)))"

definition evidenceAt :: "Rule \<Rightarrow> Snapshot \<Rightarrow> bool \<Rightarrow> ruleRead option" where
  "evidenceAt r snap wrote =
     (if ru_At r = [] then Some (rule_read [] True)
      else (case atWord (pt_Kind (sn_Point snap)) of
              None \<Rightarrow> None
            | Some word \<Rightarrow>
                if word \<notin> set (ru_At r) \<or> word = ''done'' \<and> \<not> wrote then None
                else if ru_Evidence r = [] then Some (rule_read [] True)
                else (case foldl (\<lambda>t ev. min t (evidenceTri ev (sn_Gates snap))) TriYes (ru_Evidence r) of
                        TriNo \<Rightarrow> Some (rule_read [pt_Seq (sn_Point snap)] False)
                      | TriMaybe \<Rightarrow> Some (rule_read [] True)
                      | TriYes \<Rightarrow> Some (rule_read [] False))))"

section \<open>The verdicts\<close>

definition rule_reading ::
  "Compiled \<Rightarrow> run \<Rightarrow> (string \<rightharpoonup> execution) \<Rightarrow> classification \<Rightarrow> Snapshot \<Rightarrow> bool \<Rightarrow> DeclaredRule \<Rightarrow> ruleRead option" where
  "rule_reading sp r picked c snap wrote dr =
     (let rule = dr_Rule dr; at = pt_Seq (sn_Point snap); d = sourceDigest sp (dr_Source dr);
          lines = ruleLines r picked at in
      (if ru_Kind rule = ForbidCommand
       then (let rd = forbidOver (ru_Command rule) lines in
             Some (rd\<lparr>rd_seqs := rd_seqs rd @ ruleHitSeqs r (dr_ID dr) d at\<rparr>))
       else if ru_Kind rule = ProtectPath then Some (protectOver rule c at)
       else if ru_Kind rule = ForbidCode then Some (codeOver rule c at)
       else if ru_Kind rule = OrderKind
       then Some (orderOver rule lines (afterHits r (dr_ID dr) d at) (thenChecks r (dr_ID dr) d at) c at)
       else if ru_Kind rule = RequireEvidence then evidenceAt rule snap wrote
       else None))"

definition verdict_row :: "DeclaredRule \<Rightarrow> ruleRead \<Rightarrow> trust \<Rightarrow> RuleVerdict" where
  "verdict_row dr rd t =
     \<lparr>rv_Rule = dr_ID dr, rv_Kind = ru_Kind (dr_Rule dr), rv_Verdict = read_verdict rd,
      rv_Seqs = remdups_adj (sort (rd_seqs rd)), rv_HardControl = ru_HardControl (dr_Rule dr),
      rv_trust = t, rv_reason = rd_reason rd\<rparr>"

text \<open>\<open>None\<close> is the panic of \<open>TrustOf\<close> on a source outside the list.\<close>

fun verdicts_of ::
  "Compiled \<Rightarrow> (DeclaredRule \<Rightarrow> ruleRead option) \<Rightarrow> DeclaredRule list \<Rightarrow> RuleVerdict list option" where
  "verdicts_of sp reading [] = Some []"
| "verdicts_of sp reading (dr # drs) =
     (case reading dr of
        None \<Rightarrow> verdicts_of sp reading drs
      | Some rd \<Rightarrow>
          (case TrustOf sp (dr_Source dr) of
             None \<Rightarrow> None
           | Some t \<Rightarrow> map_option ((#) (verdict_row dr rd t)) (verdicts_of sp reading drs)))"

definition ruleVerdicts ::
  "Compiled option \<Rightarrow> run \<Rightarrow> (string \<rightharpoonup> execution) \<Rightarrow> classification \<Rightarrow> Snapshot \<Rightarrow> bool \<Rightarrow>
     RuleVerdict list option" where
  "ruleVerdicts sp r picked c snap wrote =
     (case sp of
        None \<Rightarrow> Some []
      | Some p \<Rightarrow> verdicts_of p (rule_reading p r picked c snap wrote) (cd_Rules p))"

section \<open>Lines\<close>

lemma best_match_yes:
  "best_match m cs t = TriYes \<longleftrightarrow> t = TriYes \<or> list_ex (\<lambda>c. commandMatch m c = TriYes) cs"
  by (induction m cs t rule: best_match.induct) (auto simp: Let_def tri_max_eq)

lemma best_match_no:
  "best_match m cs t = TriNo \<longleftrightarrow> t = TriNo \<and> list_all (\<lambda>c. commandMatch m c = TriNo) cs"
  by (induction m cs t rule: best_match.induct) (auto simp: Let_def tri_max_eq)

text \<open>A line as the record holds it: its commands were read from a text.\<close>

definition line_ok :: "ruleLine \<Rightarrow> bool" where
  "line_ok l \<longleftrightarrow> list_all command_ok (rl_cmds l)"

lemma lineOf_ok: "line_ok (lineOf d line cutoff hid)"
proof (cases line)
  case (Some s)
  have "list_all command_ok (fst (Commands s))" by (rule Commands_ok)
  with Some show ?thesis by (auto simp: lineOf_def line_ok_def Let_def split: prod.split)
qed (simp add: lineOf_def line_ok_def)

lemma ruleLines_ok: "list_all line_ok (ruleLines r picked at)"
  by (auto simp: list_all_iff ruleLines_def decl_lines_def lineOf_ok split: option.splits if_splits)

lemma lineMatch_yes:
  assumes "line_ok l"
  shows "lineMatch m l = TriYes \<longleftrightarrow> list_ex (literal_match m) (rl_cmds l)"
  using assms commandMatch_yes [of _ m]
  by (auto simp: lineMatch_def best_match_yes line_ok_def list_all_iff list_ex_iff)

lemma forbid_fold:
  "rd_seqs (foldl (forbid_line m) rd lines) =
     rd_seqs rd @ map rl_seq (filter (\<lambda>l. lineMatch m l = TriYes) lines)"
  by (induction lines arbitrary: rd) (auto simp: forbid_line_def split: tri.split)

lemma forbid_undecided:
  "rd_undecided (foldl (forbid_line m) rd lines) \<longleftrightarrow>
     rd_undecided rd \<or> list_ex (\<lambda>l. lineMatch m l = TriMaybe) lines"
  by (induction lines arbitrary: rd) (auto simp: forbid_line_def split: tri.split)

text \<open>
  C3: a forbid_command rule names exactly the recorded lines that hold its words: the program by
  its base name, the words after it literally and none of them one the shell expands, with the
  flag conditions met. A line that may run the program another way is never named.
\<close>

theorem forbidOver_seqs:
  "rd_seqs (forbidOver (Some m) (ruleLines r picked at)) =
     (if cx_Argv m = [] then []
      else map rl_seq (filter (\<lambda>l. list_ex (literal_match m) (rl_cmds l)) (ruleLines r picked at)))"
proof -
  have "filter (\<lambda>l. lineMatch m l = TriYes) (ruleLines r picked at) =
        filter (\<lambda>l. list_ex (literal_match m) (rl_cmds l)) (ruleLines r picked at)"
    using ruleLines_ok [of r picked at] by (intro filter_cong) (auto simp: list_all_iff lineMatch_yes)
  then show ?thesis by (simp add: forbidOver_def rule_read_def forbid_fold)
qed

section \<open>Writes\<close>

text \<open>What one write up to the point is to a protect_path rule.\<close>

definition protect_tri :: "Rule \<Rightarrow> wr \<Rightarrow> tri" where
  "protect_tri r w =
     (let rel = fst (projectRel w) in
      if w_Path w = None then triOf False (\<not> mcp_tool w)
      else if \<not> snd (projectRel w) then TriNo
      else if globbed w rel then TriMaybe
      else if \<not> protects r rel then TriNo
      else modeTri (w_Tool w) (ru_Modes r))"

lemma protect_write_read:
  "rd_seqs (pw_read (foldl (protect_write r at) s ws)) =
     rd_seqs (pw_read s) @ map w_Seq (filter (\<lambda>w. w_Seq w \<le> at \<and> protect_tri r w = TriYes) ws)"
  "rd_undecided (pw_read (foldl (protect_write r at) s ws)) \<longleftrightarrow>
     rd_undecided (pw_read s) \<or> list_ex (\<lambda>w. w_Seq w \<le> at \<and> protect_tri r w = TriMaybe) ws"
  "rd_reason (pw_read (foldl (protect_write r at) s ws)) = rd_reason (pw_read s)"
  "pw_blind (foldl (protect_write r at) s ws) =
     pw_blind s + length (filter (\<lambda>w. w_Seq w \<le> at \<and> w_Path w = None) ws)"
  by (induction ws arbitrary: s)
    (auto simp: protect_write_def protect_tri_def Let_def split: tri.split if_splits)


section \<open>Order\<close>

lemma foldl_max_no:
  "foldl (\<lambda>b x. if skip x then b else max b (f x)) t xs = TriNo \<longleftrightarrow>
     t = TriNo \<and> list_all (\<lambda>x. skip x \<or> f x = TriNo) xs"
  by (induction xs arbitrary: t) (auto simp: tri_max_eq)

text \<open>
  The record shows a line's earlier command in none of its ways: in the line itself, in a run
  filed before it that ended well in its directory with nothing it depends on written since,
  or in an earlier line that may hold it and has no such run.
\<close>

definition never_before ::
  "Rule \<Rightarrow> CommandMatch \<Rightarrow> ruleLine list \<Rightarrow> afterHit list \<Rightarrow> classification \<Rightarrow> int \<Rightarrow> ruleLine \<Rightarrow> bool" where
  "never_before r am lines hits c at l \<longleftrightarrow>
     list_all (\<lambda>h. hh_seq h \<ge> rl_seq l \<or> afterRan h l = TriNo \<or>
                   untouched r c (hh_seq h) (rl_seq l) at = TriNo) hits \<and>
     list_all (\<lambda>a. rl_seq a \<ge> rl_seq l \<or> rl_cmds a = [] \<or> lineMatch am a = TriNo \<or>
                   hasHit hits (rl_seq a)) lines"

lemma before_best_no:
  "before_best r am lines hits c at own l = TriNo \<longleftrightarrow>
     own = TriNo \<and> never_before r am lines hits c at l"
proof -
  let ?earlier = "\<lambda>a. rl_seq a < rl_seq l \<and> rl_cmds a \<noteq> [] \<and> lineMatch am a \<noteq> TriNo \<and> \<not> hasHit hits (rl_seq a)"
  have flip: "(if ?earlier a then max b TriMaybe else b) = (if \<not> ?earlier a then b else max b TriMaybe)"
    for a b by simp
  show ?thesis
    unfolding before_best_def Let_def flip foldl_max_no never_before_def
    by (auto simp: tri_min_eq list_all_iff linorder_not_less)
qed

definition order_broken ::
  "Rule \<Rightarrow> CommandMatch \<Rightarrow> CommandMatch \<Rightarrow> ruleLine list \<Rightarrow> afterHit list \<Rightarrow> (int \<rightharpoonup> tri) \<Rightarrow> classification \<Rightarrow> int \<Rightarrow>
     ruleLine \<Rightarrow> bool" where
  "order_broken r tm am lines hits checks c at l \<longleftrightarrow>
     order_own tm am hits checks l = (TriYes, TriNo) \<and> never_before r am lines hits c at l"

lemma order_line_seqs:
  "rd_seqs (order_line r tm am lines hits checks c at out l) =
     rd_seqs out @ (if order_broken r tm am lines hits checks c at l then [rl_seq l] else [])"
proof -
  obtain t a where own: "order_own tm am hits checks l = (t, a)" by fastforce
  show ?thesis
    using before_best_no [of r am lines hits c at a l] own
    by (cases t; cases "before_best r am lines hits c at a l")
      (auto simp: order_line_def order_broken_def Let_def)
qed

lemma order_fold:
  "rd_seqs (foldl (order_line r tm am lines hits checks c at) out ls) =
     rd_seqs out @ map rl_seq (filter (order_broken r tm am lines hits checks c at) ls)"
  by (induction ls arbitrary: out) (auto simp: order_line_seqs)


section \<open>Evidence at a point\<close>

lemma foldl_min_yes:
  "foldl (\<lambda>t x. min t (f x)) t xs = TriYes \<longleftrightarrow> t = TriYes \<and> list_all (\<lambda>x. f x = TriYes) xs"
  by (induction xs arbitrary: t) (auto simp: tri_min_eq)

lemma foldl_max_yes:
  "foldl (\<lambda>t x. max t (f x)) t xs = TriYes \<longleftrightarrow> t = TriYes \<or> list_ex (\<lambda>x. f x = TriYes) xs"
  by (induction xs arbitrary: t) (auto simp: tri_max_eq)

definition evidence_stands :: "gate_state list \<Rightarrow> string \<Rightarrow> bool" where
  "evidence_stands gates ev =
     (case CutPrefix ev ''kind:'' of (k, ok) \<Rightarrow>
       if ok then list_ex (\<lambda>g. gs_Kind g = k \<and> gs_State g = Green) gates
       else (case find (\<lambda>g. CutPrefix (gs_Gate g) ''spec:'' = (ev, True)) gates of
               None \<Rightarrow> False | Some g \<Rightarrow> gs_State g = Green))"

lemma gateTri_yes [simp]: "gateTri s = TriYes \<longleftrightarrow> s = Green"
  by (simp add: gateTri_def)

lemma evidenceTri_yes: "evidenceTri ev gates = TriYes \<longleftrightarrow> evidence_stands gates ev"
  by (auto simp: evidenceTri_def evidence_stands_def foldl_max_yes list_ex_iff filter_empty_conv
      split: prod.split option.split)

text \<open>
  A require_evidence rule is held at a point exactly where it binds the point -- a done point
  only where the session wrote -- and each of its named pieces of evidence stands: for a kind
  some gate of it is green, for a declared gate the first gate of its id is. A rule with no
  evidence, or whose gate the record does not know, is never held.
\<close>

theorem evidenceAt_held:
  "evidenceAt r snap wrote = Some (rule_read [] False) \<longleftrightarrow>
     ru_At r \<noteq> [] \<and> ru_Evidence r \<noteq> [] \<and>
     list_ex (\<lambda>word. word \<in> set (ru_At r) \<and> (if word = ''done'' then wrote else True))
       (case atWord (pt_Kind (sn_Point snap)) of None \<Rightarrow> [] | Some w \<Rightarrow> [w]) \<and>
     list_all (evidence_stands (sn_Gates snap)) (ru_Evidence r)"
proof -
  have "foldl (\<lambda>t ev. min t (evidenceTri ev (sn_Gates snap))) TriYes (ru_Evidence r) = TriYes \<longleftrightarrow>
        list_all (evidence_stands (sn_Gates snap)) (ru_Evidence r)"
    by (simp add: foldl_min_yes evidenceTri_yes)
  then show ?thesis
    by (auto simp: evidenceAt_def rule_read_def split: option.split tri.split)
qed

section \<open>The verdicts\<close>

text \<open>
  A row of the verdicts: its seqs ascend with none twice, it is a violation exactly where it
  names one, and a forbid_code rule, whose content the record does not hold, never is.
\<close>

definition verdict_ok :: "RuleVerdict \<Rightarrow> bool" where
  "verdict_ok v \<longleftrightarrow>
     sorted_wrt (<) (rv_Seqs v) \<and> (rv_Verdict v = Violation \<longleftrightarrow> rv_Seqs v \<noteq> []) \<and>
     (rv_Kind v \<noteq> ForbidCode \<or> rv_Verdict v \<noteq> Violation)"

lemma sorted_remdups_adj_strict: "sorted xs \<Longrightarrow> sorted_wrt (<) (remdups_adj (xs :: int list))"
  by (induction xs rule: remdups_adj.induct) (auto simp: less_le)

lemma codeOver_never: "rd_seqs (codeOver r c at) = []"
  by (simp add: codeOver_def rule_read_def Let_def)

lemma verdict_row_ok:
  assumes "ru_Kind (dr_Rule dr) \<noteq> ForbidCode \<or> rd_seqs rd = []"
  shows "verdict_ok (verdict_row dr rd t)"
proof -
  have "remdups_adj (sort (rd_seqs rd)) = [] \<longleftrightarrow> rd_seqs rd = []"
    by (simp flip: set_empty)
  with assms show ?thesis
    by (auto simp: verdict_ok_def verdict_row_def read_verdict_def sorted_remdups_adj_strict)
qed

lemma rule_reading_code:
  "rule_reading sp r picked c snap wrote dr = Some rd \<Longrightarrow> ru_Kind (dr_Rule dr) = ForbidCode \<Longrightarrow> rd_seqs rd = []"
  by (auto simp: rule_reading_def Let_def codeOver_never ForbidCode_def ForbidCommand_def ProtectPath_def)

lemma verdicts_of_ok:
  assumes "\<And>dr rd. reading dr = Some rd \<Longrightarrow> ru_Kind (dr_Rule dr) \<noteq> ForbidCode \<or> rd_seqs rd = []"
  shows "case verdicts_of sp reading drs of None \<Rightarrow> True | Some vs \<Rightarrow> list_all verdict_ok vs"
  by (induction drs) (auto split: option.splits intro: verdict_row_ok dest: assms)

lemma ruleVerdicts_all_ok:
  "case ruleVerdicts sp r picked c snap wrote of None \<Rightarrow> True | Some vs \<Rightarrow> list_all verdict_ok vs"
proof (cases sp)
  case (Some p)
  have "case verdicts_of p (rule_reading p r picked c snap wrote) (cd_Rules p) of
          None \<Rightarrow> True | Some vs \<Rightarrow> list_all verdict_ok vs"
    by (rule verdicts_of_ok) (auto dest: rule_reading_code)
  with Some show ?thesis by (simp add: ruleVerdicts_def)
qed (simp add: ruleVerdicts_def)

lemma sorted_dropWhile_filter:
  "sorted_wrt (<) xs \<Longrightarrow> dropWhile (\<lambda>s. s < since) xs = filter (\<lambda>s. since \<le> s) (xs :: int list)"
  by (induction xs) (auto intro!: filter_True [symmetric])

definition turn_part :: "int \<Rightarrow> RuleVerdict \<Rightarrow> RuleVerdict" where
  "turn_part since v = v\<lparr>rv_Seqs := filter (\<lambda>s. since \<le> s) (rv_Seqs v)\<rparr>"

lemma turnViolations_sorted:
  assumes "list_all verdict_ok vs"
  shows "turnViolations vs since =
     (if since \<le> 0 then []
      else filter (\<lambda>v. rv_Seqs v \<noteq> [])
             (map (turn_part since) (filter (\<lambda>v. rv_Verdict v = Violation \<and> binding (rv_trust v)) vs)))"
  using assms
  by (induction vs)
    (auto simp: turnViolations_def verdict_ok_def sorted_dropWhile_filter turn_part_def Let_def)


end
