(* ===== verification/Evaluate.thy ===== *)
theory Evaluate
  imports Rules
begin

text \<open>
  The evaluator, \<^verbatim>\<open>internal/verify\<close> (evaluate.go): the record, the index, the spec and the
  point to a snapshot. The gates a spec declares and the one inferred are an argument, since
  the hook digests their lines under the install key; \<open>nowMS\<close> is the clock the index reads and
  \<open>tree\<close> the shas the hook read at the point. \<open>None\<close> is the panic of a rule whose source is
  outside the spec's list.
\<close>

definition eval_root :: "decl list \<Rightarrow> int \<Rightarrow> string \<Rightarrow> string" where
  "eval_root decls at root =
     (let latest = projectRoot decls at in if root = [] \<or> latest = [] then latest else root)"

definition empty_snapshot :: "run \<Rightarrow> string \<Rightarrow> Point \<Rightarrow> Snapshot" where
  "empty_snapshot r root pt =
     (case recording r (pt_Seq pt) of (rec, out) \<Rightarrow>
       \<lparr>sn_Point = pt, sn_ProjectRoot = eval_root (r_Declarations r) (pt_Seq pt) root, sn_Recording = rec,
        sn_Notes = out, sn_Gates = [], sn_SpecVerdicts = [],
        sn_Integrity = \<lparr>iv_Unresolved = [],
          iv_Counts = \<lparr>ic_TestsDelta = 0, ic_SkipsAdded = 0, ic_SuppressionsAdded = 0\<rparr>,
          iv_UnknownMarks = 0, iv_UnreadBases = 0\<rparr>,
        sn_RecordGreen = False, sn_RecordGreenAtSeq = None\<rparr>)"

definition learned_gates :: "classification \<Rightarrow> ProjectIndex option \<Rightarrow> int \<Rightarrow> int \<Rightarrow> sha_tree option \<Rightarrow> gate_state list" where
  "learned_gates c idx nowMS at tree =
     requireGates idx nowMS
       (gateStates (cl_runs c) (cl_writes c) (cl_unnamed c) (cl_keys c) at tree)"

definition all_gates ::
  "run \<Rightarrow> (string \<rightharpoonup> execution) \<Rightarrow> classification \<Rightarrow> declaredGate list \<Rightarrow> string \<Rightarrow> int \<Rightarrow> sha_tree option \<Rightarrow>
     gate_state list \<Rightarrow> gate_state list" where
  "all_gates r picked c dgs root at tree gates =
     (if dgs = [] then gates
      else withDeclared gates dgs (lineRuns r picked) (cl_runs c) (cl_writes c) (cl_unnamed c) root at tree)"

definition evaluate ::
  "run option \<Rightarrow> ProjectIndex option \<Rightarrow> Compiled option \<Rightarrow> declaredGate list \<Rightarrow> string \<Rightarrow> Point \<Rightarrow> sha_tree option \<Rightarrow>
     int \<Rightarrow> Snapshot option" where
  "evaluate run idx sp dgs root pt tree nowMS =
     (let r = (case run of None \<Rightarrow> empty_run | Some x \<Rightarrow> x); at = pt_Seq pt; snap = empty_snapshot r root pt in
      if sn_Recording snap \<noteq> Complete then Some snap
      else
        (let picked = pickExecutions r; c = classifyWith r picked;
             gates = all_gates r picked c dgs (sn_ProjectRoot snap) at tree (learned_gates c idx nowMS at tree);
             snap1 = snap\<lparr>sn_Gates := gates,
                          sn_Integrity := integrity r picked (cl_writes c) 0 at (pt_StoreRoot pt)\<rparr>
         in case ruleVerdicts sp r picked c snap1 (sp \<noteq> None \<and> wroteIn (cl_writes c) at) of
              None \<Rightarrow> None
            | Some vs \<Rightarrow>
                (let snap2 = snap1\<lparr>sn_SpecVerdicts := vs\<rparr>; g = recordGreenOf snap2 in
                 Some (snap2\<lparr>sn_RecordGreen := fst g, sn_RecordGreenAtSeq := snd g\<rparr>))))"

section \<open>What a snapshot says\<close>

text \<open>Every field beside the record's faults is empty.\<close>

definition silent :: "Snapshot \<Rightarrow> bool" where
  "silent s \<longleftrightarrow>
     sn_Gates s = [] \<and> sn_SpecVerdicts s = [] \<and> iv_Unresolved (sn_Integrity s) = [] \<and>
     \<not> sn_RecordGreen s \<and> sn_RecordGreenAtSeq s = None"

definition backed :: "Snapshot \<Rightarrow> bool" where
  "backed s \<longleftrightarrow>
     iv_Unresolved (sn_Integrity s) = [] \<and>
     list_all (\<lambda>v. \<not> (rv_Verdict v = Violation \<and> binding (rv_trust v))) (sn_SpecVerdicts s) \<and>
     list_ex blocks (sn_Gates s) \<and> \<not> list_ex (\<lambda>g. blocks g \<and> \<not> stands_green g) (sn_Gates s)"

lemma recordFindings_none:
  "recordFindings s = 0 \<longleftrightarrow>
     iv_Unresolved (sn_Integrity s) = [] \<and>
     list_all (\<lambda>v. \<not> (rv_Verdict v = Violation \<and> binding (rv_trust v))) (sn_SpecVerdicts s)"
  by (auto simp: recordFindings_def bindingViolations_def filter_empty_conv list_all_iff)

lemma recordGreenOf_iff:
  "recordGreenOf s = (True, at) \<longleftrightarrow> backed s \<and> at = Some (Max (set (greens (sn_Gates s))))"
  unfolding recordGreenOf_def recordGreen_value recordFindings_none backed_def by blast

lemma recordGreen_fst: "fst (recordGreenOf s) \<longleftrightarrow> backed s"
  using recordGreenOf_iff [of s "snd (recordGreenOf s)"] recordGreenOf_iff [of s "Some (Max (set (greens (sn_Gates s))))"]
  by (cases "recordGreenOf s") auto

lemma recordGreen_snd: "snd (recordGreenOf s) = (if backed s then Some (Max (set (greens (sn_Gates s)))) else None)"
proof (cases "backed s")
  case True
  then have "recordGreenOf s = (True, Some (Max (set (greens (sn_Gates s)))))" by (simp add: recordGreenOf_iff)
  with True show ?thesis by simp
next
  case False
  then have "\<not> fst (recordGreenOf s)" by (simp add: recordGreen_fst)
  with False show ?thesis
    by (auto simp: recordGreenOf_def recordGreen_def split: if_splits option.splits)
qed

text \<open>
  C1: a snapshot of an incomplete record says nothing but the record's faults: no gate, no rule
  verdict, no integrity entry and no record-green. Of a complete one, the record is green
  exactly when no integrity check is unresolved, no rule of a trusted or managed spec is
  violated, some gate is required, and every required gate is green by a run, as of the
  latest of those runs.
\<close>

theorem evaluate_green_iff:
  "case evaluate run idx sp dgs root pt tree nowMS of
     None \<Rightarrow> True
   | Some s \<Rightarrow>
       (if sn_Recording s \<noteq> Complete then silent s
        else sn_RecordGreen s = backed s \<and>
             sn_RecordGreenAtSeq s = (if backed s then Some (Max (set (greens (sn_Gates s)))) else None))"
proof -
  have frame: "backed (s\<lparr>sn_RecordGreen := a, sn_RecordGreenAtSeq := b\<rparr>) = backed s" for s a b
    by (simp add: backed_def)
  have empty: "silent (empty_snapshot r root pt)" for r
    by (auto simp: silent_def empty_snapshot_def split: prod.split)
  show ?thesis
    by (auto simp: evaluate_def Let_def frame empty recordGreen_fst recordGreen_snd split: option.split)
qed

section \<open>Panics\<close>

lemma verdicts_of_total:
  "list_all (\<lambda>dr. TrustOf sp (dr_Source dr) \<noteq> None) drs \<Longrightarrow> verdicts_of sp reading drs \<noteq> None"
  by (induction drs) (auto split: option.split)

text \<open>The rules of a spec all come from its own sources or from the tool.\<close>

definition sources_ok :: "Compiled option \<Rightarrow> bool" where
  "sources_ok sp =
     (case sp of None \<Rightarrow> True | Some p \<Rightarrow> list_all (\<lambda>dr. TrustOf p (dr_Source dr) \<noteq> None) (cd_Rules p))"

lemma ruleVerdicts_total: "sources_ok sp \<Longrightarrow> \<exists>vs. ruleVerdicts sp r picked c snap wrote = Some vs"
  using verdicts_of_total [of "the sp" "cd_Rules (the sp)" "rule_reading (the sp) r picked c snap wrote"]
  by (cases sp) (auto simp: sources_ok_def ruleVerdicts_def)

lemma evaluate_total:
  assumes "sources_ok sp"
  shows "evaluate run idx sp dgs root pt tree nowMS \<noteq> None"
proof -
  obtain f where "ruleVerdicts sp r picked c snap wrote = Some (f r picked c snap wrote)"
    for r picked c snap wrote
    using ruleVerdicts_total [OF assms] by metis
  then show ?thesis by (simp add: evaluate_def Let_def)
qed

end
