(* ===== verification/WriteTargets.thy ===== *)
theory WriteTargets
  imports Verb
begin

text \<open>
  The files a shell line may write, from its words alone, \<^verbatim>\<open>internal/shape/writetargets.go\<close>:
  the walk over the line's stages, the operand rules of the programs whose targets are named,
  the directory a relative target is joined to, and \<open>WrittenPaths\<close>. The command of the tool's
  input, read by the JSON scanner, is an argument. An index of \<open>-1\<close> is \<open>None\<close>.
\<close>

section \<open>The walk's state\<close>

text \<open>The targets so far, newest last; the first is no longer nil once one is named.\<close>

record targetWalk =
  tw_targets :: "string list"
  tw_complete :: bool
  tw_moved :: bool

definition incomplete :: "targetWalk \<Rightarrow> targetWalk" where
  "incomplete w = w\<lparr>tw_complete := False\<rparr>"

fun fold_dirs :: "string \<Rightarrow> string list \<Rightarrow> string option" where
  "fold_dirs dir [] = Some dir"
| "fold_dirs dir (d # ds) =
     (if HasPrefix d ''~'' then None
      else if IsAbs d then fold_dirs d ds
      else fold_dirs (JoinPath dir d) ds)"

definition leadingFoldDir :: "token list \<Rightarrow> string option" where
  "leadingFoldDir toks =
     (let start = (case programToken toks False of Some k \<Rightarrow> k | None \<Rightarrow> 0) in
      case directoryChanges toks start False of
        (_, steps, _) \<Rightarrow>
          if steps = 0 then Some []
          else (let dirs = fst (leadingRun (toks, None)) in
                if dirs = [] \<or> length dirs > MaxLeadingCd then None
                else fold_dirs [] dirs))"

text \<open>The directory of a relative target; the code keeps \<open>leadingFoldDir\<close>'s answer, read once.\<close>

definition walk_dir :: "token list \<Rightarrow> targetWalk \<Rightarrow> string option" where
  "walk_dir toks w = (if tw_moved w then None else leadingFoldDir toks)"

definition not_one_file :: "token \<Rightarrow> string \<Rightarrow> bool" where
  "not_one_file t text =
     (tk_opaque t \<or> tk_ticks t > 0 \<or> text = [] \<or> text = ''-'' \<or> HasPrefix text ''~'' \<or>
      ContainsAny text (''$*?[{'' @ [btick]) \<or> HasSuffix text ''/'' \<or> HasSuffix text ''...'' \<or>
      Base text = ''.'' \<or> Base text = ''..'')"

text \<open>\<open>targetWalk.name\<close>: the walk after it, and whether the word was named.\<close>

definition walk_name :: "token list \<Rightarrow> token \<Rightarrow> string \<Rightarrow> targetWalk \<Rightarrow> targetWalk \<times> bool" where
  "walk_name toks t text w =
     (if devFile text then (w, False)
      else if not_one_file t text then (incomplete w, False)
      else if IsAbs text then (w\<lparr>tw_targets := tw_targets w @ [text]\<rparr>, True)
      else (case walk_dir toks w of
              None \<Rightarrow> (incomplete w, False)
            | Some dir \<Rightarrow>
                (w\<lparr>tw_targets := tw_targets w @ [if dir \<noteq> [] then JoinPath dir text else text]\<rparr>, True)))"

section \<open>The operand rules\<close>

datatype operand_rule = RuleNone | RuleEvery | RuleLast | RuleSed | RulePerl

definition ruleOf :: "string \<Rightarrow> bool \<Rightarrow> operand_rule" where
  "ruleOf name edit =
     (if name \<in> {''rm'', ''mkdir'', ''touch'', ''tee'', ''truncate''} then RuleEvery
      else if name \<in> {''cp'', ''mv'', ''install''} then RuleLast
      else if \<not> edit then RuleNone
      else if name = ''sed'' then RuleSed
      else if name = ''perl'' then RulePerl
      else if name \<in> {''go'', ''cargo''} then RuleNone
      else if map_of inPlaceEditors name \<noteq> None then RuleEvery
      else RuleNone)"

definition programWrites :: "string \<Rightarrow> bool" where
  "programWrites name =
     (if map_of inPlaceEditors name \<noteq> None \<and> programVerb_of name = None then False
      else verbForProgram name \<noteq> VerbRead)"

function nextArg :: "token list \<Rightarrow> nat \<Rightarrow> nat \<Rightarrow> nat" where
  "nextArg toks j e =
     (if j \<ge> e then e
      else if tk_meta (toks ! j) \<and> isRedirect (tk_text (toks ! j)) then nextArg toks (redirect_past toks j e + 1) e
      else if tk_meta (toks ! j) \<or> fdPrefix toks j e then nextArg toks (j + 1) e
      else j)"
  by pat_completeness auto
termination
  by (relation "measure (\<lambda>(_, j, e). e - j)") (auto intro!: diff_less_mono2 simp: less_Suc_eq_le redirect_past_le)

declare nextArg.simps [simp del]

lemma nextArg_le: "j \<le> e \<Longrightarrow> j \<le> nextArg toks j e"
proof (induction "e - j" arbitrary: j rule: less_induct)
  case less
  have past: "j < Suc (redirect_past toks j e)" using redirect_past_le [of j toks e] by simp
  have far: "k > e \<Longrightarrow> nextArg toks k e = e" for k by (subst nextArg.simps) simp
  have ih: "j \<le> nextArg toks k e" if "j < k" "j < e" for k
    using less.hyps [of k] far [of k] that by (cases "k \<le> e") force+
  show ?case
    using less.prems past by (subst nextArg.simps) (auto intro: ih)
qed

lemma nextArg_past: "j < e \<Longrightarrow> j < nextArg toks (Suc j) e"
  using nextArg_le [of "Suc j" e toks] by simp

text \<open>The loop of \<open>destination\<close>: the destination's token and offset, and the last operand.\<close>

function destination_loop ::
  "token list \<Rightarrow> nat \<Rightarrow> nat \<Rightarrow> bool \<Rightarrow> (nat \<times> nat) option \<Rightarrow> nat option \<Rightarrow> (nat \<times> nat) option" where
  "destination_loop toks j e ended dest latest =
     (if j \<ge> e then (case dest of Some d \<Rightarrow> Some d | None \<Rightarrow> map_option (\<lambda>k. (k, 0)) latest)
      else (let text = tk_text (toks ! j); on = (\<lambda>k. nextArg toks (k + 1) e) in
        if ended \<or> text = ''-'' \<or> \<not> HasPrefix text ''-''
        then destination_loop toks (on j) e ended dest (Some j)
        else if text = ''--'' then destination_loop toks (on j) e True dest latest
        else if text = ''-t'' \<or> text = ''--target-directory''
        then (let k = on j in
              if k < e then destination_loop toks (on k) e ended (Some (k, 0)) latest
              else destination_loop toks (on j) e ended dest latest)
        else if HasPrefix text ''--target-directory=''
        then destination_loop toks (on j) e ended (Some (j, length ''--target-directory='')) latest
        else if HasPrefix text ''-t'' then destination_loop toks (on j) e ended (Some (j, 2)) latest
        else destination_loop toks (on j) e ended dest latest))"
  by pat_completeness auto

termination
proof (relation "measure (\<lambda>(_, j, e, _). e - j)", goal_cases)
  case prems: (4 toks j e ended dest latest tx nx k)
  then have "j < k" by (simp add: nextArg_past)
  then have "j < nextArg toks (Suc k) e" using nextArg_past [of k e toks] prems by auto
  then show ?case using prems by simp
qed (auto simp: nextArg_past not_le intro!: diff_less_mono2)

declare destination_loop.simps [simp del]

definition destination :: "token list \<Rightarrow> nat \<Rightarrow> nat \<Rightarrow> (nat \<times> nat) option" where
  "destination toks at e = destination_loop toks (nextArg toks (at + 1) e) e False None None"

text \<open>The letters of a clustered option word: whether one gives the script, and whether it is the next word.\<close>

fun sed_letters :: "string \<Rightarrow> bool \<times> bool" where
  "sed_letters [] = (False, False)"
| "sed_letters (c # cs) =
     (if c = CHR ''i'' \<or> c = CHR ''I'' then (False, False)
      else if c = CHR ''e'' \<or> c = CHR ''f'' then (True, cs = [])
      else sed_letters cs)"

definition sedOption :: "string \<Rightarrow> bool \<times> bool" where
  "sedOption text =
     (if text = ''--expression'' \<or> text = ''--file'' then (True, True)
      else if HasPrefix text ''--expression='' \<or> HasPrefix text ''--file='' then (True, False)
      else if HasPrefix text ''--'' then (False, False)
      else sed_letters (tl text))"

fun perl_letters :: "string \<Rightarrow> bool \<times> bool" where
  "perl_letters [] = (False, False)"
| "perl_letters (c # cs) =
     (if c = CHR ''e'' \<or> c = CHR ''E'' then (True, cs = [])
      else if c \<in> set ''iMmIFxdDC'' then (False, False)
      else perl_letters cs)"

definition perlOption :: "string \<Rightarrow> bool \<times> bool" where
  "perlOption text = perl_letters (tl text)"

function sedScript_loop :: "token list \<Rightarrow> nat \<Rightarrow> nat \<Rightarrow> bool" where
  "sedScript_loop toks j e =
     (if j \<ge> e then False
      else (let text = tk_text (toks ! j) in
            if text = ''--'' then False
            else if fst (sedOption text) \<and> length text > 1 \<and> HasPrefix text ''-'' then True
            else sedScript_loop toks (nextArg toks (j + 1) e) e))"
  by pat_completeness auto
termination
  by (relation "measure (\<lambda>(_, j, e). e - j)") (auto simp: nextArg_past not_le intro!: diff_less_mono2)

declare sedScript_loop.simps [simp del]

definition sedScript :: "token list \<Rightarrow> nat \<Rightarrow> nat \<Rightarrow> bool" where
  "sedScript toks at e = sedScript_loop toks (nextArg toks (at + 1) e) e"

record operands =
  op_name :: string
  op_rule :: operand_rule
  op_ended :: bool
  op_value :: bool
  op_first :: bool
  op_dest :: "(nat \<times> nat) option"
  op_named :: bool

definition start_operands :: "token list \<Rightarrow> string \<Rightarrow> nat \<Rightarrow> nat \<Rightarrow> bool \<Rightarrow> operands \<Rightarrow> operands" where
  "start_operands toks name at e edit os =
     (let rule = ruleOf name edit in
      case rule of
        RuleLast \<Rightarrow> os\<lparr>op_rule := rule, op_dest := destination toks at e\<rparr>
      | RuleSed \<Rightarrow> os\<lparr>op_rule := rule, op_first := \<not> sedScript toks at e\<rparr>
      | RulePerl \<Rightarrow> os\<lparr>op_rule := rule, op_first := True\<rparr>
      | _ \<Rightarrow> os\<lparr>op_rule := rule\<rparr>)"

definition operand_target :: "token list \<Rightarrow> token \<Rightarrow> string \<Rightarrow> operands \<times> targetWalk \<Rightarrow> operands \<times> targetWalk" where
  "operand_target toks t text ow =
     (case walk_name toks t text (snd ow) of
        (w, named) \<Rightarrow> ((fst ow)\<lparr>op_named := op_named (fst ow) \<or> named\<rparr>, w))"

definition operand_option :: "token list \<Rightarrow> nat \<Rightarrow> nat \<Rightarrow> string \<Rightarrow> operands \<Rightarrow> operands" where
  "operand_option toks e j text os =
     (case op_rule os of
        RuleEvery \<Rightarrow> os\<lparr>op_value := (op_name os = ''truncate'' \<and> text = ''-s'')\<rparr>
      | RuleSed \<Rightarrow>
          (let k = nextArg toks (j + 1) e;
               suffix = ((text = ''-i'' \<or> text = ''-I'') \<and> k < e \<and> tk_text (toks ! k) = []) in
           os\<lparr>op_value := (snd (sedOption text) \<or> suffix)\<rparr>)
      | RulePerl \<Rightarrow>
          (case perlOption text of
             (script, val) \<Rightarrow> os\<lparr>op_first := (op_first os \<and> \<not> script), op_value := val\<rparr>)
      | _ \<Rightarrow> os)"

definition operand_word :: "token list \<Rightarrow> nat \<Rightarrow> nat \<Rightarrow> operands \<times> targetWalk \<Rightarrow> operands \<times> targetWalk" where
  "operand_word toks e j ow =
     (let os = fst ow; w = snd ow; t = toks ! j; text = tk_text t in
      if op_rule os = RuleLast
      then (case op_dest os of
              Some (d, off) \<Rightarrow> if j = d then operand_target toks t (drop off text) ow else ow
            | None \<Rightarrow> ow)
      else if op_value os then (os\<lparr>op_value := False\<rparr>, w)
      else if \<not> op_ended os \<and> text = ''--'' then (os\<lparr>op_ended := True\<rparr>, w)
      else if \<not> op_ended os \<and> length text > 1 \<and> HasPrefix text ''-'' then (operand_option toks e j text os, w)
      else (let os = (if op_rule os = RulePerl then os\<lparr>op_ended := True\<rparr> else os) in
            if op_first os then (os\<lparr>op_first := False\<rparr>, w)
            else if op_rule os = RuleEvery \<and>
                    onList text (case map_of inPlaceEditors (op_name os) of Some l \<Rightarrow> l | None \<Rightarrow> [])
            then (os, w)
            else operand_target toks t text (os, w)))"

section \<open>One stage\<close>

text \<open>The loop of \<open>stage\<close> over its tokens, the program's at \<open>at\<close>.\<close>

function stage_words ::
  "token list \<Rightarrow> nat option \<Rightarrow> nat \<Rightarrow> nat \<Rightarrow> operands \<times> targetWalk \<Rightarrow> operands \<times> targetWalk" where
  "stage_words toks at e j ow =
     (if j \<ge> e then ow
      else (let t = toks ! j in
        if tk_meta t \<and> isRedirect (tk_text t)
        then (let k = operatorEnd toks j;
                  writes = (outputRedirect toks j \<or> k > j \<and> outputRedirect toks (j + 1)) in
              if k + 1 < e \<and> \<not> tk_meta (toks ! (k + 1))
              then stage_words toks at e (k + 2)
                     (if writes
                      then (fst ow, fst (walk_name toks (toks ! (k + 1)) (tk_text (toks ! (k + 1))) (snd ow)))
                      else ow)
              else stage_words toks at e (k + 1) (if writes then (fst ow, incomplete (snd ow)) else ow))
        else if tk_meta t \<or> (case at of None \<Rightarrow> True | Some a \<Rightarrow> j \<le> a) \<or> fdPrefix toks j e
        then stage_words toks at e (j + 1) ow
        else if op_rule (fst ow) \<noteq> RuleNone then stage_words toks at e (j + 1) (operand_word toks e j ow)
        else stage_words toks at e (j + 1) ow))"
  by pat_completeness auto
termination
  by (relation "measure (\<lambda>(_, _, e, j, _). e - j)")
    (auto intro!: diff_less_mono2 simp: less_Suc_eq_le operator_past le_SucI)

declare stage_words.simps [simp del]

text \<open>The stage's program, the walk's own where it lies in the stage, and its name.\<close>

definition stage_program :: "token list \<Rightarrow> nat \<Rightarrow> nat \<Rightarrow> nat \<Rightarrow> nat option" where
  "stage_program toks prog s e =
     (if prog < s \<or> prog \<ge> e then map_option (\<lambda>k. s + k) (programToken (slice_tokens toks s e) False)
      else Some prog)"

definition stage_name :: "token list \<Rightarrow> nat option \<Rightarrow> string" where
  "stage_name toks at = (case at of None \<Rightarrow> [] | Some a \<Rightarrow> Base (tk_text (toks ! a)))"

text \<open>Whether the stage writes by its program or its words.\<close>

definition stage_runs :: "token list \<Rightarrow> nat \<Rightarrow> nat \<Rightarrow> stageWrites \<Rightarrow> nat option \<Rightarrow> bool" where
  "stage_runs toks prog e ws at =
     (sw_writer ws \<or> sw_edit ws \<or> e > prog \<and> (at = None \<or> programWrites (stage_name toks at)))"

definition stage_operands :: "token list \<Rightarrow> nat option \<Rightarrow> nat \<Rightarrow> bool \<Rightarrow> bool \<Rightarrow> operands" where
  "stage_operands toks at e runs edit =
     (let os = \<lparr>op_name = stage_name toks at, op_rule = RuleNone, op_ended = False, op_value = False,
                op_first = False, op_dest = None, op_named = False\<rparr> in
      case at of
        None \<Rightarrow> os
      | Some a \<Rightarrow> if runs then start_operands toks (stage_name toks at) a e edit os else os)"

definition read_stage :: "token list \<Rightarrow> nat option \<Rightarrow> nat \<Rightarrow> nat \<Rightarrow> bool \<Rightarrow> bool \<Rightarrow> targetWalk \<Rightarrow> targetWalk" where
  "read_stage toks at s e runs edit w =
     (case stage_words toks at e s (stage_operands toks at e runs edit, w) of
        (os, w') \<Rightarrow> if runs \<and> \<not> op_named os then incomplete w' else w')"

definition walk_stage :: "token list \<Rightarrow> nat \<Rightarrow> nat \<Rightarrow> nat \<Rightarrow> targetWalk \<Rightarrow> targetWalk" where
  "walk_stage toks prog s e w0 =
     (if s = e then w0
      else (let ws = writesIn toks s e; at = stage_program toks prog s e; runs = stage_runs toks prog e ws at in
        if \<not> runs \<and> \<not> sw_redirect ws \<and> \<not> sw_substitution ws then w0
        else (let w = read_stage toks at s e runs (sw_edit ws)
                        (if sw_substitution ws then incomplete w0 else w0) in
              if e > prog \<and> stage_name toks at \<in> {''cd'', ''pushd'', ''popd''} then w\<lparr>tw_moved := True\<rparr>
              else w)))"

section \<open>The whole line\<close>

text \<open>The first token past an unquoted newline after the token at \<open>j\<close>.\<close>

definition next_line :: "token list \<Rightarrow> nat \<Rightarrow> nat option" where
  "next_line toks j = find (\<lambda>k. tk_nlBefore (toks ! k)) [j + 1..<length toks]"

definition toFirstBody :: "string \<Rightarrow> token list \<times> lex_error option" where
  "toFirstBody cmd =
     (let te = tokenizeProgram cmd; toks = fst te in
      case find (hereDoc toks) [0..<length toks] of
        None \<Rightarrow> te
      | Some j \<Rightarrow> (case next_line toks j of None \<Rightarrow> te | Some k \<Rightarrow> (take k toks, None)))"

definition unquoted_delim :: "token list \<Rightarrow> nat \<Rightarrow> bool" where
  "unquoted_delim toks j =
     (j + 1 \<ge> length toks \<or> tk_meta (toks ! (j + 1)) \<or> tk_quotedAt (toks ! (j + 1)) = None)"

definition hereDocs :: "token list \<Rightarrow> bool \<times> bool" where
  "hereDocs toks =
     (let js = filter (hereDoc toks) [0..<length toks] in
      (js \<noteq> [], list_ex (unquoted_delim toks) js))"

function walk_stages :: "token list \<Rightarrow> nat \<Rightarrow> nat \<Rightarrow> targetWalk \<Rightarrow> targetWalk" where
  "walk_stages toks prog s w =
     (if s \<ge> length toks then w
      else (case stageEnd toks s of
              (e, next) \<Rightarrow> walk_stages toks prog next (walk_stage toks prog s e w)))"
  by pat_completeness auto
termination
  by (relation "measure (\<lambda>(toks, _, s, _). length toks - s)")
    (auto dest!: sym [of "(_, _)" "stageEnd _ _"] stageEnd_past)

declare walk_stages.simps [simp del]

definition begin_walk :: targetWalk where
  "begin_walk = \<lparr>tw_targets = [], tw_complete = True, tw_moved = False\<rparr>"

definition finish_walk :: "token list \<Rightarrow> nat \<Rightarrow> bool \<Rightarrow> targetWalk \<Rightarrow> string list \<times> bool" where
  "finish_walk toks i short w =
     (tw_targets w,
      tw_complete w \<and>
      (case hereDocs toks of
         (docs, live) \<Rightarrow> \<not> (short \<or> live) \<and> \<not> (tw_targets w = [] \<and> (docs \<or> mayWrite toks i))))"

text \<open>The line's tokens, and whether they stop at a here-document's body.\<close>

definition walked_tokens :: "string \<Rightarrow> (token list \<times> lex_error option) \<times> bool" where
  "walked_tokens cmd =
     (let te = tokenizeList cmd in
      if snd te = Some ErrUncertain then (toFirstBody cmd, True) else (te, False))"

definition WrittenPaths :: "string \<Rightarrow> string option \<Rightarrow> string list \<times> bool" where
  "WrittenPaths toolName command =
     (if verbForTool toolName \<noteq> VerbExecute then ([], True)
      else (case command of
              None \<Rightarrow> ([], True)
            | Some cmd \<Rightarrow>
                if controlByte cmd then ([], False)
                else (case walked_tokens cmd of
                        ((toks, err), short) \<Rightarrow>
                          if err \<noteq> None then ([], False)
                          else (case programToken toks False of
                                  None \<Rightarrow> ([], False)
                                | Some k \<Rightarrow>
                                    (case pastDirectoryChange toks k False of
                                       None \<Rightarrow> ([], False)
                                     | Some i \<Rightarrow> finish_walk toks i short (walk_stages toks i 0 begin_walk))))))"

section \<open>What the list says\<close>

text \<open>
  A shell line whose list of written files is whole and empty may not write: it holds no
  here-document and no word, redirection, substitution or program that may write.
\<close>

theorem WrittenPaths_none:
  "case WrittenPaths ''Bash'' (Some cmd) of
     ([], True) \<Rightarrow>
       (\<exists>toks k i. walked_tokens cmd = ((toks, None), False) \<and> programToken toks False = Some k \<and>
          pastDirectoryChange toks k False = Some i \<and> \<not> mayWrite toks i \<and> \<not> fst (hereDocs toks))
   | _ \<Rightarrow> True"
  by (auto simp: WrittenPaths_def finish_walk_def verbForTool_def HasPrefix_def readTools_def
      split: list.split bool.split option.split prod.split if_split)

text \<open>No target holds a byte the shell would expand.\<close>

definition literal :: "string \<Rightarrow> bool" where
  "literal s \<longleftrightarrow> \<not> ContainsAny s (''$*?[{'' @ [btick])"

lemma literal_set: "literal s \<longleftrightarrow> set s \<inter> set (''$*?[{'' @ [btick]) = {}"
  by (auto simp: literal_def ContainsAny_def list_ex_iff)

lemma set_Join: "set (Join ws sep) \<subseteq> \<Union> (set (map set ws)) \<union> set sep"
  by (induction ws sep rule: Join.induct) auto

lemma set_Split: "w \<in> set (Split s c) \<Longrightarrow> set w \<subseteq> set s"
proof (induction s arbitrary: w)
  case (Cons x s)
  then show ?case by (cases "Split s c") (fastforce split: if_splits)+
qed simp

lemma clean_step_set: "set (clean_step rooted stack w) \<subseteq> insert w (set stack)"
  by (auto split: list.split)

lemma foldl_clean_set: "set (foldl (clean_step rooted) stack ws) \<subseteq> set ws \<union> set stack"
proof (induction ws arbitrary: stack)
  case (Cons w ws)
  then show ?case using clean_step_set [of rooted stack w] by (auto simp del: clean_step.simps)
qed simp

lemma set_Clean: "set (Clean p) \<subseteq> set p \<union> set ''./''"
proof -
  let ?ws = "rev (foldl (clean_step (IsAbs p)) [] (Split p CHR ''/''))"
  have "\<Union> (set (map set ?ws)) \<subseteq> set p"
    using foldl_clean_set [of "IsAbs p" "[]" "Split p CHR ''/''"] set_Split [of _ p "CHR ''/''"] by auto
  then have "set (Join ?ws ''/'') \<subseteq> set p \<union> set ''./''"
    using set_Join [of ?ws "''/''"] by simp blast
  then show ?thesis by (cases "IsAbs p") (simp_all add: Clean_def Let_def)
qed

lemma literal_JoinPath: "literal a \<Longrightarrow> literal b \<Longrightarrow> literal (JoinPath a b)"
  using set_Clean [of b] set_Clean [of "a @ ''/'' @ b"] by (auto simp: literal_set JoinPath_def)

lemma leadingRun_loop_literal:
  "list_all literal dirs \<Longrightarrow> list_all literal (fst (leadingRun_loop toks i dirs))"
proof (induction toks i dirs rule: leadingRun_loop.induct)
  case (1 toks i dirs)
  have cd: "literal dir" if "leadingCd (drop i toks) = Some dir" for dir
    using leadingCd_Some(4,5) [OF that]
    by (auto simp: dirWord_def literal_def ContainsAny_def list_ex_iff)
  show ?case
    using 1 cd by (subst leadingRun_loop.simps) (auto split: option.split)
qed

lemma fold_dirs_literal: "fold_dirs dir ds = Some d \<Longrightarrow> list_all literal ds \<Longrightarrow> literal dir \<Longrightarrow> literal d"
  by (induction dir ds rule: fold_dirs.induct) (auto split: if_splits intro: literal_JoinPath)

lemma leadingFoldDir_literal: "leadingFoldDir toks = Some d \<Longrightarrow> literal d"
proof -
  have "literal []" by (simp add: literal_def ContainsAny_def)
  then show "leadingFoldDir toks = Some d \<Longrightarrow> literal d"
    using leadingRun_loop_literal [of "[]" toks 0]
    by (auto simp: leadingFoldDir_def leadingRun_def Let_def split: prod.splits if_splits intro: fold_dirs_literal)
qed

definition walk_ok :: "targetWalk \<Rightarrow> bool" where
  "walk_ok w \<longleftrightarrow> list_all literal (tw_targets w)"

lemma walk_ok_simps [simp]:
  "walk_ok (incomplete w) = walk_ok w" "walk_ok (w\<lparr>tw_moved := b\<rparr>) = walk_ok w" "walk_ok begin_walk"
  by (simp_all add: walk_ok_def incomplete_def begin_walk_def)

lemma walk_name_ok: "walk_ok w \<Longrightarrow> walk_ok (fst (walk_name toks t text w))"
proof -
  assume w: "walk_ok w"
  have "literal text" if "\<not> not_one_file t text"
    using that by (auto simp: not_one_file_def literal_def)
  then show ?thesis
    using w literal_JoinPath leadingFoldDir_literal
    by (auto simp: walk_name_def walk_ok_def walk_dir_def incomplete_def split: option.split)
qed

lemma operand_word_ok: "walk_ok (snd ow) \<Longrightarrow> walk_ok (snd (operand_word toks e j ow))"
proof -
  assume w: "walk_ok (snd ow)"
  have t: "walk_ok (snd (operand_target toks t tx os))" if "walk_ok (snd os)" for t tx os
    using walk_name_ok [OF that, of toks t tx] by (auto simp: operand_target_def split: prod.split)
  show ?thesis using w t by (auto simp: operand_word_def Let_def split: option.split)
qed

lemma stage_words_ok: "walk_ok (snd ow) \<Longrightarrow> walk_ok (snd (stage_words toks at e j ow))"
proof (induction "e - j" arbitrary: j ow rule: less_induct)
  case less
  have ih: "walk_ok (snd (stage_words toks at e k os))" if "walk_ok (snd os)" "j < k" "j < e" for k os
    using less.hyps [of k os] that by linarith
  have op: "j < Suc (operatorEnd toks j)" "j < Suc (Suc (operatorEnd toks j))"
    using operatorEnd_le [of j toks] by simp_all
  show ?case
    using less.prems op walk_name_ok [OF less.prems] operand_word_ok [OF less.prems]
    by (subst stage_words.simps) (auto simp: Let_def intro!: ih)
qed

lemma read_stage_ok: "walk_ok w \<Longrightarrow> walk_ok (read_stage toks at s e runs edit w)"
  using stage_words_ok [of "(stage_operands toks at e runs edit, w)"]
  by (auto simp: read_stage_def split: prod.split) (metis snd_conv)+

lemma walk_stage_ok: "walk_ok w \<Longrightarrow> walk_ok (walk_stage toks prog s e w)"
  unfolding walk_stage_def Let_def by (simp add: read_stage_ok)

lemma walk_stages_ok: "walk_ok w \<Longrightarrow> walk_ok (walk_stages toks prog s w)"
proof (induction toks prog s w rule: walk_stages.induct)
  case (1 toks prog s w)
  then show ?case using walk_stage_ok [OF "1.prems"]
    by (subst walk_stages.simps) (auto split: prod.split)
qed

text \<open>
  C34: no path \<open>WrittenPaths\<close> names holds a byte the shell would expand, whether the word
  stood alone or was joined to the line's leading directory changes.
\<close>

theorem WrittenPaths_literal: "list_all literal (fst (WrittenPaths toolName command))"
  using walk_stages_ok [OF walk_ok_simps(3), unfolded walk_ok_def]
  by (auto simp: WrittenPaths_def finish_walk_def split: option.split prod.split)

end
