(* ===== verification/MaskedSimple.thy ===== *)
theory MaskedSimple
  imports Leading Verb
begin

text \<open>
  One simple command of a line, as \<^verbatim>\<open>internal/shape\<close> (masked.go, masked_parse.go,
  masked_simple.go, masked_name.go, masked_eval.go) reads it: where it ends, its words, what it
  does to the exit status, the stage of a pipe it is, and the runner group it joins. The
  parser's state is a record passed along; \<open>p.simples\<close> holds the commands in the order the
  parser meets them. A set of names is a list.
\<close>

section \<open>The parser's state\<close>

datatype simpleOp =
  opOther | opTrue | opFalse | opExit | opSet | opAssign | opStatusRead | opRunner | opCd

datatype shvalue = ValUnknown | ValLiteral int | ValStatus | ValVar string

record setOpt =
  so_errexit :: bool
  so_on :: bool

record assignment =
  as_name :: string
  as_val :: shvalue

record simple =
  si_start :: nat
  si_end :: nat
  si_op :: simpleOp
  si_runner :: "nat option"
  si_stage :: nat
  si_hides :: bool
  si_args :: "shvalue list"
  si_opts :: "setOpt list"
  si_assigns :: "assignment list"

record runnerGroup =
  rg_key :: string
  rg_kind :: masked_word
  rg_list :: string
  rg_starts :: "nat list"
  rg_last :: nat
  rg_displaced :: bool
  rg_name :: string

record lineParser =
  lp_toks :: "token list"
  lp_pos :: nat
  lp_simples :: "simple list"
  lp_runners :: "runnerGroup list"
  lp_groups :: "string \<rightharpoonup> nat"
  lp_assigned :: "string list"
  lp_errexit :: bool

definition lineParser0 :: "token list \<Rightarrow> lineParser" where
  "lineParser0 toks =
     \<lparr>lp_toks = toks, lp_pos = 0, lp_simples = [], lp_runners = [], lp_groups = Map.empty, lp_assigned = [],
      lp_errexit = False\<rparr>"

definition simple0 :: "nat \<Rightarrow> nat \<Rightarrow> simple" where
  "simple0 s e =
     \<lparr>si_start = s, si_end = e, si_op = opOther, si_runner = None, si_stage = 0, si_hides = False, si_args = [],
      si_opts = [], si_assigns = []\<rparr>"

section \<open>Where a simple command ends\<close>

definition glued_out :: "token list \<Rightarrow> nat \<Rightarrow> nat \<Rightarrow> bool" where
  "glued_out toks j e \<longleftrightarrow>
     j + 1 < e \<and> tk_meta (toks ! (j + 1)) \<and> tk_glued (toks ! (j + 1)) \<and> HasPrefix (tk_text (toks ! (j + 1))) ''>''"

lemma simple_end_past: "j \<le> operatorEnd toks j" "j \<le> operatorEnd toks (Suc j)"
  using operatorEnd_le [of j toks] operatorEnd_le [of "Suc j" toks] by simp_all

function simple_end :: "token list \<Rightarrow> nat \<Rightarrow> nat \<Rightarrow> char list \<Rightarrow> nat option" where
  "simple_end toks s j open =
     (if j \<ge> length toks then (if open \<noteq> [] then None else Some (length toks))
      else (let t = toks ! j in
        if j > s \<and> tk_nlBefore t \<and> open = [] then Some j
        else if openBrace t then None
        else if open \<noteq> []
        then (if unknownDepth toks j False then None else simple_end toks s (j + 1) (inGroup open t))
        else if odd (tk_ticks t) then simple_end toks s (j + 1) [btick]
        else if \<not> tk_meta t then simple_end toks s (j + 1) []
        else if tk_text t = ''(''
        then (if j + 1 < length toks \<and> tk_meta (toks ! (j + 1)) \<and> tk_text (toks ! (j + 1)) = '')'' then None
              else simple_end toks s (j + 1) [CHR ''(''])
        else if tk_text t = '')'' then Some j
        else if tk_text t = ''&'' \<and> glued_out toks j (length toks)
        then (if noTarget toks (operatorEnd toks (j + 1)) then None
              else simple_end toks s (operatorEnd toks (j + 1) + 1) [])
        else if isRedirect (tk_text t)
        then (if noTarget toks (operatorEnd toks j) then None else simple_end toks s (operatorEnd toks j + 1) [])
        else if separator (tk_text t) then Some j
        else simple_end toks s (j + 1) []))"
  by pat_completeness auto
termination
  by (relation "measure (\<lambda>(toks, _, j, _). length toks - j)")
    (auto intro!: diff_less_mono2 simp: less_Suc_eq_le simple_end_past)

declare simple_end.simps [simp del]

definition simpleEnd :: "token list \<Rightarrow> nat \<Rightarrow> nat option" where
  "simpleEnd toks s = simple_end toks s s []"

function words_loop :: "token list \<Rightarrow> nat \<Rightarrow> nat \<Rightarrow> nat list" where
  "words_loop toks j e =
     (if j \<ge> e then []
      else (let t = toks ! j in
        if \<not> tk_meta t \<and> j + 1 < e \<and> tk_meta (toks ! (j + 1)) \<and> tk_glued (toks ! (j + 1)) \<and>
           isRedirect (tk_text (toks ! (j + 1))) \<and> isFDPrefix t
        then words_loop toks (j + 1) e
        else if tk_meta t \<and> tk_text t = ''&'' \<and> glued_out toks j e
        then words_loop toks (operatorEnd toks (j + 1) + 2) e
        else if tk_meta t \<and> isRedirect (tk_text t) then words_loop toks (operatorEnd toks j + 2) e
        else j # words_loop toks (j + 1) e))"
  by pat_completeness auto
termination
  by (relation "measure (\<lambda>(_, j, e). e - j)")
    (auto intro!: diff_less_mono2 simp: less_Suc_eq_le le_SucI simple_end_past)

declare words_loop.simps [simp del]

section \<open>Values\<close>

definition isName :: "string \<Rightarrow> bool" where
  "isName s =
     (case s of [] \<Rightarrow> False
      | c # cs \<Rightarrow> nameLetter c \<and> list_all (\<lambda>c. nameLetter c \<or> isDigit c) cs)"

definition digits_value :: "string \<Rightarrow> int" where
  "digits_value s = foldl (\<lambda>n c. 10 * n + (of_char c - 48)) 0 s"

definition word_value :: "string \<Rightarrow> shvalue" where
  "word_value w =
     (if w = ''$?'' then ValStatus
      else if HasPrefix w ''${'' \<and> HasSuffix w ''}'' \<and> isName (butlast (drop 2 w)) then ValVar (butlast (drop 2 w))
      else if HasPrefix w ''$'' \<and> isName (drop 1 w) then ValVar (drop 1 w)
      else (case CutPrefix w ''-'' of (digits, neg) \<Rightarrow>
        if digits = [] \<or> \<not> list_all isDigit digits \<or> length digits > 18 then ValUnknown
        else ValLiteral ((if neg then - digits_value digits else digits_value digits) mod 256)))"

definition valueOf :: "token \<Rightarrow> shvalue" where
  "valueOf t = (if tk_meta t then ValUnknown else word_value (tk_text t))"

definition splitAssignment :: "string \<Rightarrow> string \<times> string" where
  "splitAssignment w = (case Cut w CHR ''='' of (name, val, _) \<Rightarrow> (name, val))"

definition assignment_of :: "token \<Rightarrow> assignment" where
  "assignment_of t = (case splitAssignment (tk_text t) of (name, v) \<Rightarrow> \<lparr>as_name = name, as_val = word_value v\<rparr>)"

definition assignments :: "token list \<Rightarrow> nat list \<Rightarrow> assignment list option" where
  "assignments toks ws =
     (if list_all (\<lambda>j. let t = toks ! j in
           \<not> tk_meta t \<and> isShellAssignment t \<and> \<not> (tk_opaque t \<and> as_val (assignment_of t) = ValUnknown)) ws
      then Some (map (\<lambda>j. assignment_of (toks ! j)) ws) else None)"

definition reads_word :: "string list \<Rightarrow> string \<Rightarrow> bool" where
  "reads_word names w =
     (Contains w ''$?'' \<or> Contains w ''PIPESTATUS'' \<or>
      list_ex (\<lambda>n. Contains w (''$'' @ n) \<or> Contains w (''${'' @ n)) names)"

definition readsStatus :: "lineParser \<Rightarrow> nat \<Rightarrow> nat \<Rightarrow> bool" where
  "readsStatus p s e = list_ex (\<lambda>j. reads_word (lp_assigned p) (tk_text (lp_toks p ! j))) [s..<e]"

section \<open>The options of set\<close>

text \<open>
  The letters of one word; \<open>o\<close> must be its last and takes the next word. \<open>None\<close> is a word the
  reader does not know.
\<close>

fun set_letters :: "bool \<Rightarrow> string \<Rightarrow> token list \<Rightarrow> (setOpt list \<times> token list) option" where
  "set_letters on [] rest = Some ([], rest)"
| "set_letters on (c # cs) rest =
     (if c = CHR ''e''
      then map_option (apfst ((#) \<lparr>so_errexit = True, so_on = on\<rparr>)) (set_letters on cs rest)
      else if c = CHR ''o''
      then (if cs \<noteq> [] then None
            else (case rest of
                    [] \<Rightarrow> Some ([], [])
                  | t # ts \<Rightarrow>
                      Some (if tk_text t = ''pipefail'' then [\<lparr>so_errexit = False, so_on = on\<rparr>]
                            else if tk_text t = ''errexit'' then [\<lparr>so_errexit = True, so_on = on\<rparr>] else [], ts)))
      else set_letters on cs rest)"

lemma set_letters_rest: "set_letters on cs rest = Some (os, rest') \<Longrightarrow> length rest' \<le> length rest"
  by (induction on cs rest arbitrary: os rest' rule: set_letters.induct)
    (auto split: if_splits list.splits)

function setOptions :: "token list \<Rightarrow> setOpt list option" where
  "setOptions [] = Some []"
| "setOptions (t # ts) =
     (let w = tk_text t in
      if tk_meta t \<or> tk_opaque t then None
      else if w = ''--'' \<or> w = ''-'' then Some []
      else if length w < 2 \<or> hd w \<noteq> CHR ''-'' \<and> hd w \<noteq> CHR ''+'' then setOptions ts
      else (case set_letters (hd w = CHR ''-'') (tl w) ts of
              None \<Rightarrow> None
            | Some (os, rest) \<Rightarrow> map_option ((@) os) (setOptions rest)))"
  by pat_completeness auto
termination
  by (relation "measure length") (auto dest!: set_letters_rest simp: less_Suc_eq_le)

section \<open>The stage of a pipe\<close>

definition stageOther :: nat where "stageOther = 0"
definition stageTail :: nat where "stageTail = 1"
definition stageTee :: nat where "stageTee = 2"
definition stageCat :: nat where "stageCat = 3"

definition keepsSummary :: "nat \<Rightarrow> bool" where
  "keepsSummary stage \<longleftrightarrow> stage = stageTail \<or> stage = stageTee \<or> stage = stageCat"

definition allDigitsAfterDash :: "string \<Rightarrow> bool" where
  "allDigitsAfterDash w \<longleftrightarrow> length w > 1 \<and> hd w = CHR ''-'' \<and> allDigits (tl w)"

fun tailStage :: "token list \<Rightarrow> nat list \<Rightarrow> bool \<Rightarrow> nat" where
  "tailStage toks [] countNext = (if countNext then stageOther else stageTail)"
| "tailStage toks (j # js) countNext =
     (let w = tk_text (toks ! j) in
      if countNext then tailStage toks js False
      else if \<not> literalWord toks j then stageOther
      else if w = ''--lines'' \<or> w = ''-n'' then tailStage toks js True
      else if HasPrefix w ''--''
      then (if \<not> HasPrefix w ''--lines='' \<and> w \<noteq> ''--quiet'' \<and> w \<noteq> ''--silent'' then stageOther
            else tailStage toks js False)
      else if length w > 1 \<and> hd w = CHR ''-''
      then (if CHR ''c'' \<in> set w then stageOther
            else tailStage toks js (HasSuffix w ''n'' \<and> \<not> allDigitsAfterDash w))
      else if length w > 1 \<and> hd w = CHR ''+'' \<and> allDigits (tl w) then tailStage toks js False
      else stageOther)"

definition stageOf :: "token list \<Rightarrow> nat \<Rightarrow> string \<Rightarrow> nat list \<Rightarrow> nat" where
  "stageOf toks i prog args =
     (if tk_quotedAt (toks ! i) \<noteq> None \<or> tk_opaque (toks ! i) then stageOther
      else if prog = ''tail'' then tailStage toks args False
      else if prog = ''tee'' then stageTee
      else if prog = ''cat''
      then (if list_all (\<lambda>j. literalWord toks j \<and> tk_text (toks ! j) = ''-'') args then stageCat else stageOther)
      else if prog = ''head'' then 4
      else if prog = ''grep'' then 5
      else if prog = ''wc'' then 6
      else if prog = ''sort'' then 7
      else if prog = ''cut'' then 8
      else stageOther)"

section \<open>Runners\<close>

definition shells :: "string list" where
  "shells = [''sh'', ''bash'', ''zsh'', ''dash'', ''ksh'', ''mksh'']"

fun runsShellLine :: "token list \<Rightarrow> nat list \<Rightarrow> nat \<Rightarrow> bool" where
  "runsShellLine toks [] i = False"
| "runsShellLine toks (j # js) i =
     (let t = toks ! j in
      if \<not> (j < i \<or> tk_meta t \<or> tk_opaque t \<or> Base (tk_text t) \<notin> set shells) \<and>
         list_ex (\<lambda>a. let w = tk_text (toks ! a) in
                   length w > 1 \<and> hd w = CHR ''-'' \<and> w ! 1 \<noteq> CHR ''-'' \<and> CHR ''c'' \<in> set w) js
      then True else runsShellLine toks js i)"

definition runner_word :: "token list \<Rightarrow> nat \<Rightarrow> nat \<Rightarrow> string" where
  "runner_word toks i j =
     (let t = toks ! j; w0 = tk_text t;
          w1 = (if tk_meta t then CHR 0x01 # w0 else w0);
          w2 = (if tk_opaque t then CHR 0x02 # w1 else w1)
      in if tk_glued t \<and> j > i then CHR 0x03 # w2 else w2)"

definition runnerWords :: "token list \<Rightarrow> nat \<Rightarrow> nat \<Rightarrow> string" where
  "runnerWords toks i e = Join (map (runner_word toks i) (words_loop toks i e)) [CHR 0x00]"

text \<open>The first list with a row for the command: the list, the row, and whether a flag hides the status.\<close>

fun first_row :: "token list \<Rightarrow> nat \<Rightarrow> string \<Rightarrow> nat \<Rightarrow> runnerList list \<Rightarrow> (runnerList \<times> nat \<times> bool) option" where
  "first_row toks ri name e [] = None"
| "first_row toks ri name e (l # ls) =
     (case runnerRow toks ri name e (rl_rows l) of
        (Some r, h) \<Rightarrow> Some (l, r, h)
      | (None, _) \<Rightarrow> first_row toks ri name e ls)"

definition new_group :: "string \<Rightarrow> runnerList \<Rightarrow> nat \<Rightarrow> runnerGroup" where
  "new_group key l row =
     \<lparr>rg_key = key, rg_kind = rl_masked l, rg_list = rl_kind l, rg_starts = [], rg_last = 0, rg_displaced = False,
      rg_name = rl_names l ! row\<rparr>"

definition join_group :: "lineParser \<Rightarrow> string \<Rightarrow> runnerList \<Rightarrow> nat \<Rightarrow> nat \<Rightarrow> lineParser \<times> nat" where
  "join_group p key l row s =
     (case (case lp_groups p key of
              Some g \<Rightarrow> (p, g)
            | None \<Rightarrow> let g = length (lp_runners p) in
                (p\<lparr>lp_groups := (lp_groups p)(key \<mapsto> g), lp_runners := lp_runners p @ [new_group key l row]\<rparr>, g)) of
        (p, g) \<Rightarrow>
          (let r = lp_runners p ! g in
           (p\<lparr>lp_runners := (lp_runners p)[g := r\<lparr>rg_starts := rg_starts r @ [s], rg_last := s\<rparr>]\<rparr>, g)))"

definition runner_command :: "lineParser \<Rightarrow> simple \<Rightarrow> nat \<Rightarrow> nat \<Rightarrow> nat \<Rightarrow> string \<Rightarrow> lineParser \<times> simple" where
  "runner_command p c s i e prog =
     (let toks = lp_toks p in
      case runnerPrefix (take e toks) i prog of
        (ri, name, ok) \<Rightarrow>
          if \<not> ok then (p, c)
          else (case first_row toks ri name e runnerLists of
                  None \<Rightarrow> (p, c)
                | Some (l, row, hide) \<Rightarrow>
                    (case join_group p (runnerWords toks ri e) l row s of
                       (q, g) \<Rightarrow> (q, c\<lparr>si_op := opRunner, si_runner := Some g, si_hides := hide\<rparr>))))"

section \<open>A simple command\<close>

definition refusedPrograms :: "string list" where
  "refusedPrograms =
     [''eval'', ''trap'', ''return'', ''exec'', ''function'', ''coproc'', ''select'', ''case'', ''alias'']"

text \<open>What a builtin does: \<open>None\<close> where the program is none of them, \<open>Some None\<close> where it is refused.\<close>

definition builtin :: "lineParser \<Rightarrow> simple \<Rightarrow> nat \<Rightarrow> nat \<Rightarrow> string \<Rightarrow> nat list \<Rightarrow> (lineParser \<times> simple) option option" where
  "builtin p c i e prog args =
     (let toks = lp_toks p in
      if prog \<in> set refusedPrograms then Some None
      else if prog = ''set''
      then (case setOptions (map ((!) toks) args) of
              None \<Rightarrow> Some None
            | Some os \<Rightarrow>
                Some (Some (p\<lparr>lp_errexit := lp_errexit p \<or> list_ex (\<lambda>x. so_errexit x \<and> so_on x) os\<rparr>,
                            c\<lparr>si_op := opSet, si_opts := os\<rparr>)))
      else if prog = ''exit''
      then Some (Some (p, c\<lparr>si_op := opExit, si_args := map (\<lambda>j. valueOf (toks ! j)) args\<rparr>))
      else if prog = ''true'' \<or> prog = '':'' then Some (Some (p, c\<lparr>si_op := opTrue\<rparr>))
      else if prog = ''false'' then Some (Some (p, c\<lparr>si_op := opFalse\<rparr>))
      else if prog \<in> {''['', ''test'', ''let'', ''expr''}
      then Some (Some (p, if readsStatus p (i + 1) e then c\<lparr>si_op := opStatusRead\<rparr> else c))
      else if prog = ''wait'' then Some (Some (p, if args \<noteq> [] then c\<lparr>si_op := opStatusRead\<rparr> else c))
      else if prog \<in> {''cd'', ''pushd'', ''popd''} then Some (Some (p, c\<lparr>si_op := opCd\<rparr>))
      else if prog \<in> {''export'', ''local'', ''declare'', ''typeset'', ''readonly''}
      then (let as = map (\<lambda>j. assignment_of (toks ! j))
                       (filter (\<lambda>j. \<not> tk_meta (toks ! j) \<and> isShellAssignment (toks ! j)) args) in
            Some (Some (p\<lparr>lp_assigned := lp_assigned p @ map as_name as\<rparr>,
                        c\<lparr>si_op := opAssign, si_assigns := as\<rparr>)))
      else None)"

definition simple_command :: "lineParser \<Rightarrow> nat \<Rightarrow> nat \<Rightarrow> (lineParser \<times> simple) option" where
  "simple_command p s e =
     (let toks = lp_toks p; c = simple0 s e; ws = words_loop toks s e in
      if ws = [] then Some (p, c)
      else (case assignments toks ws of
              Some as \<Rightarrow>
                Some (p\<lparr>lp_assigned := lp_assigned p @ map as_name as\<rparr>, c\<lparr>si_op := opAssign, si_assigns := as\<rparr>)
            | None \<Rightarrow>
                (case programToken (slice_tokens toks s e) False of
                   None \<Rightarrow> None
                 | Some k \<Rightarrow>
                     (let i = s + k; prog = Base (tk_text (toks ! i)); args = filter (\<lambda>j. j > i) ws in
                      if runsShellLine toks ws i then None
                      else (case (if tk_quotedAt (toks ! i) = None then builtin p c i e prog args else None) of
                              Some r \<Rightarrow> r
                            | None \<Rightarrow>
                                Some (runner_command p (c\<lparr>si_stage := stageOf toks i prog args\<rparr>) s i e prog))))))"

text \<open>The command is filed among the parser's and the position moves to its end.\<close>

definition parseSimple :: "lineParser \<Rightarrow> (lineParser \<times> simple) option" where
  "parseSimple p =
     (let s = lp_pos p in
      case simpleEnd (lp_toks p) s of
        None \<Rightarrow> None
      | Some e \<Rightarrow>
          if e = s then None
          else (case simple_command p s e of
                  None \<Rightarrow> None
                | Some (q, c) \<Rightarrow> Some (q\<lparr>lp_pos := e, lp_simples := lp_simples q @ [c]\<rparr>, c)))"

end
