(* ===== verification/MaskedParse.thy ===== *)
theory MaskedParse
  imports MaskedSimple
begin

text \<open>
  The parser of a line, \<^verbatim>\<open>internal/shape\<close> (masked.go, masked_parse.go): lists, and-or lists,
  pipelines, groups, conditionals and loops by recursive descent over the tokens. The methods
  take the parser's state and give it back; a refusal ends the whole parse, so the state after
  one is not kept. The mutual recursion spends fuel: \<open>parse_fuel\<close> of it is proved enough for
  every line, so \<open>OutOfFuel\<close> is never a line's result.
\<close>

section \<open>The syntax tree\<close>

datatype command_tree =
    Simple simple
  | Subshell list_tree
  | GroupCmd list_tree
  | IfCmd "list_tree list" "list_tree list" "list_tree option"
  | Loop bool
and list_tree = Items "item_tree list"
and item_tree = Item and_or_tree bool
and and_or_tree = AndOr "pipeline_tree list" "string list"
and pipeline_tree = Pipeline bool "command_tree list"

primrec items_of :: "list_tree \<Rightarrow> item_tree list" where
  "items_of (Items xs) = xs"

datatype 'a parse = OutOfFuel | Refused | Parsed 'a lineParser

primrec and_then :: "'a parse \<Rightarrow> ('a \<Rightarrow> lineParser \<Rightarrow> 'b parse) \<Rightarrow> 'b parse" where
  "and_then OutOfFuel f = OutOfFuel"
| "and_then Refused f = Refused"
| "and_then (Parsed x p) f = f x p"

section \<open>The tokens at the position\<close>

definition word_tok :: "lineParser \<Rightarrow> nat \<Rightarrow> string \<Rightarrow> bool" where
  "word_tok p j w =
     (if j \<ge> length (lp_toks p) then False
      else (let t = lp_toks p ! j in
            \<not> tk_meta t \<and> tk_quotedAt t = None \<and> \<not> tk_opaque t \<and> tk_text t = w))"

definition op_tok :: "lineParser \<Rightarrow> nat \<Rightarrow> string \<Rightarrow> bool" where
  "op_tok p j w \<longleftrightarrow> j < length (lp_toks p) \<and> tk_meta (lp_toks p ! j) \<and> tk_text (lp_toks p ! j) = w"

definition word_here :: "lineParser \<Rightarrow> string \<Rightarrow> bool" where
  "word_here p w = word_tok p (lp_pos p) w"

definition op_here :: "lineParser \<Rightarrow> string \<Rightarrow> bool" where
  "op_here p w = op_tok p (lp_pos p) w"

definition at_end :: "lineParser \<Rightarrow> bool" where
  "at_end p \<longleftrightarrow> lp_pos p \<ge> length (lp_toks p)"

definition nl_here :: "lineParser \<Rightarrow> bool" where
  "nl_here p \<longleftrightarrow> \<not> at_end p \<and> tk_nlBefore (lp_toks p ! lp_pos p)"

definition advance :: "nat \<Rightarrow> lineParser \<Rightarrow> lineParser" where
  "advance k p = p\<lparr>lp_pos := lp_pos p + k\<rparr>"

definition atTerminator :: "lineParser \<Rightarrow> bool" where
  "atTerminator p \<longleftrightarrow>
     at_end p \<or> op_here p '')'' \<or>
     list_ex (word_here p) [''}'', ''then'', ''elif'', ''else'', ''fi'', ''do'', ''done'', ''esac'']"

section \<open>Redirections after a compound command\<close>

definition fd_redirect :: "token list \<Rightarrow> nat \<Rightarrow> bool" where
  "fd_redirect toks j \<longleftrightarrow>
     \<not> tk_meta (toks ! j) \<and> isFDPrefix (toks ! j) \<and> j + 1 < length toks \<and> tk_meta (toks ! (j + 1)) \<and>
     tk_glued (toks ! (j + 1)) \<and> isRedirect (tk_text (toks ! (j + 1)))"

definition redirect_at :: "token list \<Rightarrow> nat \<Rightarrow> nat" where
  "redirect_at toks j0 =
     (let j = (if fd_redirect toks j0 then j0 + 1 else j0) in
      if tk_meta (toks ! j) \<and> tk_text (toks ! j) = ''&'' \<and> glued_out toks j (length toks) then j + 1 else j)"

lemma redirect_at_le: "j \<le> redirect_at toks j"
  by (simp add: redirect_at_def Let_def)

lemma redirect_past_at: "j < operatorEnd toks (redirect_at toks j) + 2"
  using operatorEnd_le [of "redirect_at toks j" toks] redirect_at_le [of j toks] by simp

text \<open>\<open>None\<close> is a redirection with no target that can be read.\<close>

function redirections_from :: "token list \<Rightarrow> nat \<Rightarrow> nat option" where
  "redirections_from toks j =
     (if j \<ge> length toks then Some j
      else if tk_nlBefore (toks ! j) then Some j
      else (let k = redirect_at toks j in
            if \<not> tk_meta (toks ! k) \<or> \<not> isRedirect (tk_text (toks ! k)) then Some j
            else (let e = operatorEnd toks k in
                  if noTarget toks e \<or> tk_meta (toks ! (e + 1)) then None
                  else redirections_from toks (e + 2))))"
  by pat_completeness auto
termination
  by (relation "measure (\<lambda>(toks, j). length toks - j)")
    (use redirect_past_at in \<open>auto intro!: diff_less_mono2\<close>)

declare redirections_from.simps [simp del]

definition redirected :: "lineParser \<Rightarrow> 'a \<Rightarrow> 'a parse" where
  "redirected p x =
     (case redirections_from (lp_toks p) (lp_pos p) of
        None \<Rightarrow> Refused
      | Some j \<Rightarrow> Parsed x (p\<lparr>lp_pos := j\<rparr>))"

section \<open>Commands\<close>

definition refusedWords :: "string list" where
  "refusedWords =
     [''case'', ''select'', ''function'', ''coproc'', ''then'', ''elif'', ''else'', ''fi'', ''do'', ''done'',
      ''esac'', ''}'', ''in'', '']]'']"

text \<open>A conditional expression \<open>[[ ... ]]\<close>, filed as one simple command.\<close>

definition test_end :: "lineParser \<Rightarrow> nat option" where
  "test_end p = find (\<lambda>e. word_tok p e '']]'') [lp_pos p + 1..<length (lp_toks p)]"

definition parseTest :: "lineParser \<Rightarrow> command_tree parse" where
  "parseTest p =
     (case test_end p of
        None \<Rightarrow> Refused
      | Some e \<Rightarrow>
          (let s = (simple0 (lp_pos p) (e + 1))
                     \<lparr>si_op := (if readsStatus p (lp_pos p + 1) e then opStatusRead else opOther)\<rparr> in
           Parsed (Simple s) (p\<lparr>lp_pos := e + 1, lp_simples := lp_simples p @ [s]\<rparr>)))"

text \<open>The name and the words of a \<open>for\<close>, up to its \<open>do\<close>.\<close>

fun for_words :: "token list \<Rightarrow> nat \<Rightarrow> nat option" where
  "for_words [] j = Some j"
| "for_words (t # ts) j =
     (if tk_nlBefore t \<or> tk_meta t \<and> tk_text t = '';'' then Some j
      else if tk_meta t then None
      else for_words ts (j + 1))"

definition past_in :: "lineParser \<Rightarrow> lineParser option" where
  "past_in p =
     (if word_here p ''in'' \<and> \<not> nl_here p
      then map_option (\<lambda>j. p\<lparr>lp_pos := j\<rparr>) (for_words (drop (lp_pos p + 1) (lp_toks p)) (lp_pos p + 1))
      else Some p)"

definition for_head :: "lineParser \<Rightarrow> lineParser option" where
  "for_head p =
     (if at_end p \<or> tk_meta (lp_toks p ! lp_pos p) \<or> \<not> isName (tk_text (lp_toks p ! lp_pos p)) then None
      else (case past_in (advance 1 p) of
              None \<Rightarrow> None
            | Some q \<Rightarrow>
                (let q = (if op_here q '';'' then advance 1 q else q) in
                 if word_here q ''do'' then Some q else None)))"

definition loop_unsure :: "simple list \<Rightarrow> bool" where
  "loop_unsure ss =
     list_ex (\<lambda>s. si_op s \<in> {opRunner, opExit, opStatusRead, opSet, opAssign, opCd}) ss"

definition simple_parse :: "lineParser \<Rightarrow> command_tree parse" where
  "simple_parse p =
     (if list_ex (word_here p) refusedWords then Refused
      else (case parseSimple p of None \<Rightarrow> Refused | Some (q, c) \<Rightarrow> Parsed (Simple c) q))"

definition finish_if ::
  "list_tree list \<Rightarrow> list_tree list \<Rightarrow> list_tree option \<Rightarrow> lineParser \<Rightarrow> command_tree parse" where
  "finish_if conds bodies els p =
     (if \<not> word_here p ''fi'' then Refused else redirected (advance 1 p) (IfCmd conds bodies els))"

text \<open>
  The methods that call one another, as each step of the descent has them. A method is its
  code over the methods it calls; \<open>parsers_at n\<close> ties them with \<open>n\<close> calls deep to spend.
\<close>

record parsers =
  ps_list :: "lineParser \<Rightarrow> item_tree list \<Rightarrow> list_tree parse"
  ps_and_or :: "lineParser \<Rightarrow> pipeline_tree list \<Rightarrow> string list \<Rightarrow> and_or_tree parse"
  ps_stages :: "lineParser \<Rightarrow> bool \<Rightarrow> command_tree list \<Rightarrow> pipeline_tree parse"
  ps_command :: "lineParser \<Rightarrow> command_tree parse"
  ps_if :: "lineParser \<Rightarrow> list_tree list \<Rightarrow> list_tree list \<Rightarrow> command_tree parse"
  ps_loop :: "lineParser \<Rightarrow> nat \<Rightarrow> command_tree parse"

definition parseList :: "parsers \<Rightarrow> lineParser \<Rightarrow> item_tree list \<Rightarrow> list_tree parse" where
  "parseList P p items =
     (if atTerminator p then Parsed (Items items) p
      else and_then (ps_and_or P p [] []) (\<lambda>ao q.
        if op_here q '';'' then ps_list P (advance 1 q) (items @ [Item ao False])
        else if op_here q ''&'' then ps_list P (advance 1 q) (items @ [Item ao True])
        else if nl_here q \<or> atTerminator q then ps_list P q (items @ [Item ao False])
        else Refused))"

definition parseBody :: "parsers \<Rightarrow> lineParser \<Rightarrow> list_tree parse" where
  "parseBody P p = and_then (ps_list P p []) (\<lambda>l q. if items_of l = [] then Refused else Parsed l q)"

definition parseAndOr ::
  "parsers \<Rightarrow> lineParser \<Rightarrow> pipeline_tree list \<Rightarrow> string list \<Rightarrow> and_or_tree parse" where
  "parseAndOr P p pipes ops =
     and_then (if word_here p ''!'' then ps_stages P (advance 1 p) True [] else ps_stages P p False []) (\<lambda>pl q.
       if at_end q \<or> nl_here q \<or> \<not> op_here q ''&&'' \<and> \<not> op_here q ''||''
       then Parsed (AndOr (pipes @ [pl]) ops) q
       else ps_and_or P (advance 1 q) (pipes @ [pl]) (ops @ [tk_text (lp_toks q ! lp_pos q)]))"

definition parseStages :: "parsers \<Rightarrow> lineParser \<Rightarrow> bool \<Rightarrow> command_tree list \<Rightarrow> pipeline_tree parse" where
  "parseStages P p neg stages =
     and_then (ps_command P p) (\<lambda>c q.
       if \<not> op_here q ''|'' \<or> nl_here q then Parsed (Pipeline neg (stages @ [c])) q
       else (let r = advance 1 q in
             ps_stages P (if op_here r ''&'' \<and> tk_glued (lp_toks r ! lp_pos r) then advance 1 r else r) neg
               (stages @ [c])))"

definition parseCommand :: "parsers \<Rightarrow> lineParser \<Rightarrow> command_tree parse" where
  "parseCommand P p =
     (if at_end p then Refused
      else if op_here p ''(''
      then (if op_tok p (lp_pos p + 1) ''('' \<and> tk_glued (lp_toks p ! (lp_pos p + 1)) then Refused
            else and_then (parseBody P (advance 1 p)) (\<lambda>b q.
              if \<not> op_here q '')'' then Refused else redirected (advance 1 q) (Subshell b)))
      else if tk_meta (lp_toks p ! lp_pos p) then Refused
      else if word_here p ''{''
      then and_then (parseBody P (advance 1 p)) (\<lambda>b q.
             if \<not> word_here q ''}'' then Refused else redirected (advance 1 q) (GroupCmd b))
      else if word_here p ''if'' then ps_if P (advance 1 p) [] []
      else if word_here p ''while'' \<or> word_here p ''until''
      then and_then (parseBody P (advance 1 p)) (\<lambda>b q.
             if \<not> word_here q ''do'' then Refused else ps_loop P (advance 1 q) (length (lp_simples p)))
      else if word_here p ''for''
      then (case for_head (advance 1 p) of
              None \<Rightarrow> Refused
            | Some q \<Rightarrow> ps_loop P (advance 1 q) (length (lp_simples p)))
      else if word_here p ''[['' then parseTest p
      else simple_parse p)"

definition parseIf ::
  "parsers \<Rightarrow> lineParser \<Rightarrow> list_tree list \<Rightarrow> list_tree list \<Rightarrow> command_tree parse" where
  "parseIf P p conds bodies =
     and_then (parseBody P p) (\<lambda>cond q.
       if \<not> word_here q ''then'' then Refused
       else and_then (parseBody P (advance 1 q)) (\<lambda>body r.
         if word_here r ''elif'' then ps_if P (advance 1 r) (conds @ [cond]) (bodies @ [body])
         else if word_here r ''else''
         then and_then (parseBody P (advance 1 r)) (\<lambda>els s.
                finish_if (conds @ [cond]) (bodies @ [body]) (Some els) s)
         else finish_if (conds @ [cond]) (bodies @ [body]) None r))"

definition parseLoopBody :: "parsers \<Rightarrow> lineParser \<Rightarrow> nat \<Rightarrow> command_tree parse" where
  "parseLoopBody P p at =
     and_then (parseBody P p) (\<lambda>b q.
       if \<not> word_here q ''done'' then Refused
       else redirected (advance 1 q) (Loop (loop_unsure (drop at (lp_simples q)))))"

primrec parsers_at :: "nat \<Rightarrow> parsers" where
  "parsers_at 0 =
     \<lparr>ps_list = \<lambda>p items. OutOfFuel, ps_and_or = \<lambda>p pipes ops. OutOfFuel,
      ps_stages = \<lambda>p neg stages. OutOfFuel, ps_command = \<lambda>p. OutOfFuel,
      ps_if = \<lambda>p conds bodies. OutOfFuel, ps_loop = \<lambda>p at. OutOfFuel\<rparr>"
| "parsers_at (Suc n) =
     (let P = parsers_at n in
      \<lparr>ps_list = parseList P, ps_and_or = parseAndOr P, ps_stages = parseStages P,
       ps_command = parseCommand P, ps_if = parseIf P, ps_loop = parseLoopBody P\<rparr>)"

definition parse_fuel :: "token list \<Rightarrow> nat" where
  "parse_fuel toks = 5 * length toks + 4"

definition parseLine :: "lineParser \<Rightarrow> list_tree parse" where
  "parseLine p =
     and_then (ps_list (parsers_at (parse_fuel (lp_toks p))) p []) (\<lambda>l q.
       if lp_pos q = length (lp_toks q) then Parsed l q else Refused)"

section \<open>What the parser keeps\<close>

text \<open>
  The commands filed so far lie in order before the position, and a runner group is exactly the
  commands that joined it, under the words that key it.
\<close>

definition simple_ok :: "lineParser \<Rightarrow> simple \<Rightarrow> bool" where
  "simple_ok p s \<longleftrightarrow>
     si_start s < si_end s \<and> si_end s \<le> lp_pos p \<and>
     (case si_runner s of None \<Rightarrow> si_op s \<noteq> opRunner
      | Some g \<Rightarrow> si_op s = opRunner \<and> g < length (lp_runners p))"

definition starts_of :: "simple list \<Rightarrow> nat \<Rightarrow> nat list" where
  "starts_of ss g = map si_start (filter (\<lambda>s. si_runner s = Some g) ss)"

definition group_ok :: "lineParser \<Rightarrow> nat \<Rightarrow> bool" where
  "group_ok p g \<longleftrightarrow>
     (let r = lp_runners p ! g in
      rg_starts r = starts_of (lp_simples p) g \<and> rg_starts r \<noteq> [] \<and> rg_last r = last (rg_starts r) \<and>
      lp_groups p (rg_key r) = Some g)"

definition keys_ok :: "lineParser \<Rightarrow> bool" where
  "keys_ok p \<longleftrightarrow>
     (\<forall>key g. lp_groups p key = Some g \<longrightarrow> g < length (lp_runners p) \<and> rg_key (lp_runners p ! g) = key)"

definition parser_ok :: "lineParser \<Rightarrow> bool" where
  "parser_ok p \<longleftrightarrow>
     lp_pos p \<le> length (lp_toks p) \<and> sorted_wrt (\<lambda>a b. si_end a \<le> si_start b) (lp_simples p) \<and>
     list_all (simple_ok p) (lp_simples p) \<and> list_all (group_ok p) [0..<length (lp_runners p)] \<and> keys_ok p"

lemma parser_ok_start: "parser_ok (lineParser0 toks)"
  by (simp add: parser_ok_def lineParser0_def keys_ok_def)

lemma parser_ok_pos:
  "parser_ok p \<Longrightarrow> lp_pos p \<le> j \<Longrightarrow> j \<le> length (lp_toks p) \<Longrightarrow> parser_ok (p\<lparr>lp_pos := j\<rparr>)"
  by (auto simp: parser_ok_def list_all_iff simple_ok_def group_ok_def keys_ok_def Let_def split: option.splits)

text \<open>Filing a command that is no runner's.\<close>

lemma parser_ok_file:
  assumes "parser_ok p" and "si_start c = lp_pos p" and "si_end c = e" and "lp_pos p < e" and "e \<le> length (lp_toks p)"
    and "si_runner c = None" and "si_op c \<noteq> opRunner"
  shows "parser_ok (p\<lparr>lp_pos := e, lp_simples := lp_simples p @ [c]\<rparr>)"
proof -
  have "simple_ok p s \<Longrightarrow> simple_ok (p\<lparr>lp_pos := e, lp_simples := lp_simples p @ [c]\<rparr>) s" for s
    using assms(4) by (auto simp: simple_ok_def split: option.splits)
  moreover have "group_ok p g \<Longrightarrow> group_ok (p\<lparr>lp_pos := e, lp_simples := lp_simples p @ [c]\<rparr>) g" for g
    using assms(6) by (auto simp: group_ok_def starts_of_def Let_def)
  ultimately show ?thesis
    using assms
    by (auto simp: parser_ok_def list_all_iff sorted_wrt_append keys_ok_def simple_ok_def)
qed

lemma list_all_upt: "list_all P [0..<n] \<longleftrightarrow> (\<forall>g<n. P g)"
  by (auto simp: list_all_iff)

text \<open>Filing a command that joins a group.\<close>

lemma parser_ok_join:
  assumes ok: "parser_ok p" and join: "join_group p key l row (lp_pos p) = (q, g)"
    and c: "si_start c = lp_pos p" "si_end c = e" "si_runner c = Some g" "si_op c = opRunner"
    and e: "lp_pos p < e" "e \<le> length (lp_toks p)"
  shows "parser_ok (q\<lparr>lp_pos := e, lp_simples := lp_simples q @ [c]\<rparr>)"
    and "lp_toks q = lp_toks p" and "lp_pos q = lp_pos p" and "lp_simples q = lp_simples p"
proof -
  let ?rs = "lp_runners p"
  from ok have simples: "list_all (simple_ok p) (lp_simples p)"
    and groups: "\<And>h. h < length ?rs \<Longrightarrow> group_ok p h" and keys: "keys_ok p"
    and sorted: "sorted_wrt (\<lambda>a b. si_end a \<le> si_start b) (lp_simples p)"
    by (auto simp: parser_ok_def list_all_upt)
  have fresh: "starts_of (lp_simples p) (length ?rs) = []"
    using simples by (auto simp: starts_of_def list_all_iff simple_ok_def filter_empty_conv)
  have at: "starts_of (lp_simples p @ [c]) h = starts_of (lp_simples p) h @ (if h = g then [lp_pos p] else [])" for h
    using c by (simp add: starts_of_def)
  have shape: "lp_toks q = lp_toks p \<and> lp_pos q = lp_pos p \<and> lp_simples q = lp_simples p \<and>
      g < length (lp_runners q) \<and> length ?rs \<le> length (lp_runners q) \<and> keys_ok q \<and>
      (\<forall>h<length (lp_runners q). group_ok (q\<lparr>lp_pos := e, lp_simples := lp_simples q @ [c]\<rparr>) h)"
  proof (cases "lp_groups p key")
    case (Some h)
    then have h: "h < length ?rs" using keys by (auto simp: keys_ok_def)
    from join Some have q: "g = h"
      "q = p\<lparr>lp_runners := ?rs[h := (?rs ! h)\<lparr>rg_starts := rg_starts (?rs ! h) @ [lp_pos p], rg_last := lp_pos p\<rparr>]\<rparr>"
      by (auto simp: join_group_def Let_def)
    have "keys_ok q" using keys h by (auto simp: q keys_ok_def nth_list_update)
    moreover have "group_ok (q\<lparr>lp_pos := e, lp_simples := lp_simples q @ [c]\<rparr>) k" if "k < length ?rs" for k
      using groups [OF that] h that by (auto simp: q group_ok_def Let_def nth_list_update at [unfolded q(1)])
    ultimately show ?thesis using h by (simp add: q)
  next
    case None
    from join None have q: "g = length ?rs"
      "q = p\<lparr>lp_groups := (lp_groups p)(key \<mapsto> length ?rs),
             lp_runners := ?rs @ [(new_group key l row)\<lparr>rg_starts := [lp_pos p], rg_last := lp_pos p\<rparr>]\<rparr>"
      by (auto simp: join_group_def Let_def new_group_def nth_append)
    have "keys_ok q"
      using keys None by (auto simp: q keys_ok_def nth_append new_group_def less_Suc_eq)
    moreover have "group_ok (q\<lparr>lp_pos := e, lp_simples := lp_simples q @ [c]\<rparr>) k" if "k < Suc (length ?rs)" for k
    proof (cases "k = length ?rs")
      case True
      then show ?thesis using fresh by (simp add: q group_ok_def Let_def nth_append new_group_def at [unfolded q(1)])
    next
      case False
      then have k: "k < length ?rs" using that by simp
      then have "rg_key (?rs ! k) \<noteq> key" using groups [OF k] None by (auto simp: group_ok_def Let_def)
      with groups [OF k] k False show ?thesis
        by (auto simp: q group_ok_def Let_def nth_append at [unfolded q(1)])
    qed
    ultimately show ?thesis by (simp add: q)
  qed
  then show "lp_toks q = lp_toks p" "lp_pos q = lp_pos p" "lp_simples q = lp_simples p" by auto
  have "simple_ok (q\<lparr>lp_pos := e, lp_simples := lp_simples q @ [c]\<rparr>) s" if "s \<in> set (lp_simples p)" for s
    using simples that e shape by (fastforce simp: list_all_iff simple_ok_def split: option.splits)
  moreover have "si_end s \<le> lp_pos p" if "s \<in> set (lp_simples p)" for s
    using simples that by (auto simp: list_all_iff simple_ok_def)
  ultimately show "parser_ok (q\<lparr>lp_pos := e, lp_simples := lp_simples q @ [c]\<rparr>)"
    using shape sorted c e
    by (auto simp: parser_ok_def list_all_upt list_all_iff sorted_wrt_append keys_ok_def simple_ok_def)
qed

section \<open>Progress\<close>

text \<open>The state moved on by at least \<open>k\<close> tokens of the same line and is well formed.\<close>

definition went :: "nat \<Rightarrow> lineParser \<Rightarrow> lineParser \<Rightarrow> bool" where
  "went k p q \<longleftrightarrow> lp_toks q = lp_toks p \<and> lp_pos p + k \<le> lp_pos q \<and> parser_ok q"

definition reads :: "nat \<Rightarrow> lineParser \<Rightarrow> 'a parse \<Rightarrow> bool" where
  "reads k p r \<longleftrightarrow> (case r of OutOfFuel \<Rightarrow> False | Refused \<Rightarrow> True | Parsed x q \<Rightarrow> went k p q)"

lemma reads_simps [simp]:
  "\<not> reads k p OutOfFuel" "reads k p Refused" "reads k p (Parsed x q) \<longleftrightarrow> went k p q"
  by (simp_all add: reads_def)

lemma reads_then:
  assumes "reads k p r" and "\<And>x q. went k p q \<Longrightarrow> reads m p (f x q)"
  shows "reads m p (and_then r f)"
  using assms by (cases r) auto

lemma went_refl: "parser_ok p \<Longrightarrow> went 0 p p"
  by (simp add: went_def)

lemma went_less: "went k p q \<Longrightarrow> j \<le> k \<Longrightarrow> went j p q"
  by (auto simp: went_def)

lemma went_ok: "went k p q \<Longrightarrow> parser_ok q"
  by (simp add: went_def)

lemma reads_from: "went j p q \<Longrightarrow> reads k q r \<Longrightarrow> m \<le> j + k \<Longrightarrow> reads m p r"
  by (cases r) (auto simp: went_def)

lemma reads_less: "reads k p r \<Longrightarrow> j \<le> k \<Longrightarrow> reads j p r"
  by (cases r) (auto dest: went_less)

lemma parser_ok_at: "parser_ok q \<Longrightarrow> lp_pos q \<le> length (lp_toks q)"
  by (simp add: parser_ok_def)

lemma went_advance: "went k p q \<Longrightarrow> \<not> at_end q \<Longrightarrow> went (Suc k) p (advance (Suc 0) q)"
  using parser_ok_pos [of q "Suc (lp_pos q)"] by (auto simp: went_def advance_def at_end_def)

lemma here_inside [simp]:
  "op_here p w \<Longrightarrow> \<not> at_end p" "word_here p w \<Longrightarrow> \<not> at_end p"
  by (auto simp: op_here_def op_tok_def word_here_def word_tok_def at_end_def)

text \<open>What is left to spend: five calls for each token left.\<close>

definition cost :: "lineParser \<Rightarrow> nat" where
  "cost p = 5 * (length (lp_toks p) - lp_pos p)"

lemma went_cost: "went k p q \<Longrightarrow> cost q + 5 * k \<le> cost p"
  by (auto simp: went_def cost_def parser_ok_def)

section \<open>Each method\<close>

lemma redirections_from_at:
  "redirections_from toks j = Some k \<Longrightarrow> j \<le> length toks \<Longrightarrow> j \<le> k \<and> k \<le> length toks"
proof (induction toks j arbitrary: k rule: redirections_from.induct)
  case (1 toks j)
  let ?e = "operatorEnd toks (redirect_at toks j)"
  show ?case
  proof (cases "j \<ge> length toks \<or> tk_nlBefore (toks ! j) \<or> \<not> tk_meta (toks ! redirect_at toks j) \<or>
      \<not> isRedirect (tk_text (toks ! redirect_at toks j))")
    case True
    then have "redirections_from toks j = Some j" by (subst redirections_from.simps) (auto simp: Let_def)
    with 1(2,3) show ?thesis by simp
  next
    case False
    then have "redirections_from toks j =
        (if noTarget toks ?e \<or> tk_meta (toks ! (?e + 1)) then None else redirections_from toks (?e + 2))"
      by (subst redirections_from.simps) (simp add: Let_def)
    with 1(2) have go: "\<not> (noTarget toks ?e \<or> tk_meta (toks ! (?e + 1)))" "redirections_from toks (?e + 2) = Some k"
      by (simp_all split: if_splits)
    then have "?e + 2 \<le> length toks" by (auto simp: noTarget_def split: if_splits)
    with 1(1) False go have "?e + 2 \<le> k \<and> k \<le> length toks" by (auto simp: Let_def)
    with redirect_past_at [of j toks] show ?thesis by simp
  qed
qed

lemma redirected_reads: "went k p q \<Longrightarrow> reads k p (redirected q x)"
  using redirections_from_at [of "lp_toks q" "lp_pos q"] parser_ok_pos [of q]
  by (auto simp: redirected_def went_def split: option.split dest: parser_ok_at)

lemma finish_if_reads: "went k p q \<Longrightarrow> reads k p (finish_if cs bs e q)"
  unfolding finish_if_def One_nat_def
  by (auto intro: here_inside reads_less [OF redirected_reads [OF went_advance]])

lemma test_end_at: "test_end p = Some e \<Longrightarrow> lp_pos p < e \<and> e < length (lp_toks p)"
  by (auto simp: test_end_def find_Some_iff)

lemma parseTest_reads: "parser_ok p \<Longrightarrow> reads (Suc 0) p (parseTest p)"
  using test_end_at [of p]
  by (auto simp: parseTest_def Let_def went_def simple0_def split: option.split intro!: parser_ok_file)

lemma simple_end_at: "simple_end toks s j open = Some e \<Longrightarrow> s \<le> j \<Longrightarrow> j \<le> length toks \<Longrightarrow> j \<le> e \<and> e \<le> length toks"
proof (induction "length toks - j" arbitrary: j "open" rule: less_induct)
  case less
  let ?t = "toks ! j"
  show ?case
  proof (cases "j < length toks")
    case False
    with less.prems show ?thesis by (subst (asm) simple_end.simps) (simp split: if_splits)
  next
    case True
    have ih: "j \<le> e \<and> e \<le> length toks"
      if "simple_end toks s k op' = Some e" "j < k" "k \<le> length toks" for k op'
    proof -
      have "length toks - k < length toks - j" using that by arith
      then have "k \<le> e \<and> e \<le> length toks" using less.hyps [of k op'] that less.prems(2) by simp
      then show ?thesis using that by simp
    qed
    have past: "j < operatorEnd toks k + 1" "operatorEnd toks k + 1 \<le> length toks"
      if "\<not> noTarget toks (operatorEnd toks k)" "j \<le> k" for k
      using that operatorEnd_le [of k toks] by (auto simp: noTarget_def split: if_splits)
    have step: "j < j + 1 \<and> j + 1 \<le> length toks" using True by simp
    have "\<not> length toks \<le> j" using True by simp
    with less.prems(1) show ?thesis
      using True ih [OF _ conjunct1 [OF step] conjunct2 [OF step]] ih past [of j] past [of "j + 1"]
      by (subst (asm) simple_end.simps) (simp add: Let_def split: if_splits)
  qed
qed

text \<open>What a command that runs nothing changes: the names assigned and whether errexit is set.\<close>

definition plain_step :: "lineParser \<Rightarrow> simple \<Rightarrow> lineParser \<times> simple \<Rightarrow> bool" where
  "plain_step p c r \<longleftrightarrow>
     (\<exists>names err. fst r = p\<lparr>lp_assigned := names, lp_errexit := err\<rparr>) \<and>
     si_start (snd r) = si_start c \<and> si_end (snd r) = si_end c \<and> si_runner (snd r) = None \<and>
     si_op (snd r) \<noteq> opRunner"

lemma same_names: "\<exists>names err. p = p\<lparr>lp_assigned := names, lp_errexit := err\<rparr>"
  by (rule exI [of _ "lp_assigned p"], rule exI [of _ "lp_errexit p"]) simp

lemma plain_step_same:
  "si_runner c = None \<Longrightarrow> si_op c \<noteq> opRunner \<Longrightarrow> si_start d = si_start c \<Longrightarrow> si_end d = si_end c \<Longrightarrow>
   si_runner d = None \<Longrightarrow> si_op d \<noteq> opRunner \<Longrightarrow> plain_step p c (p, d)"
  using same_names by (simp add: plain_step_def)

lemma plain_step_names:
  "si_start d = si_start c \<Longrightarrow> si_end d = si_end c \<Longrightarrow> si_runner d = None \<Longrightarrow> si_op d \<noteq> opRunner \<Longrightarrow>
     plain_step p c (p\<lparr>lp_assigned := ns\<rparr>, d)"
  "si_start d = si_start c \<Longrightarrow> si_end d = si_end c \<Longrightarrow> si_runner d = None \<Longrightarrow> si_op d \<noteq> opRunner \<Longrightarrow>
     plain_step p c (p\<lparr>lp_errexit := b\<rparr>, d)"
  unfolding plain_step_def fst_conv snd_conv
  by (intro conjI exI [of _ ns] exI [of _ "lp_errexit p"]; simp)
    (intro conjI exI [of _ "lp_assigned p"] exI [of _ b]; simp)

lemma builtin_plain:
  assumes "si_runner c = None" and "si_op c \<noteq> opRunner"
  shows "case builtin p c i e prog args of Some (Some r) \<Rightarrow> plain_step p c r | _ \<Rightarrow> True"
  unfolding builtin_def Let_def
  using assms by (simp add: plain_step_same plain_step_names split: option.split)

lemma parser_ok_names [simp]: "parser_ok (p\<lparr>lp_assigned := a, lp_errexit := b\<rparr>) = parser_ok p"
  by (auto simp: parser_ok_def list_all_iff simple_ok_def group_ok_def keys_ok_def Let_def split: option.splits)

definition filed :: "lineParser \<Rightarrow> nat \<Rightarrow> lineParser \<times> simple \<Rightarrow> bool" where
  "filed p e r \<longleftrightarrow>
     parser_ok ((fst r)\<lparr>lp_pos := e, lp_simples := lp_simples (fst r) @ [snd r]\<rparr>) \<and>
     lp_toks (fst r) = lp_toks p"

lemma filed_plain:
  assumes "parser_ok p" and "lp_pos p < e" and "e \<le> length (lp_toks p)"
    and "plain_step p c r" and "si_start c = lp_pos p" and "si_end c = e"
  shows "filed p e r"
proof -
  from assms(4) obtain ns b where q: "fst r = p\<lparr>lp_assigned := ns, lp_errexit := b\<rparr>"
    by (auto simp: plain_step_def)
  have "parser_ok (p\<lparr>lp_assigned := ns, lp_errexit := b\<rparr>)" using assms(1) by simp
  from parser_ok_file [OF this, of "snd r" e] show ?thesis
    using assms by (simp add: filed_def q plain_step_def)
qed

lemma filed_runner:
  assumes "parser_ok p" and "lp_pos p < e" and "e \<le> length (lp_toks p)"
    and c: "si_start c = lp_pos p" "si_end c = e" "si_runner c = None" "si_op c \<noteq> opRunner"
  shows "filed p e (runner_command p c (lp_pos p) i e prog)"
proof -
  have plain: "filed p e (p, c)"
    using assms by (intro filed_plain [of p e c]) (simp_all add: plain_step_same)
  show ?thesis
  proof (cases "runnerPrefix (take e (lp_toks p)) i prog")
    case (fields ri name ok)
    show ?thesis
    proof (cases "ok \<and> first_row (lp_toks p) ri name e runnerLists \<noteq> None")
      case True
      then obtain l row hide where row: "first_row (lp_toks p) ri name e runnerLists = Some (l, row, hide)"
        by auto
      obtain q g where join: "join_group p (runnerWords (lp_toks p) ri e) l row (lp_pos p) = (q, g)"
        by fastforce
      note joined = parser_ok_join [OF assms(1) join, of "c\<lparr>si_op := opRunner, si_runner := Some g, si_hides := hide\<rparr>" e]
      show ?thesis
        using True row join joined assms by (simp add: runner_command_def Let_def fields filed_def)
    next
      case False
      with plain show ?thesis by (auto simp: runner_command_def Let_def fields split: option.split)
    qed
  qed
qed

lemma simple_command_filed:
  assumes ok: "parser_ok p" and e: "lp_pos p < e" "e \<le> length (lp_toks p)"
  shows "case simple_command p (lp_pos p) e of None \<Rightarrow> True | Some r \<Rightarrow> filed p e r"
proof -
  let ?c = "simple0 (lp_pos p) e"
  have c: "si_start ?c = lp_pos p" "si_end ?c = e" "si_runner ?c = None" "si_op ?c \<noteq> opRunner"
    by (simp_all add: simple0_def)
  note plain = filed_plain [OF ok e, of ?c]
  have none: "filed p e (p, ?c)" by (rule plain) (simp_all add: c plain_step_same)
  have names: "filed p e (p\<lparr>lp_assigned := ns\<rparr>, ?c\<lparr>si_op := opAssign, si_assigns := as\<rparr>)" for ns as
    by (rule plain) (simp_all add: c plain_step_names)
  have built: "builtin p ?c i e prog args = Some (Some r) \<Longrightarrow> filed p e r" for i prog args r
    using builtin_plain [of ?c p i e prog args] plain c by simp
  have run: "runner_command p (?c\<lparr>si_stage := st\<rparr>) (lp_pos p) i e prog = r \<Longrightarrow> filed p e r" for st i prog r
    using filed_runner [OF ok e, of "?c\<lparr>si_stage := st\<rparr>"] c by auto
  show ?thesis
    unfolding simple_command_def Let_def
    using none names by (auto split: option.split intro: built run)
qed

lemma parseSimple_reads: "parser_ok p \<Longrightarrow> case parseSimple p of None \<Rightarrow> True | Some (q, c) \<Rightarrow> went (Suc 0) p q"
  using simple_command_filed [of p "the (simpleEnd (lp_toks p) (lp_pos p))"]
    simple_end_at [of "lp_toks p" "lp_pos p" "lp_pos p" "[]" "the (simpleEnd (lp_toks p) (lp_pos p))"]
  by (auto simp: parseSimple_def Let_def simpleEnd_def filed_def went_def split: option.splits
      dest: parser_ok_at)

lemma simple_parse_reads: "parser_ok p \<Longrightarrow> reads (Suc 0) p (simple_parse p)"
  using parseSimple_reads [of p] by (auto simp: simple_parse_def split: option.splits)

lemma for_words_at: "for_words ts j = Some k \<Longrightarrow> j \<le> k \<and> k \<le> j + length ts"
  by (induction ts j arbitrary: k rule: for_words.induct) (fastforce split: if_splits)+

lemma past_in_went:
  assumes "went k p q" and "past_in q = Some r"
  shows "went k p r"
proof (cases "word_here q ''in'' \<and> \<not> nl_here q")
  case True
  with assms(2) obtain j where j: "for_words (drop (lp_pos q + 1) (lp_toks q)) (lp_pos q + 1) = Some j"
    "r = q\<lparr>lp_pos := j\<rparr>" by (auto simp: past_in_def)
  have "lp_pos q < length (lp_toks q)" using True here_inside(2) [of q "''in''"] by (simp add: at_end_def)
  with for_words_at [OF j(1)] have "lp_pos q \<le> j" "j \<le> length (lp_toks q)" by auto
  with assms(1) j(2) parser_ok_pos [of q j] show ?thesis by (auto simp: went_def)
next
  case False
  with assms show ?thesis by (auto simp: past_in_def)
qed

lemma for_head_went:
  assumes "went k p q" and "for_head q = Some r"
  shows "went (Suc k) p r" and "word_here r ''do''"
proof -
  from assms(2) have "\<not> at_end q" by (auto simp: for_head_def)
  from assms(2) obtain s where s: "past_in (advance (Suc 0) q) = Some s"
    and r: "r = (if op_here s '';'' then advance (Suc 0) s else s)" "word_here r ''do''"
    by (auto simp: for_head_def Let_def split: if_splits option.splits)
  have "went (Suc k) p s" by (rule past_in_went [OF went_advance [OF assms(1) \<open>\<not> at_end q\<close>] s])
  then show "went (Suc k) p r" using went_less [OF went_advance, of "Suc k" p s "Suc k"] r(1) by auto
  show "word_here r ''do''" by (rule r(2))
qed

section \<open>The descent\<close>

text \<open>With more than its cost to spend, every method ends and moves on.\<close>

definition within :: "nat \<Rightarrow> nat \<Rightarrow> lineParser \<Rightarrow> bool" where
  "within r n p \<longleftrightarrow> parser_ok p \<and> cost p + r < n"

definition descends :: "nat \<Rightarrow> bool" where
  "descends n \<longleftrightarrow>
     (\<forall>p items. within 3 n p \<longrightarrow> reads 0 p (ps_list (parsers_at n) p items)) \<and>
     (\<forall>p pipes ops. within 2 n p \<longrightarrow> reads (Suc 0) p (ps_and_or (parsers_at n) p pipes ops)) \<and>
     (\<forall>p neg stages. within 1 n p \<longrightarrow> reads (Suc 0) p (ps_stages (parsers_at n) p neg stages)) \<and>
     (\<forall>p. within 0 n p \<longrightarrow> reads (Suc 0) p (ps_command (parsers_at n) p)) \<and>
     (\<forall>p conds bodies. within 4 n p \<longrightarrow> reads (Suc 0) p (ps_if (parsers_at n) p conds bodies)) \<and>
     (\<forall>p at. within 4 n p \<longrightarrow> reads (Suc 0) p (ps_loop (parsers_at n) p at))"

lemma descends_zero: "descends 0"
  by (simp add: descends_def within_def)

lemma within_went: "within r (Suc n) p \<Longrightarrow> went k p q \<Longrightarrow> s < 5 * k + r \<Longrightarrow> within s n q"
  using went_cost [of k p q] by (auto simp: within_def went_ok)

lemma within_refl: "within r n p \<Longrightarrow> went 0 p p"
  by (simp add: within_def went_refl)

lemma call_list:
  assumes "descends n" and "within r (Suc n) p" and "went k p q" and "3 < 5 * k + r"
  shows "reads k p (ps_list (parsers_at n) q items)"
proof -
  have "within 3 n q" by (rule within_went [OF assms(2,3,4)])
  with assms(1) have "reads 0 q (ps_list (parsers_at n) q items)" by (simp add: descends_def)
  then show ?thesis by (rule reads_from [OF assms(3)]) simp
qed

lemma call_and_or:
  assumes "descends n" and "within r (Suc n) p" and "went k p q" and "2 < 5 * k + r"
  shows "reads (Suc k) p (ps_and_or (parsers_at n) q pipes ops)"
proof -
  have "within 2 n q" by (rule within_went [OF assms(2,3,4)])
  with assms(1) have "reads (Suc 0) q (ps_and_or (parsers_at n) q pipes ops)" by (simp add: descends_def)
  then show ?thesis by (rule reads_from [OF assms(3)]) simp
qed

lemma call_stages:
  assumes "descends n" and "within r (Suc n) p" and "went k p q" and "1 < 5 * k + r"
  shows "reads (Suc k) p (ps_stages (parsers_at n) q neg stages)"
proof -
  have "within 1 n q" by (rule within_went [OF assms(2,3,4)])
  with assms(1) have "reads (Suc 0) q (ps_stages (parsers_at n) q neg stages)" by (simp add: descends_def)
  then show ?thesis by (rule reads_from [OF assms(3)]) simp
qed

lemma call_command:
  assumes "descends n" and "within r (Suc n) p" and "went k p q" and "0 < 5 * k + r"
  shows "reads (Suc k) p (ps_command (parsers_at n) q)"
proof -
  have "within 0 n q" by (rule within_went [OF assms(2,3,4)])
  with assms(1) have "reads (Suc 0) q (ps_command (parsers_at n) q)" by (simp add: descends_def)
  then show ?thesis by (rule reads_from [OF assms(3)]) simp
qed

lemma call_if:
  assumes "descends n" and "within r (Suc n) p" and "went k p q" and "4 < 5 * k + r"
  shows "reads (Suc k) p (ps_if (parsers_at n) q conds bodies)"
proof -
  have "within 4 n q" by (rule within_went [OF assms(2,3,4)])
  with assms(1) have "reads (Suc 0) q (ps_if (parsers_at n) q conds bodies)" by (simp add: descends_def)
  then show ?thesis by (rule reads_from [OF assms(3)]) simp
qed

lemma call_loop:
  assumes "descends n" and "within r (Suc n) p" and "went k p q" and "4 < 5 * k + r"
  shows "reads (Suc k) p (ps_loop (parsers_at n) q at)"
proof -
  have "within 4 n q" by (rule within_went [OF assms(2,3,4)])
  with assms(1) have "reads (Suc 0) q (ps_loop (parsers_at n) q at)" by (simp add: descends_def)
  then show ?thesis by (rule reads_from [OF assms(3)]) simp
qed

lemma call_body:
  assumes "descends n" and "within r (Suc n) p" and "went k p q" and "3 < 5 * k + r"
  shows "reads k p (parseBody (parsers_at n) q)"
  unfolding parseBody_def One_nat_def
  by (rule reads_then [where k = k]) (use call_list [OF assms, of "[]"] in \<open>simp_all\<close>)

lemma parseList_reads:
  assumes d: "descends n" and w: "within 3 (Suc n) p"
  shows "reads 0 p (parseList (parsers_at n) p items)"
proof -
  have refl: "went 0 p p" by (rule within_refl [OF w])
  have next_item: "reads 0 p (if op_here q '';'' then ps_list (parsers_at n) (advance (Suc 0) q) xs
      else if op_here q ''&'' then ps_list (parsers_at n) (advance (Suc 0) q) ys
      else if nl_here q \<or> atTerminator q then ps_list (parsers_at n) q zs else Refused)"
    if q: "went (Suc 0) p q" for q xs ys zs
  proof -
    have "reads 0 p (ps_list (parsers_at n) q zs)"
      by (rule reads_less [OF call_list [OF d w q]]) simp_all
    moreover have "reads 0 p (ps_list (parsers_at n) (advance (Suc 0) q) us)" if "\<not> at_end q" for us
      by (rule reads_less [OF call_list [OF d w went_advance [OF q that]]]) simp_all
    ultimately show ?thesis by simp
  qed
  have "reads (Suc 0) p (ps_and_or (parsers_at n) p [] [])"
    using call_and_or [OF d w refl, of "[]" "[]"] by simp
  then show ?thesis
    unfolding parseList_def One_nat_def using refl next_item by (auto intro: reads_then)
qed

lemma parseAndOr_reads:
  assumes d: "descends n" and w: "within 2 (Suc n) p"
  shows "reads (Suc 0) p (parseAndOr (parsers_at n) p pipes ops)"
proof -
  have refl: "went 0 p p" by (rule within_refl [OF w])
  have first: "reads (Suc 0) p (if word_here p ''!'' then ps_stages (parsers_at n) (advance (Suc 0) p) True []
      else ps_stages (parsers_at n) p False [])"
    using call_stages [OF d w refl, of False "[]"]
      reads_less [OF call_stages [OF d w went_advance [OF refl], of True "[]"], of "Suc 0"] by simp
  have rest: "reads (Suc 0) p (ps_and_or (parsers_at n) (advance (Suc 0) q) xs ys)" if "went (Suc 0) p q" "\<not> at_end q" for q xs ys
    by (rule reads_less [OF call_and_or [OF d w went_advance [OF that]]]) simp_all
  show ?thesis
    unfolding parseAndOr_def One_nat_def by (rule reads_then [OF first]) (use rest in \<open>auto\<close>)
qed

lemma parseStages_reads:
  assumes d: "descends n" and w: "within 1 (Suc n) p"
  shows "reads (Suc 0) p (parseStages (parsers_at n) p neg stages)"
proof -
  have refl: "went 0 p p" by (rule within_refl [OF w])
  have first: "reads (Suc 0) p (ps_command (parsers_at n) p)"
    using call_command [OF d w refl] by simp
  have one: "reads (Suc 0) p (ps_stages (parsers_at n) (advance (Suc 0) q) neg xs)"
    if "went (Suc 0) p q" "\<not> at_end q" for q xs
    by (rule reads_less [OF call_stages [OF d w went_advance [OF that]]]) simp_all
  have two: "reads (Suc 0) p (ps_stages (parsers_at n) (advance (Suc 0) (advance (Suc 0) q)) neg xs)"
    if "went (Suc 0) p q" "\<not> at_end q" "\<not> at_end (advance (Suc 0) q)" for q xs
    by (rule reads_less [OF call_stages [OF d w went_advance [OF went_advance [OF that(1,2)] that(3)]]]) simp_all
  show ?thesis
    unfolding parseStages_def Let_def One_nat_def
    by (rule reads_then [OF first]) (auto intro: one two here_inside)
qed

text \<open>A body and then a word that closes it.\<close>

lemma body_then:
  assumes "descends n" and "within r (Suc n) p" and "went k p q" and "3 < 5 * k + r"
    and "\<And>b s. went k p s \<Longrightarrow> reads (Suc 0) p (f b s)"
  shows "reads (Suc 0) p (and_then (parseBody (parsers_at n) q) f)"
  by (rule reads_then [OF call_body [OF assms(1-4)]]) (rule assms(5))

lemma closed: "went k p q \<Longrightarrow> \<not> at_end q \<Longrightarrow> reads (Suc 0) p (redirected (advance (Suc 0) q) x)"
  by (rule reads_less [OF redirected_reads [OF went_advance]]) simp_all

lemma parseCommand_reads:
  assumes d: "descends n" and w: "within 0 (Suc n) p"
  shows "reads (Suc 0) p (parseCommand (parsers_at n) p)"
proof (cases "at_end p")
  case False
  have ok: "parser_ok p" and refl: "went 0 p p" using w within_refl [OF w] by (auto simp: within_def)
  have on: "went (Suc 0) p (advance (Suc 0) p)" using went_advance [OF refl False] by simp
  have if_call: "reads (Suc 0) p (ps_if (parsers_at n) (advance (Suc 0) p) xs ys)" for xs ys
    by (rule reads_less [OF call_if [OF d w on]]) simp_all
  have loop_call: "reads (Suc 0) p (ps_loop (parsers_at n) (advance (Suc 0) q) at)" if "went k p q" "word_here q w" for k q w at
    by (rule reads_less [OF call_loop [OF d w went_advance [OF that(1)]]]) (use that(2) in simp_all)
  have group: "reads (Suc 0) p (and_then (parseBody (parsers_at n) (advance (Suc 0) p)) f)"
    if "\<And>b s. went (Suc 0) p s \<Longrightarrow> reads (Suc 0) p (f b s)" for f :: "list_tree \<Rightarrow> lineParser \<Rightarrow> command_tree parse"
    by (rule body_then [OF d w on]) (use that in simp_all)
  show ?thesis
    unfolding parseCommand_def One_nat_def
    using False if_call parseTest_reads [OF ok] simple_parse_reads [OF ok]
    by (auto intro!: group closed split: option.split intro: loop_call dest: for_head_went [OF on])
qed (simp add: parseCommand_def)

lemma parseIf_reads:
  assumes d: "descends n" and w: "within 4 (Suc n) p"
  shows "reads (Suc 0) p (parseIf (parsers_at n) p conds bodies)"
proof -
  have refl: "went 0 p p" by (rule within_refl [OF w])
  have again: "reads (Suc 0) p (ps_if (parsers_at n) (advance (Suc 0) q) xs ys)" if "went (Suc 0) p q" "\<not> at_end q" for q xs ys
    by (rule reads_less [OF call_if [OF d w went_advance [OF that]]]) simp_all
  have body: "reads (Suc 0) p (and_then (parseBody (parsers_at n) (advance (Suc 0) q)) f)"
    if "went k p q" "word_here q w" "\<And>b s. went (Suc 0) p s \<Longrightarrow> reads (Suc 0) p (f b s)" for k q w
      and f :: "list_tree \<Rightarrow> lineParser \<Rightarrow> command_tree parse"
    by (rule body_then [OF d w went_advance [OF went_less [OF that(1)]], of 0]) (use that in simp_all)
  show ?thesis
    unfolding parseIf_def One_nat_def
    by (rule body_then [OF d w refl]) (auto intro!: body finish_if_reads again dest: here_inside)
qed

lemma parseLoopBody_reads:
  assumes d: "descends n" and w: "within 4 (Suc n) p"
  shows "reads (Suc 0) p (parseLoopBody (parsers_at n) p at)"
  unfolding parseLoopBody_def One_nat_def
  by (rule body_then [OF d w within_refl [OF w]]) (auto intro: closed)

lemma descends_all: "descends n"
proof (induction n)
  case 0
  show ?case by (rule descends_zero)
next
  case (Suc n)
  then show ?case
    by (simp add: descends_def [of "Suc n"] Let_def parseList_reads parseAndOr_reads parseStages_reads
        parseCommand_reads parseIf_reads parseLoopBody_reads del: One_nat_def)
qed

lemma lineParser0_toks: "lp_toks (lineParser0 toks) = toks"
  by (simp add: lineParser0_def)

lemma parseLine_reads:
  assumes "parser_ok p"
  shows "case parseLine p of OutOfFuel \<Rightarrow> False | Refused \<Rightarrow> True
    | Parsed l q \<Rightarrow> lp_toks q = lp_toks p \<and> lp_pos q = length (lp_toks p) \<and> parser_ok q"
proof -
  have "within 3 (parse_fuel (lp_toks p)) p"
    using assms by (simp add: within_def cost_def parse_fuel_def less_Suc_eq_le)
  with descends_all have "reads 0 p (ps_list (parsers_at (parse_fuel (lp_toks p))) p [])"
    by (simp add: descends_def)
  then show ?thesis
    by (cases "ps_list (parsers_at (parse_fuel (lp_toks p))) p []") (auto simp: parseLine_def went_def)
qed

text \<open>
  C37: the descent ends on every line, with the fuel the model gives it: the line is refused or read
  to its last token. Of one that is read, the simple commands lie one after another within the
  tokens, each that runs a runner is in its group, and a group is exactly the commands that
  joined it, under the words that key it and no others.
\<close>

theorem parseLine_ends:
  "case parseLine (lineParser0 toks) of OutOfFuel \<Rightarrow> False | Refused \<Rightarrow> True
   | Parsed l q \<Rightarrow> lp_toks q = toks \<and> lp_pos q = length toks \<and> parser_ok q"
  using parseLine_reads [OF parser_ok_start, of toks] unfolding lineParser0_toks .

end
