(* ===== verification/MaskedEval.thy ===== *)
theory MaskedEval
  imports MaskedParse
begin

text \<open>
  What a line's exit status says of a runner on it, \<^verbatim>\<open>internal/shape\<close> (masked_eval.go,
  masked.go, masked_name.go): the line is run once with the runner failing and once with it
  passing, every other command succeeding, and a status that is not known carried as -1 or, where
  the line turns on it, as a run that is lost. A tree is read as a function from the state
  before it to the state after it; \<open>es_ran\<close> is the evaluator's own flag, which copies of the
  state share.
\<close>

section \<open>The state of a run\<close>

record evaluator =
  ev_target :: nat
  ev_fail :: bool
  ev_zsh :: bool

record evalState =
  es_status :: int
  es_vars :: "string \<rightharpoonup> int"
  es_errexit :: bool
  es_pipefail :: bool
  es_exited :: bool
  es_lost :: bool
  es_ran :: bool

type_synonym effect = "bool \<Rightarrow> evalState \<Rightarrow> evalState"

definition evalState0 :: evalState where
  "evalState0 =
     \<lparr>es_status = 0, es_vars = Map.empty, es_errexit = False, es_pipefail = False, es_exited = False,
      es_lost = False, es_ran = False\<rparr>"

definition copy_state :: "evalState \<Rightarrow> evalState" where
  "copy_state st = st\<lparr>es_exited := False\<rparr>"

definition lose :: "evalState \<Rightarrow> evalState" where
  "lose st = st\<lparr>es_lost := True\<rparr>"

definition ended :: "evalState \<Rightarrow> bool" where
  "ended st \<longleftrightarrow> es_exited st \<or> es_lost st"

section \<open>A simple command\<close>

fun value_in :: "evalState \<Rightarrow> shvalue \<Rightarrow> int" where
  "value_in st (ValLiteral n) = n"
| "value_in st ValStatus = es_status st"
| "value_in st (ValVar name) = (case es_vars st name of None \<Rightarrow> -1 | Some n \<Rightarrow> n)"
| "value_in st ValUnknown = -1"

definition assign_in :: "evalState \<Rightarrow> assignment \<Rightarrow> evalState" where
  "assign_in st a = st\<lparr>es_vars := (es_vars st)(as_name a \<mapsto> value_in st (as_val a))\<rparr>"

definition set_in :: "evalState \<Rightarrow> setOpt \<Rightarrow> evalState" where
  "set_in st x = (if so_errexit x then st\<lparr>es_errexit := so_on x\<rparr> else st\<lparr>es_pipefail := so_on x\<rparr>)"

definition exit_in :: "evalState \<Rightarrow> shvalue list \<Rightarrow> evalState" where
  "exit_in st args =
     (case args of
        [] \<Rightarrow> st\<lparr>es_exited := True\<rparr>
      | [v] \<Rightarrow> st\<lparr>es_status := value_in st v, es_exited := True\<rparr>
      | _ \<Rightarrow> lose st)"

definition run_simple :: "evaluator \<Rightarrow> simple \<Rightarrow> evalState \<Rightarrow> evalState" where
  "run_simple ev c st =
     (case si_op c of
        opFalse \<Rightarrow> st\<lparr>es_status := 1\<rparr>
      | opStatusRead \<Rightarrow> st\<lparr>es_status := -1\<rparr>
      | opAssign \<Rightarrow> (foldl assign_in st (si_assigns c))\<lparr>es_status := 0\<rparr>
      | opSet \<Rightarrow> (foldl set_in st (si_opts c))\<lparr>es_status := 0\<rparr>
      | opExit \<Rightarrow> exit_in st (si_args c)
      | opRunner \<Rightarrow>
          (if si_runner c = Some (ev_target ev)
           then st\<lparr>es_status := (if ev_fail ev \<and> \<not> si_hides c then 1 else 0), es_ran := True\<rparr>
           else st\<lparr>es_status := 0\<rparr>)
      | _ \<Rightarrow> st\<lparr>es_status := 0\<rparr>)"

section \<open>Compounds\<close>

text \<open>The items of a list, each with whether it runs in the background.\<close>

fun run_items :: "(bool \<times> effect) list \<Rightarrow> effect" where
  "run_items [] noErr st = st"
| "run_items ((bg, f) # rest) noErr st =
     (if ended st then st
      else if bg then run_items rest noErr (st\<lparr>es_status := 0, es_ran := es_ran (f True (copy_state st))\<rparr>)
      else run_items rest noErr (f noErr st))"

text \<open>The pipelines of an and-or list, each with the operator before it and whether it is negated.\<close>

fun run_and_or :: "bool \<Rightarrow> (string option \<times> bool \<times> effect) list \<Rightarrow> effect" where
  "run_and_or zsh [] noErr st = st"
| "run_and_or zsh ((op, neg, f) # rest) noErr st =
     (if op \<noteq> None \<and> es_status st < 0 then lose st
      else if op = Some ''&&'' \<and> es_status st \<noteq> 0 \<or> op = Some ''||'' \<and> es_status st = 0
      then run_and_or zsh rest noErr st
      else (let quiet = (noErr \<or> rest \<noteq> [] \<or> neg); st1 = f quiet st in
        if ended st1 then st1
        else if es_errexit st1 \<and> \<not> quiet \<and> \<not> zsh \<and> es_status st1 \<noteq> 0
        then (if es_status st1 < 0 then lose st1 else st1\<lparr>es_exited := True\<rparr>)
        else run_and_or zsh rest noErr st1))"

text \<open>The stages of a pipe, each on a copy of the state; \<open>None\<close> where one is lost.\<close>

fun stage_statuses :: "effect list \<Rightarrow> bool \<Rightarrow> evalState \<Rightarrow> int list option \<times> bool" where
  "stage_statuses [] noErr st = (Some [], es_ran st)"
| "stage_statuses (f # fs) noErr st =
     (let sub = f noErr (copy_state st) in
      if es_lost sub then (None, es_ran sub)
      else apfst (map_option ((#) (es_status sub))) (stage_statuses fs noErr (st\<lparr>es_ran := es_ran sub\<rparr>)))"

definition pipe_status :: "bool \<Rightarrow> int list \<Rightarrow> int" where
  "pipe_status pipefail xs =
     (let s = (if pipefail then foldl (\<lambda>s x. if x \<noteq> 0 then x else s) 0 xs else last xs) in
      foldl (\<lambda>s x. if x < 0 \<and> (pipefail \<or> s < 0) then -1 else s) s xs)"

definition negated :: "bool \<Rightarrow> evalState \<Rightarrow> evalState" where
  "negated neg st =
     (if neg \<and> es_status st \<ge> 0 then st\<lparr>es_status := (if es_status st = 0 then 1 else 0)\<rparr> else st)"

definition run_pipeline :: "bool \<Rightarrow> effect list \<Rightarrow> effect" where
  "run_pipeline neg fs noErr st =
     (case fs of
        [f] \<Rightarrow> let st1 = f noErr st in if ended st1 then st1 else negated neg st1
      | _ \<Rightarrow>
          (case stage_statuses fs noErr st of
             (None, did) \<Rightarrow> lose (st\<lparr>es_ran := did\<rparr>)
           | (Some xs, did) \<Rightarrow>
               negated neg (st\<lparr>es_status := pipe_status (es_pipefail st) xs, es_ran := did\<rparr>)))"

definition run_subshell :: "effect \<Rightarrow> effect" where
  "run_subshell f noErr st =
     (let sub = f noErr (copy_state st); st1 = st\<lparr>es_ran := es_ran sub\<rparr> in
      if es_lost sub then lose st1 else st1\<lparr>es_status := es_status sub\<rparr>)"

fun run_if :: "(effect \<times> effect) list \<Rightarrow> effect option \<Rightarrow> effect" where
  "run_if [] els noErr st = (case els of None \<Rightarrow> st\<lparr>es_status := 0\<rparr> | Some e \<Rightarrow> e noErr st)"
| "run_if ((cond, body) # rest) els noErr st =
     (let st1 = cond True st in
      if ended st1 then st1
      else if es_status st1 < 0 then lose st1
      else if es_status st1 = 0 then body noErr st1
      else run_if rest els noErr st1)"

definition run_loop :: "bool \<Rightarrow> effect" where
  "run_loop unsure noErr st = (if unsure then lose st else st\<lparr>es_status := 0\<rparr>)"

text \<open>The operator before each pipeline of an and-or list.\<close>

definition before_ops :: "string list \<Rightarrow> string option list" where
  "before_ops ops = None # map Some ops"

primrec eval_command :: "evaluator \<Rightarrow> command_tree \<Rightarrow> effect"
and eval_list :: "evaluator \<Rightarrow> list_tree \<Rightarrow> effect"
and eval_item :: "evaluator \<Rightarrow> item_tree \<Rightarrow> bool \<times> effect"
and eval_and_or :: "evaluator \<Rightarrow> and_or_tree \<Rightarrow> effect"
and eval_pipeline :: "evaluator \<Rightarrow> pipeline_tree \<Rightarrow> bool \<times> effect"
where
  "eval_command ev (Simple s) = (\<lambda>noErr. run_simple ev s)"
| "eval_command ev (Subshell b) = run_subshell (eval_list ev b)"
| "eval_command ev (GroupCmd b) = eval_list ev b"
| "eval_command ev (IfCmd conds bodies els) =
     run_if (zip (map (eval_list ev) conds) (map (eval_list ev) bodies)) (map_option (eval_list ev) els)"
| "eval_command ev (Loop unsure) = run_loop unsure"
| "eval_list ev (Items xs) = run_items (map (eval_item ev) xs)"
| "eval_item ev (Item ao bg) = (bg, eval_and_or ev ao)"
| "eval_and_or ev (AndOr pipes ops) = run_and_or (ev_zsh ev) (zip (before_ops ops) (map (eval_pipeline ev) pipes))"
| "eval_pipeline ev (Pipeline neg stages) = (neg, run_pipeline neg (map (eval_command ev) stages))"

text \<open>The line's status, -1 where it is lost, and whether the runner ran.\<close>

definition run_line :: "list_tree \<Rightarrow> evaluator \<Rightarrow> int \<times> bool" where
  "run_line body ev =
     (let st = eval_list ev body False evalState0 in
      (if es_lost st then -1 else es_status st, es_ran st))"

definition as_run :: "nat \<Rightarrow> bool \<Rightarrow> bool \<Rightarrow> evaluator" where
  "as_run g fail zsh = \<lparr>ev_target = g, ev_fail = fail, ev_zsh = zsh\<rparr>"

definition hides :: "int \<Rightarrow> int \<Rightarrow> bool" where
  "hides f pass \<longleftrightarrow> f = 0 \<or> f = pass"

definition runShells :: "lineParser \<Rightarrow> list_tree \<Rightarrow> nat \<Rightarrow> int \<times> int \<times> bool" where
  "runShells p body g =
     (let (f, did) = run_line body (as_run g True False); pass = fst (run_line body (as_run g False False)) in
      if \<not> lp_errexit p then (f, pass, did)
      else (let (zf, zdid) = run_line body (as_run g True True); zpass = fst (run_line body (as_run g False True)) in
            if zf < 0 \<or> zpass < 0 \<or> hides f pass \<noteq> hides zf zpass then (-1, -1, did \<and> zdid)
            else (f, pass, did \<and> zdid)))"

section \<open>The runners of a line\<close>

definition displace :: "nat \<Rightarrow> lineParser \<Rightarrow> lineParser" where
  "displace after p =
     p\<lparr>lp_runners := map (\<lambda>r. r\<lparr>rg_displaced := rg_displaced r \<or>
        list_ex (\<lambda>s. si_op s = opCd \<and> \<not> si_start s < after \<and> list_ex (\<lambda>at. si_start s < at) (rg_starts r))
          (lp_simples p)\<rparr>) (lp_runners p)\<rparr>"

definition maxRunnerGroups :: nat where
  "maxRunnerGroups = 64"

text \<open>The groups whose failing the status hides, and of the others the one that runs last.\<close>

fun read_runners ::
  "lineParser \<Rightarrow> list_tree \<Rightarrow> nat list \<Rightarrow> nat list \<Rightarrow> nat option \<Rightarrow> (nat list \<times> nat option) option" where
  "read_runners p body [] hidden reach = Some (hidden, reach)"
| "read_runners p body (g # gs) hidden reach =
     (case runShells p body g of (f, pass, did) \<Rightarrow>
       if f < 0 \<or> pass < 0 \<or> \<not> did then None
       else if hides f pass then read_runners p body gs (hidden @ [g]) reach
       else read_runners p body gs hidden
         (case reach of
            None \<Rightarrow> Some g
          | Some r \<Rightarrow> if rg_last (lp_runners p ! g) > rg_last (lp_runners p ! r) then Some g else Some r))"

definition maskedRun ::
  "string \<Rightarrow> token list \<Rightarrow> (lineParser \<times> list_tree \<times> nat list \<times> nat option) option" where
  "maskedRun cmd lead =
     (if controlByte cmd then None
      else (case tokenizeList cmd of
              (toks, Some e) \<Rightarrow> None
            | (toks, None) \<Rightarrow>
                (case parseLine (lineParser0 toks) of
                   Parsed body q \<Rightarrow>
                     (let p = displace (agreedFold toks lead) q in
                      if length (lp_runners p) > maxRunnerGroups then None
                      else map_option (\<lambda>(hidden, reach). (p, body, hidden, reach))
                             (read_runners p body [0..<length (lp_runners p)] [] None))
                 | _ \<Rightarrow> None)))"

section \<open>The stage that hides a status\<close>

primrec holds_command :: "nat \<Rightarrow> command_tree \<Rightarrow> bool"
and holds_list :: "nat \<Rightarrow> list_tree \<Rightarrow> bool"
and holds_item :: "nat \<Rightarrow> item_tree \<Rightarrow> bool"
and holds_and_or :: "nat \<Rightarrow> and_or_tree \<Rightarrow> bool"
and holds_pipeline :: "nat \<Rightarrow> pipeline_tree \<Rightarrow> bool"
where
  "holds_command g (Simple s) = (si_op s = opRunner \<and> si_runner s = Some g)"
| "holds_command g (Subshell b) = holds_list g b"
| "holds_command g (GroupCmd b) = holds_list g b"
| "holds_command g (IfCmd conds bodies els) =
     (list_ex (\<lambda>b. b) (map (holds_list g) conds) \<or> list_ex (\<lambda>b. b) (map (holds_list g) bodies) \<or>
      map_option (holds_list g) els = Some True)"
| "holds_command g (Loop unsure) = False"
| "holds_list g (Items xs) = list_ex (\<lambda>b. b) (map (holds_item g) xs)"
| "holds_item g (Item ao bg) = holds_and_or g ao"
| "holds_and_or g (AndOr pipes ops) = list_ex (\<lambda>b. b) (map (holds_pipeline g) pipes)"
| "holds_pipeline g (Pipeline neg stages) = list_ex (\<lambda>b. b) (map (holds_command g) stages)"

definition stageWord :: "command_tree \<Rightarrow> nat" where
  "stageWord c = (case c of Simple s \<Rightarrow> si_stage s | _ \<Rightarrow> stageOther)"

text \<open>
  The stages that stand after the runner in a pipe, in the order the walk meets them;
  \<open>inner\<close> has those within each stage.
\<close>

definition stages_of_pipe :: "nat \<Rightarrow> command_tree list \<Rightarrow> nat list list \<Rightarrow> nat list" where
  "stages_of_pipe g cs inner =
     concat (map (\<lambda>n. (if Suc n < length cs \<and> holds_command g (cs ! n)
                        then map stageWord (drop (Suc n) cs) else []) @ inner ! n) [0..<length cs])"

fun interleave :: "'a list list \<Rightarrow> 'a list list \<Rightarrow> 'a list" where
  "interleave (x # xs) (y # ys) = x @ y @ interleave xs ys"
| "interleave _ _ = []"

primrec stagesIn :: "nat \<Rightarrow> command_tree \<Rightarrow> nat list"
and stagesAfter :: "nat \<Rightarrow> list_tree \<Rightarrow> nat list"
and stages_item :: "nat \<Rightarrow> item_tree \<Rightarrow> nat list"
and stages_and_or :: "nat \<Rightarrow> and_or_tree \<Rightarrow> nat list"
and stages_pipeline :: "nat \<Rightarrow> pipeline_tree \<Rightarrow> nat list"
where
  "stagesIn g (Simple s) = []"
| "stagesIn g (Subshell b) = stagesAfter g b"
| "stagesIn g (GroupCmd b) = stagesAfter g b"
| "stagesIn g (IfCmd conds bodies els) =
     interleave (map (stagesAfter g) conds) (map (stagesAfter g) bodies) @
     (case map_option (stagesAfter g) els of None \<Rightarrow> [] | Some ws \<Rightarrow> ws)"
| "stagesIn g (Loop unsure) = []"
| "stagesAfter g (Items xs) = concat (map (stages_item g) xs)"
| "stages_item g (Item ao bg) = stages_and_or g ao"
| "stages_and_or g (AndOr pipes ops) = concat (map (stages_pipeline g) pipes)"
| "stages_pipeline g (Pipeline neg stages) = stages_of_pipe g stages (map (stagesIn g) stages)"

definition maskedBy :: "list_tree \<Rightarrow> nat \<Rightarrow> string option" where
  "maskedBy body g =
     (let ws = stagesAfter g body in
      map_option ((!) stageNames)
        (case find (\<lambda>w. \<not> keepsSummary w) ws of Some w \<Rightarrow> Some w | None \<Rightarrow> find keepsSummary ws))"

section \<open>The mask words of a line\<close>

text \<open>
  A digest is the keyed hash of the tool's name, a zero byte and the body; \<open>mac\<close> stands for
  the hexadecimal HMAC-SHA256 of the standard library.
\<close>

definition digest :: "(string \<Rightarrow> string \<Rightarrow> string) \<Rightarrow> string \<Rightarrow> string \<Rightarrow> string \<Rightarrow> string" where
  "digest mac key toolName body = mac key (toolName @ CHR 0x00 # body)"

definition runnerDigest :: "(string \<Rightarrow> string \<Rightarrow> string) \<Rightarrow> string \<Rightarrow> lineParser \<Rightarrow> nat \<Rightarrow> string option" where
  "runnerDigest mac key p g =
     (let r = lp_runners p ! g in
      if rg_displaced r then None else Some (digest mac key (CHR 0x00 # ''runner'') (rg_key r)))"

record mask_words =
  mk_kind :: "masked_word option"
  mk_runner :: "string option"
  mk_runnerKind :: "string option"
  mk_name :: "string option"
  mk_by :: "string option"

definition only_kind :: "masked_word option \<Rightarrow> mask_words" where
  "only_kind k = \<lparr>mk_kind = k, mk_runner = None, mk_runnerKind = None, mk_name = None, mk_by = None\<rparr>"

definition named_runner ::
  "(string \<Rightarrow> string \<Rightarrow> string) \<Rightarrow> string \<Rightarrow> lineParser \<Rightarrow> masked_word \<Rightarrow> nat \<Rightarrow> string option \<Rightarrow> mask_words" where
  "named_runner mac key p k g by_word =
     (case runnerDigest mac key p g of
        None \<Rightarrow> only_kind (Some k)
      | Some d \<Rightarrow>
          (let r = lp_runners p ! g in
           \<lparr>mk_kind = Some k, mk_runner = Some d, mk_runnerKind = Some (rg_list r), mk_name = Some (rg_name r),
            mk_by = by_word\<rparr>))"

definition statusMasked :: "(string \<Rightarrow> string \<Rightarrow> string) \<Rightarrow> string \<Rightarrow> string \<Rightarrow> token list \<Rightarrow> mask_words" where
  "statusMasked mac key cmd lead =
     (case maskedRun cmd lead of
        None \<Rightarrow> only_kind None
      | Some (p, body, hidden, reach) \<Rightarrow>
          if hidden \<noteq> []
          then (let k = (if list_ex (\<lambda>g. rg_kind (lp_runners p ! g) = MaskedTest) hidden then MaskedTest
                         else MaskedBuild) in
                if length hidden > 1 then only_kind (Some k)
                else named_runner mac key p k (hd hidden) (maskedBy body (hd hidden)))
          else (case reach of
                  Some g \<Rightarrow> named_runner mac key p MaskedNone g None
                | None \<Rightarrow> only_kind (Some MaskedNone)))"

end
