(* ===== verification/MaskedSound.thy ===== *)
theory MaskedSound
  imports MaskedEval
begin

text \<open>
  A reference semantics of the lines the mask reader accepts, and that the reader is sound for
  it: in the reference every status and every variable has a value, and what the reader does not
  know -- a test of a status, a variable the line did not set, a value it cannot read -- is
  settled by an oracle. What \<open>runShells\<close> says of a line then holds whatever the oracle says.
\<close>

section \<open>The reference\<close>

record realState =
  rs_status :: int
  rs_vars :: "string \<Rightarrow> int"
  rs_errexit :: bool
  rs_pipefail :: bool
  rs_exited :: bool
  rs_tick :: nat

type_synonym real_effect = "bool \<Rightarrow> realState \<Rightarrow> realState"

definition real0 :: "(string \<Rightarrow> int) \<Rightarrow> realState" where
  "real0 vars =
     \<lparr>rs_status = 0, rs_vars = vars, rs_errexit = False, rs_pipefail = False, rs_exited = False, rs_tick = 0\<rparr>"

text \<open>A child process: its status and the oracle's place come back, nothing else.\<close>

definition in_child :: "(realState \<Rightarrow> realState) \<Rightarrow> realState \<Rightarrow> realState" where
  "in_child f st = (let sub = f (st\<lparr>rs_exited := False\<rparr>) in st\<lparr>rs_status := rs_status sub, rs_tick := rs_tick sub\<rparr>)"

fun real_value :: "(nat \<Rightarrow> int) \<Rightarrow> realState \<Rightarrow> shvalue \<Rightarrow> int" where
  "real_value orc st (ValLiteral n) = n"
| "real_value orc st ValStatus = rs_status st"
| "real_value orc st (ValVar name) = rs_vars st name"
| "real_value orc st ValUnknown = orc (rs_tick st)"

definition real_assign :: "(nat \<Rightarrow> int) \<Rightarrow> realState \<Rightarrow> assignment \<Rightarrow> realState" where
  "real_assign orc st a =
     st\<lparr>rs_vars := (rs_vars st)(as_name a := real_value orc st (as_val a)), rs_tick := rs_tick st + 1\<rparr>"

definition real_set :: "realState \<Rightarrow> setOpt \<Rightarrow> realState" where
  "real_set st x = (if so_errexit x then st\<lparr>rs_errexit := so_on x\<rparr> else st\<lparr>rs_pipefail := so_on x\<rparr>)"

definition real_exit :: "(nat \<Rightarrow> int) \<Rightarrow> realState \<Rightarrow> shvalue list \<Rightarrow> realState" where
  "real_exit orc st args =
     (case args of
        [] \<Rightarrow> st\<lparr>rs_exited := True\<rparr>
      | [v] \<Rightarrow> st\<lparr>rs_status := real_value orc st v, rs_exited := True, rs_tick := rs_tick st + 1\<rparr>
      | _ \<Rightarrow> st\<lparr>rs_status := 1\<rparr>)"

definition real_simple :: "(nat \<Rightarrow> int) \<Rightarrow> evaluator \<Rightarrow> simple \<Rightarrow> realState \<Rightarrow> realState" where
  "real_simple orc ev c st =
     (case si_op c of
        opFalse \<Rightarrow> st\<lparr>rs_status := 1\<rparr>
      | opStatusRead \<Rightarrow> st\<lparr>rs_status := orc (rs_tick st), rs_tick := rs_tick st + 1\<rparr>
      | opAssign \<Rightarrow> (foldl (real_assign orc) st (si_assigns c))\<lparr>rs_status := 0\<rparr>
      | opSet \<Rightarrow> (foldl real_set st (si_opts c))\<lparr>rs_status := 0\<rparr>
      | opExit \<Rightarrow> real_exit orc st (si_args c)
      | opRunner \<Rightarrow>
          st\<lparr>rs_status := (if si_runner c = Some (ev_target ev) \<and> ev_fail ev \<and> \<not> si_hides c then 1 else 0)\<rparr>
      | _ \<Rightarrow> st\<lparr>rs_status := 0\<rparr>)"

fun real_items :: "(bool \<times> real_effect) list \<Rightarrow> real_effect" where
  "real_items [] noErr st = st"
| "real_items ((bg, f) # rest) noErr st =
     (if rs_exited st then st
      else if bg then real_items rest noErr (st\<lparr>rs_status := 0\<rparr>)
      else real_items rest noErr (f noErr st))"

definition runs_next :: "string option \<Rightarrow> int \<Rightarrow> bool" where
  "runs_next op status \<longleftrightarrow> \<not> (op = Some ''&&'' \<and> status \<noteq> 0 \<or> op = Some ''||'' \<and> status = 0)"

fun real_and_or :: "bool \<Rightarrow> (string option \<times> bool \<times> real_effect) list \<Rightarrow> real_effect" where
  "real_and_or zsh [] noErr st = st"
| "real_and_or zsh ((op, neg, f) # rest) noErr st =
     (if \<not> runs_next op (rs_status st) then real_and_or zsh rest noErr st
      else (let quiet = (noErr \<or> rest \<noteq> [] \<or> neg); st1 = f quiet st in
        if rs_exited st1 then st1
        else if rs_errexit st1 \<and> \<not> quiet \<and> \<not> zsh \<and> rs_status st1 \<noteq> 0 then st1\<lparr>rs_exited := True\<rparr>
        else real_and_or zsh rest noErr st1))"

text \<open>Each stage of a pipe is a child; with pipefail its status is the last that is not zero.\<close>

fun real_stages :: "real_effect list \<Rightarrow> bool \<Rightarrow> realState \<Rightarrow> int list \<times> nat" where
  "real_stages [] noErr st = ([], rs_tick st)"
| "real_stages (f # fs) noErr st =
     (let sub = f noErr (st\<lparr>rs_exited := False\<rparr>) in
      apfst ((#) (rs_status sub)) (real_stages fs noErr (st\<lparr>rs_tick := rs_tick sub\<rparr>)))"

definition real_pipe_status :: "bool \<Rightarrow> int list \<Rightarrow> int" where
  "real_pipe_status pipefail xs =
     (if pipefail then (case find (\<lambda>x. x \<noteq> 0) (rev xs) of None \<Rightarrow> 0 | Some x \<Rightarrow> x) else last xs)"

definition real_negated :: "bool \<Rightarrow> realState \<Rightarrow> realState" where
  "real_negated neg st = (if neg then st\<lparr>rs_status := (if rs_status st = 0 then 1 else 0)\<rparr> else st)"

definition real_pipeline :: "bool \<Rightarrow> real_effect list \<Rightarrow> real_effect" where
  "real_pipeline neg fs noErr st =
     (case fs of
        [f] \<Rightarrow> let st1 = f noErr st in if rs_exited st1 then st1 else real_negated neg st1
      | _ \<Rightarrow>
          (case real_stages fs noErr st of
             (xs, tick) \<Rightarrow>
               real_negated neg (st\<lparr>rs_status := real_pipe_status (rs_pipefail st) xs, rs_tick := tick\<rparr>)))"

fun real_if :: "(real_effect \<times> real_effect) list \<Rightarrow> real_effect option \<Rightarrow> real_effect" where
  "real_if [] els noErr st = (case els of None \<Rightarrow> st\<lparr>rs_status := 0\<rparr> | Some e \<Rightarrow> e noErr st)"
| "real_if ((cond, body) # rest) els noErr st =
     (let st1 = cond True st in
      if rs_exited st1 then st1
      else if rs_status st1 = 0 then body noErr st1
      else real_if rest els noErr st1)"

text \<open>A loop of commands that only succeed ends 0; of any other the oracle has the status.\<close>

definition real_loop :: "(nat \<Rightarrow> int) \<Rightarrow> bool \<Rightarrow> real_effect" where
  "real_loop orc unsure noErr st = st\<lparr>rs_status := (if unsure then orc (rs_tick st) else 0), rs_tick := rs_tick st + 1\<rparr>"

primrec real_command :: "(nat \<Rightarrow> int) \<Rightarrow> evaluator \<Rightarrow> command_tree \<Rightarrow> real_effect"
and real_list :: "(nat \<Rightarrow> int) \<Rightarrow> evaluator \<Rightarrow> list_tree \<Rightarrow> real_effect"
and real_item :: "(nat \<Rightarrow> int) \<Rightarrow> evaluator \<Rightarrow> item_tree \<Rightarrow> bool \<times> real_effect"
and real_ao :: "(nat \<Rightarrow> int) \<Rightarrow> evaluator \<Rightarrow> and_or_tree \<Rightarrow> real_effect"
and real_pipe :: "(nat \<Rightarrow> int) \<Rightarrow> evaluator \<Rightarrow> pipeline_tree \<Rightarrow> bool \<times> real_effect"
where
  "real_command orc ev (Simple s) = (\<lambda>noErr. real_simple orc ev s)"
| "real_command orc ev (Subshell b) = (\<lambda>noErr. in_child (real_list orc ev b noErr))"
| "real_command orc ev (GroupCmd b) = real_list orc ev b"
| "real_command orc ev (IfCmd conds bodies els) =
     real_if (zip (map (real_list orc ev) conds) (map (real_list orc ev) bodies)) (map_option (real_list orc ev) els)"
| "real_command orc ev (Loop unsure) = real_loop orc unsure"
| "real_list orc ev (Items xs) = real_items (map (real_item orc ev) xs)"
| "real_item orc ev (Item ao bg) = (bg, real_ao orc ev ao)"
| "real_ao orc ev (AndOr pipes ops) = real_and_or (ev_zsh ev) (zip (before_ops ops) (map (real_pipe orc ev) pipes))"
| "real_pipe orc ev (Pipeline neg stages) = (neg, real_pipeline neg (map (real_command orc ev) stages))"

text \<open>The status a line ends with.\<close>

definition line_status :: "(nat \<Rightarrow> int) \<Rightarrow> (string \<Rightarrow> int) \<Rightarrow> list_tree \<Rightarrow> evaluator \<Rightarrow> int" where
  "line_status orc vars body ev = rs_status (real_list orc ev body False (real0 vars))"

section \<open>What the reader's state stands for\<close>

definition stands :: "int \<Rightarrow> int \<Rightarrow> bool" where
  "stands a c \<longleftrightarrow> a < 0 \<or> a = c"

definition vars_like :: "(string \<rightharpoonup> int) \<Rightarrow> (string \<Rightarrow> int) \<Rightarrow> bool" where
  "vars_like m v \<longleftrightarrow> (\<forall>n k. m n = Some k \<longrightarrow> stands k (v n))"

definition like :: "evalState \<Rightarrow> realState \<Rightarrow> bool" where
  "like a c \<longleftrightarrow>
     stands (es_status a) (rs_status c) \<and>
     vars_like (es_vars a) (rs_vars c) \<and>
     es_errexit a = rs_errexit c \<and> es_pipefail a = rs_pipefail c \<and> es_exited a = rs_exited c \<and> \<not> es_lost a"

text \<open>An effect that, where it does not lose the run, leaves like states like.\<close>

definition tracks :: "effect \<Rightarrow> real_effect \<Rightarrow> bool" where
  "tracks f r \<longleftrightarrow> (\<forall>noErr a c. like a c \<longrightarrow> \<not> es_lost (f noErr a) \<longrightarrow> like (f noErr a) (r noErr c))"

lemma tracksD: "tracks f r \<Longrightarrow> like a c \<Longrightarrow> \<not> es_lost (f noErr a) \<Longrightarrow> like (f noErr a) (r noErr c)"
  by (simp add: tracks_def)

lemma like_update [simp]:
  "like a c \<Longrightarrow> stands s t \<Longrightarrow> like (a\<lparr>es_status := s\<rparr>) (c\<lparr>rs_status := t\<rparr>)"
  "like (a\<lparr>es_ran := b\<rparr>) c = like a c"
  "like a (c\<lparr>rs_tick := k\<rparr>) = like a c"
  "like a c \<Longrightarrow> like (a\<lparr>es_exited := b\<rparr>) (c\<lparr>rs_exited := b\<rparr>)"
  by (simp_all add: like_def)

lemma like_facts:
  assumes "like a c"
  shows "stands (es_status a) (rs_status c)" "es_errexit a = rs_errexit c" "es_pipefail a = rs_pipefail c"
    "es_exited a = rs_exited c" "\<not> es_lost a" "ended a = rs_exited c"
  using assms by (auto simp: like_def ended_def)

lemma stands_refl [simp]: "stands s s"
  by (simp add: stands_def)

lemma known: "stands s t \<Longrightarrow> \<not> s < 0 \<Longrightarrow> t = s"
  by (auto simp: stands_def)

lemma lost_lose [simp]: "es_lost (lose st)"
  by (simp add: lose_def)

section \<open>Simple commands\<close>

lemma value_stands: "like a c \<Longrightarrow> stands (value_in a v) (real_value orc c v)"
  by (cases v) (auto simp: like_def vars_like_def stands_def split: option.split)

lemma assign_like: "like a c \<Longrightarrow> like (assign_in a x) (real_assign orc c x)"
  using value_stands [of a c "as_val x" orc] by (auto simp: like_def assign_in_def real_assign_def vars_like_def)

lemma assigns_like: "like a c \<Longrightarrow> like (foldl assign_in a xs) (foldl (real_assign orc) c xs)"
  by (induction xs arbitrary: a c) (simp_all add: assign_like)

lemma set_like: "like a c \<Longrightarrow> like (set_in a x) (real_set c x)"
  by (simp add: set_in_def real_set_def like_def)

lemma sets_like: "like a c \<Longrightarrow> like (foldl set_in a xs) (foldl real_set c xs)"
  by (induction xs arbitrary: a c) (simp_all add: set_like)

lemma exit_like: "like a c \<Longrightarrow> \<not> es_lost (exit_in a args) \<Longrightarrow> like (exit_in a args) (real_exit orc c args)"
  using value_stands [of a c _ orc] by (auto simp: exit_in_def real_exit_def like_def split: list.split)

lemma simple_tracks: "tracks (\<lambda>noErr. run_simple ev s) (\<lambda>noErr. real_simple orc ev s)"
  unfolding tracks_def run_simple_def real_simple_def
  by (cases "si_op s") (auto simp: assigns_like sets_like exit_like stands_def)

section \<open>Compounds\<close>

definition tagged_track :: "'b \<times> effect \<Rightarrow> 'b \<times> real_effect \<Rightarrow> bool" where
  "tagged_track x y \<longleftrightarrow> fst x = fst y \<and> tracks (snd x) (snd y)"

lemma tagged_Cons:
  "list_all2 tagged_track ((t, f) # xs) ys \<Longrightarrow>
     \<exists>r ys'. ys = (t, r) # ys' \<and> tracks f r \<and> list_all2 tagged_track xs ys'"
  by (auto simp: list_all2_Cons1 tagged_track_def)

definition piped_track :: "'a \<times> 'b \<times> effect \<Rightarrow> 'a \<times> 'b \<times> real_effect \<Rightarrow> bool" where
  "piped_track x y \<longleftrightarrow> fst x = fst y \<and> tagged_track (snd x) (snd y)"

lemma piped_Cons:
  "list_all2 piped_track ((t, u, f) # xs) ys \<Longrightarrow>
     \<exists>r ys'. ys = (t, u, r) # ys' \<and> tracks f r \<and> list_all2 piped_track xs ys'"
  by (auto simp: list_all2_Cons1 piped_track_def tagged_track_def)

lemma copy_like: "like a c \<Longrightarrow> like (copy_state a) (c\<lparr>rs_exited := False\<rparr>)"
  by (simp add: copy_state_def)

lemma lost_stays: "es_lost st \<Longrightarrow> run_items xs noErr st = st"
  by (cases xs) (auto simp: ended_def)

lemma items_track: "list_all2 tagged_track xs ys \<Longrightarrow> tracks (run_items xs) (real_items ys)"
proof (induction xs arbitrary: ys)
  case Nil
  then show ?case by (simp add: tracks_def)
next
  case (Cons x xs)
  obtain bg f where x: "x = (bg, f)" by (cases x)
  from tagged_Cons [OF Cons.prems [unfolded x]]
  obtain r ys' where ys: "x = (bg, f)" "ys = (bg, r) # ys'" "tracks f r" "list_all2 tagged_track xs ys'"
    using x by auto
  from Cons.IH [OF ys(4)] have rest: "tracks (run_items xs) (real_items ys')" .
  show ?case unfolding tracks_def
  proof (intro allI impI)
    fix noErr a c assume l: "like a c" and keep: "\<not> es_lost (run_items (x # xs) noErr a)"
    note facts = like_facts [OF l]
    show "like (run_items (x # xs) noErr a) (real_items ys noErr c)"
    proof (cases "rs_exited c")
      case True
      with l facts show ?thesis by (simp add: ys(1,2))
    next
      case False
      then have go: "\<not> ended a" using facts by simp
      show ?thesis
      proof (cases bg)
        case True
        let ?a = "a\<lparr>es_status := 0, es_ran := es_ran (f True (copy_state a))\<rparr>"
        have "run_items (x # xs) noErr a = run_items xs noErr ?a"
          using go True by (simp only: ys(1) run_items.simps if_False if_True)
        moreover have "real_items ys noErr c = real_items ys' noErr (c\<lparr>rs_status := 0\<rparr>)"
          using False True by (simp only: ys(2) real_items.simps if_False if_True)
        moreover have "like ?a (c\<lparr>rs_status := 0\<rparr>)" using l by simp
        ultimately show ?thesis using keep tracksD [OF rest] by simp
      next
        case fg: False
        have run: "run_items (x # xs) noErr a = run_items xs noErr (f noErr a)"
          using go fg by (simp only: ys(1) run_items.simps if_False)
        have "\<not> es_lost (f noErr a)" using keep lost_stays [of "f noErr a" xs noErr] by (auto simp: run)
        then have "like (f noErr a) (r noErr c)" by (rule tracksD [OF ys(3) l])
        moreover have "real_items ys noErr c = real_items ys' noErr (r noErr c)"
          using False fg by (simp only: ys(2) real_items.simps if_False)
        ultimately show ?thesis using keep tracksD [OF rest] by (simp add: run del: run_items.simps)
      qed
    qed
  qed
qed

lemma and_or_track: "list_all2 piped_track xs ys \<Longrightarrow>
    tracks (run_and_or zsh xs) (real_and_or zsh ys)"
proof (induction xs arbitrary: ys)
  case Nil
  then show ?case by (simp add: tracks_def)
next
  case (Cons x xs)
  obtain op neg f where x: "x = (op, neg, f)" by (cases x)
  from piped_Cons [OF Cons.prems [unfolded x]]
  obtain r ys' where ys: "x = (op, neg, f)" "ys = (op, neg, r) # ys'" "tracks f r"
    and tail: "list_all2 piped_track xs ys'"
    using x by auto
  from Cons.IH [OF tail] have rest: "tracks (run_and_or zsh xs) (real_and_or zsh ys')" .
  have same: "xs = [] \<longleftrightarrow> ys' = []" using tail by auto
  show ?case unfolding tracks_def
  proof (intro allI impI)
    fix noErr a c assume l: "like a c" and keep: "\<not> es_lost (run_and_or zsh (x # xs) noErr a)"
    note facts = like_facts [OF l]
    have on: "\<not> (op \<noteq> None \<and> es_status a < 0)"
    proof
      assume "op \<noteq> None \<and> es_status a < 0"
      then have "run_and_or zsh (x # xs) noErr a = lose a" by (simp only: ys(1) run_and_or.simps if_True simp_thms)
      with keep show False by simp
    qed
    then have status: "op = None \<or> rs_status c = es_status a" using known [OF facts(1)] by auto
    let ?skip = "op = Some ''&&'' \<and> es_status a \<noteq> 0 \<or> op = Some ''||'' \<and> es_status a = 0"
    have next_iff: "runs_next op (rs_status c) \<longleftrightarrow> \<not> ?skip"
      using status by (auto simp: runs_next_def)
    show "like (run_and_or zsh (x # xs) noErr a) (real_and_or zsh ys noErr c)"
    proof (cases ?skip)
      case True
      with on next_iff keep show ?thesis by (auto simp: ys(1,2) intro!: tracksD [OF rest l])
    next
      case False
      define quiet where "quiet = (noErr \<or> xs \<noteq> [] \<or> neg)"
      define st1 where "st1 = f quiet a"
      have run: "run_and_or zsh (x # xs) noErr a =
          (if ended st1 then st1
           else if es_errexit st1 \<and> \<not> quiet \<and> \<not> zsh \<and> es_status st1 \<noteq> 0
           then (if es_status st1 < 0 then lose st1 else st1\<lparr>es_exited := True\<rparr>)
           else run_and_or zsh xs noErr st1)"
        using on False by (simp only: ys(1) run_and_or.simps Let_def quiet_def st1_def if_False)
      have "\<not> es_lost st1" using keep by (auto simp: run ended_def split: if_splits)
      then have l1: "like st1 (r quiet c)" unfolding st1_def by (rule tracksD [OF ys(3) l])
      have real: "real_and_or zsh ys noErr c =
          (if rs_exited (r quiet c) then r quiet c
           else if rs_errexit (r quiet c) \<and> \<not> quiet \<and> \<not> zsh \<and> rs_status (r quiet c) \<noteq> 0
           then (r quiet c)\<lparr>rs_exited := True\<rparr>
           else real_and_or zsh ys' noErr (r quiet c))"
        using next_iff False by (simp only: ys(2) real_and_or.simps Let_def quiet_def same if_False simp_thms)
      have zero: "rs_status (r quiet c) \<noteq> 0"
        if trap: "es_errexit st1 \<and> \<not> quiet \<and> \<not> zsh \<and> es_status st1 \<noteq> 0" "\<not> ended st1"
      proof -
        have "\<not> es_status st1 < 0"
          using keep unfolding run using trap by auto
        then show ?thesis using known [OF like_facts(1) [OF l1]] trap by simp
      qed
      have nonzero: "rs_status (r quiet c) = 0"
        if "es_status st1 = 0" using known [OF like_facts(1) [OF l1]] that by simp
      show ?thesis
        using like_facts [OF l1] l1 keep zero nonzero tracksD [OF rest l1, of noErr]
        by (auto simp: run real split: if_splits)
    qed
  qed
qed

lemma negated_like: "like a c \<Longrightarrow> like (negated neg a) (real_negated neg c)"
  using known [OF like_facts(1), of a c]
  by (auto simp: negated_def real_negated_def like_def stands_def)

lemma stages_track:
  "list_all2 tracks fs rs \<Longrightarrow> like a c \<Longrightarrow>
     (case fst (stage_statuses fs noErr a) of None \<Rightarrow> True
      | Some xs \<Rightarrow> list_all2 stands xs (fst (real_stages rs noErr c)))"
proof (induction fs arbitrary: rs a c)
  case Nil
  then show ?case by simp
next
  case (Cons f fs)
  then obtain r rs' where rs: "rs = r # rs'" "tracks f r" "list_all2 tracks fs rs'"
    by (auto simp: list_all2_Cons1)
  let ?sub = "f noErr (copy_state a)"
  let ?real = "r noErr (c\<lparr>rs_exited := False\<rparr>)"
  have step: "stage_statuses (f # fs) noErr a =
      (if es_lost ?sub then (None, es_ran ?sub)
       else apfst (map_option ((#) (es_status ?sub))) (stage_statuses fs noErr (a\<lparr>es_ran := es_ran ?sub\<rparr>)))"
    "fst (real_stages rs noErr c) =
       rs_status ?real # fst (real_stages rs' noErr (c\<lparr>rs_tick := rs_tick ?real\<rparr>))"
    by (simp_all add: rs(1) Let_def)
  show ?case
  proof (cases "es_lost ?sub")
    case False
    have "like ?sub ?real" by (rule tracksD [OF rs(2) copy_like [OF Cons.prems(2)] False])
    then have "stands (es_status ?sub) (rs_status ?real)" by (rule like_facts)
    moreover have "like (a\<lparr>es_ran := es_ran ?sub\<rparr>) (c\<lparr>rs_tick := rs_tick ?real\<rparr>)" using Cons.prems(2) by simp
    ultimately show ?thesis
      using Cons.IH [OF rs(3)] False unfolding step by (fastforce split: option.splits)
  qed (simp add: step)
qed

lemma all_known: "list_all2 stands xs ys \<Longrightarrow> \<not> list_ex (\<lambda>x. x < 0) xs \<Longrightarrow> xs = ys"
  by (induction rule: list_all2_induct) (auto simp: stands_def)

lemma some_unknown:
  "pf \<or> s < 0 \<Longrightarrow> list_ex (\<lambda>x. x < 0) xs \<or> s < 0 \<Longrightarrow>
     foldl (\<lambda>s x. if x < 0 \<and> (pf \<or> s < 0) then -1 else s) s xs < (0::int)"
  by (induction xs arbitrary: s) auto

lemma no_change:
  "\<not> list_ex (\<lambda>x. x < 0) xs \<or> \<not> pf \<and> 0 \<le> s \<Longrightarrow>
     foldl (\<lambda>s x. if x < 0 \<and> (pf \<or> s < 0) then -1 else s) s xs = (s::int)"
  by (induction xs arbitrary: s) auto

lemma last_nonzero:
  "foldl (\<lambda>s x. if x \<noteq> 0 then x else s) s xs = (case find (\<lambda>x. x \<noteq> 0) (rev xs) of None \<Rightarrow> s | Some x \<Rightarrow> (x::int))"
  by (induction xs rule: rev_induct) auto

lemma stands_last: "list_all2 stands xs ys \<Longrightarrow> stands (last xs) (last ys)"
  by (induction rule: list_all2_induct) auto

lemma pipe_status_stands:
  assumes "list_all2 stands xs ys"
  shows "stands (pipe_status pf xs) (real_pipe_status pf ys)"
proof (cases pf)
  case True
  show ?thesis
  proof (cases "list_ex (\<lambda>x. x < 0) xs")
    case True
    with some_unknown [of True "foldl (\<lambda>s x. if x \<noteq> 0 then x else s) 0 xs" xs] \<open>pf\<close> show ?thesis
      by (simp add: pipe_status_def Let_def stands_def)
  next
    case False
    with no_change [of ys True "foldl (\<lambda>s x. if x \<noteq> 0 then x else s) 0 ys"] \<open>pf\<close> all_known [OF assms]
    show ?thesis
      by (simp add: pipe_status_def Let_def no_change real_pipe_status_def last_nonzero)
  qed
next
  case False
  show ?thesis
  proof (cases "last xs < 0")
    case True
    with False some_unknown [of False "last xs" xs] show ?thesis by (simp add: pipe_status_def Let_def stands_def)
  next
    case known: False
    then have "pipe_status pf xs = last xs"
      using no_change [of xs pf "last xs"] \<open>\<not> pf\<close> by (simp add: pipe_status_def Let_def)
    then show ?thesis
      using stands_last [OF assms] False by (simp add: real_pipe_status_def)
  qed
qed

lemma pipeline_track:
  assumes fs: "list_all2 tracks fs rs"
  shows "tracks (run_pipeline neg fs) (real_pipeline neg rs)"
  unfolding tracks_def
proof (intro allI impI)
  fix noErr a c
  assume l: "like a c" and keep: "\<not> es_lost (run_pipeline neg fs noErr a)"
  show "like (run_pipeline neg fs noErr a) (real_pipeline neg rs noErr c)"
  proof (cases "\<exists>f. fs = [f]")
    case True
    then obtain f r where one: "fs = [f]" "rs = [r]" "tracks f r"
      using fs by (auto simp: list_all2_Cons1)
    have "\<not> es_lost (f noErr a)"
      using keep by (auto simp: run_pipeline_def one(1) Let_def ended_def)
    then have "like (f noErr a) (r noErr c)" by (rule tracksD [OF one(3) l])
    then show ?thesis
      using like_facts(6) negated_like by (simp add: run_pipeline_def real_pipeline_def one(1,2) Let_def)
  next
    case False
    moreover from this have "\<nexists>r. rs = [r]"
      using list_all2_lengthD [OF fs] by (auto simp: length_Suc_conv)
    ultimately have many: "(case fs of [f] \<Rightarrow> u f | _ \<Rightarrow> v) = v" "(case rs of [r] \<Rightarrow> w r | _ \<Rightarrow> z) = z"
      for u :: "effect \<Rightarrow> evalState" and v and w :: "real_effect \<Rightarrow> realState" and z
      by (auto split: list.split)
    obtain os did where st: "stage_statuses fs noErr a = (os, did)" by fastforce
    obtain ys tick where rst: "real_stages rs noErr c = (ys, tick)" by fastforce
    obtain xs where xs: "os = Some xs"
      using keep by (cases os) (auto simp: run_pipeline_def many st)
    have "list_all2 stands xs ys" using stages_track [OF fs l, of noErr] by (simp add: st rst xs)
    then have "stands (pipe_status (es_pipefail a) xs) (real_pipe_status (rs_pipefail c) ys)"
      using pipe_status_stands like_facts(3) [OF l] by simp
    with l have "like (a\<lparr>es_status := pipe_status (es_pipefail a) xs, es_ran := did\<rparr>)
        (c\<lparr>rs_status := real_pipe_status (rs_pipefail c) ys, rs_tick := tick\<rparr>)" by simp
    then show ?thesis
      by (simp add: run_pipeline_def real_pipeline_def many st rst xs negated_like)
  qed
qed

lemma subshell_track: "tracks f r \<Longrightarrow> tracks (run_subshell f) (\<lambda>noErr. in_child (r noErr))"
  unfolding tracks_def
proof (intro allI impI)
  fix noErr a c
  assume t: "\<forall>noErr a c. like a c \<longrightarrow> \<not> es_lost (f noErr a) \<longrightarrow> like (f noErr a) (r noErr c)"
    and l: "like a c" and keep: "\<not> es_lost (run_subshell f noErr a)"
  have "\<not> es_lost (f noErr (copy_state a))" using keep by (auto simp: run_subshell_def Let_def)
  with t copy_like [OF l] have sub: "like (f noErr (copy_state a)) (r noErr (c\<lparr>rs_exited := False\<rparr>))" by blast
  with l like_facts(1) [OF sub] like_facts(5) [OF sub]
  show "like (run_subshell f noErr a) (in_child (r noErr) c)"
    by (simp add: run_subshell_def in_child_def Let_def)
qed

lemma loop_track: "tracks (run_loop u) (real_loop orc u)"
  by (auto simp: tracks_def run_loop_def real_loop_def)

definition branch_track :: "effect \<times> effect \<Rightarrow> real_effect \<times> real_effect \<Rightarrow> bool" where
  "branch_track x y \<longleftrightarrow> tracks (fst x) (fst y) \<and> tracks (snd x) (snd y)"

lemma if_track:
  "list_all2 branch_track xs ys \<Longrightarrow> rel_option tracks els rels \<Longrightarrow> tracks (run_if xs els) (real_if ys rels)"
proof (induction xs arbitrary: ys)
  case Nil
  then show ?case
    by (cases els; cases rels) (auto simp: tracks_def)
next
  case (Cons x xs)
  obtain f b where x: "x = (f, b)" by (cases x)
  from Cons.prems(1) obtain y ys' where y: "ys = y # ys'" "branch_track (f, b) y"
    and tail: "list_all2 branch_track xs ys'"
    by (cases ys) (auto simp: x)
  then obtain r s where ys: "ys = (r, s) # ys'" "tracks f r" "tracks b s"
    by (cases y) (auto simp: branch_track_def)
  from Cons.IH [OF tail Cons.prems(2)] have rest: "tracks (run_if xs els) (real_if ys' rels)" .
  show ?case unfolding tracks_def
  proof (intro allI impI)
    fix noErr a c assume l: "like a c" and keep: "\<not> es_lost (run_if (x # xs) els noErr a)"
    let ?st = "f True a" and ?real = "r True c"
    have run: "run_if (x # xs) els noErr a =
        (if ended ?st then ?st else if es_status ?st < 0 then lose ?st
         else if es_status ?st = 0 then b noErr ?st else run_if xs els noErr ?st)"
      by (simp add: x Let_def)
    have "\<not> es_lost ?st" using keep unfolding run by (auto simp: ended_def split: if_splits)
    then have l1: "like ?st ?real" by (rule tracksD [OF ys(2) l])
    note facts = like_facts [OF l1]
    have real: "real_if ys rels noErr c =
        (if rs_exited ?real then ?real else if rs_status ?real = 0 then s noErr ?real
         else real_if ys' rels noErr ?real)"
      by (simp add: ys(1) Let_def)
    show "like (run_if (x # xs) els noErr a) (real_if ys rels noErr c)"
    proof (cases "rs_exited ?real")
      case True
      with facts l1 show ?thesis unfolding run real by simp
    next
      case False
      then have pos: "\<not> es_status ?st < 0" using keep facts unfolding run by (auto split: if_splits)
      then have "rs_status ?real = es_status ?st" using known [OF facts(1)] by simp
      with False pos facts keep show ?thesis
        unfolding run real using tracksD [OF ys(3) l1] tracksD [OF rest l1] by auto
    qed
  qed
qed

lemma zip_track:
  "list_all2 tracks fs rs \<Longrightarrow> list_all2 tracks gs ss \<Longrightarrow> list_all2 branch_track (zip fs gs) (zip rs ss)"
proof (induction fs arbitrary: rs gs ss)
  case (Cons f fs)
  then show ?case
    by (cases gs) (auto simp: list_all2_Cons1 branch_track_def)
qed simp

lemma zip_piped:
  "list_all2 tagged_track xs ys \<Longrightarrow> list_all2 piped_track (zip ops xs) (zip ops ys)"
proof (induction xs arbitrary: ys ops)
  case (Cons x xs)
  then show ?case by (cases ops) (auto simp: list_all2_Cons1 piped_track_def)
qed simp

lemma list_track: "(\<And>x. x \<in> set xs \<Longrightarrow> P (f x) (g x)) \<Longrightarrow> list_all2 P (map f xs) (map g xs)"
  by (induction xs) auto

lemma tree_tracks:
  "tracks (eval_command ev c) (real_command orc ev c)"
  "tracks (eval_list ev l) (real_list orc ev l)"
  "tagged_track (eval_item ev i) (real_item orc ev i)"
  "tracks (eval_and_or ev a) (real_ao orc ev a)"
  "tagged_track (eval_pipeline ev p) (real_pipe orc ev p)"
proof (induction c and l and i and a and p)
  case (Simple s)
  show ?case using simple_tracks by simp
next
  case (Subshell b)
  then show ?case by (simp add: subshell_track)
next
  case (IfCmd conds bodies els)
  then have "rel_option tracks (map_option (eval_list ev) els) (map_option (real_list orc ev) els)"
    by (cases els) auto
  with IfCmd show ?case by (auto intro!: if_track zip_track list_track)
next
  case (Loop u)
  show ?case by (simp add: loop_track)
next
  case (Items xs)
  then show ?case by (auto intro!: items_track list_track)
next
  case (Item ao bg)
  then show ?case by (simp add: tagged_track_def)
next
  case (AndOr pipes ops)
  then show ?case by (auto intro!: and_or_track zip_piped list_track)
next
  case (Pipeline neg stages)
  then show ?case by (auto simp: tagged_track_def intro!: pipeline_track list_track)
qed simp_all

section \<open>What the reader says of a line\<close>

lemma run_line_sound:
  assumes "fst (run_line body ev) \<ge> 0"
  shows "line_status orc vars body ev = fst (run_line body ev)"
proof -
  have start: "like evalState0 (real0 vars)"
    by (simp add: like_def evalState0_def real0_def vars_like_def)
  let ?st = "eval_list ev body False evalState0"
  have keep: "\<not> es_lost ?st" using assms by (auto simp: run_line_def Let_def split: if_splits)
  from tracksD [OF tree_tracks(2) start keep, of orc]
  have "stands (es_status ?st) (line_status orc vars body ev)"
    unfolding line_status_def by (rule like_facts)
  with keep assms show ?thesis by (auto simp: run_line_def Let_def stands_def)
qed

lemma runShells_sound:
  assumes "runShells p body g = (f, pass, did)" and "f \<ge> 0" and "pass \<ge> 0"
  shows "line_status orc vars body (as_run g True False) = f"
    and "line_status orc vars body (as_run g False False) = pass"
    and "lp_errexit p \<Longrightarrow>
      hides (line_status orc vars body (as_run g True True)) (line_status orc' vars' body (as_run g False True)) =
      hides f pass"
proof -
  let ?run = "\<lambda>fail zsh. fst (run_line body (as_run g fail zsh))"
  have bash: "f = ?run True False" "pass = ?run False False"
    using assms by (auto simp: runShells_def Let_def split: if_splits prod.splits)
  then show "line_status orc vars body (as_run g True False) = f"
    "line_status orc vars body (as_run g False False) = pass"
    using run_line_sound assms(2,3) by simp_all
  assume "lp_errexit p"
  then have "?run True True \<ge> 0" "?run False True \<ge> 0" "hides f pass = hides (?run True True) (?run False True)"
    using assms by (auto simp: runShells_def Let_def split: if_splits prod.splits)
  then show "hides (line_status orc vars body (as_run g True True))
      (line_status orc' vars' body (as_run g False True)) = hides f pass"
    using run_line_sound by simp
qed

definition hidden_run :: "lineParser \<Rightarrow> list_tree \<Rightarrow> nat \<Rightarrow> bool" where
  "hidden_run p body g = (case runShells p body g of (f, pass, did) \<Rightarrow> hides f pass)"

definition settled_run :: "lineParser \<Rightarrow> list_tree \<Rightarrow> nat \<Rightarrow> bool" where
  "settled_run p body g = (case runShells p body g of (f, pass, did) \<Rightarrow> \<not> (f < 0 \<or> pass < 0 \<or> \<not> did))"

lemma read_runners_hidden:
  "read_runners p body gs hidden reach = Some (hs, r) \<Longrightarrow>
     hs = hidden @ filter (hidden_run p body) gs \<and> list_all (settled_run p body) gs"
proof (induction gs arbitrary: hidden reach)
  case (Cons g gs)
  obtain f pass did where run: "runShells p body g = (f, pass, did)" by (cases "runShells p body g")
  have ok: "\<not> (f < 0 \<or> pass < 0 \<or> \<not> did)" using Cons.prems by (auto simp: run split: if_splits)
  have "hs = (if hides f pass then hidden @ [g] else hidden) @ filter (hidden_run p body) gs \<and>
      list_all (settled_run p body) gs"
  proof (cases "hides f pass")
    case True
    then have "read_runners p body gs (hidden @ [g]) reach = Some (hs, r)"
      using Cons.prems ok by (simp add: run)
    from Cons.IH [OF this] True show ?thesis by simp
  next
    case False
    then obtain re where "read_runners p body gs hidden re = Some (hs, r)"
      using Cons.prems ok by (auto simp: run)
    from Cons.IH [OF this] False show ?thesis by simp
  qed
  moreover have "hidden_run p body g = hides f pass" "settled_run p body g"
    using ok by (simp_all add: hidden_run_def settled_run_def run)
  ultimately show ?case by simp
qed simp

text \<open>Whether the line's status tells a failing run of the group from a passing one, under either shell.\<close>

definition status_hides ::
  "(nat \<Rightarrow> int) \<Rightarrow> (string \<Rightarrow> int) \<Rightarrow> (nat \<Rightarrow> int) \<Rightarrow> (string \<Rightarrow> int) \<Rightarrow> list_tree \<Rightarrow> nat \<Rightarrow> bool \<Rightarrow> bool" where
  "status_hides orc vars orc' vars' body g zsh =
     hides (line_status orc vars body (as_run g True zsh)) (line_status orc' vars' body (as_run g False zsh))"

lemma settled_sound:
  assumes "settled_run p body g"
  shows "status_hides orc vars orc' vars' body g False = hidden_run p body g"
    and "lp_errexit p \<Longrightarrow> status_hides orc vars orc' vars' body g True = hidden_run p body g"
proof -
  obtain f pass did where run: "runShells p body g = (f, pass, did)" by (cases "runShells p body g")
  with assms have pos: "f \<ge> 0" "pass \<ge> 0" by (auto simp: settled_run_def)
  note sound = runShells_sound [OF run pos]
  show "status_hides orc vars orc' vars' body g False = hidden_run p body g"
    by (simp add: status_hides_def hidden_run_def run sound)
  assume "lp_errexit p"
  then show "status_hides orc vars orc' vars' body g True = hidden_run p body g"
    by (simp add: status_hides_def hidden_run_def run sound(3))
qed

lemma displace_facts [simp]:
  "length (lp_runners (displace k p)) = length (lp_runners p)" "lp_errexit (displace k p) = lp_errexit p"
  by (simp_all add: displace_def)

lemma maskedRun_runners:
  "maskedRun cmd lead = Some (p, body, hidden, reach) \<Longrightarrow>
     hidden = filter (hidden_run p body) [0..<length (lp_runners p)] \<and>
     list_all (settled_run p body) [0..<length (lp_runners p)]"
  by (auto simp: maskedRun_def Let_def split: if_splits prod.splits option.splits parse.splits
      dest!: read_runners_hidden)

text \<open>
  C6: the reader is sound for the reference semantics: where it reads a line, a runner is among the
  hidden ones exactly when the status the line ends with cannot tell the runner failing from the
  runner passing -- it is 0 for a failing run, or the same for both -- whatever a test of a
  status says, whatever a variable the line did not set holds, and whatever a word the reader
  cannot read stands for; and, where the line sets errexit, the same under a shell that takes
  no notice of it.
\<close>

theorem maskedRun_sound:
  "case maskedRun cmd lead of None \<Rightarrow> True
   | Some (p, body, hidden, reach) \<Rightarrow>
       list_all (\<lambda>g.
           status_hides orc vars orc' vars' body g False = (g \<in> set hidden) \<and>
           (if lp_errexit p then status_hides orc vars orc' vars' body g True = (g \<in> set hidden) else True))
         [0..<length (lp_runners p)]"
proof (cases "maskedRun cmd lead")
  case (Some r)
  obtain p body hidden reach where r: "r = (p, body, hidden, reach)" by (cases r)
  note runners = maskedRun_runners [OF Some [unfolded r]]
  show ?thesis
    using runners settled_sound [of p body _ orc vars orc' vars']
    by (auto simp: Some r list_all_iff)
qed simp

end
