(* ===== verification/SteerVocab.thy ===== *)
theory SteerVocab
  imports GoStrings
begin

text \<open>
  The words of a steering note and the channel it may take, \<^verbatim>\<open>internal/steer\<close> (steer.go,
  client.go, pattern/pattern.go, and the key table of finding.go): levels, events and states, the
  frozen patterns with their kinds and priorities, the version of the running client and which
  event's channel a release verified for it.
\<close>

section \<open>Patterns\<close>

definition all_patterns :: "string list" where
  "all_patterns =
     [''subtask-gate'', ''regression-location'', ''continuity-briefing'', ''declared-fact'', ''learned-fact'',
      ''platform-rule'', ''integrity'', ''identical-retry'', ''cred-spray'', ''ordering-rule'',
      ''agent-interference'', ''subagent-claim'', ''model-switch'', ''claim-vs-record'', ''masked-status'',
      ''sequence-risk'', ''task-preflight'', ''stale-evidence'', ''blast-radius'']"

definition pattern_kinds :: "string \<rightharpoonup> string list" where
  "pattern_kinds = map_of
     [(''claim-vs-record'',
       [''red'', ''masked'', ''stale'', ''absent'', ''backgrounded'', ''silent-failure'', ''done-unverified'']),
      (''platform-rule'', [''edit'', ''command'', ''pragma'']),
      (''integrity'',
       [''skip-added'', ''test-deleted'', ''assert-drop'', ''frozen-path'', ''tests-only-green'', ''spec-edited'',
        ''steer-config'', ''store-touched'', ''suppression-added'', ''generated-edited'', ''gate-weakened'',
        ''gate-config-edited'']),
      (''subtask-gate'', [''commit'', ''push'', ''pr'']),
      (''learned-fact'', [''local'', ''pack'']),
      (''sequence-risk'', [''secret-then-egress'', ''lockfile-unverified'', ''dep-unresolved''])]"

definition lower_alnum :: "char \<Rightarrow> bool" where
  "lower_alnum c \<longleftrightarrow> CHR ''a'' \<le> c \<and> c \<le> CHR ''z'' \<or> CHR ''0'' \<le> c \<and> c \<le> CHR ''9''"

definition classForm :: "string \<Rightarrow> bool" where
  "classForm s \<longleftrightarrow>
     s \<noteq> [] \<and> length s \<le> 64 \<and> lower_alnum (hd s) \<and>
     list_all (\<lambda>c. lower_alnum c \<or> c = CHR ''.'' \<or> c = CHR ''_'' \<or> c = CHR ''-'') s"

definition KindValid :: "string \<Rightarrow> string \<Rightarrow> bool" where
  "KindValid p kind =
     (if p \<notin> set all_patterns then False
      else if p = ''declared-fact'' then classForm kind
      else if kind = [] then pattern_kinds p = None \<or> p = ''subtask-gate''
      else (case pattern_kinds p of None \<Rightarrow> False | Some ks \<Rightarrow> kind \<in> set ks))"

definition Priority :: "string \<rightharpoonup> int" where
  "Priority = map_of
     [(''integrity'', 95), (''subtask-gate'', 90), (''claim-vs-record'', 85), (''regression-location'', 80),
      (''stale-evidence'', 78), (''declared-fact'', 75), (''task-preflight'', 72), (''learned-fact'', 70),
      (''cred-spray'', 65), (''sequence-risk'', 62), (''platform-rule'', 60), (''agent-interference'', 55),
      (''subagent-claim'', 50), (''masked-status'', 45), (''identical-retry'', 40), (''ordering-rule'', 30),
      (''blast-radius'', 25)]"

text \<open>How many of a prompt's notes a pattern leaves to the others.\<close>

definition Reserve :: "string \<Rightarrow> nat" where
  "Reserve p = (if p = ''blast-radius'' then 1 else 0)"

section \<open>Levels, states and reasons\<close>

definition LevelOff :: nat where [vocab_defs]: "LevelOff = 0"
definition LevelFlag :: nat where [vocab_defs]: "LevelFlag = 1"
definition LevelNudge :: nat where [vocab_defs]: "LevelNudge = 2"
definition LevelStop :: nat where [vocab_defs]: "LevelStop = 3"

definition level_word :: "nat \<Rightarrow> string" where
  "level_word l = (if l < 4 then [''off'', ''flag'', ''nudge'', ''stop''] ! l else ''unknown'')"

definition StopFormNone :: string where [vocab_defs]: "StopFormNone = ''none''"

definition AllStopForms :: "string list" where
  "AllStopForms = [''none'', ''deny'', ''ask'', ''stop_continue'']"

definition EventPreToolUse :: string where [vocab_defs]: "EventPreToolUse = ''PreToolUse''"
definition EventPostToolUse :: string where [vocab_defs]: "EventPostToolUse = ''PostToolUse''"
definition EventPostToolUseFailure :: string where [vocab_defs]: "EventPostToolUseFailure = ''PostToolUseFailure''"
definition EventPostToolBatch :: string where [vocab_defs]: "EventPostToolBatch = ''PostToolBatch''"
definition EventUserPromptSubmit :: string where [vocab_defs]: "EventUserPromptSubmit = ''UserPromptSubmit''"
definition EventSessionStart :: string where [vocab_defs]: "EventSessionStart = ''SessionStart''"
definition EventSubagentStart :: string where [vocab_defs]: "EventSubagentStart = ''SubagentStart''"
definition EventStop :: string where [vocab_defs]: "EventStop = ''Stop''"
definition EventPostModelSwitch :: string where [vocab_defs]: "EventPostModelSwitch = ''PostModelSwitch''"

text \<open>The line's channel for an event; an unknown event has none.\<close>

definition channelOf :: "string \<Rightarrow> string" where
  "channelOf e = (case map_of
     [(''PreToolUse'', ''pre_tool_use''), (''PostToolUse'', ''post_tool_use''),
      (''PostToolUseFailure'', ''post_tool_use''), (''PostToolBatch'', ''post_tool_batch''),
      (''UserPromptSubmit'', ''user_prompt_submit''), (''SessionStart'', ''session_start''),
      (''SubagentStart'', ''subagent_start''), (''Stop'', ''stop''),
      (''PostModelSwitch'', ''post_model_switch'')] e of None \<Rightarrow> [] | Some c \<Rightarrow> c)"

datatype line_state =
    StateCandidate | StateDelivered | StateSuppressed | StateSuperseded | StateStale | StateDeferred | StateExpired
  | StateUnconfirmed

definition state_word :: "line_state \<Rightarrow> string" where
  "state_word s = (case s of StateCandidate \<Rightarrow> ''candidate'' | StateDelivered \<Rightarrow> ''delivered''
     | StateSuppressed \<Rightarrow> ''suppressed'' | StateSuperseded \<Rightarrow> ''superseded'' | StateStale \<Rightarrow> ''stale''
     | StateDeferred \<Rightarrow> ''deferred'' | StateExpired \<Rightarrow> ''expired'' | StateUnconfirmed \<Rightarrow> ''unconfirmed'')"

datatype suppressed_by =
    ByBudgetPrompt | ByBudgetPattern | ByBudgetBatch | ByStopHookActive | ByBackgroundRunning | ByHostForeign
  | BySteerOff | ByConsentMissing | ByArmOff | ByDemoted | ByLockTimeout | ByRenderRefused | ByDeadline | ByDenyCap
  | BySlotRejected | ByOutputGate | ByUnverifiedChannel | ByNoChannel | ByNoMirror | ByHarnessOff | BySurfaceOff
  | ByLate | ByConfigUnreadable

definition by_word :: "suppressed_by \<Rightarrow> string" where
  "by_word b = (case b of
       ByBudgetPrompt \<Rightarrow> ''budget_prompt'' | ByBudgetPattern \<Rightarrow> ''budget_pattern'' | ByBudgetBatch \<Rightarrow> ''budget_batch''
     | ByStopHookActive \<Rightarrow> ''stop_hook_active'' | ByBackgroundRunning \<Rightarrow> ''background_running''
     | ByHostForeign \<Rightarrow> ''host_foreign'' | BySteerOff \<Rightarrow> ''steer_off'' | ByConsentMissing \<Rightarrow> ''consent_missing''
     | ByArmOff \<Rightarrow> ''arm_off'' | ByDemoted \<Rightarrow> ''demoted'' | ByLockTimeout \<Rightarrow> ''lock_timeout''
     | ByRenderRefused \<Rightarrow> ''render_refused'' | ByDeadline \<Rightarrow> ''deadline'' | ByDenyCap \<Rightarrow> ''deny_cap''
     | BySlotRejected \<Rightarrow> ''slot_rejected'' | ByOutputGate \<Rightarrow> ''output_gate''
     | ByUnverifiedChannel \<Rightarrow> ''unverified_channel'' | ByNoChannel \<Rightarrow> ''no_channel'' | ByNoMirror \<Rightarrow> ''no_mirror''
     | ByHarnessOff \<Rightarrow> ''harness_off'' | BySurfaceOff \<Rightarrow> ''surface_off'' | ByLate \<Rightarrow> ''late''
     | ByConfigUnreadable \<Rightarrow> ''config_unreadable'')"

datatype delivery = DeliveryDelivered | DeliveryFlagOnly | DeliveryHoldout | DeliverySuppressedBudget | DeliveryShadow

datatype attendance = Attended | Unattended | Looping

datatype arm = ArmLive | ArmSteer | ArmOff

section \<open>The key table of an event\<close>

record eventKeys =
  ek_context :: bool
  ek_decision :: bool
  ek_stopContinue :: bool
  ek_exempt :: bool

definition no_keys :: eventKeys where
  "no_keys = \<lparr>ek_context = False, ek_decision = False, ek_stopContinue = False, ek_exempt = False\<rparr>"

definition outputKeys :: "string \<rightharpoonup> eventKeys" where
  "outputKeys = map_of
     [(EventPreToolUse, no_keys\<lparr>ek_decision := True\<rparr>),
      (EventPostToolUse, no_keys\<lparr>ek_context := True\<rparr>),
      (EventPostToolUseFailure, no_keys\<lparr>ek_context := True\<rparr>),
      (EventPostToolBatch, no_keys\<lparr>ek_context := True\<rparr>),
      (EventUserPromptSubmit, no_keys\<lparr>ek_context := True, ek_exempt := True\<rparr>),
      (EventSessionStart, no_keys\<lparr>ek_context := True\<rparr>),
      (EventSubagentStart, no_keys\<lparr>ek_context := True\<rparr>),
      (EventStop, no_keys\<lparr>ek_stopContinue := True\<rparr>),
      (EventPostModelSwitch, no_keys)]"

text \<open>The row of an event; one outside the table reads as the zero row.\<close>

definition keys_of :: "string \<Rightarrow> eventKeys" where
  "keys_of e = (case outputKeys e of None \<Rightarrow> no_keys | Some k \<Rightarrow> k)"

section \<open>The client\<close>

record Client =
  c_Version :: string
  c_MirrorInBand :: bool
  c_Subagent :: bool
  c_EvidenceAbsent :: bool
  c_StartSource :: string

record channelBasis =
  cb_floor :: string
  cb_excluded :: "string list"

definition no_basis :: channelBasis where
  "no_basis = \<lparr>cb_floor = [], cb_excluded = []\<rparr>"

definition keyOf :: "string \<Rightarrow> Client \<Rightarrow> string \<times> string" where
  "keyOf event c = (event, if event = EventSessionStart then c_StartSource c else [])"

text \<open>Versions run by run, a shorter number first once its leading zeros are gone.\<close>

function compareVersions :: "string \<Rightarrow> string \<Rightarrow> int" where
  "compareVersions a b =
     (if a = [] \<and> b = [] then 0
      else
        (let x = TrimLeft (fst (Cut a (CHR ''.''))) (CHR ''0''); y = TrimLeft (fst (Cut b (CHR ''.''))) (CHR ''0'') in
         if length x \<noteq> length y then (if length x < length y then -1 else 1)
         else if x \<noteq> y then (if x < y then -1 else 1)
         else compareVersions (fst (snd (Cut a (CHR ''.'')))) (fst (snd (Cut b (CHR ''.''))))))"
  by pat_completeness auto
termination
proof (relation "measure (\<lambda>(a, b). length a + length b)", simp)
  fix a b :: string
  assume "\<not> (a = [] \<and> b = [])"
  have shorter: "s \<noteq> [] \<Longrightarrow> length (fst (snd (Cut s (CHR ''.'')))) < length s"
    and nil: "fst (snd (Cut [] (CHR ''.''))) = []" for s
    by (rule Cut_tail_shorter) (simp_all add: Cut_def)
  then show "((fst (snd (Cut a (CHR ''.''))), fst (snd (Cut b (CHR ''.'')))), a, b)
      \<in> measure (\<lambda>(a, b). length a + length b)"
    using shorter [of a] shorter [of b] nil \<open>\<not> (a = [] \<and> b = [])\<close> by (cases "a = []"; cases "b = []") (simp_all add: add_strict_mono)
qed

declare compareVersions.simps [simp del]

definition excludes :: "channelBasis \<Rightarrow> string \<Rightarrow> bool" where
  "excludes b v = list_ex (\<lambda>x. compareVersions v x = 0) (cb_excluded b)"

definition refused_row :: "channelBasis \<Rightarrow> bool" where
  "refused_row b = list_ex (\<lambda>x. cb_floor b = [] \<or> compareVersions x (cb_floor b) < 0) (cb_excluded b)"

definition closeRefused :: "(string \<times> string \<rightharpoonup> channelBasis) \<Rightarrow> (string \<times> string \<rightharpoonup> channelBasis)" where
  "closeRefused table = (\<lambda>k. map_option (\<lambda>b. if refused_row b then no_basis else b) (table k))"

definition mirrorVerifiedOn :: "string \<times> string \<rightharpoonup> channelBasis" where
  "mirrorVerifiedOn = closeRefused (map_of
     [((EventPostToolUse, []), no_basis\<lparr>cb_floor := ''2.1.280''\<rparr>),
      ((EventPostToolUseFailure, []), no_basis\<lparr>cb_floor := ''2.1.304''\<rparr>),
      ((EventSessionStart, ''compact''), no_basis\<lparr>cb_floor := ''2.1.280''\<rparr>),
      ((EventSessionStart, ''startup''), no_basis),
      ((EventSessionStart, ''resume''), no_basis),
      ((EventSessionStart, ''clear''), no_basis),
      ((EventPostToolBatch, []), no_basis),
      ((EventSubagentStart, []), no_basis),
      ((EventPreToolUse, []), no_basis)])"

definition basis_of :: "(string \<times> string \<rightharpoonup> channelBasis) \<Rightarrow> string \<Rightarrow> Client \<Rightarrow> channelBasis" where
  "basis_of table event c = (case table (keyOf event c) of None \<Rightarrow> no_basis | Some b \<Rightarrow> b)"

text \<open>Two to four runs of digits, one separator between each.\<close>

fun digit_runs :: "char \<Rightarrow> nat \<Rightarrow> bool \<Rightarrow> string \<Rightarrow> bool" where
  "digit_runs sep runs inRun [] = (inRun \<and> 2 \<le> runs \<and> runs \<le> 4)"
| "digit_runs sep runs inRun (b # v) =
     (if CHR ''0'' \<le> b \<and> b \<le> CHR ''9'' then digit_runs sep (if inRun then runs else runs + 1) True v
      else if b = sep \<and> inRun then digit_runs sep runs False v
      else False)"

definition digitRuns :: "string \<Rightarrow> char \<Rightarrow> bool" where
  "digitRuns v sep = digit_runs sep 0 False v"

datatype shutReason =
    channelOpen | shutNoMirror | shutSubagent | shutEventClosed | shutUnknownVersion | shutBelowFloor | shutExcluded
  | shutEvidence

definition shutBy :: "eventKeys \<Rightarrow> string \<Rightarrow> Client \<Rightarrow> (string \<times> string \<rightharpoonup> channelBasis) \<Rightarrow> shutReason" where
  "shutBy keys event c table =
     (let b = basis_of table event c in
      if ek_exempt keys then channelOpen
      else if \<not> c_MirrorInBand c then shutNoMirror
      else if c_Subagent c then shutSubagent
      else if cb_floor b = [] then shutEventClosed
      else if \<not> digitRuns (c_Version c) (CHR ''.'') then shutUnknownVersion
      else if compareVersions (c_Version c) (cb_floor b) < 0 then shutBelowFloor
      else if excludes b (c_Version c) then shutExcluded
      else if c_EvidenceAbsent c then shutEvidence
      else channelOpen)"

definition verified :: "eventKeys \<Rightarrow> string \<Rightarrow> Client \<Rightarrow> (string \<times> string \<rightharpoonup> channelBasis) \<Rightarrow> bool" where
  "verified keys event c table \<longleftrightarrow> shutBy keys event c table = channelOpen"

definition allowed :: "string \<Rightarrow> Client \<Rightarrow> (string \<times> string \<rightharpoonup> channelBasis) \<Rightarrow> bool" where
  "allowed event c table =
     (case outputKeys event of None \<Rightarrow> False | Some k \<Rightarrow> ek_context k \<and> verified k event c table)"

definition ContextAllowed :: "string \<Rightarrow> Client \<Rightarrow> bool" where
  "ContextAllowed event c = allowed event c mirrorVerifiedOn"

definition maxAIAgent :: nat where
  "maxAIAgent = 32"

text \<open>The client's version from the environment word it sets, and whether that could be read.\<close>

definition ClientVersion :: "string \<Rightarrow> string \<times> bool" where
  "ClientVersion w =
     (if length w > maxAIAgent then ([], False)
      else (case CutPrefix w ''claude-code_'' of (v, ok) \<Rightarrow>
        if \<not> ok \<or> \<not> HasSuffix v ''_harness'' then ([], False)
        else (let u = take (length v - length ''_harness'') v in
          if \<not> digitRuns u (CHR ''-'') then ([], False) else (ReplaceByte u (CHR ''-'') (CHR ''.''), True))))"

end
