(* ===== verification/Render.thy ===== *)
theory Render
  imports SteerVocab
begin

text \<open>
  The text of a note, \<^verbatim>\<open>internal/steer/render\<close> (validate.go, templates.go, fill.go, aside.go and
  the message of render.go): filling a template with its slots, the checks of a whole text, and
  the mirror the user is shown. A slot is seen as the renderer sees it, by its name, its text and
  whether it is a list and lists anything; the values behind it have a package of their own.
\<close>

section \<open>The checks of a line\<close>

datatype render_error =
    NoPrefix | TooLong | TooManyLines | EmptyLine | NonASCII | Forbidden | Control | Reminder | OpenQuote | Banned
  | NotAStatement | BadTemplate | NothingToPrint

definition MessagePrefix :: string where
  "MessagePrefix = ''rashomon record: ''"

definition MaxMessageBytes :: nat where
  "MaxMessageBytes = 1200"

definition MaxBriefingMessageBytes :: nat where
  "MaxBriefingMessageBytes = 1600"

definition maxBriefingLines :: nat where
  "maxBriefingLines = 6"

definition isAlnum :: "char \<Rightarrow> bool" where
  "isAlnum c \<longleftrightarrow> CHR ''0'' \<le> c \<and> c \<le> CHR ''9'' \<or> isLetter c"

definition isWordByte :: "char \<Rightarrow> bool" where
  "isWordByte c \<longleftrightarrow> isAlnum c \<or> c = CHR 0x27 \<or> c = CHR ''-''"

definition bannedWords :: "string list" where
  "bannedWords =
     [''must'', ''should'', ''please'', ''need'', ''verify'', ''verified'', ''compliant'', ''catch'', ''caught'',
      ''lie'', ''cheat'', ''deleted'']"

text \<open>
  The line with its quoted spans gone and a space where each opened; \<open>None\<close> where a quote is
  never closed. \<open>prev\<close> is the byte before.
\<close>

fun outside_quotes :: "bool \<Rightarrow> char option \<Rightarrow> string \<Rightarrow> string option" where
  "outside_quotes inQuote prev [] = (if inQuote then None else Some [])"
| "outside_quotes inQuote prev (c # cs) =
     (let before = (case prev of None \<Rightarrow> False | Some p \<Rightarrow> isAlnum p); after = (cs \<noteq> [] \<and> isAlnum (hd cs)) in
      if c = CHR 0x27 \<and> \<not> inQuote \<and> \<not> before then map_option ((#) (CHR '' '')) (outside_quotes True (Some c) cs)
      else if c = CHR 0x27 \<and> inQuote \<and> \<not> after then outside_quotes False (Some c) cs
      else if inQuote then outside_quotes True (Some c) cs
      else map_option ((#) c) (outside_quotes False (Some c) cs))"

definition outsideQuotes :: "string \<Rightarrow> string option" where
  "outsideQuotes line = outside_quotes False None line"

text \<open>The pieces between the bytes that satisfy \<open>P\<close>, the empty ones gone.\<close>

fun split_when :: "(char \<Rightarrow> bool) \<Rightarrow> string \<Rightarrow> string list" where
  "split_when P [] = [[]]"
| "split_when P (c # cs) =
     (if P c then [] # split_when P cs
      else (case split_when P cs of [] \<Rightarrow> [[c]] | w # ws \<Rightarrow> (c # w) # ws))"

definition FieldsFunc :: "(char \<Rightarrow> bool) \<Rightarrow> string \<Rightarrow> string list" where
  "FieldsFunc P s = filter (\<lambda>w. w \<noteq> []) (split_when P s)"

definition is_space :: "char \<Rightarrow> bool" where
  "is_space c \<longleftrightarrow> c \<in> {CHR '' '', CHR 0x09, CHR 0x0A, CHR 0x0B, CHR 0x0C, CHR 0x0D}"

definition Fields :: "string \<Rightarrow> string list" where
  "Fields s = FieldsFunc is_space s"

definition trim_set :: "string \<Rightarrow> string \<Rightarrow> string" where
  "trim_set s cs = rev (dropWhile (\<lambda>c. c \<in> set cs) (rev (dropWhile (\<lambda>c. c \<in> set cs) s)))"

function ReplaceAll :: "string \<Rightarrow> string \<Rightarrow> string \<Rightarrow> string" where
  "ReplaceAll s old new =
     (if s = [] \<or> old = [] then s
      else if HasPrefix s old then new @ ReplaceAll (drop (length old) s) old new
      else hd s # ReplaceAll (tl s) old new)"
  by pat_completeness auto
termination by (relation "measure (\<lambda>(s, old, new). length s)") auto

declare ReplaceAll.simps [simp del]

definition secondPerson :: "string list" where
  "secondPerson = [''you'', ''your'', ''yours'']"

definition imperativePhrases :: "string list" where
  "imperativePhrases =
     [''please'', ''make sure'', ''do not'', ''don'' @ CHR 0x27 # ''t'', ''you must'', ''you should'']"

definition imperativeOpenings :: "string list" where
  "imperativeOpenings =
     [''run'', ''re-run'', ''use'', ''try'', ''fix'', ''check'', ''stop'', ''revert'', ''rerun'', ''delete'',
      ''remove'', ''install'', ''add'', ''update'', ''restore'', ''undo'', ''skip'', ''commit'', ''push'', ''write'',
      ''edit'', ''open'', ''avoid'']"

definition connectives :: "string list" where
  "connectives =
     [''then'', ''and'', ''so'', ''now'', ''just'', ''also'', ''first'', ''next'', ''or'', ''but'']"

text \<open>The phrase stands somewhere as whole words.\<close>

definition containsWord :: "string \<Rightarrow> string \<Rightarrow> bool" where
  "containsWord s phrase =
     list_ex (\<lambda>i. HasPrefix (drop i s) phrase \<and> (i = 0 \<or> \<not> isWordByte (s ! (i - 1))) \<and>
                  (i + length phrase = length s \<or> \<not> isWordByte (s ! (i + length phrase))))
       (if length phrase \<le> length s then [0..<length s - length phrase + 1] else [])"

definition parens :: string where
  "parens = ''()'' @ [CHR 0x22]"

definition opens_imperative :: "string \<Rightarrow> bool" where
  "opens_imperative clause =
     (case dropWhile (\<lambda>w. trim_set w parens \<in> set connectives) (Fields clause) of
        [] \<Rightarrow> False
      | w # ws \<Rightarrow> trim_set w parens \<in> set imperativeOpenings)"

definition ends_clause :: "char \<Rightarrow> bool" where
  "ends_clause c \<longleftrightarrow> c \<in> set ''.?!;:,'' \<or> c = CHR 0x0A"

definition statementOfFact :: "string \<Rightarrow> bool" where
  "statementOfFact unquoted =
     (let t = ToLower unquoted;
          u = ReplaceAll (ReplaceAll (fst (CutPrefix t (ToLower MessagePrefix))) '' - '' ''. '') ''--'' ''. ''
      in \<not> list_ex (containsWord t) secondPerson \<and> \<not> list_ex (containsWord t) imperativePhrases \<and>
         \<not> list_ex opens_imperative (FieldsFunc ends_clause u))"

definition bannedWord :: "string \<Rightarrow> bool" where
  "bannedWord w \<longleftrightarrow> ToLower w \<in> set bannedWords"

definition checkWords :: "string \<Rightarrow> render_error option" where
  "checkWords line =
     (case outsideQuotes line of
        None \<Rightarrow> Some OpenQuote
      | Some u \<Rightarrow>
          if list_ex bannedWord (FieldsFunc (\<lambda>c. \<not> isAlnum c) u) then Some Banned
          else if \<not> statementOfFact u then Some NotAStatement else None)"

definition byte_error :: "char \<Rightarrow> render_error option" where
  "byte_error c =
     (if (of_char c :: nat) > 0x7F then Some NonASCII
      else if c = CHR ''<'' \<or> c = CHR ''>'' \<or> c = CHR 0x60 \<or> c = CHR 0x22 then Some Forbidden
      else if (of_char c :: nat) < 0x20 \<or> c = CHR 0x7F then Some Control
      else None)"

definition checkLine :: "string \<Rightarrow> render_error option" where
  "checkLine line =
     (case find (\<lambda>c. byte_error c \<noteq> None) line of
        Some c \<Rightarrow> byte_error c
      | None \<Rightarrow> if Contains (ToLower line) ''system-reminder'' then Some Reminder else checkWords line)"

definition Validate :: "string \<Rightarrow> render_error option" where
  "Validate s =
     (if \<not> HasPrefix s MessagePrefix then Some NoPrefix
      else if length s > MaxMessageBytes then Some TooLong
      else checkLine s)"

fun check_lines :: "string list \<Rightarrow> render_error option" where
  "check_lines [] = None"
| "check_lines (l # ls) =
     (if l = [] then Some EmptyLine else (case checkLine l of Some e \<Rightarrow> Some e | None \<Rightarrow> check_lines ls))"

definition ValidateBriefing :: "string \<Rightarrow> render_error option" where
  "ValidateBriefing s =
     (if \<not> HasPrefix s MessagePrefix then Some NoPrefix
      else if length s > MaxBriefingMessageBytes then Some TooLong
      else if length (Split s (CHR 0x0A)) > maxBriefingLines then Some TooManyLines
      else check_lines (Split s (CHR 0x0A)))"

section \<open>The mirror\<close>

text \<open>The mark the mirror and the aside open with, in UTF-8.\<close>

definition reference_mark :: string where
  "reference_mark = [CHR 0xE2, CHR 0x80, CHR 0xBB]"

definition MirrorPrefix :: string where
  "MirrorPrefix = reference_mark @ '' rashomon told the agent: '' @ [CHR 0x22]"

definition MirrorSuffix :: string where
  "MirrorSuffix = [CHR 0x22]"

definition AsidePrefix :: string where
  "AsidePrefix = reference_mark @ '' rashomon, not sent to the agent: ''"

definition Mirror :: "string \<Rightarrow> string option" where
  "Mirror t = (if Validate t \<noteq> None then None else Some (MirrorPrefix @ t @ MirrorSuffix))"

definition MirrorBriefing :: "string \<Rightarrow> string option" where
  "MirrorBriefing t = (if ValidateBriefing t \<noteq> None then None else Some (MirrorPrefix @ t @ MirrorSuffix))"

section \<open>A template filled\<close>

text \<open>
  A bound slot: its name, its text, for a list whether it lists anything, and what its row of the
  steer line's slot table writes (\<open>None\<close> where that table refuses it).
\<close>

record Slot =
  sl_Name :: string
  sl_Text :: string
  sl_Lists :: "bool option"
  sl_Line :: "(string \<times> string) list option"

record template =
  tp_id :: string
  tp_format :: string
  tp_aside :: string
  tp_sparse :: bool

definition not_brace :: "char \<Rightarrow> bool" where
  "not_brace c \<longleftrightarrow> c \<noteq> CHR ''{'' \<and> c \<noteq> CHR ''}''"

text \<open>The text a format fills to and the placeholders it named; \<open>None\<close> is a bad template.\<close>

function fillInto :: "string \<Rightarrow> Slot list \<Rightarrow> (string \<times> string list) option" where
  "fillInto f slots =
     (if f = [] then Some ([], [])
      else if hd f = CHR ''{''
      then (let name = takeWhile not_brace (tl f); rest = dropWhile not_brace (tl f) in
        if rest = [] \<or> hd rest \<noteq> CHR ''}'' then None
        else (case find (\<lambda>s. sl_Name s = name) slots of
                None \<Rightarrow> None
              | Some s \<Rightarrow> map_option (\<lambda>(t, ns). (sl_Text s @ t, name # ns)) (fillInto (tl rest) slots)))
      else if hd f = CHR ''}'' then None
      else map_option (\<lambda>(t, ns). (hd f # t, ns)) (fillInto (tl f) slots))"
  by pat_completeness auto
termination
proof (relation "measure (\<lambda>(f, slots). length f)", simp_all)
  fix f :: string assume "f \<noteq> []"
  then show "length (dropWhile not_brace (tl f)) - Suc 0 < length f"
    using length_dropWhile_le [of not_brace "tl f"] by (cases f) auto
qed

declare fillInto.simps [simp del]

definition all_used :: "string list \<Rightarrow> Slot list \<Rightarrow> bool" where
  "all_used names slots \<longleftrightarrow> length (remdups names) = length slots"

definition fill_format :: "string \<Rightarrow> Slot list \<Rightarrow> string option" where
  "fill_format f slots =
     (case fillInto f slots of
        None \<Rightarrow> None
      | Some (t, names) \<Rightarrow> if \<not> all_used names slots then None else Some t)"

text \<open>The placeholders include a list and none of the lists holds anything.\<close>

definition listsNothing :: "string list \<Rightarrow> Slot list \<Rightarrow> bool" where
  "listsNothing names slots =
     (let ls = List.map_filter (\<lambda>n. Option.bind (find (\<lambda>s. sl_Name s = n) slots) sl_Lists) names in
      ls \<noteq> [] \<and> \<not> list_ex (\<lambda>b. b) ls)"

fun fill_lines :: "string list \<Rightarrow> Slot list \<Rightarrow> bool \<Rightarrow> bool \<Rightarrow> (string list \<times> string list) option" where
  "fill_lines [] slots sparse keep = Some ([], [])"
| "fill_lines (l # ls) slots sparse keep =
     (case fillInto l slots of
        None \<Rightarrow> None
      | Some (t, names) \<Rightarrow>
          map_option (\<lambda>(ts, ns). (if sparse \<and> \<not> keep \<and> listsNothing names slots then ts else t # ts, names @ ns))
            (fill_lines ls slots sparse False))"

definition fillLines :: "string \<Rightarrow> Slot list \<Rightarrow> bool \<Rightarrow> bool \<Rightarrow> (string \<times> string list) option" where
  "fillLines f slots sparse head =
     (if f = [] then Some ([], [])
      else map_option (\<lambda>(kept, ns). (if sparse \<and> head \<and> length kept = 1 then [] else Join kept [CHR 0x0A], ns))
             (fill_lines (Split f (CHR 0x0A)) slots sparse head))"

definition fillSplit :: "template \<Rightarrow> Slot list \<Rightarrow> (string \<times> string) option" where
  "fillSplit t slots =
     (case fillLines (tp_format t) slots (tp_sparse t) True of
        None \<Rightarrow> None
      | Some (txt, ns) \<Rightarrow>
          (case fillLines (tp_aside t) slots (tp_sparse t) False of
             None \<Rightarrow> None
           | Some (aside, ms) \<Rightarrow> if \<not> all_used (ns @ ms) slots then None else Some (txt, aside)))"

definition validateSplit :: "string \<Rightarrow> string \<Rightarrow> (string \<Rightarrow> render_error option) \<Rightarrow> render_error option" where
  "validateSplit txt aside check =
     (if txt = [] \<and> aside = [] then Some NothingToPrint
      else if length txt + length aside > MaxBriefingMessageBytes then Some TooLong
      else if txt \<noteq> [] then check txt else None)"

section \<open>The message\<close>

record Message =
  m_Pattern :: string
  m_Template :: string
  m_Slots :: "Slot list"
  m_Text :: string
  m_Aside :: string

definition no_message :: Message where
  "no_message = \<lparr>m_Pattern = [], m_Template = [], m_Slots = [], m_Text = [], m_Aside = []\<rparr>"

text \<open>The two patterns whose note has several lines.\<close>

definition briefing :: "string \<Rightarrow> bool" where
  "briefing p \<longleftrightarrow> p = ''continuity-briefing'' \<or> p = ''task-preflight''"

definition check_of :: "string \<Rightarrow> string \<Rightarrow> render_error option" where
  "check_of p = (if briefing p then ValidateBriefing else Validate)"

text \<open>The message of a pattern from the row its binding selects and the bound slots.\<close>

definition newMessage :: "template \<Rightarrow> string \<Rightarrow> Slot list \<Rightarrow> render_error + Message" where
  "newMessage t p slots =
     (let made = \<lparr>m_Pattern = p, m_Template = tp_id t, m_Slots = slots, m_Text = [], m_Aside = []\<rparr> in
      if tp_sparse t \<or> tp_aside t \<noteq> []
      then (case fillSplit t slots of
              None \<Rightarrow> Inl BadTemplate
            | Some (txt, aside) \<Rightarrow>
                (case validateSplit txt aside (check_of p) of
                   Some e \<Rightarrow> Inl e
                 | None \<Rightarrow> Inr (made\<lparr>m_Text := txt, m_Aside := aside\<rparr>)))
      else (case fill_format (tp_format t) slots of
              None \<Rightarrow> Inl BadTemplate
            | Some txt \<Rightarrow> (case check_of p txt of Some e \<Rightarrow> Inl e | None \<Rightarrow> Inr (made\<lparr>m_Text := txt\<rparr>))))"

text \<open>What every message the renderer makes is.\<close>

definition message_ok :: "Message \<Rightarrow> bool" where
  "message_ok m \<longleftrightarrow>
     (m_Text m \<noteq> [] \<or> m_Aside m \<noteq> []) \<and> length (m_Text m) + length (m_Aside m) \<le> MaxBriefingMessageBytes \<and>
     (m_Text m = [] \<or> check_of (m_Pattern m) (m_Text m) = None)"

lemma check_of_size: "check_of p t = None \<Longrightarrow> t \<noteq> [] \<and> length t \<le> MaxBriefingMessageBytes"
  by (auto simp: check_of_def Validate_def ValidateBriefing_def MaxMessageBytes_def MaxBriefingMessageBytes_def
      MessagePrefix_def HasPrefix_def split: if_splits)

lemma newMessage_ok: "newMessage t p slots = Inr m \<Longrightarrow> message_ok m \<and> m_Pattern m = p \<and> m_Template m = tp_id t"
  using check_of_size [of p "m_Text m"]
  by (auto simp: newMessage_def message_ok_def validateSplit_def Let_def split: if_splits option.splits)

section \<open>What the checks leave\<close>

text \<open>A byte of a note's text: printable ASCII, and none the harness or the mirror reads as its own.\<close>

definition note_byte :: "char \<Rightarrow> bool" where
  "note_byte c \<longleftrightarrow> 0x20 \<le> (of_char c :: nat) \<and> (of_char c :: nat) < 0x7F \<and> c \<notin> set ''<>'' \<and> c \<noteq> CHR 0x60 \<and> c \<noteq> CHR 0x22"

lemma byte_error_none: "byte_error c = None \<Longrightarrow> note_byte c"
proof -
  assume none: "byte_error c = None"
  then have "c \<noteq> CHR 0x7F" by (auto simp: byte_error_def split: if_splits)
  then have "of_char c \<noteq> (0x7F :: nat)" using of_char_eqI [of c "CHR 0x7F"] by auto
  with none show "note_byte c" by (auto simp: byte_error_def note_byte_def split: if_splits)
qed

lemma checkLine_bytes:
  assumes "checkLine l = None"
  shows "list_all note_byte l"
proof -
  have "find (\<lambda>c. byte_error c \<noteq> None) l = None"
    using assms by (auto simp: checkLine_def find_Some_iff split: option.splits)
  then show ?thesis by (auto simp: find_None_iff list_all_iff intro: byte_error_none)
qed

lemma check_lines_bytes: "check_lines ls = None \<Longrightarrow> list_all (\<lambda>l. list_all note_byte l) ls"
  by (induction ls) (auto split: if_splits option.splits dest: checkLine_bytes)

lemma set_Split_bytes: "list_all (\<lambda>l. list_all P l) (Split s c) \<Longrightarrow> list_all (\<lambda>x. P x \<or> x = c) s"
proof (induction s)
  case (Cons x s)
  then show ?case by (cases "Split s c") (auto split: if_splits)
qed simp

lemma note_byte_nl: "\<not> note_byte (CHR 0x0A)"
  by (simp add: note_byte_def)

text \<open>
  The mirror is unambiguous: a text the renderer accepts holds no double quote, so the user reads
  the model's text, and no more, between the mirror's two quotes; and it is the only text with
  that mirror.
\<close>

lemma check_of_bytes:
  assumes "check_of p t = None"
  shows "list_all (\<lambda>c. note_byte c \<or> briefing p \<and> c = CHR 0x0A) t"
proof (cases "briefing p")
  case True
  then have "check_lines (Split t (CHR 0x0A)) = None"
    using assms by (auto simp: check_of_def ValidateBriefing_def split: if_splits)
  from set_Split_bytes [OF check_lines_bytes [OF this]] show ?thesis by (simp add: True)
next
  case False
  then have "checkLine t = None" using assms by (auto simp: check_of_def Validate_def split: if_splits)
  from checkLine_bytes [OF this] show ?thesis by (simp add: list_all_iff)
qed

end
