(* ===== verification/Utf8.thy ===== *)
theory Utf8
  imports GoStrings
begin

text \<open>
  Go's \<^verbatim>\<open>unicode/utf8\<close> and \<^verbatim>\<open>unicode/utf16\<close>, as far as the modelled code calls them: decoding
  the first rune of a byte sequence, encoding a rune, and joining a surrogate pair. A rune is a
  natural number; what does not decode is \<open>RuneError\<close> of size 1, and no byte at all is of size 0.
\<close>

definition RuneError :: nat where
  "RuneError = 0xFFFD"

abbreviation byte :: "char \<Rightarrow> nat" where
  "byte \<equiv> of_char"

text \<open>The length a leading byte asks for and the range of the byte after it.\<close>

definition leading_byte :: "nat \<Rightarrow> (nat \<times> nat \<times> nat) option" where
  "leading_byte b =
     (if 0xC2 \<le> b \<and> b \<le> 0xDF then Some (2, 0x80, 0xBF)
      else if b = 0xE0 then Some (3, 0xA0, 0xBF)
      else if b = 0xED then Some (3, 0x80, 0x9F)
      else if 0xE1 \<le> b \<and> b \<le> 0xEF then Some (3, 0x80, 0xBF)
      else if b = 0xF0 then Some (4, 0x90, 0xBF)
      else if 0xF1 \<le> b \<and> b \<le> 0xF3 then Some (4, 0x80, 0xBF)
      else if b = 0xF4 then Some (4, 0x80, 0x8F)
      else None)"

definition continues :: "nat \<Rightarrow> bool" where
  "continues b \<longleftrightarrow> 0x80 \<le> b \<and> b \<le> 0xBF"

definition DecodeRune :: "string \<Rightarrow> nat \<times> nat" where
  "DecodeRune s =
     (case s of
        [] \<Rightarrow> (RuneError, 0)
      | c # t \<Rightarrow>
          (let b = byte c in
           if b < 0x80 then (b, 1)
           else (case leading_byte b of
             None \<Rightarrow> (RuneError, 1)
           | Some (n, lo, hi) \<Rightarrow>
               (if length s < n then (RuneError, 1)
                else (let b1 = byte (t ! 0) in
                  if b1 < lo \<or> hi < b1 then (RuneError, 1)
                  else if n = 2 then ((b mod 32) * 64 + b1 mod 64, 2)
                  else (let b2 = byte (t ! 1) in
                    if \<not> continues b2 then (RuneError, 1)
                    else if n = 3 then ((b mod 16) * 4096 + (b1 mod 64) * 64 + b2 mod 64, 3)
                    else (let b3 = byte (t ! 2) in
                      if \<not> continues b3 then (RuneError, 1)
                      else ((b mod 8) * 262144 + (b1 mod 64) * 4096 + (b2 mod 64) * 64 + b3 mod 64, 4))))))))"

definition surrogate :: "nat \<Rightarrow> bool" where
  "surrogate r \<longleftrightarrow> 0xD800 \<le> r \<and> r < 0xE000"

definition valid_rune :: "nat \<Rightarrow> bool" where
  "valid_rune r \<longleftrightarrow> r \<le> 0x10FFFF \<and> \<not> surrogate r"

definition encode_valid :: "nat \<Rightarrow> string" where
  "encode_valid r =
     map char_of
       (if r < 0x80 then [r]
        else if r < 0x800 then [0xC0 + r div 64, 0x80 + r mod 64]
        else if r < 0x10000 then [0xE0 + r div 4096, 0x80 + r div 64 mod 64, 0x80 + r mod 64]
        else [0xF0 + r div 262144, 0x80 + r div 4096 mod 64, 0x80 + r div 64 mod 64, 0x80 + r mod 64])"

definition EncodeRune :: "nat \<Rightarrow> string" where
  "EncodeRune r = encode_valid (if valid_rune r then r else RuneError)"

definition RuneStart :: "char \<Rightarrow> bool" where
  "RuneStart c \<longleftrightarrow> \<not> continues (byte c)"

text \<open>\<^verbatim>\<open>utf16.DecodeRune\<close>.\<close>

definition join_surrogates :: "nat \<Rightarrow> nat \<Rightarrow> nat" where
  "join_surrogates a b =
     (if 0xD800 \<le> a \<and> a < 0xDC00 \<and> 0xDC00 \<le> b \<and> b < 0xE000
      then (a - 0xD800) * 1024 + (b - 0xDC00) + 0x10000 else RuneError)"

text \<open>\<^verbatim>\<open>utf8.ValidString\<close>, a rune at a time.\<close>

lemma DecodeRune_size: "snd (DecodeRune s) \<le> length s \<and> (s \<noteq> [] \<longrightarrow> 0 < snd (DecodeRune s))"
  by (auto simp: DecodeRune_def Let_def leading_byte_def Suc_le_eq split: list.splits option.splits if_splits prod.splits)

function ValidString :: "string \<Rightarrow> bool" where
  "ValidString s =
     (if s = [] then True
      else if fst (DecodeRune s) = RuneError \<and> snd (DecodeRune s) = 1 then False
      else ValidString (drop (snd (DecodeRune s)) s))"
  by pat_completeness auto
termination
  by (relation "measure length") (use DecodeRune_size in \<open>auto simp: Suc_le_eq\<close>)

declare ValidString.simps [simp del]

section \<open>Decoding what was encoded\<close>

text \<open>The payload of a leading byte and of one that follows it.\<close>

lemma payloads:
  "q < 32 \<Longrightarrow> (192 + q) mod 32 = (q::nat)"
  "q < 16 \<Longrightarrow> (224 + q) mod 16 = (q::nat)"
  "q < 8 \<Longrightarrow> (240 + q) mod 8 = (q::nat)"
  "q < 64 \<Longrightarrow> (128 + q) mod 64 = (q::nat)"
  using mod_mult_self1 [of q 6 32] mod_mult_self1 [of q 14 16] mod_mult_self1 [of q 30 8] mod_mult_self1 [of q 2 64]
  by (simp_all add: add.commute)

lemma radix_64:
  "r = q * 64 + m \<Longrightarrow> q = p * 64 + n \<Longrightarrow> r = p * 4096 + n * 64 + (m::nat)"
  "r = p * 4096 + n * 64 + m \<Longrightarrow> p = o' * 64 + l \<Longrightarrow> r = o' * 262144 + l * 4096 + n * 64 + (m::nat)"
  by simp_all

lemma digits_64:
  "r = r div 4096 * 4096 + r div 64 mod 64 * 64 + r mod (64::nat)"
  "r = r div 262144 * 262144 + r div 4096 mod 64 * 4096 + r div 64 mod 64 * 64 + r mod (64::nat)"
proof -
  have d: "r div 64 div 64 = r div 4096" "r div 4096 div 64 = r div 262144"
    using div_mult2_eq [of r 64 64] div_mult2_eq [of r 4096 64] by simp_all
  have r: "r = r div 64 * 64 + r mod 64" "r div 64 = r div 4096 * 64 + r div 64 mod 64"
    "r div 4096 = r div 262144 * 64 + r div 4096 mod 64"
    using div_mult_mod_eq [of r 64] div_mult_mod_eq [of "r div 64" 64] div_mult_mod_eq [of "r div 4096" 64]
    unfolding d by simp_all
  show first: "r = r div 4096 * 4096 + r div 64 mod 64 * 64 + r mod 64" by (rule radix_64(1) [OF r(1,2)])
  show "r = r div 262144 * 262144 + r div 4096 mod 64 * 4096 + r div 64 mod 64 * 64 + r mod 64"
    by (rule radix_64(2) [OF first r(3)])
qed

lemma leading_three:
  assumes "a < 16" "a = 0 \<Longrightarrow> 32 \<le> b" "a = 13 \<Longrightarrow> b < 32" "b < 64"
  shows "\<exists>l h. leading_byte (224 + a) = Some (3, l, h) \<and> l \<le> 128 + b \<and> 128 + b \<le> h"
  using assms by (cases "a = 0"; cases "a = 13") (auto simp: leading_byte_def)

lemma leading_four:
  assumes "a \<le> 4" "a = 0 \<Longrightarrow> 16 \<le> b" "a = 4 \<Longrightarrow> b < 16" "b < 64"
  shows "\<exists>l h. leading_byte (240 + a) = Some (4, l, h) \<and> l \<le> 128 + b \<and> 128 + b \<le> h"
  using assms by (cases "a = 0"; cases "a = 4") (auto simp: leading_byte_def)

lemma DecodeRune_encode_valid:
  assumes "valid_rune r"
  shows "DecodeRune (encode_valid r @ s) = (r, length (encode_valid r))"
proof -
  consider "r < 0x80" | "0x80 \<le> r" "r < 0x800" | "0x800 \<le> r" "r < 0x10000" | "0x10000 \<le> r"
    by linarith
  then show ?thesis
  proof cases
    case 1
    then show ?thesis by (simp add: encode_valid_def DecodeRune_def)
  next
    case 2
    define q m where "q = r div 64" and "m = r mod 64"
    have r: "r = q * 64 + m" "m < 64" "2 \<le> q" "q < 32"
      using 2 by (auto simp: q_def m_def)
    have "encode_valid r = [char_of (192 + q), char_of (128 + m)]"
      using 2 by (simp add: encode_valid_def q_def m_def)
    moreover have "leading_byte (192 + q) = Some (2, 0x80, 0xBF)"
      using r by (simp add: leading_byte_def)
    ultimately show ?thesis
      using r by (simp add: DecodeRune_def Let_def payloads)
  next
    case 3
    define a b c where "a = r div 4096" and "b = r div 64 mod 64" and "c = r mod 64"
    have r: "r = a * 4096 + b * 64 + c" "a < 16" "b < 64" "c < 64"
      using 3 digits_64(1) [of r] by (auto simp: a_def b_def c_def)
    have enc: "encode_valid r = [char_of (224 + a), char_of (128 + b), char_of (128 + c)]"
      using 3 by (simp add: encode_valid_def a_def b_def c_def)
    have lo: "a = 0 \<Longrightarrow> 32 \<le> b" using 3 r by simp
    have sur: "a = 13 \<Longrightarrow> b < 32" using assms r by (simp add: valid_rune_def surrogate_def)
    obtain l h where lead: "leading_byte (224 + a) = Some (3, l, h)" and "l \<le> 128 + b" "128 + b \<le> h"
      using leading_three r lo sur by blast
    then show ?thesis
      using r enc by (simp add: DecodeRune_def Let_def continues_def payloads)
  next
    case 4
    define a b c d where "a = r div 262144" and "b = r div 4096 mod 64" and "c = r div 64 mod 64" and "d = r mod 64"
    have r: "r = a * 262144 + b * 4096 + c * 64 + d" "b < 64" "c < 64" "d < 64"
      using digits_64(2) [of r] by (simp_all add: a_def b_def c_def d_def)
    have a: "a \<le> 4" "a = 4 \<Longrightarrow> b < 16"
      using assms r by (auto simp: valid_rune_def)
    have lo: "a = 0 \<Longrightarrow> 16 \<le> b" using 4 r by simp
    have enc: "encode_valid r = [char_of (240 + a), char_of (128 + b), char_of (128 + c), char_of (128 + d)]"
      using 4 by (simp add: encode_valid_def a_def b_def c_def d_def)
    obtain l h where lead: "leading_byte (240 + a) = Some (4, l, h)" and "l \<le> 128 + b" "128 + b \<le> h"
      using leading_four r lo a by blast
    then show ?thesis
      using r a enc by (simp add: DecodeRune_def Let_def continues_def payloads)
  qed
qed

lemma valid_RuneError [simp]: "valid_rune RuneError"
  by (simp add: valid_rune_def surrogate_def RuneError_def)

lemma DecodeRune_EncodeRune:
  "valid_rune r \<Longrightarrow> DecodeRune (EncodeRune r @ s) = (r, length (EncodeRune r))"
  by (simp add: EncodeRune_def DecodeRune_encode_valid)

end
