(* ===== verification/JsonScan.thy ===== *)
theory JsonScan
  imports Utf8
begin

text \<open>
  The JSON reader of the hook path, \<^verbatim>\<open>internal/jsonscan\<close> (jsonscan.go, unquote.go): it walks the
  members of one object and gives each wanted key the span of its value, without decoding what it
  steps over. Texts are byte sequences and a place in one is an index, as in the code.
  \<open>json.Valid\<close> of the standard library is the function \<open>json_valid\<close>; the sets of keys are those
  of \<open>NewKeySet\<close>, which compares keys exactly. Not modelled: the folding of \<open>NewFoldKeySet\<close>,
  which reads Unicode's case tables.
\<close>

section \<open>Spans and keys\<close>

datatype span_kind = KAbsent | KString | KNumber | KObject | KArray | KTrue | KFalse | KNull

record span =
  sp_off :: nat
  sp_len :: nat
  sp_kind :: span_kind

definition no_span :: span where
  "no_span = \<lparr>sp_off = 0, sp_len = 0, sp_kind = KAbsent\<rparr>"

definition span_inside :: "span \<Rightarrow> string \<Rightarrow> bool" where
  "span_inside s buf \<longleftrightarrow> sp_off s + sp_len s \<le> length buf"

definition span_raw :: "span \<Rightarrow> string \<Rightarrow> string" where
  "span_raw s buf = (if sp_kind s = KAbsent \<or> \<not> span_inside s buf then [] else take (sp_len s) (drop (sp_off s) buf))"

datatype scan_error = ErrInvalid | ErrNotObject | ErrNotString | ErrTooLarge | ErrSpan | ErrShortOut

text \<open>The keys sorted, and for each the place it had in the list given.\<close>

record KeySet =
  ks_sorted :: "string list"
  ks_slot :: "nat list"
  ks_longest :: nat

definition NewKeySet :: "string list \<Rightarrow> KeySet" where
  "NewKeySet ks =
     (let order = sort_key (\<lambda>i. ks ! i) [0..<length ks] in
      \<lparr>ks_sorted = map ((!) ks) order, ks_slot = order, ks_longest = foldr max (map length ks) 0\<rparr>)"

text \<open>\<^verbatim>\<open>sort.Search\<close> over \<open>[i, j)\<close>.\<close>

function search_from :: "(nat \<Rightarrow> bool) \<Rightarrow> nat \<Rightarrow> nat \<Rightarrow> nat" where
  "search_from f i j =
     (if i < j
      then (let h = (i + j) div 2 in if \<not> f h then search_from f (h + 1) j else search_from f i h)
      else i)"
  by auto
termination by (relation "measure (\<lambda>(f, i, j). j - i)") auto

declare search_from.simps [simp del]

definition ks_find :: "KeySet \<Rightarrow> string \<Rightarrow> nat option" where
  "ks_find k key =
     (let n = length (ks_sorted k); i = search_from (\<lambda>i. ks_sorted k ! i \<ge> key) 0 n in
      if i < n \<and> ks_sorted k ! i = key then Some (ks_slot k ! i) else None)"

definition maxKeyBytes :: nat where
  "maxKeyBytes = 128"

definition ks_limit :: "KeySet \<Rightarrow> nat" where
  "ks_limit k = min (ks_longest k) maxKeyBytes"

section \<open>Unescaping\<close>

definition hex_digit :: "char \<Rightarrow> nat option" where
  "hex_digit c =
     (if CHR ''0'' \<le> c \<and> c \<le> CHR ''9'' then Some (byte c - 48)
      else if CHR ''a'' \<le> c \<and> c \<le> CHR ''f'' then Some (byte c - 87)
      else if CHR ''A'' \<le> c \<and> c \<le> CHR ''F'' then Some (byte c - 55)
      else None)"

fun hex_fold :: "string \<Rightarrow> nat \<Rightarrow> nat option" where
  "hex_fold [] v = Some v"
| "hex_fold (c # cs) v = (case hex_digit c of None \<Rightarrow> None | Some d \<Rightarrow> hex_fold cs (v * 16 + d))"

definition hex4 :: "string \<Rightarrow> nat option" where
  "hex4 s = (if length s < 4 then None else hex_fold (take 4 s) 0)"

text \<open>
  One segment of a string's body and how many bytes of the body it took: a run of plain text, one
  escape, or the replacement of one bad byte.
\<close>

definition escapeU :: "string \<Rightarrow> string \<times> nat" where
  "escapeU s =
     (case hex4 (drop 2 s) of
        None \<Rightarrow> (EncodeRune RuneError, length s)
      | Some a \<Rightarrow>
          (if \<not> surrogate a then (EncodeRune a, 6)
           else
             (let t = drop 6 s in
              case (if 6 \<le> length t \<and> t ! 0 = CHR 0x5C \<and> t ! 1 = CHR ''u'' then hex4 (drop 2 t) else None) of
                None \<Rightarrow> (EncodeRune RuneError, 6)
              | Some b \<Rightarrow>
                  (if join_surrogates a b \<noteq> RuneError then (EncodeRune (join_surrogates a b), 12)
                   else (EncodeRune RuneError, 6)))))"

definition escape_segment :: "string \<Rightarrow> string \<times> nat" where
  "escape_segment s =
     (if length s < 2 then (EncodeRune RuneError, length s)
      else (let c = s ! 1 in
        if c = CHR ''b'' then ([CHR 0x08], 2)
        else if c = CHR ''f'' then ([CHR 0x0C], 2)
        else if c = CHR ''n'' then ([CHR 0x0A], 2)
        else if c = CHR ''r'' then ([CHR 0x0D], 2)
        else if c = CHR ''t'' then ([CHR 0x09], 2)
        else if c = CHR ''u'' then escapeU s
        else ([c], 2)))"

lemma past_rune: "s \<noteq> [] \<Longrightarrow> length s - snd (DecodeRune s) < length s"
  using DecodeRune_size [of s] by auto

function text_run :: "string \<Rightarrow> nat" where
  "text_run s =
     (if s = [] \<or> hd s = CHR 0x5C then 0
      else if byte (hd s) < 0x80 then Suc (text_run (tl s))
      else if fst (DecodeRune s) = RuneError \<and> snd (DecodeRune s) = 1 then 0
      else snd (DecodeRune s) + text_run (drop (snd (DecodeRune s)) s))"
  by pat_completeness auto
termination
  by (relation "measure length") (simp_all add: past_rune)

declare text_run.simps [simp del]

definition segment :: "string \<Rightarrow> string \<times> nat" where
  "segment s =
     (if s \<noteq> [] \<and> hd s = CHR 0x5C then escape_segment s
      else (let j = text_run s in if j > 0 then (take j s, j) else (EncodeRune RuneError, 1)))"

lemma escapeU_len: "2 \<le> length s \<Longrightarrow> 0 < snd (escapeU s) \<and> snd (escapeU s) \<le> length s"
  by (auto simp: escapeU_def hex4_def Let_def split: option.splits if_splits)

lemma text_run_le: "text_run s \<le> length s"
proof (induction s rule: text_run.induct)
  case (1 s)
  show ?case
  proof (cases "s = [] \<or> hd s = CHR 0x5C")
    case True
    then show ?thesis by (simp add: text_run.simps [of s])
  next
    case False
    then have "length (tl s) + 1 = length s" by (cases s) auto
    then show ?thesis
      using 1 False DecodeRune_size [of s] by (subst text_run.simps) auto
  qed
qed

lemma segment_len: "s \<noteq> [] \<Longrightarrow> 0 < snd (segment s) \<and> snd (segment s) \<le> length s"
  using escapeU_len [of s] text_run_le [of s]
  by (auto simp: segment_def escape_segment_def Let_def Suc_le_eq)

lemma past_segment: "s \<noteq> [] \<Longrightarrow> length s - snd (segment s) < length s"
  using segment_len [of s] by auto

text \<open>The last place at or before \<open>n\<close>, and at most three before it, where a rune starts.\<close>

fun rune_back :: "nat \<Rightarrow> string \<Rightarrow> nat \<Rightarrow> nat" where
  "rune_back 0 run n = n"
| "rune_back (Suc k) run n = (if n = 0 \<or> RuneStart (run ! n) then n else rune_back k run (n - 1))"

definition runeCut :: "string \<Rightarrow> nat \<Rightarrow> nat" where
  "runeCut run n = (if n \<ge> length run then length run else rune_back 3 run n)"

function unescapeHead :: "string \<Rightarrow> string \<Rightarrow> nat \<Rightarrow> string \<times> bool" where
  "unescapeHead s dst limit =
     (if s = [] then (dst, False)
      else (let seg = fst (segment s); room = limit - length dst in
        if length seg > room then (dst @ take (runeCut seg room) seg, True)
        else unescapeHead (drop (snd (segment s)) s) (dst @ seg) limit))"
  by pat_completeness auto
termination
  by (relation "measure (\<lambda>(s, dst, limit). length s)") (simp_all add: past_segment)

declare unescapeHead.simps [simp del]

function unescape :: "string \<Rightarrow> string" where
  "unescape s = (if s = [] then [] else fst (segment s) @ unescape (drop (snd (segment s)) s))"
  by pat_completeness auto
termination
  by (relation "measure length") (simp_all add: past_segment)

declare unescape.simps [simp del]

definition ks_lookup :: "KeySet \<Rightarrow> string \<Rightarrow> nat option" where
  "ks_lookup k body =
     (if CHR 0x5C \<notin> set body then ks_find k body
      else (case unescapeHead body [] (ks_limit k) of (out, truncated) \<Rightarrow>
              if truncated then None else ks_find k out))"

section \<open>The walk\<close>

definition isWS :: "char \<Rightarrow> bool" where
  "isWS c \<longleftrightarrow> c = CHR '' '' \<or> c = CHR 0x09 \<or> c = CHR 0x0A \<or> c = CHR 0x0D"

definition skipWS :: "string \<Rightarrow> nat \<Rightarrow> nat" where
  "skipWS buf i = i + length (takeWhile isWS (drop i buf))"

definition kindOf :: "char \<Rightarrow> span_kind" where
  "kindOf c =
     (if c = CHR 0x22 then KString
      else if c = CHR ''{'' then KObject
      else if c = CHR ''['' then KArray
      else if c = CHR ''t'' then KTrue
      else if c = CHR ''f'' then KFalse
      else if c = CHR ''n'' then KNull
      else if c = CHR ''-'' \<or> CHR ''0'' \<le> c \<and> c \<le> CHR ''9'' then KNumber
      else KAbsent)"

definition index_byte :: "string \<Rightarrow> char \<Rightarrow> nat option" where
  "index_byte s c = (if c \<in> set s then Some (length (takeWhile (\<lambda>x. x \<noteq> c) s)) else None)"

text \<open>The backslashes that end at \<open>j\<close>, counted back as far as \<open>i\<close>.\<close>

definition slashes_before :: "string \<Rightarrow> nat \<Rightarrow> nat \<Rightarrow> nat" where
  "slashes_before buf i j =
     length (takeWhile (\<lambda>c. c = CHR 0x5C) (rev (take (j - (i + 1)) (drop (i + 1) buf))))"

lemma takeWhile_before: "c \<in> set s \<Longrightarrow> length (takeWhile (\<lambda>x. x \<noteq> c) s) < length s"
  by (induction s) auto

lemma index_byte_less: "index_byte s c = Some q \<Longrightarrow> q < length s"
  by (auto simp: index_byte_def takeWhile_before split: if_splits)

function string_end :: "string \<Rightarrow> nat \<Rightarrow> nat \<Rightarrow> nat \<times> bool" where
  "string_end buf i j =
     (case index_byte (drop j buf) (CHR 0x22) of
        None \<Rightarrow> (length buf, False)
      | Some q \<Rightarrow>
          if even (slashes_before buf i (j + q)) then (j + q + 1, True) else string_end buf i (j + q + 1))"
  by pat_completeness auto
termination
  by (relation "measure (\<lambda>(buf, i, j). length buf - j)") (auto dest: index_byte_less)

declare string_end.simps [simp del]

definition skipString :: "string \<Rightarrow> nat \<Rightarrow> nat \<times> bool" where
  "skipString buf i = string_end buf i (i + 1)"

lemma string_end_past: "string_end buf i j = (e, True) \<Longrightarrow> j < e \<and> e \<le> length buf"
proof (induction buf i j rule: string_end.induct)
  case (1 buf i j)
  then show ?case
    by (subst (asm) string_end.simps)
      (fastforce split: option.splits if_splits dest: index_byte_less)
qed

lemma skipString_past: "skipString buf i = (e, True) \<Longrightarrow> i < e \<and> e \<le> length buf"
  using string_end_past [of buf i "i + 1" e] by (simp add: skipString_def)

text \<open>The end of the bracket that \<open>depth\<close> counts down to.\<close>

function skip_nested :: "string \<Rightarrow> nat \<Rightarrow> nat \<Rightarrow> nat \<times> bool" where
  "skip_nested buf i depth =
     (if \<not> i < length buf then (length buf, False)
      else if buf ! i = CHR 0x22
      then (if snd (skipString buf i) then skip_nested buf (fst (skipString buf i)) depth else (length buf, False))
      else if buf ! i = CHR ''{'' \<or> buf ! i = CHR ''['' then skip_nested buf (i + 1) (depth + 1)
      else if buf ! i = CHR ''}'' \<or> buf ! i = CHR '']''
      then (if depth = 1 then (i + 1, True) else skip_nested buf (i + 1) (depth - 1))
      else skip_nested buf (i + 1) depth)"
  by pat_completeness auto
termination
proof (relation "measure (\<lambda>(buf, i, depth). length buf - i)", simp_all)
  fix buf i assume "i < length buf" "snd (skipString buf i)"
  then show "length buf - fst (skipString buf i) < length buf - i"
    using skipString_past [of buf i "fst (skipString buf i)"] by (cases "skipString buf i") auto
qed

declare skip_nested.simps [simp del]

definition ends_scalar :: "char \<Rightarrow> bool" where
  "ends_scalar c \<longleftrightarrow> isWS c \<or> c = CHR '','' \<or> c = CHR ''}'' \<or> c = CHR '']''"

definition skipValue :: "string \<Rightarrow> nat \<Rightarrow> nat \<times> bool" where
  "skipValue buf i =
     (if buf ! i = CHR 0x22 then skipString buf i
      else if buf ! i = CHR ''{'' \<or> buf ! i = CHR ''['' then skip_nested buf i 0
      else (let j = i + length (takeWhile (\<lambda>c. \<not> ends_scalar c) (drop i buf)) in (j, j > i)))"

lemma string_end_past2: "snd (string_end buf i j) \<Longrightarrow> j < fst (string_end buf i j)"
  using string_end_past [of buf i j "fst (string_end buf i j)"] by (cases "string_end buf i j") auto

lemma skip_nested_past:
  "snd (skip_nested buf i depth) \<Longrightarrow> i < fst (skip_nested buf i depth)"
proof (induction buf i depth rule: skip_nested.induct)
  case (1 buf i depth)
  have str: "snd (skipString buf i) \<Longrightarrow> i < fst (skipString buf i)"
    using string_end_past2 [of buf i "i + 1"] by (simp add: skipString_def)
  show ?case
    using 1 str by (subst skip_nested.simps, subst (asm) (5) skip_nested.simps) (auto split: if_splits)
qed

lemma skipValue_past: "snd (skipValue buf i) \<Longrightarrow> i < fst (skipValue buf i)"
  using string_end_past2 [of buf i "i + 1"] skip_nested_past [of buf i 0]
  by (auto simp: skipValue_def skipString_def Let_def split: if_splits)

lemma skipWS_le: "i \<le> skipWS buf i"
  by (simp add: skipWS_def)

text \<open>
  The members from \<open>i\<close> on: the spans as the walk leaves them, and the error it stopped at.
\<close>

function walk_members :: "string \<Rightarrow> KeySet \<Rightarrow> nat \<Rightarrow> span list \<Rightarrow> span list \<times> scan_error option" where
  "walk_members buf keys i out =
     (let bad = (out, Some ErrInvalid); ke = fst (skipString buf i); colon = skipWS buf ke;
          v = skipWS buf (colon + 1); ve = fst (skipValue buf v); after = skipWS buf ve
      in if \<not> i < length buf \<or> buf ! i \<noteq> CHR 0x22 \<or> \<not> snd (skipString buf i) then bad
      else if \<not> colon < length buf \<or> buf ! colon \<noteq> CHR '':'' then bad
      else if \<not> v < length buf \<or> \<not> snd (skipValue buf v) \<or> kindOf (buf ! v) = KAbsent then bad
      else
        (let out1 = (case ks_lookup keys (take (ke - 1 - (i + 1)) (drop (i + 1) buf)) of
                       None \<Rightarrow> out
                     | Some n \<Rightarrow> out[n := \<lparr>sp_off = v, sp_len = ve - v, sp_kind = kindOf (buf ! v)\<rparr>])
         in if \<not> after < length buf then (out1, Some ErrInvalid)
         else if buf ! after = CHR '','' then walk_members buf keys (skipWS buf (after + 1)) out1
         else if buf ! after = CHR ''}'' then (out1, None)
         else (out1, Some ErrInvalid)))"
  by pat_completeness auto
termination
proof (relation "measure (\<lambda>(buf, keys, i, out). length buf - i)", simp)
  fix buf :: string and keys :: KeySet and i :: nat and out :: "span list" and a ke colon v ve after
  assume ke: "ke = fst (skipString buf i)" and colon: "colon = skipWS buf ke"
    and v: "v = skipWS buf (colon + 1)" and ve: "ve = fst (skipValue buf v)" and after: "after = skipWS buf ve"
    and i: "\<not> (\<not> i < length buf \<or> buf ! i \<noteq> CHR 0x22 \<or> \<not> snd (skipString buf i))"
    and ok: "\<not> (\<not> v < length buf \<or> \<not> snd (skipValue buf v) \<or> kindOf (buf ! v) = KAbsent)"
  fix out1
  have "i < ke" using skipString_past [of buf i ke] i ke by (cases "skipString buf i") auto
  also have "ke \<le> colon" unfolding colon by (rule skipWS_le)
  also have "colon < v" using skipWS_le [of "colon + 1" buf] by (simp add: v)
  also have "v < ve" using ok skipValue_past [of buf v] by (simp add: ve)
  also have "ve \<le> after" unfolding after by (rule skipWS_le)
  also have "after < skipWS buf (after + 1)" using skipWS_le [of "after + 1" buf] by simp
  finally show "((buf, keys, skipWS buf (after + 1), out1), buf, keys, i, out)
      \<in> measure (\<lambda>(buf, keys, i, out). length buf - i)"
    using i by (simp add: diff_less_mono2)
qed

declare walk_members.simps [simp del]

definition walkObject :: "string \<Rightarrow> KeySet \<Rightarrow> nat \<Rightarrow> span list \<Rightarrow> span list \<times> scan_error option" where
  "walkObject buf keys i out =
     (if \<not> i < length buf \<or> buf ! i \<noteq> CHR ''{'' then (out, Some ErrNotObject)
      else (let j = skipWS buf (i + 1) in
        if j < length buf \<and> buf ! j = CHR ''}'' then (out, None) else walk_members buf keys j out))"

definition clear_slots :: "KeySet \<Rightarrow> span list \<Rightarrow> span list" where
  "clear_slots keys out =
     replicate (length (ks_sorted keys)) no_span @ drop (length (ks_sorted keys)) out"

definition MaxInt32 :: nat where
  "MaxInt32 = 0x7FFFFFFF"

text \<open>An object inside a text, by the span of it.\<close>

definition Field :: "string \<Rightarrow> span \<Rightarrow> KeySet \<Rightarrow> span list \<Rightarrow> span list \<times> scan_error option" where
  "Field buf obj keys out =
     (if length out < length (ks_sorted keys) then (out, Some ErrShortOut)
      else (let out0 = clear_slots keys out in
        if sp_kind obj = KAbsent \<or> sp_kind obj = KNull then (out0, None)
        else if sp_kind obj \<noteq> KObject then (out0, Some ErrNotObject)
        else if \<not> span_inside obj buf then (out0, Some ErrSpan)
        else walkObject (take (sp_off obj + sp_len obj) buf) keys (sp_off obj) out0))"

definition Lookup :: "string \<Rightarrow> span \<Rightarrow> string \<Rightarrow> span \<times> scan_error option" where
  "Lookup buf obj key =
     apfst hd (Field buf obj \<lparr>ks_sorted = [key], ks_slot = [0], ks_longest = length key\<rparr> [no_span])"

definition ValueSpan :: "string \<Rightarrow> span" where
  "ValueSpan buf =
     (let i = skipWS buf 0; j = length buf - length (takeWhile isWS (rev (drop i buf))) in
      if i \<ge> j \<or> length buf > MaxInt32 then no_span
      else \<lparr>sp_off = i, sp_len = j - i, sp_kind = kindOf (buf ! i)\<rparr>)"

section \<open>Strings of a text\<close>

definition span_body :: "string \<Rightarrow> span \<Rightarrow> scan_error + string" where
  "span_body buf s =
     (if sp_kind s \<noteq> KString then Inl ErrNotString
      else if \<not> span_inside s buf \<or> sp_len s < 2 then Inl ErrSpan
      else Inr (take (sp_len s - 2) (drop (sp_off s + 1) buf)))"

definition Head :: "string \<Rightarrow> span \<Rightarrow> nat \<Rightarrow> scan_error + (string \<times> bool)" where
  "Head buf s limit =
     (case span_body buf s of Inl e \<Rightarrow> Inl e | Inr b \<Rightarrow> Inr (unescapeHead b [] limit))"

definition DecodeString :: "string \<Rightarrow> span \<Rightarrow> scan_error + string" where
  "DecodeString buf s = (case span_body buf s of Inl e \<Rightarrow> Inl e | Inr b \<Rightarrow> Inr (unescape b))"

end
