(* ===== verification/JsonTop.thy ===== *)
theory JsonTop
  imports JsonScan "HOL-Library.Sublist"
begin

text \<open>
  \<^verbatim>\<open>Top\<close> of \<^verbatim>\<open>internal/jsonscan\<close> and what it is for: on every text that \<^verbatim>\<open>json.Valid\<close> accepts
  and that holds an object, the walk over bytes reads the members the grammar has, in order, and
  each wanted key ends with the span of its last member. \<open>json_valid\<close> is the grammar of RFC 8259
  with the nesting limit of Go's \<^verbatim>\<open>encoding/json\<close>; its functions take a text and give back what
  follows the value read.
\<close>

section \<open>The grammar\<close>

definition starts :: "char \<Rightarrow> string \<Rightarrow> bool" where
  "starts c s \<longleftrightarrow> s \<noteq> [] \<and> hd s = c"

definition ws :: "string \<Rightarrow> string" where
  "ws s = dropWhile isWS s"

text \<open>What follows the closing quote, given what follows the opening one.\<close>

function str_tail :: "string \<Rightarrow> string option" where
  "str_tail s =
     (if s = [] then None
      else if hd s = CHR 0x22 then Some (tl s)
      else if hd s = CHR 0x5C
      then (if tl s = [] then None
            else if hd (tl s) \<in> set ''bfnrt/'' \<or> hd (tl s) = CHR 0x5C \<or> hd (tl s) = CHR 0x22
            then str_tail (tl (tl s))
            else if hd (tl s) = CHR ''u'' \<and> 6 \<le> length s \<and> list_all (\<lambda>c. hex_digit c \<noteq> None) (take 4 (drop 2 s))
            then str_tail (drop 6 s)
            else None)
      else if byte (hd s) < 0x20 then None
      else str_tail (tl s))"
  by pat_completeness auto
termination by (relation "measure length") (auto simp: neq_Nil_conv)

declare str_tail.simps [simp del]

definition is_digit :: "char \<Rightarrow> bool" where
  "is_digit c \<longleftrightarrow> CHR ''0'' \<le> c \<and> c \<le> CHR ''9''"

definition some_digits :: "string \<Rightarrow> string option" where
  "some_digits s = (if s \<noteq> [] \<and> is_digit (hd s) then Some (dropWhile is_digit s) else None)"

definition after_int :: "string \<Rightarrow> string option" where
  "after_int s = (if starts (CHR ''0'') s then Some (tl s) else some_digits s)"

definition after_frac :: "string \<Rightarrow> string option" where
  "after_frac s = (if starts (CHR ''.'') s then some_digits (tl s) else Some s)"

definition after_exp :: "string \<Rightarrow> string option" where
  "after_exp s =
     (if starts (CHR ''e'') s \<or> starts (CHR ''E'') s
      then some_digits (if starts (CHR ''+'') (tl s) \<or> starts (CHR ''-'') (tl s) then tl (tl s) else tl s)
      else Some s)"

definition json_number :: "string \<Rightarrow> string option" where
  "json_number s =
     Option.bind (after_int (if starts (CHR ''-'') s then tl s else s)) (\<lambda>r. Option.bind (after_frac r) after_exp)"

definition json_literal :: "string \<Rightarrow> string option" where
  "json_literal s =
     (if HasPrefix s ''true'' \<or> HasPrefix s ''null'' then Some (drop 4 s)
      else if HasPrefix s ''false'' then Some (drop 5 s) else None)"

definition maxNestingDepth :: nat where
  "maxNestingDepth = 10000"

text \<open>A value, the members of an object after its brace, the elements of an array after its bracket.\<close>

fun json_value :: "nat \<Rightarrow> nat \<Rightarrow> string \<Rightarrow> string option"
and json_members :: "nat \<Rightarrow> nat \<Rightarrow> string \<Rightarrow> string option"
and json_elements :: "nat \<Rightarrow> nat \<Rightarrow> string \<Rightarrow> string option"
where
  "json_value 0 d s = None"
| "json_value (Suc n) d s =
     (if s = [] then None
      else if hd s = CHR 0x22 then str_tail (tl s)
      else if hd s = CHR ''{''
      then (if d \<ge> maxNestingDepth then None
            else if starts (CHR ''}'') (ws (tl s)) then Some (tl (ws (tl s)))
            else json_members n (d + 1) (ws (tl s)))
      else if hd s = CHR ''[''
      then (if d \<ge> maxNestingDepth then None
            else if starts (CHR '']'') (ws (tl s)) then Some (tl (ws (tl s)))
            else json_elements n (d + 1) (ws (tl s)))
      else if hd s \<in> set ''tfn'' then json_literal s
      else json_number s)"
| "json_members 0 d s = None"
| "json_members (Suc n) d s =
     (if \<not> starts (CHR 0x22) s then None
      else (case str_tail (tl s) of
        None \<Rightarrow> None
      | Some r \<Rightarrow>
          (if \<not> starts (CHR '':'') (ws r) then None
           else (case json_value n d (ws (tl (ws r))) of
             None \<Rightarrow> None
           | Some q \<Rightarrow>
               (if starts (CHR '','') (ws q) then json_members n d (ws (tl (ws q)))
                else if starts (CHR ''}'') (ws q) then Some (tl (ws q)) else None)))))"
| "json_elements 0 d s = None"
| "json_elements (Suc n) d s =
     (case json_value n d s of
        None \<Rightarrow> None
      | Some q \<Rightarrow>
          (if starts (CHR '','') (ws q) then json_elements n d (ws (tl (ws q)))
           else if starts (CHR '']'') (ws q) then Some (tl (ws q)) else None))"

definition json_valid :: "string \<Rightarrow> bool" where
  "json_valid buf = (case json_value (length buf + 1) 0 (ws buf) of None \<Rightarrow> False | Some r \<Rightarrow> ws r = [])"

section \<open>Top\<close>

definition Top :: "string \<Rightarrow> KeySet \<Rightarrow> span list \<Rightarrow> span list \<times> scan_error option" where
  "Top buf keys out =
     (if length out < length (ks_sorted keys) then (out, Some ErrShortOut)
      else (let out0 = clear_slots keys out; i = skipWS buf 0 in
        if length buf > MaxInt32 then (out0, Some ErrTooLarge)
        else if \<not> json_valid buf then (out0, Some ErrInvalid)
        else if i < length buf \<and> buf ! i = CHR ''n'' then (out0, None)
        else walkObject buf keys i out0))"

section \<open>Suffixes of a text\<close>

definition pos :: "string \<Rightarrow> string \<Rightarrow> nat" where
  "pos buf s = length buf - length s"

lemma pos_Cons:
  assumes "suffix (c # t) buf"
  shows "pos buf (c # t) < length buf" "buf ! pos buf (c # t) = c" "pos buf t = Suc (pos buf (c # t))" "suffix t buf"
  using assms by (auto simp: pos_def suffix_def nth_append)

lemma drop_pos: "suffix s buf \<Longrightarrow> drop (pos buf s) buf = s"
  by (auto simp: pos_def suffix_def)

lemma skipWS_pos: "suffix s buf \<Longrightarrow> skipWS buf (pos buf s) = pos buf (ws s)"
  using takeWhile_dropWhile_id [of isWS s] length_append [of "takeWhile isWS s" "dropWhile isWS s"]
  by (auto simp: skipWS_def drop_pos ws_def pos_def suffix_def)

lemma suffix_ws [intro]: "suffix s buf \<Longrightarrow> suffix (ws s) buf"
  by (metis suffix_dropWhile suffix_order.trans ws_def)

lemma suffix_tl [intro]: "suffix s buf \<Longrightarrow> suffix (tl s) buf"
  by (metis suffix_order.trans suffix_tl)

section \<open>A string is stepped over\<close>

definition trailing :: "string \<Rightarrow> nat" where
  "trailing w = length (takeWhile (\<lambda>c. c = CHR 0x5C) (rev w))"

lemma trailing_simps [simp]:
  "trailing [] = 0"
  "trailing (w @ [c]) = (if c = CHR 0x5C then Suc (trailing w) else 0)"
  by (simp_all add: trailing_def)

lemma slashes_trailing:
  "slashes_before (pre @ q # w @ u) (length pre) (Suc (length pre + length w)) = trailing w"
  by (simp add: slashes_before_def trailing_def)

lemma string_end_step:
  assumes "j < length buf" "buf ! j \<noteq> CHR 0x22"
  shows "string_end buf i j = string_end buf i (Suc j)"
proof -
  have d: "drop j buf = buf ! j # drop (Suc j) buf" using assms(1) by (rule Cons_nth_drop_Suc [symmetric])
  have "index_byte (drop j buf) (CHR 0x22) = map_option Suc (index_byte (drop (Suc j) buf) (CHR 0x22))"
    using assms(2) by (simp add: d index_byte_def)
  then show ?thesis
    unfolding string_end.simps [of buf i j] string_end.simps [of buf i "Suc j"]
    by (cases "index_byte (drop (Suc j) buf) (CHR 0x22)") simp_all
qed

lemma string_end_quote:
  assumes "j < length buf" "buf ! j = CHR 0x22"
  shows "string_end buf i j = (if even (slashes_before buf i j) then (j + 1, True) else string_end buf i (Suc j))"
proof -
  have "drop j buf = buf ! j # drop (Suc j) buf" using assms(1) by (rule Cons_nth_drop_Suc [symmetric])
  then have "index_byte (drop j buf) (CHR 0x22) = Some 0"
    using assms(2) by (simp add: index_byte_def)
  then show ?thesis by (subst string_end.simps) simp
qed

text \<open>One byte of the body, as the scan from quote to quote sees it.\<close>

lemma string_end_byte:
  "string_end (pre @ CHR 0x22 # w @ c # u) (length pre) (Suc (length pre + length w)) =
     (if c = CHR 0x22 \<and> even (trailing w) then (Suc (Suc (length pre + length w)), True)
      else string_end (pre @ CHR 0x22 # (w @ [c]) @ u) (length pre) (Suc (length pre + length (w @ [c]))))"
proof -
  let ?buf = "pre @ CHR 0x22 # w @ c # u"
  let ?j = "Suc (length pre + length w)"
  have j: "?j < length ?buf" "?buf ! ?j = c" by (simp_all add: nth_append)
  have t: "slashes_before ?buf (length pre) ?j = trailing w" by (rule slashes_trailing)
  show ?thesis
  proof (cases "c = CHR 0x22")
    case True
    then have "?buf ! ?j = CHR 0x22" using j(2) by simp
    from string_end_quote [OF j(1) this, of "length pre", unfolded t] True show ?thesis by simp
  next
    case False
    then have "?buf ! ?j \<noteq> CHR 0x22" using j(2) by simp
    from string_end_step [OF j(1) this, of "length pre"] False show ?thesis by simp
  qed
qed

definition closes_at :: "string \<Rightarrow> string \<Rightarrow> string \<Rightarrow> string \<Rightarrow> bool" where
  "closes_at pre w u r \<longleftrightarrow>
     string_end (pre @ CHR 0x22 # w @ u) (length pre) (Suc (length pre + length w)) =
       (length (pre @ CHR 0x22 # w @ u) - length r, True) \<and> length r < length u \<and> suffix r u"

lemma closes_quote: "even (trailing w) \<Longrightarrow> closes_at pre w (CHR 0x22 # r) r"
  by (simp add: closes_at_def string_end_byte suffix_ConsI)

lemma closes_byte:
  "closes_at pre (w @ [c]) u r \<Longrightarrow> c \<noteq> CHR 0x22 \<or> odd (trailing w) \<Longrightarrow> closes_at pre w (c # u) r"
  by (auto simp: closes_at_def string_end_byte suffix_ConsI)

lemma closes_bytes:
  "closes_at pre (w @ x) u r \<Longrightarrow> CHR 0x22 \<notin> set x \<Longrightarrow> closes_at pre w (x @ u) r"
  by (induction x arbitrary: w) (auto intro: closes_byte)

lemma hex_not_quote: "hex_digit c \<noteq> None \<Longrightarrow> c \<noteq> CHR 0x22 \<and> c \<noteq> CHR 0x5C"
  by (auto simp: hex_digit_def)

lemma trailing_hex: "x \<noteq> [] \<Longrightarrow> CHR 0x5C \<noteq> last x \<Longrightarrow> trailing (w @ x) = 0"
  by (cases x rule: rev_cases) (simp_all add: trailing_def)

lemma str_tail_cases:
  assumes "str_tail u = Some r"
  obtains (quote) "u = CHR 0x22 # r"
  | (byte) c t where "u = c # t" "c \<noteq> CHR 0x22" "c \<noteq> CHR 0x5C" "str_tail t = Some r"
  | (escape) e v where "u = CHR 0x5C # e # v" "str_tail v = Some r"
  | (hex) v where "u = CHR 0x5C # CHR ''u'' # v" "4 \<le> length v"
      "list_all (\<lambda>c. hex_digit c \<noteq> None) (take 4 v)" "str_tail (drop 4 v) = Some r"
proof -
  note run = assms [unfolded str_tail.simps [of u]]
  from run obtain c t where u: "u = c # t" by (cases u) auto
  consider "c = CHR 0x22" | "c = CHR 0x5C" | "c \<noteq> CHR 0x22" "c \<noteq> CHR 0x5C" by blast
  then show ?thesis
  proof cases
    case 1
    with run show ?thesis by (intro quote) (simp add: u)
  next
    case 2
    then obtain e v where t: "t = e # v" using run by (cases t) (simp_all add: u)
    show ?thesis
    proof (cases "e \<in> set ''bfnrt/'' \<or> e = CHR 0x5C \<or> e = CHR 0x22")
      case True
      then have "str_tail v = Some r" using run 2 by (simp only: u t list.sel list.distinct simp_thms if_True if_False) simp
      then show ?thesis using 2 by (intro escape) (simp_all add: u t)
    next
      case False
      then have "e = CHR ''u'' \<and> 4 \<le> length v \<and> list_all (\<lambda>c. hex_digit c \<noteq> None) (take 4 v) \<and>
          str_tail (drop 4 v) = Some r"
        using run 2 by (simp only: u t list.sel list.distinct simp_thms if_True if_False) (simp split: if_split_asm)
      then show ?thesis using 2 by (intro hex [of v]) (simp_all add: u t)
    qed
  next
    case 3
    with run have "str_tail t = Some r" by (simp add: u split: if_split_asm)
    then show ?thesis using 3 by (intro byte [of c t]) (simp_all add: u)
  qed
qed

lemma str_tail_closes:
  "str_tail u = Some r \<Longrightarrow> even (trailing w) \<Longrightarrow> closes_at pre w u r"
proof (induction "length u" arbitrary: u w rule: less_induct)
  case less
  from less.prems(1) show ?case
  proof (cases rule: str_tail_cases)
    case quote
    with less.prems(2) show ?thesis by (simp add: closes_quote)
  next
    case (byte c t)
    have "even (trailing (w @ [c]))" using byte by simp
    then have "closes_at pre (w @ [c]) t r" using less.hyps byte by simp
    then show ?thesis using byte by (simp add: closes_byte)
  next
    case (escape e v)
    have odd: "odd (trailing (w @ [CHR 0x5C]))" using less.prems(2) by simp
    then have "even (trailing ((w @ [CHR 0x5C]) @ [e]))" unfolding trailing_simps(2) [of "w @ [CHR 0x5C]"] by simp
    then have "closes_at pre ((w @ [CHR 0x5C]) @ [e]) v r" using escape by (intro less.hyps) simp_all
    then have "closes_at pre (w @ [CHR 0x5C]) (e # v) r" using odd by (intro closes_byte) simp_all
    then show ?thesis using escape by (simp add: closes_byte)
  next
    case (hex v)
    let ?x = "CHR ''u'' # take 4 v"
    have digits: "c \<noteq> CHR 0x22 \<and> c \<noteq> CHR 0x5C" if "c \<in> set (take 4 v)" for c
      using hex(3) that hex_not_quote [of c] unfolding list_all_iff by blast
    have q: "CHR 0x22 \<notin> set ?x" using digits by auto
    have ne: "take 4 v \<noteq> []" using hex(2) by auto
    have "last (take 4 v) \<noteq> CHR 0x5C" using digits [OF last_in_set [OF ne]] by simp
    then have l: "CHR 0x5C \<noteq> last ?x" using ne by auto
    have "even (trailing ((w @ [CHR 0x5C]) @ ?x))" using trailing_hex [OF _ l, of "w @ [CHR 0x5C]"] by simp
    then have "closes_at pre ((w @ [CHR 0x5C]) @ ?x) (drop 4 v) r"
      using hex by (intro less.hyps) simp_all
    from closes_bytes [OF this q] have "closes_at pre (w @ [CHR 0x5C]) (CHR ''u'' # v) r" by simp
    then show ?thesis using hex by (simp add: closes_byte)
  qed
qed

lemma skipString_tail:
  assumes "suffix (CHR 0x22 # u) buf" "str_tail u = Some r"
  shows "skipString buf (pos buf (CHR 0x22 # u)) = (pos buf r, True)" "length r < length u" "suffix r u"
proof -
  obtain pre where buf: "buf = pre @ CHR 0x22 # u" using assms(1) by (auto simp: suffix_def)
  have "closes_at pre [] u r" by (rule str_tail_closes [OF assms(2)]) simp
  then show "skipString buf (pos buf (CHR 0x22 # u)) = (pos buf r, True)" "length r < length u" "suffix r u"
    by (auto simp: closes_at_def skipString_def buf pos_def)
qed

section \<open>A value is stepped over\<close>

text \<open>Text with no quote and no bracket.\<close>

definition flat :: "string \<Rightarrow> bool" where
  "flat x \<longleftrightarrow> list_all (\<lambda>c. c \<notin> set ''{}[]'' \<and> c \<noteq> CHR 0x22) x"

lemma nested_at:
  assumes "suffix (c # t) buf"
  shows "skip_nested buf (pos buf (c # t)) depth =
     (if c = CHR 0x22
      then (if snd (skipString buf (pos buf (c # t)))
            then skip_nested buf (fst (skipString buf (pos buf (c # t)))) depth else (length buf, False))
      else if c = CHR ''{'' \<or> c = CHR ''['' then skip_nested buf (pos buf t) (depth + 1)
      else if c = CHR ''}'' \<or> c = CHR '']''
      then (if depth = 1 then (pos buf t, True) else skip_nested buf (pos buf t) (depth - 1))
      else skip_nested buf (pos buf t) depth)"
  using pos_Cons [OF assms] by (subst skip_nested.simps) simp

lemma nested_flat: "suffix (x @ t) buf \<Longrightarrow> flat x \<Longrightarrow> skip_nested buf (pos buf (x @ t)) depth = skip_nested buf (pos buf t) depth"
proof (induction x)
  case (Cons c x)
  then have "suffix (x @ t) buf" using pos_Cons(4) by fastforce
  with Cons show ?case by (simp add: nested_at flat_def)
qed simp

lemma flat_takeWhile: "(\<And>c. P c \<Longrightarrow> c \<notin> set ''{}[]'' \<and> c \<noteq> CHR 0x22) \<Longrightarrow> flat (takeWhile P s)"
  by (auto simp: flat_def list_all_iff dest: set_takeWhileD)

lemma nested_ws:
  assumes "suffix s buf"
  shows "skip_nested buf (pos buf (ws s)) depth = skip_nested buf (pos buf s) depth"
proof -
  have "flat (takeWhile isWS s)" by (rule flat_takeWhile) (auto simp: isWS_def)
  with assms show ?thesis
    using nested_flat [of "takeWhile isWS s" "ws s" buf depth] by (simp add: ws_def)
qed

text \<open>What a scalar takes has no quote, no bracket and no end of a scalar.\<close>

definition scalar_step :: "string \<Rightarrow> string \<Rightarrow> bool" where
  "scalar_step s r \<longleftrightarrow> (\<exists>x. s = x @ r \<and> list_all (\<lambda>c. \<not> ends_scalar c \<and> c \<notin> set ''{}[]'' \<and> c \<noteq> CHR 0x22) x)"

lemma scalar_refl [intro]: "scalar_step s s"
  by (simp add: scalar_step_def)

lemma scalar_trans: "scalar_step a b \<Longrightarrow> scalar_step b c \<Longrightarrow> scalar_step a c"
  by (force simp: scalar_step_def)

lemma scalar_tl:
  assumes "starts c s" "\<not> ends_scalar c \<and> c \<notin> set ''{}[]'' \<and> c \<noteq> CHR 0x22"
  shows "scalar_step s (tl s)"
  using assms by (cases s) (auto simp: starts_def scalar_step_def)

lemma digit_scalar: "is_digit c \<Longrightarrow> \<not> ends_scalar c \<and> c \<notin> set ''{}[]'' \<and> c \<noteq> CHR 0x22"
  by (auto simp: is_digit_def ends_scalar_def isWS_def)

lemma some_digits_scalar: "some_digits s = Some r \<Longrightarrow> scalar_step s r"
  unfolding some_digits_def scalar_step_def
  by (rule exI [of _ "takeWhile is_digit s"])
    (auto simp: list_all_iff split: if_splits dest!: set_takeWhileD digit_scalar)

lemma number_scalar:
  assumes "json_number s = Some r"
  shows "scalar_step s r"
proof -
  let ?s = "if starts (CHR ''-'') s then tl s else s"
  have minus: "scalar_step s ?s"
    using scalar_tl [of "CHR ''-''" s] by (auto simp: ends_scalar_def isWS_def)
  from assms obtain a b where a: "after_int ?s = Some a" and b: "after_frac a = Some b" and r: "after_exp b = Some r"
    by (auto simp: json_number_def bind_eq_Some_conv)
  have "scalar_step ?s a"
    using a scalar_tl [of "CHR ''0''" ?s] some_digits_scalar
    by (auto simp: after_int_def ends_scalar_def isWS_def split: if_split_asm)
  moreover have "scalar_step a b"
  proof (cases "starts (CHR ''.'') a")
    case True
    then have "scalar_step a (tl a)" by (rule scalar_tl) (simp add: ends_scalar_def isWS_def)
    moreover have "scalar_step (tl a) b" using b True by (simp add: after_frac_def some_digits_scalar)
    ultimately show ?thesis by (rule scalar_trans)
  qed (use b in \<open>auto simp: after_frac_def\<close>)
  moreover have "scalar_step b r"
  proof (cases "starts (CHR ''e'') b \<or> starts (CHR ''E'') b")
    case True
    let ?t = "if starts (CHR ''+'') (tl b) \<or> starts (CHR ''-'') (tl b) then tl (tl b) else tl b"
    have "scalar_step b (tl b)"
      using True scalar_tl [of "CHR ''e''" b] scalar_tl [of "CHR ''E''" b] by (auto simp: ends_scalar_def isWS_def)
    moreover have "scalar_step (tl b) ?t"
      using scalar_tl [of "CHR ''+''" "tl b"] scalar_tl [of "CHR ''-''" "tl b"]
      by (auto simp: ends_scalar_def isWS_def)
    moreover have "scalar_step ?t r" using r True by (simp add: after_exp_def some_digits_scalar)
    ultimately show ?thesis by (blast intro: scalar_trans)
  qed (use r in \<open>auto simp: after_exp_def\<close>)
  ultimately show ?thesis using minus by (blast intro: scalar_trans)
qed

lemma literal_scalar: "json_literal s = Some r \<Longrightarrow> scalar_step s r"
proof -
  have word: "scalar_step s (drop (length w) s)"
    if "HasPrefix s w" "list_all (\<lambda>c. \<not> ends_scalar c \<and> c \<notin> set ''{}[]'' \<and> c \<noteq> CHR 0x22) w" for w
    using that by (auto simp: scalar_step_def HasPrefix_def intro!: exI [of _ w] split: if_splits)
      (metis append_take_drop_id)
  show "json_literal s = Some r \<Longrightarrow> scalar_step s r"
    using word [of "''true''"] word [of "''null''"] word [of "''false''"]
    by (auto simp: json_literal_def ends_scalar_def isWS_def eval_nat_numeral split: if_splits)
qed

lemma scalar_len: "scalar_step s r \<Longrightarrow> length r \<le> length s"
  by (auto simp: scalar_step_def)

lemma some_digits_len: "some_digits s = Some r \<Longrightarrow> length r < length s \<and> is_digit (hd s)"
  by (cases s) (auto simp: some_digits_def le_imp_less_Suc length_dropWhile_le split: if_splits)

lemma after_int_len: "after_int s = Some r \<Longrightarrow> s \<noteq> [] \<and> length r < length s \<and> is_digit (hd s)"
  using some_digits_len [of s r] by (cases s) (auto simp: after_int_def starts_def is_digit_def split: if_splits)

lemma number_starts:
  assumes "json_number s = Some r"
  shows "s \<noteq> []" "length r < length s" "hd s = CHR ''-'' \<or> is_digit (hd s)"
proof -
  let ?s = "if starts (CHR ''-'') s then tl s else s"
  from assms obtain a b where a: "after_int ?s = Some a" and b: "after_frac a = Some b" and r: "after_exp b = Some r"
    by (auto simp: json_number_def bind_eq_Some_conv)
  have first: "length a < length ?s \<and> is_digit (hd ?s)"
    using after_int_len [OF a] by blast
  have "length b \<le> length a"
    using b some_digits_len [of "tl a" b] by (auto simp: after_frac_def split: if_split_asm)
  moreover have "length r \<le> length b"
    using r some_digits_len [of _ r] by (fastforce simp: after_exp_def split: if_split_asm)
  ultimately show "s \<noteq> []" "length r < length s" "hd s = CHR ''-'' \<or> is_digit (hd s)"
    using first after_int_len [OF a] by (auto simp: starts_def split: if_split_asm)
qed

definition stepped :: "string \<Rightarrow> string \<Rightarrow> string \<Rightarrow> bool" where
  "stepped buf s r \<longleftrightarrow>
     s \<noteq> [] \<and> kindOf (hd s) \<noteq> KAbsent \<and> suffix r s \<and> length r < length s \<and>
     (\<forall>depth \<ge> 1. skip_nested buf (pos buf s) depth = skip_nested buf (pos buf r) depth) \<and>
     (r = [] \<or> ends_scalar (hd r) \<longrightarrow> skipValue buf (pos buf s) = (pos buf r, True))"

definition leaves :: "string \<Rightarrow> string \<Rightarrow> string \<Rightarrow> bool" where
  "leaves buf s r \<longleftrightarrow>
     suffix r s \<and> length r < length s \<and>
     (\<forall>depth \<ge> 1. skip_nested buf (pos buf s) depth =
        (if depth = 1 then (pos buf r, True) else skip_nested buf (pos buf r) (depth - 1)))"

lemma scalar_skipped:
  assumes s: "suffix s buf" "s = x @ r" "x \<noteq> []" "r = [] \<or> ends_scalar (hd r)"
    and x: "list_all (\<lambda>c. \<not> ends_scalar c \<and> c \<notin> set ''{}[]'' \<and> c \<noteq> CHR 0x22) x"
  shows "skipValue buf (pos buf s) = (pos buf r, True)"
proof -
  obtain c y where cy: "x = c # y" using s(3) by (cases x) auto
  have at: "buf ! pos buf s = c" using pos_Cons(2) [of c "y @ r" buf] s(1,2) cy by simp
  have not: "c \<noteq> CHR 0x22" "c \<noteq> CHR ''{''" "c \<noteq> CHR ''[''" using x by (auto simp: cy)
  have "takeWhile (\<lambda>c. \<not> ends_scalar c) (x @ r) = x @ takeWhile (\<lambda>c. \<not> ends_scalar c) r"
    using x by (intro takeWhile_append2) (auto simp: list_all_iff)
  also have "takeWhile (\<lambda>c. \<not> ends_scalar c) r = []" using s(4) by (cases r) auto
  finally have take: "takeWhile (\<lambda>c. \<not> ends_scalar c) (drop (pos buf s) buf) = x"
    using drop_pos [OF s(1)] s(2) by simp
  have "pos buf s + length x = pos buf r"
    using suffix_length_le [OF s(1)] s(2) by (simp add: pos_def)
  moreover from this have "pos buf s < pos buf r" using s(3) by (cases x) auto
  ultimately show ?thesis using at not take by (simp add: skipValue_def Let_def)
qed

lemma scalar_stepped:
  assumes "suffix s buf" "scalar_step s r" "s \<noteq> []" "length r < length s" "kindOf (hd s) \<noteq> KAbsent"
  shows "stepped buf s r"
proof -
  obtain x where x: "s = x @ r" "list_all (\<lambda>c. \<not> ends_scalar c \<and> c \<notin> set ''{}[]'' \<and> c \<noteq> CHR 0x22) x"
    using assms(2) by (auto simp: scalar_step_def)
  have ne: "x \<noteq> []" using x(1) assms(4) by auto
  have flat: "flat x" using x(2) by (auto simp: flat_def list_all_iff)
  have "skip_nested buf (pos buf s) depth = skip_nested buf (pos buf r) depth" for depth
    using nested_flat [of x r buf depth] flat assms(1) x(1) by simp
  moreover have "r = [] \<or> ends_scalar (hd r) \<Longrightarrow> skipValue buf (pos buf s) = (pos buf r, True)"
    using scalar_skipped [OF assms(1) x(1) ne _ x(2)] by blast
  ultimately show ?thesis using x(1) assms(3-5) by (auto simp: stepped_def suffix_def)
qed

lemma nested_string:
  assumes "suffix (CHR 0x22 # u) buf" "str_tail u = Some r"
  shows "skip_nested buf (pos buf (CHR 0x22 # u)) depth = skip_nested buf (pos buf r) depth"
  using skipString_tail [OF assms] by (simp add: nested_at [OF assms(1)])

lemma string_stepped:
  assumes "suffix (CHR 0x22 # u) buf" "str_tail u = Some r"
  shows "stepped buf (CHR 0x22 # u) r"
  using skipString_tail [OF assms] nested_string [OF assms] pos_Cons(2) [OF assms(1)]
  by (auto simp: stepped_def kindOf_def skipValue_def suffix_ConsI)

text \<open>A bracket opened, what stands in it left at its closing bracket.\<close>

lemma bracket_stepped:
  assumes "suffix (c # t) buf" "c = CHR ''{'' \<or> c = CHR ''[''" "leaves buf (ws t) r"
  shows "stepped buf (c # t) r"
proof -
  have t: "suffix t buf" using pos_Cons(4) [OF assms(1)] .
  have open_: "skip_nested buf (pos buf (c # t)) depth = skip_nested buf (pos buf (ws t)) (depth + 1)" for depth
    using assms(2) by (auto simp: nested_at [OF assms(1)] nested_ws [OF t])
  have at: "buf ! pos buf (c # t) = c" by (rule pos_Cons(2) [OF assms(1)])
  have "suffix (ws t) t" by (auto simp: ws_def intro: suffix_dropWhile)
  then have "suffix r t" "length r < length (c # t)"
    using assms(3) suffix_length_le [of "ws t" t] by (auto simp: leaves_def intro: suffix_order.trans)
  moreover have "skip_nested buf (pos buf (c # t)) 0 = (pos buf r, True)"
    using assms(3) by (simp add: leaves_def open_)
  moreover have "skip_nested buf (pos buf (c # t)) depth = skip_nested buf (pos buf r) depth" if "depth \<ge> 1" for depth
    using assms(3) that by (simp add: leaves_def open_)
  ultimately show ?thesis
    using assms(2) at by (auto simp: stepped_def kindOf_def skipValue_def suffix_ConsI)
qed

lemma close_leaves:
  assumes "suffix s buf" "starts c s" "c = CHR ''}'' \<or> c = CHR '']''"
  shows "leaves buf s (tl s)"
proof -
  obtain t where "s = c # t" using assms(2) by (cases s) (auto simp: starts_def)
  then show ?thesis
    using assms(3) nested_at [of c t buf] assms(1) by (auto simp: leaves_def suffix_ConsI)
qed

text \<open>A stretch that keeps the depth, before what closes the bracket.\<close>

lemma leaves_after:
  assumes "leaves buf q r" "suffix q s" "suffix s buf"
    and "\<And>depth. depth \<ge> 1 \<Longrightarrow> skip_nested buf (pos buf s) depth = skip_nested buf (pos buf q) depth"
  shows "leaves buf s r"
  using assms suffix_length_le [OF assms(2)] by (auto simp: leaves_def intro: suffix_order.trans)

lemma nested_tl:
  assumes "starts c s" "suffix s buf" "c \<notin> set ''{}[]''" "c \<noteq> CHR 0x22"
  shows "skip_nested buf (pos buf (tl s)) depth = skip_nested buf (pos buf s) depth"
proof -
  obtain t where "s = c # t" using assms(1) by (cases s) (auto simp: starts_def)
  then show ?thesis using assms nested_at [of c t buf depth] by simp
qed

lemma nested_steps_on:
  "suffix q buf \<Longrightarrow> starts (CHR '','') (ws q) \<Longrightarrow>
     skip_nested buf (pos buf (ws (tl (ws q)))) depth = skip_nested buf (pos buf q) depth"
  by (simp add: nested_ws nested_tl suffix_ws suffix_tl)

lemma suffix_ws_self [intro]: "suffix (ws s) s"
  by (auto simp: ws_def intro: suffix_dropWhile)

lemma suffix_tl_self [intro]: "suffix (tl s) s"
  by (simp add: suffix_def) (metis append_Cons append_Nil list.collapse list.sel(2))

definition carries :: "string \<Rightarrow> string \<Rightarrow> string \<Rightarrow> bool" where
  "carries buf s q \<longleftrightarrow>
     suffix q s \<and> (\<forall>depth \<ge> 1. skip_nested buf (pos buf s) depth = skip_nested buf (pos buf q) depth)"

lemma stepped_carries: "stepped buf s q \<Longrightarrow> carries buf s q"
  by (simp add: stepped_def carries_def)

lemma member_carries:
  assumes "suffix s buf" "starts (CHR 0x22) s" "str_tail (tl s) = Some r" "starts (CHR '':'') (ws r)"
    and "stepped buf (ws (tl (ws r))) q"
  shows "carries buf s q"
proof -
  obtain u where s: "s = CHR 0x22 # u" using assms(2) by (cases s) (auto simp: starts_def)
  have r: "suffix r buf" "suffix r s"
    using skipString_tail(3) [of u buf r] assms(1,3) by (auto simp: s suffix_ConsI suffix_ConsD intro: suffix_order.trans)
  have v: "suffix (ws (tl (ws r))) r"
    by (meson suffix_order.trans suffix_tl_self suffix_ws_self)
  have "skip_nested buf (pos buf s) depth = skip_nested buf (pos buf (ws (tl (ws r)))) depth" for depth
    using nested_string [of u buf r depth] assms(1,3,4) r(1)
    by (simp add: s nested_ws nested_tl suffix_ws suffix_tl)
  then show ?thesis
    using assms(5) r(2) v by (auto simp: carries_def stepped_def intro: suffix_order.trans)
qed

lemma leaves_carried: "leaves buf q r \<Longrightarrow> carries buf s q \<Longrightarrow> leaves buf s r"
  using suffix_length_le [of q s] by (auto simp: leaves_def carries_def intro: suffix_order.trans)

lemma carries_trans: "carries buf a b \<Longrightarrow> carries buf b c \<Longrightarrow> carries buf a c"
  by (auto simp: carries_def intro: suffix_order.trans)

lemma carries_ws: "suffix s buf \<Longrightarrow> carries buf s (ws s)"
  by (auto simp: carries_def nested_ws)

lemma carries_comma: "suffix q buf \<Longrightarrow> starts (CHR '','') (ws q) \<Longrightarrow> carries buf q (ws (tl (ws q)))"
  unfolding carries_def by (simp add: nested_steps_on) (meson suffix_order.trans suffix_tl_self suffix_ws_self)

lemma carries_suffix: "carries buf s q \<Longrightarrow> suffix s buf \<Longrightarrow> suffix q buf"
  by (auto simp: carries_def intro: suffix_order.trans)

text \<open>After a member or an element: the next one, or the bracket that closes.\<close>

lemma rest_leaves:
  assumes "carries buf s q" "suffix s buf"
    and "if starts (CHR '','') (ws q) then leaves buf (ws (tl (ws q))) r
         else (starts (CHR ''}'') (ws q) \<or> starts (CHR '']'') (ws q)) \<and> r = tl (ws q)"
  shows "leaves buf s r"
proof -
  have q: "suffix q buf" by (rule carries_suffix [OF assms(1,2)])
  show ?thesis
  proof (cases "starts (CHR '','') (ws q)")
    case True
    then show ?thesis
      using assms(3) carries_comma [OF q] leaves_carried carries_trans [OF assms(1)] by auto
  next
    case False
    then have "leaves buf (ws q) r"
      using assms(3) close_leaves [of "ws q" buf] q by auto
    then show ?thesis
      using carries_trans [OF assms(1) carries_ws [OF q]] leaves_carried by blast
  qed
qed

lemma kindOf_number: "c = CHR ''-'' \<or> is_digit c \<Longrightarrow> kindOf c \<noteq> KAbsent"
  by (auto simp: kindOf_def is_digit_def)

lemma literal_starts:
  assumes "json_literal s = Some r"
  shows "s \<noteq> []" "length r < length s" "kindOf (hd s) \<noteq> KAbsent"
  using assms by (cases s; auto simp: json_literal_def HasPrefix_def kindOf_def split: if_splits)+

lemma json_reads:
  "json_value n d s = Some r \<Longrightarrow> suffix s buf \<Longrightarrow> stepped buf s r"
  "json_members n d s = Some r \<Longrightarrow> suffix s buf \<Longrightarrow> leaves buf s r"
  "json_elements n d s = Some r \<Longrightarrow> suffix s buf \<Longrightarrow> leaves buf s r"
proof (induction n d s and n d s and n d s arbitrary: r and r and r rule: json_value_json_members_json_elements.induct)
  case (2 n d s)
  obtain c t where s: "s = c # t" using "2.prems" by (cases s) auto
  have t: "suffix t buf" "suffix (ws t) buf" using "2.prems"(2) pos_Cons(4) by (auto simp: s)
  note run = "2.prems"(1) [unfolded json_value.simps s list.sel]
  consider (str) "c = CHR 0x22" | (obj) "c = CHR ''{''" | (arr) "c = CHR ''[''"
    | (lit) "c \<in> set ''tfn''" | (num) "c \<notin> set ''tfn''" "c \<noteq> CHR 0x22" "c \<noteq> CHR ''{''" "c \<noteq> CHR ''[''" by blast
  then show ?case
  proof cases
    case str
    with run "2.prems"(2) show ?thesis by (simp add: s string_stepped)
  next
    case obj
    have "leaves buf (ws t) r"
      using run obj "2.IH"(1) t close_leaves [OF t(2), of "CHR ''}''"] by (auto simp: s split: if_split_asm)
    then show ?thesis using bracket_stepped [of c t buf r] "2.prems"(2) obj by (simp add: s)
  next
    case arr
    have "leaves buf (ws t) r"
      using run arr "2.IH"(2) t close_leaves [OF t(2), of "CHR '']''"] by (auto simp: s split: if_split_asm)
    then show ?thesis using bracket_stepped [of c t buf r] "2.prems"(2) arr by (simp add: s)
  next
    case lit
    then have l: "json_literal (c # t) = Some r" using run by (auto split: if_split_asm)
    then show ?thesis
      unfolding s by (intro scalar_stepped literal_scalar literal_starts) (use "2.prems"(2) s in auto)
  next
    case num
    then have l: "json_number (c # t) = Some r" using run by simp
    then show ?thesis
      unfolding s using number_starts [OF l] kindOf_number
      by (intro scalar_stepped number_scalar) (use "2.prems"(2) s in auto)
  qed
next
  case (4 n d s)
  note run = "4.prems"(1) [unfolded json_members.simps]
  from run obtain r1 q where m: "starts (CHR 0x22) s" "str_tail (tl s) = Some r1" "starts (CHR '':'') (ws r1)"
    and v: "json_value n d (ws (tl (ws r1))) = Some q"
    by (auto split: if_split_asm option.splits)
  have r1: "suffix r1 buf"
    using skipString_tail(3) [of "tl s" buf r1] m "4.prems"(2)
    by (cases s) (auto simp: starts_def suffix_ConsD intro: suffix_order.trans)
  then have "stepped buf (ws (tl (ws r1))) q"
    using "4.IH"(1) m v by (simp add: suffix_ws suffix_tl)
  note carried = member_carries [OF "4.prems"(2) m this]
  have q: "suffix q buf" by (rule carries_suffix [OF carried "4.prems"(2)])
  show ?case
  proof (rule rest_leaves [OF carried "4.prems"(2)])
    show "if starts (CHR '','') (ws q) then leaves buf (ws (tl (ws q))) r
         else (starts (CHR ''}'') (ws q) \<or> starts (CHR '']'') (ws q)) \<and> r = tl (ws q)"
      using run m v q "4.IH"(2) [OF _ m(2) _ v] by (auto simp: suffix_ws suffix_tl split: if_split_asm)
  qed
next
  case (6 n d s)
  note run = "6.prems"(1) [unfolded json_elements.simps]
  from run obtain q where v: "json_value n d s = Some q" by (auto split: option.splits)
  note carried = stepped_carries [OF "6.IH"(1) [OF v "6.prems"(2)]]
  have q: "suffix q buf" by (rule carries_suffix [OF carried "6.prems"(2)])
  show ?case
  proof (rule rest_leaves [OF carried "6.prems"(2)])
    show "if starts (CHR '','') (ws q) then leaves buf (ws (tl (ws q))) r
         else (starts (CHR ''}'') (ws q) \<or> starts (CHR '']'') (ws q)) \<and> r = tl (ws q)"
      using run v q "6.IH"(2) [OF v] by (auto simp: suffix_ws suffix_tl split: if_split_asm)
  qed
qed auto

section \<open>The members of an object\<close>

text \<open>Each member's key as it stands between its quotes, and where its value is.\<close>

fun json_fields :: "nat \<Rightarrow> nat \<Rightarrow> string \<Rightarrow> string \<Rightarrow> (string \<times> span) list" where
  "json_fields 0 d buf s = []"
| "json_fields (Suc n) d buf s =
     (case str_tail (tl s) of
        None \<Rightarrow> []
      | Some r \<Rightarrow>
          (let v = ws (tl (ws r)) in
           case json_value n d v of
             None \<Rightarrow> []
           | Some q \<Rightarrow>
               (take (length (tl s) - length r - 1) (tl s),
                \<lparr>sp_off = pos buf v, sp_len = length v - length q, sp_kind = kindOf (hd v)\<rparr>) #
               (if starts (CHR '','') (ws q) then json_fields n d buf (ws (tl (ws q))) else [])))"

definition object_fields :: "string \<Rightarrow> (string \<times> span) list" where
  "object_fields buf =
     (if starts (CHR ''{'') (ws buf) \<and> \<not> starts (CHR ''}'') (ws (tl (ws buf)))
      then json_fields (length buf) 1 buf (ws (tl (ws buf))) else [])"

definition store_field :: "KeySet \<Rightarrow> span list \<Rightarrow> string \<times> span \<Rightarrow> span list" where
  "store_field keys out f = (case ks_lookup keys (fst f) of None \<Rightarrow> out | Some i \<Rightarrow> out[i := snd f])"

lemma pos_le: "suffix s buf \<Longrightarrow> pos buf s \<le> length buf"
  by (simp add: pos_def)

lemma at_pos: "suffix s buf \<Longrightarrow> pos buf s < length buf \<longleftrightarrow> s \<noteq> []" "suffix s buf \<Longrightarrow> s \<noteq> [] \<Longrightarrow> buf ! pos buf s = hd s"
  by (cases s; auto dest: pos_Cons suffix_length_le simp: pos_def)+

lemma pos_tl: "suffix s buf \<Longrightarrow> s \<noteq> [] \<Longrightarrow> pos buf (tl s) = Suc (pos buf s)"
  by (cases s) (auto dest: pos_Cons)

lemma starts_at: "suffix s buf \<Longrightarrow> starts c s \<longleftrightarrow> pos buf s < length buf \<and> buf ! pos buf s = c"
  by (auto simp: starts_def at_pos)

lemma skipWS_tl: "suffix s buf \<Longrightarrow> s \<noteq> [] \<Longrightarrow> skipWS buf (Suc (pos buf s)) = pos buf (ws (tl s))"
  by (simp flip: pos_tl add: skipWS_pos suffix_tl)

lemma member_walk:
  assumes s: "suffix s buf" "starts (CHR 0x22) s" "str_tail (tl s) = Some r" "starts (CHR '':'') (ws r)"
    and v: "stepped buf v q" "v = ws (tl (ws r))" and q: "starts (CHR '','') (ws q) \<or> starts (CHR ''}'') (ws q)"
  shows "walk_members buf keys (pos buf s) out =
     (let out1 = store_field keys out
            (take (length (tl s) - length r - 1) (tl s),
             \<lparr>sp_off = pos buf v, sp_len = length v - length q, sp_kind = kindOf (hd v)\<rparr>)
      in if starts (CHR '','') (ws q) then walk_members buf keys (pos buf (ws (tl (ws q)))) out1 else (out1, None))"
proof -
  obtain u where su: "s = CHR 0x22 # u" using s(2) by (cases s) (auto simp: starts_def)
  have str: "skipString buf (pos buf s) = (pos buf r, True)" "length r < length u" "suffix r u"
    using skipString_tail [of u buf r] s(1,3) by (simp_all add: su)
  have r: "suffix r buf" "suffix (ws r) buf"
    using str(3) pos_Cons(4) [of "CHR 0x22" u buf] s(1) by (auto simp: su intro: suffix_order.trans)
  have colon: "skipWS buf (pos buf r) = pos buf (ws r)" "pos buf (ws r) < length buf"
    "buf ! pos buf (ws r) = CHR '':''" "skipWS buf (pos buf (ws r) + 1) = pos buf v"
    using s(4) r skipWS_pos [OF r(1)] starts_at [OF r(2)] skipWS_tl [OF r(2)] v(2) by (auto simp: starts_def)
  have vb: "suffix v buf" using r v(2) by auto
  have "suffix q buf" using vb v(1) by (auto simp: stepped_def intro: suffix_order.trans)
  then have qb: "suffix q buf" "suffix (ws q) buf" by auto
  have val: "skipValue buf (pos buf v) = (pos buf q, True)" "v \<noteq> []" "kindOf (hd v) \<noteq> KAbsent" "length q < length v"
    using v(1) q unfolding stepped_def
    by (auto simp: starts_def ws_def ends_scalar_def hd_dropWhile) (cases q; auto split: if_splits)+
  have key: "take (pos buf r - 1 - (pos buf s + 1)) (drop (pos buf s + 1) buf) =
      take (length (tl s) - length r - 1) (tl s)"
  proof -
    have "pos buf r - 1 - (pos buf s + 1) = length (tl s) - length r - 1"
      using suffix_length_le [OF r(1)] suffix_length_le [OF s(1)] str(2) by (simp add: pos_def su)
    moreover have "drop (pos buf s + 1) buf = tl s"
      using drop_pos [of u buf] pos_Cons(3,4) [of "CHR 0x22" u buf] s(1) by (simp add: su)
    ultimately show ?thesis by simp
  qed
  have len: "pos buf q - pos buf v = length v - length q"
    using suffix_length_le [OF vb] val(4) by (simp add: pos_def)
  have after: "skipWS buf (pos buf q) = pos buf (ws q)" "pos buf (ws q) < length buf"
    using skipWS_pos [OF qb(1)] at_pos(1) [OF qb(2)] q by (auto simp: starts_def)
  have vat: "pos buf v < length buf" "buf ! pos buf v = hd v" using at_pos [OF vb] val(2) by auto
  have sat: "pos buf s < length buf" "buf ! pos buf s = CHR 0x22" using starts_at [OF s(1)] s(2) by auto
  have next_: "skipWS buf (pos buf (ws q) + 1) = pos buf (ws (tl (ws q)))"
    using skipWS_tl [OF qb(2)] q by (auto simp: starts_def)
  have comma: "buf ! pos buf (ws q) = CHR '','' \<longleftrightarrow> starts (CHR '','') (ws q)"
    "buf ! pos buf (ws q) = CHR ''}'' \<longleftrightarrow> starts (CHR ''}'') (ws q)"
    using starts_at [OF qb(2)] after(2) by auto
  show ?thesis
    unfolding walk_members.simps [of buf keys "pos buf s" out] Let_def str(1) fst_conv snd_conv colon(1,4) val(1) after(1)
      key len vat(2) next_ comma store_field_def sat(2) colon(3)
    using q sat(1) colon(2) vat(1) val(3) after(2) by auto
qed

lemma members_shape:
  assumes "json_members n d s = Some r'"
  obtains m r q where "n = Suc m" "starts (CHR 0x22) s" "str_tail (tl s) = Some r" "starts (CHR '':'') (ws r)"
    "json_value m d (ws (tl (ws r))) = Some q"
    "starts (CHR '','') (ws q) \<and> json_members m d (ws (tl (ws q))) = Some r' \<or>
     \<not> starts (CHR '','') (ws q) \<and> starts (CHR ''}'') (ws q)"
  using assms by (cases n) (auto split: if_split_asm option.splits)

lemma walk_fields:
  "json_members n d s = Some r' \<Longrightarrow> suffix s buf \<Longrightarrow>
     walk_members buf keys (pos buf s) out = (foldl (store_field keys) out (json_fields n d buf s), None)"
proof (induction n arbitrary: s r' out)
  case (Suc n)
  from Suc.prems(1) show ?case
  proof (cases rule: members_shape)
    case (1 m r q)
    have r: "suffix r buf"
      using skipString_tail(3) [of "tl s" buf r] 1(2,3) Suc.prems(2)
      by (cases s) (auto simp: starts_def suffix_ConsD intro: suffix_order.trans)
    define v where "v = ws (tl (ws r))"
    have vb: "suffix v buf" using r by (auto simp: v_def)
    have step: "stepped buf v q" using json_reads(1) 1(5) vb by (auto simp: v_def)
    then have qb: "suffix (ws (tl (ws q))) buf" using vb by (auto simp: stepped_def intro: suffix_order.trans)
    have end_: "starts (CHR '','') (ws q) \<or> starts (CHR ''}'') (ws q)" using 1(6) by blast
    note walk = member_walk [OF Suc.prems(2) 1(2-4) step v_def end_]
    have n: "m = n" using 1(1) by simp
    have fields: "json_fields (Suc n) d buf s =
        (take (length (tl s) - length r - 1) (tl s),
         \<lparr>sp_off = pos buf v, sp_len = length v - length q, sp_kind = kindOf (hd v)\<rparr>) #
        (if starts (CHR '','') (ws q) then json_fields n d buf (ws (tl (ws q))) else [])"
      using 1(3,5) by (simp add: n v_def Let_def)
    show ?thesis
      unfolding walk fields Let_def using 1(6) Suc.IH [OF _ qb] by (auto simp: n)
  qed
qed simp

lemma Top_fields:
  assumes "json_valid buf" "starts (CHR ''{'') (ws buf)" "length buf \<le> MaxInt32" "length (ks_sorted keys) \<le> length out"
  shows "Top buf keys out = (foldl (store_field keys) (clear_slots keys out) (object_fields buf), None)"
proof -
  have b: "suffix buf buf" "pos buf buf = 0" by (simp_all add: pos_def)
  have w: "suffix (ws buf) buf" "skipWS buf 0 = pos buf (ws buf)" using skipWS_pos [OF b(1)] b(2) by auto
  have at: "pos buf (ws buf) < length buf" "buf ! pos buf (ws buf) = CHR ''{''" "ws buf \<noteq> []"
    using assms(2) starts_at [OF w(1)] by (auto simp: starts_def)
  let ?t = "ws (tl (ws buf))"
  have t: "suffix ?t buf" "skipWS buf (Suc (pos buf (ws buf))) = pos buf ?t"
    using w(1) skipWS_tl [OF w(1) at(3)] by auto
  have close: "pos buf ?t < length buf \<and> buf ! pos buf ?t = CHR ''}'' \<longleftrightarrow> starts (CHR ''}'') ?t"
    using starts_at [OF t(1)] by blast
  obtain r where "json_value (length buf + 1) 0 (ws buf) = Some r"
    using assms(1) by (auto simp: json_valid_def split: option.splits)
  then have inside: "\<exists>r'. json_members (length buf) 1 ?t = Some r'" if "\<not> starts (CHR ''}'') ?t"
    using assms(2) that by (auto simp: starts_def maxNestingDepth_def)
  have "walkObject buf keys (pos buf (ws buf)) out' = (foldl (store_field keys) out' (object_fields buf), None)" for out'
  proof (cases "starts (CHR ''}'') ?t")
    case True
    then show ?thesis using at close t(2) assms(2) by (simp add: walkObject_def object_fields_def)
  next
    case False
    then obtain r' where "json_members (length buf) 1 ?t = Some r'" using inside by blast
    from walk_fields [OF this t(1), of keys out'] False show ?thesis
      using at close t(2) assms(2) by (auto simp: walkObject_def object_fields_def Let_def)
  qed
  then show ?thesis
    using assms at w(2) by (simp add: Top_def Let_def)
qed

section \<open>Which key a member has\<close>

definition finds :: "(nat \<Rightarrow> bool) \<Rightarrow> nat \<Rightarrow> nat \<Rightarrow> nat \<Rightarrow> bool" where
  "finds f i j m \<longleftrightarrow> i \<le> m \<and> m \<le> j \<and> (\<forall>k. i \<le> k \<longrightarrow> k < m \<longrightarrow> \<not> f k) \<and> (m < j \<longrightarrow> f m)"

lemma search_finds:
  assumes mono: "\<And>a b. a \<le> b \<Longrightarrow> b < n \<Longrightarrow> f a \<Longrightarrow> f b"
  shows "i \<le> j \<Longrightarrow> j \<le> n \<Longrightarrow> finds f i j (search_from f i j)"
proof (induction "j - i" arbitrary: i j rule: less_induct)
  case less
  show ?case
  proof (cases "i < j")
    case True
    let ?h = "(i + j) div 2"
    have h: "i \<le> ?h" "?h < j" using True by auto
    show ?thesis
    proof (cases "f ?h")
      case hit: True
      have "finds f i ?h (search_from f i ?h)"
        by (rule less.hyps) (use h less.prems in auto)
      moreover have "search_from f i j = search_from f i ?h"
        using True hit by (simp add: search_from.simps [of f i j] Let_def)
      ultimately show ?thesis using h hit by (auto simp: finds_def le_less)
    next
      case miss: False
      have below: "\<not> f k" if "k \<le> ?h" for k
        using mono [OF that] h less.prems miss by auto
      have "finds f (?h + 1) j (search_from f (?h + 1) j)"
        by (rule less.hyps) (use h less.prems in auto)
      moreover have "search_from f i j = search_from f (?h + 1) j"
        using True miss by (simp add: search_from.simps [of f i j] Let_def)
      moreover have "\<not> f k" if "?h + 1 \<le> k \<longrightarrow> \<not> f k" for k
        using that below [of k] by linarith
      ultimately show ?thesis using h by (auto simp: finds_def)
    qed
  next
    case False
    then have "search_from f i j = i" by (simp add: search_from.simps [of f i j])
    then show ?thesis using less.prems False by (auto simp: finds_def)
  qed
qed

lemma order_facts:
  fixes ks :: "string list"
  defines "order \<equiv> sort_key (\<lambda>i. ks ! i) [0..<length ks]"
  shows "length order = length ks" "set order = {0..<length ks}" "sorted (map ((!) ks) order)"
  by (simp_all add: order_def)

lemma NewKeySet_find:
  assumes "distinct ks"
  shows "ks_find (NewKeySet ks) key = Some i \<longleftrightarrow> i < length ks \<and> ks ! i = key"
proof -
  define order where "order = sort_key (\<lambda>i. ks ! i) [0..<length ks]"
  note order = order_facts [of ks, folded order_def]
  let ?s = "map ((!) ks) order"
  define m where "m = search_from (\<lambda>i. ?s ! i \<ge> key) 0 (length ks)"
  have mono: "key \<le> ?s ! b" if "a \<le> b" "b < length ks" "key \<le> ?s ! a" for a b
    using sorted_nth_mono [OF order(3), of a b] that order(1) by (metis length_map order_trans)
  have m: "finds (\<lambda>i. ?s ! i \<ge> key) 0 (length ks) m"
    unfolding m_def using search_finds [of "length ks" "\<lambda>i. ?s ! i \<ge> key" 0 "length ks"] mono by blast
  have find: "ks_find (NewKeySet ks) key = (if m < length ks \<and> ?s ! m = key then Some (order ! m) else None)"
    unfolding ks_find_def NewKeySet_def order_def [symmetric] Let_def KeySet.simps length_map order(1) m_def
    by (rule refl)
  show ?thesis
  proof
    assume "ks_find (NewKeySet ks) key = Some i"
    then have "m < length order" "?s ! m = key" "i = order ! m" using find order(1) by (auto split: if_splits)
    then show "i < length ks \<and> ks ! i = key" using nth_mem [of m order] order(2) by auto
  next
    assume i: "i < length ks \<and> ks ! i = key"
    then obtain p where p: "p < length ks" "order ! p = i" using order(1,2) by (metis atLeastLessThan_iff in_set_conv_nth zero_le)
    then have "key \<le> ?s ! p" using i order(1) by simp
    then have le: "m \<le> p" using m p(1) unfolding finds_def by (meson le0 not_le)
    then have at: "m < length ks" using p(1) by simp
    then have "key \<le> ?s ! m" using m by (simp add: finds_def)
    moreover have "?s ! m \<le> ?s ! p" using sorted_nth_mono [OF order(3) le] p(1) order(1) by simp
    ultimately have key: "?s ! m = key" using p i order(1) by simp
    moreover have "order ! m < length ks" using nth_mem [of m order] order(1,2) at by auto
    ultimately have "order ! m = i"
      using nth_eq_iff_index_eq [OF assms, of "order ! m" i] i at order(1) by simp
    then show "ks_find (NewKeySet ks) key = Some i" using find at key by simp
  qed
qed

lemma rune_back_le: "rune_back k run n \<le> n"
proof (induction k arbitrary: n)
  case (Suc k)
  have "rune_back k run (n - 1) \<le> n" using Suc [of "n - 1"] by simp
  then show ?case by simp
qed simp

lemma unescape_step: "s \<noteq> [] \<Longrightarrow> unescape s = fst (segment s) @ unescape (drop (snd (segment s)) s)"
  "unescape [] = []"
  by (simp_all add: unescape.simps [of s] unescape.simps [of "[]"])

lemma unescapeHead_spec:
  "length dst \<le> limit \<Longrightarrow>
     (if length (dst @ unescape s) \<le> limit then unescapeHead s dst limit = (dst @ unescape s, False)
      else \<exists>x. unescapeHead s dst limit = (x, True) \<and> prefix x (dst @ unescape s) \<and> length x \<le> limit)"
proof (induction s dst limit rule: unescapeHead.induct)
  case (1 s dst limit)
  show ?case
  proof (cases "s = []")
    case True
    then show ?thesis using 1(2) unescape_step(2) by (simp add: unescapeHead.simps [of "[]" dst limit])
  next
    case False
    let ?seg = "fst (segment s)" let ?t = "drop (snd (segment s)) s"
    show ?thesis
    proof (cases "length ?seg > limit - length dst")
      case True
      let ?k = "runeCut ?seg (limit - length dst)"
      have run: "unescapeHead s dst limit = (dst @ take ?k ?seg, True)"
        using False True by (simp add: unescapeHead.simps [of s dst limit] Let_def)
      have "?k \<le> limit - length dst" using True rune_back_le by (simp add: runeCut_def)
      then have "length (dst @ take ?k ?seg) \<le> limit" using 1(2) by simp
      moreover have "prefix (dst @ take ?k ?seg) (dst @ unescape s)"
        using unescape_step(1) [OF False] by (simp add: take_is_prefix)
      moreover have "\<not> length (dst @ unescape s) \<le> limit"
        using True unescape_step(1) [OF False] 1(2) by simp
      ultimately show ?thesis using run by auto
    next
      case False2: False
      then have "length (dst @ ?seg) \<le> limit" using 1(2) by simp
      note IH = 1(1) [OF False refl refl False2 this]
      have "unescapeHead s dst limit = unescapeHead ?t (dst @ ?seg) limit"
        using False False2 by (simp add: unescapeHead.simps [of s dst limit] Let_def)
      then show ?thesis using IH unfolding unescape_step(1) [OF False] append_assoc by simp
    qed
  qed
qed

text \<open>The key a member's bytes stand for.\<close>

definition key_text :: "string \<Rightarrow> string" where
  "key_text b = (if CHR 0x5C \<notin> set b then b else unescape b)"

lemma longest_le: "k \<in> set ks \<Longrightarrow> length k \<le> ks_longest (NewKeySet ks)"
proof -
  have "k \<in> set ks \<Longrightarrow> length k \<le> foldr max (map length ks) 0" by (induction ks) auto
  then show "k \<in> set ks \<Longrightarrow> length k \<le> ks_longest (NewKeySet ks)" by (simp add: NewKeySet_def Let_def)
qed

lemma longest_bound: "list_all (\<lambda>k. length k \<le> m) ks \<Longrightarrow> ks_longest (NewKeySet ks) \<le> m"
proof -
  have "list_all (\<lambda>k. length k \<le> m) ks \<Longrightarrow> foldr max (map length ks) 0 \<le> m" by (induction ks) auto
  then show "list_all (\<lambda>k. length k \<le> m) ks \<Longrightarrow> ks_longest (NewKeySet ks) \<le> m" by (simp add: NewKeySet_def Let_def)
qed

lemma ks_lookup_iff:
  assumes "distinct ks" "list_all (\<lambda>k. length k \<le> maxKeyBytes) ks"
  shows "ks_lookup (NewKeySet ks) b = Some i \<longleftrightarrow> i < length ks \<and> ks ! i = key_text b"
proof (cases "CHR 0x5C \<in> set b")
  case False
  then show ?thesis by (simp add: ks_lookup_def key_text_def NewKeySet_find [OF assms(1)])
next
  case True
  let ?m = "ks_longest (NewKeySet ks)"
  have lim: "ks_limit (NewKeySet ks) = ?m" using longest_bound [OF assms(2)] by (simp add: ks_limit_def)
  have keytext: "key_text b = unescape b" using True by (simp add: key_text_def)
  show ?thesis
  proof (cases "length (unescape b) \<le> ?m")
    case fits: True
    then have "unescapeHead b [] ?m = (unescape b, False)" using unescapeHead_spec [of "[]" ?m b] by simp
    then show ?thesis using True by (simp add: ks_lookup_def lim keytext NewKeySet_find [OF assms(1)])
  next
    case long: False
    then obtain x where "unescapeHead b [] ?m = (x, True)" using unescapeHead_spec [of "[]" ?m b] by auto
    moreover have "ks ! i \<noteq> unescape b" if "i < length ks" for i
      using longest_le [OF nth_mem [OF that]] long by auto
    ultimately show ?thesis using True by (auto simp: ks_lookup_def lim keytext)
  qed
qed

section \<open>What Top reads\<close>

text \<open>The span of the last member that has the key.\<close>

definition last_field :: "(string \<times> span) list \<Rightarrow> string \<Rightarrow> span" where
  "last_field fs k = (case find (\<lambda>f. key_text (fst f) = k) (rev fs) of None \<Rightarrow> no_span | Some f \<Rightarrow> snd f)"

lemma last_field_snoc: "last_field (fs @ [f]) k = (if key_text (fst f) = k then snd f else last_field fs k)"
  by (simp add: last_field_def)

lemma store_fold:
  assumes "distinct ks" "list_all (\<lambda>k. length k \<le> maxKeyBytes) ks" "length ks \<le> length out"
  shows "foldl (store_field (NewKeySet ks)) (clear_slots (NewKeySet ks) out) fs =
     map (last_field fs) ks @ drop (length ks) out"
proof (induction fs rule: rev_induct)
  case Nil
  have "length (ks_sorted (NewKeySet ks)) = length ks" by (simp add: NewKeySet_def Let_def)
  then show ?case by (simp add: clear_slots_def last_field_def map_replicate_const)
next
  case (snoc f fs)
  let ?k = "key_text (fst f)"
  have "store_field (NewKeySet ks) (map (last_field fs) ks @ drop (length ks) out) f =
      map (last_field (fs @ [f])) ks @ drop (length ks) out"
  proof (cases "\<exists>i < length ks. ks ! i = ?k")
    case True
    then obtain i where i: "i < length ks" "ks ! i = ?k" by blast
    then have "ks_lookup (NewKeySet ks) (fst f) = Some i" using ks_lookup_iff [OF assms(1,2)] by blast
    moreover have "(map (last_field fs) ks)[i := snd f] = map (last_field (fs @ [f])) ks"
    proof (rule nth_equalityI)
      fix j assume "j < length ((map (last_field fs) ks)[i := snd f])"
      then show "(map (last_field fs) ks)[i := snd f] ! j = map (last_field (fs @ [f])) ks ! j"
        using i nth_eq_iff_index_eq [OF assms(1) i(1), of j] by (auto simp: nth_list_update last_field_snoc)
    qed simp
    ultimately show ?thesis using i(1) by (simp add: store_field_def list_update_append)
  next
    case False
    then have "ks_lookup (NewKeySet ks) (fst f) = None"
      using ks_lookup_iff [OF assms(1,2), of "fst f"] by (metis not_Some_eq)
    moreover have "map (last_field (fs @ [f])) ks = map (last_field fs) ks"
      using False by (auto simp: last_field_snoc in_set_conv_nth)
    ultimately show ?thesis by (simp add: store_field_def)
  qed
  with snoc show ?case by simp
qed

lemma top_reading:
  assumes "distinct ks" "list_all (\<lambda>k. length k \<le> maxKeyBytes) ks" "length out = length ks"
  shows "Top buf (NewKeySet ks) out =
     (if length buf > MaxInt32 then (map (\<lambda>k. no_span) ks, Some ErrTooLarge)
      else if \<not> json_valid buf then (map (\<lambda>k. no_span) ks, Some ErrInvalid)
      else if starts (CHR ''n'') (ws buf) then (map (\<lambda>k. no_span) ks, None)
      else if \<not> starts (CHR ''{'') (ws buf) then (map (\<lambda>k. no_span) ks, Some ErrNotObject)
      else (map (last_field (object_fields buf)) ks, None))"
proof -
  have b: "suffix buf buf" "pos buf buf = 0" by (simp_all add: pos_def)
  have w: "suffix (ws buf) buf" "skipWS buf 0 = pos buf (ws buf)" using skipWS_pos [OF b(1)] b(2) by auto
  have len: "length (ks_sorted (NewKeySet ks)) = length ks" by (simp add: NewKeySet_def Let_def)
  have clear: "clear_slots (NewKeySet ks) out = map (\<lambda>k. no_span) ks"
    using assms(3) len by (simp add: clear_slots_def map_replicate_const)
  note fold = store_fold [OF assms(1,2), of out "object_fields buf"]
  show ?thesis
  proof (cases "length buf \<le> MaxInt32 \<and> json_valid buf \<and> starts (CHR ''{'') (ws buf)")
    case True
    then have "Top buf (NewKeySet ks) out = (map (last_field (object_fields buf)) ks, None)"
      using Top_fields [of buf "NewKeySet ks" out] fold assms(3) len by simp
    then show ?thesis using True by (auto simp: starts_def)
  next
    case False
    then show ?thesis
      using assms(3) len starts_at [OF w(1)] w(2)
      by (auto simp: Top_def Let_def clear walkObject_def)
  qed
qed

text \<open>
  C20: top reads what the grammar says: of a text that is not JSON, or is too long, it reports the
  error; of null it reads nothing; of a value that is not an object it says so; and of an object
  each wanted key gets the span of the value of the last member with that key, escapes in the
  key decoded, and every other key none. It never stops half way through a valid object.
\<close>

theorem Top_reads:
  assumes "distinct ks" "list_all (\<lambda>k. length k \<le> maxKeyBytes) ks" "length out = length ks"
  shows "Top buf (NewKeySet ks) out =
     (if length buf > MaxInt32 then (map (\<lambda>k. no_span) ks, Some ErrTooLarge)
      else if \<not> json_valid buf then (map (\<lambda>k. no_span) ks, Some ErrInvalid)
      else if starts (CHR ''n'') (ws buf) then (map (\<lambda>k. no_span) ks, None)
      else if \<not> starts (CHR ''{'') (ws buf) then (map (\<lambda>k. no_span) ks, Some ErrNotObject)
      else (map (last_field (object_fields buf)) ks, None))"
  using assms by (rule top_reading)

theorem Top_reads_witness:
  "Top (''{'' @ [CHR 0x22] @ ''b'' @ [CHR 0x22] @ '':1}'') (NewKeySet [''b'', ''c'']) [no_span, no_span] =
     ([\<lparr>sp_off = 5, sp_len = 1, sp_kind = KNumber\<rparr>, no_span], None)"
proof -
  have hyps: "distinct [''b'', ''c'']" "list_all (\<lambda>k. length k \<le> maxKeyBytes) [''b'', ''c'']"
    "length [no_span, no_span] = length [''b'', ''c'']"
    by (simp_all add: maxKeyBytes_def)
  have str: "str_tail (CHR ''b'' # CHR 0x22 # s) = Some s" for s
    by (simp add: str_tail.simps [of "CHR ''b'' # CHR 0x22 # s"] str_tail.simps [of "CHR 0x22 # s"])
  show ?thesis
    unfolding Top_reads [OF hyps]
    by (simp add: MaxInt32_def json_valid_def ws_def isWS_def starts_def maxNestingDepth_def str
        json_number_def after_int_def some_digits_def is_digit_def after_frac_def after_exp_def
        object_fields_def last_field_def key_text_def pos_def kindOf_def)
qed

end
