(* ===== verification/JsonText.thy ===== *)
theory JsonText
  imports JsonTop
begin

text \<open>
  The strings of a JSON text as \<^verbatim>\<open>encoding/json\<close> writes them and \<^verbatim>\<open>internal/jsonscan\<close>
  (unquote.go) reads them back. \<open>escape_text\<close> is what \<^verbatim>\<open>json.Marshal\<close> puts between the quotes,
  with the escaping of HTML; \<open>valid_text\<close> is the text with each byte that is not UTF-8 replaced.
\<close>

section \<open>Runes written back\<close>

lemma byte_inj [simp]: "byte a = byte b \<longleftrightarrow> a = b"
  by (metis of_char_eqI)

lemma char_of_byte [simp]: "char_of (byte c :: nat) = c"
  by simp

lemma payload_back:
  "128 \<le> b \<Longrightarrow> b \<le> 191 \<Longrightarrow> 128 + b mod 64 = (b::nat)"
  "192 \<le> b \<Longrightarrow> b < 224 \<Longrightarrow> 192 + b mod 32 = (b::nat)"
  "224 \<le> b \<Longrightarrow> b < 240 \<Longrightarrow> 224 + b mod 16 = (b::nat)"
  "240 \<le> b \<Longrightarrow> b < 248 \<Longrightarrow> 240 + b mod 8 = (b::nat)"
  using payloads(4) [of "b - 128"] payloads(1) [of "b - 192"] payloads(2) [of "b - 224"] payloads(3) [of "b - 240"]
  by simp_all

lemma split_64:
  "m < 64 \<Longrightarrow> (q * 64 + m) div 64 = (q::nat)"  "m < 64 \<Longrightarrow> (q * 64 + m) mod 64 = (m::nat)"
  by simp_all

lemma encode_two:
  assumes "2 \<le> q" "q < 32" "m < 64"
  shows "encode_valid (q * 64 + m) = [char_of (192 + q), char_of (128 + m)]" "valid_rune (q * 64 + m)"
proof -
  have "q * 64 + m < 2048" "128 \<le> q * 64 + m" using assms by linarith+
  then show "encode_valid (q * 64 + m) = [char_of (192 + q), char_of (128 + m)]" "valid_rune (q * 64 + m)"
    using split_64 [OF assms(3), of q] by (simp_all add: encode_valid_def valid_rune_def surrogate_def)
qed

lemma encode_three:
  assumes "a < 16" "b < 64" "c < 64" "a = 0 \<Longrightarrow> 32 \<le> b" "a = 13 \<Longrightarrow> b < 32"
  defines "r \<equiv> a * 4096 + b * 64 + c"
  shows "encode_valid r = [char_of (224 + a), char_of (128 + b), char_of (128 + c)]" "valid_rune r"
proof -
  have r: "r = (a * 64 + b) * 64 + c" by (simp add: r_def)
  have d: "r div 64 = a * 64 + b" "r mod 64 = c" using split_64 [OF assms(3), of "a * 64 + b"] by (simp_all only: r)
  have e: "r div 64 mod 64 = b" "r div 64 div 64 = a" using split_64 [OF assms(2), of a] by (simp_all only: d)
  have f: "r div 4096 = a" using e(2) div_mult2_eq [of r 64 64] by simp
  have size: "2048 \<le> r" "r < 65536" "\<not> surrogate r"
    using assms by (cases "a = 0"; cases "a = 13"; simp add: r_def surrogate_def; linarith)+
  show "encode_valid r = [char_of (224 + a), char_of (128 + b), char_of (128 + c)]"
    using size by (simp add: encode_valid_def d(2) e(1) f)
  show "valid_rune r" using size by (simp add: valid_rune_def)
qed

lemma encode_four:
  assumes "a \<le> 4" "b < 64" "c < 64" "d < 64" "a = 0 \<Longrightarrow> 16 \<le> b" "a = 4 \<Longrightarrow> b < 16"
  defines "r \<equiv> a * 262144 + b * 4096 + c * 64 + d"
  shows "encode_valid r = [char_of (240 + a), char_of (128 + b), char_of (128 + c), char_of (128 + d)]" "valid_rune r"
proof -
  have r: "r = ((a * 64 + b) * 64 + c) * 64 + d" by (simp add: r_def)
  have q: "r div 64 = (a * 64 + b) * 64 + c" "r mod 64 = d"
    using split_64 [OF assms(4), of "(a * 64 + b) * 64 + c"] by (simp_all only: r)
  have e: "r div 64 mod 64 = c" "r div 64 div 64 = a * 64 + b"
    using split_64 [OF assms(3), of "a * 64 + b"] by (simp_all only: q)
  have f: "r div 64 div 64 mod 64 = b" "r div 64 div 64 div 64 = a"
    using split_64 [OF assms(2), of a] by (simp_all only: e)
  have g: "r div 4096 mod 64 = b" "r div 262144 = a"
    using f div_mult2_eq [of r 64 64] div_mult2_eq [of r 4096 64] by simp_all
  have size: "65536 \<le> r" "r \<le> 1114111" "\<not> surrogate r"
    using assms by (cases "a = 0"; cases "a = 4"; simp add: r_def surrogate_def; linarith)+
  show "encode_valid r = [char_of (240 + a), char_of (128 + b), char_of (128 + c), char_of (128 + d)]"
    using size by (simp add: encode_valid_def q(2) e(1) g)
  show "valid_rune r" using size by (simp add: valid_rune_def)
qed

lemma leading_cases:
  assumes "leading_byte b = Some (n, lo, hi)"
  obtains (two) q where "b = 192 + q" "2 \<le> q" "q < 32" "n = 2" "lo = 128" "hi = 191"
  | (three) a where "b = 224 + a" "a < 16" "n = 3" "lo = (if a = 0 then 160 else 128)" "hi = (if a = 13 then 159 else 191)"
  | (four) a where "b = 240 + a" "a \<le> 4" "n = 4" "lo = (if a = 0 then 144 else 128)" "hi = (if a = 4 then 143 else 191)"
proof -
  consider "b < 224" | "224 \<le> b" "b < 240" | "240 \<le> b" by linarith
  then show ?thesis
  proof cases
    case 1
    then show ?thesis using assms by (intro two [of "b - 192"]) (auto simp: leading_byte_def split: if_splits)
  next
    case 2
    then show ?thesis using assms by (intro three [of "b - 224"]) (auto simp: leading_byte_def split: if_splits)
  next
    case 3
    then show ?thesis using assms by (intro four [of "b - 240"]) (auto simp: leading_byte_def split: if_splits)
  qed
qed

lemma continues_payload: "continues x \<Longrightarrow> \<exists>m. x = 128 + m \<and> m < 64"
  by (intro exI [of _ "x - 128"]) (auto simp: continues_def)

text \<open>What decodes is a valid rune, and its bytes are those the rune is written as.\<close>

lemma DecodeRune_bytes:
  assumes "DecodeRune s = (r, n)" "\<not> (r = RuneError \<and> n = 1)" "s \<noteq> []"
  shows "valid_rune r \<and> (\<exists>u. s = encode_valid r @ u) \<and> n = length (encode_valid r)"
proof -
  obtain c t where s: "s = c # t" using assms(3) by (cases s) auto
  show ?thesis
  proof (cases "byte c < (0x80::nat)")
    case True
    then show ?thesis
      using assms(1) by (auto simp: s DecodeRune_def encode_valid_def valid_rune_def surrogate_def)
  next
    case False
    obtain k lo hi where lead: "leading_byte (byte c) = Some (k, lo, hi)" and len: "k \<le> length s"
      and b1: "lo \<le> byte (t ! 0)" "byte (t ! 0) \<le> hi"
      using assms(1,2) False
      by (auto simp: s DecodeRune_def Let_def not_less split: option.splits if_splits prod.splits)
    note run = assms(1) [unfolded s DecodeRune_def Let_def list.case]
    from lead show ?thesis
    proof (cases rule: leading_cases)
      case (two q)
      obtain c1 u where t: "t = c1 # u" using len two by (cases t) (auto simp: s)
      obtain m where m: "byte c1 = 128 + m" "m < 64"
        using continues_payload [of "byte c1"] b1 two by (auto simp: t continues_def)
      have "r = q * 64 + m" "n = 2"
        using run two lead False len m b1 payloads by (auto simp: t s split: if_splits)
      moreover have "c = char_of (192 + q)" "c1 = char_of (128 + m)"
        using char_of_byte [of c] char_of_byte [of c1] two m by simp_all
      ultimately show ?thesis using encode_two [OF two(2,3) m(2)] by (simp add: s t)
    next
      case (three a)
      obtain c1 c2 u where t: "t = c1 # c2 # u" using len three by (cases t; cases "tl t") (auto simp: s)
      have ok: "continues (byte c2)"
        using run three lead False len b1 assms(2) by (auto simp: s t split: if_splits)
      obtain b where b: "byte c1 = 128 + b" "b < 64"
        using continues_payload [of "byte c1"] b1 three by (auto simp: t continues_def split: if_splits)
      obtain d where d: "byte c2 = 128 + d" "d < 64" using continues_payload [OF ok] by blast
      have "r = a * 4096 + b * 64 + d" "n = 3"
        using run three lead False len b d b1 ok payloads by (auto simp: t s split: if_splits)
      moreover have "c = char_of (224 + a)" "c1 = char_of (128 + b)" "c2 = char_of (128 + d)"
        using char_of_byte [of c] char_of_byte [of c1] char_of_byte [of c2] three b d by simp_all
      moreover have "a = 0 \<Longrightarrow> 32 \<le> b" "a = 13 \<Longrightarrow> b < 32" using b1 b three by (auto simp: t)
      ultimately show ?thesis using encode_three [OF three(2) b(2) d(2)] by (simp add: s t)
    next
      case (four a)
      obtain c1 c2 c3 u where t: "t = c1 # c2 # c3 # u"
        using len four by (cases t; cases "tl t"; cases "tl (tl t)") (auto simp: s)
      have ok: "continues (byte c2)" "continues (byte c3)"
        using run four lead False len b1 assms(2) by (auto simp: s t split: if_splits)
      obtain b where b: "byte c1 = 128 + b" "b < 64"
        using continues_payload [of "byte c1"] b1 four by (auto simp: t continues_def split: if_splits)
      obtain d e where d: "byte c2 = 128 + d" "d < 64" and e: "byte c3 = 128 + e" "e < 64"
        using continues_payload [OF ok(1)] continues_payload [OF ok(2)] by blast
      have "r = a * 262144 + b * 4096 + d * 64 + e" "n = 4"
        using run four lead False len b d e b1 ok payloads by (auto simp: t s split: if_splits)
      moreover have "c = char_of (240 + a)" "c1 = char_of (128 + b)" "c2 = char_of (128 + d)" "c3 = char_of (128 + e)"
        using char_of_byte [of c] char_of_byte [of c1] char_of_byte [of c2] char_of_byte [of c3] four b d e by simp_all
      moreover have "a = 0 \<Longrightarrow> 16 \<le> b" "a = 4 \<Longrightarrow> b < 16" using b1 b four by (auto simp: t)
      ultimately show ?thesis using encode_four [OF four(2) b(2) d(2) e(2)] by (simp add: s t)
    qed
  qed
qed

section \<open>What json.Marshal writes\<close>

definition hex_char :: "nat \<Rightarrow> char" where
  "hex_char d = (''0123456789abcdef'' ! d)"

definition html_safe :: "char \<Rightarrow> bool" where
  "html_safe c \<longleftrightarrow> 0x20 \<le> byte c \<and> c \<noteq> CHR 0x22 \<and> c \<noteq> CHR 0x5C \<and> c \<notin> set ''<>&''"

definition escape_ascii :: "char \<Rightarrow> string" where
  "escape_ascii c =
     (if html_safe c then [c]
      else if c = CHR 0x22 \<or> c = CHR 0x5C then [CHR 0x5C, c]
      else if c = CHR 0x08 then [CHR 0x5C, CHR ''b'']
      else if c = CHR 0x0C then [CHR 0x5C, CHR ''f'']
      else if c = CHR 0x0A then [CHR 0x5C, CHR ''n'']
      else if c = CHR 0x0D then [CHR 0x5C, CHR ''r'']
      else if c = CHR 0x09 then [CHR 0x5C, CHR ''t'']
      else CHR 0x5C # ''u00'' @ [hex_char (byte c div 16), hex_char (byte c mod 16)])"

function escape_text :: "string \<Rightarrow> string" where
  "escape_text s =
     (if s = [] then []
      else if byte (hd s) < 0x80 then escape_ascii (hd s) @ escape_text (tl s)
      else if fst (DecodeRune s) = RuneError \<and> snd (DecodeRune s) = 1
      then (CHR 0x5C # ''ufffd'') @ escape_text (tl s)
      else (if fst (DecodeRune s) = 0x2028 \<or> fst (DecodeRune s) = 0x2029
            then (CHR 0x5C # ''u202'') @ [hex_char (fst (DecodeRune s) mod 16)]
            else take (snd (DecodeRune s)) s) @ escape_text (drop (snd (DecodeRune s)) s))"
  by pat_completeness auto
termination
  by (relation "measure length") (simp_all add: past_rune)

declare escape_text.simps [simp del]

text \<open>The text with each byte that does not decode replaced.\<close>

function valid_text :: "string \<Rightarrow> string" where
  "valid_text s =
     (if s = [] then []
      else if fst (DecodeRune s) = RuneError \<and> snd (DecodeRune s) = 1 then EncodeRune RuneError @ valid_text (tl s)
      else take (snd (DecodeRune s)) s @ valid_text (drop (snd (DecodeRune s)) s))"
  by pat_completeness auto
termination
  by (relation "measure length") (simp_all add: past_rune)

declare valid_text.simps [simp del]

lemma valid_text_id: "ValidString s \<Longrightarrow> valid_text s = s"
proof (induction s rule: ValidString.induct)
  case (1 s)
  then show ?case
    by (cases "s = []")
      (simp add: valid_text.simps [of "[]"], auto simp: valid_text.simps [of s] ValidString.simps [of s] split: if_splits)
qed

section \<open>Reading it back\<close>

lemma unescape_plain:
  assumes "c \<noteq> CHR 0x5C" "byte c < (0x80::nat)"
  shows "unescape (c # s) = c # unescape s"
proof -
  have run: "text_run (c # s) = Suc (text_run s)" using assms by (simp add: text_run.simps [of "c # s"])
  have one: "unescape (c # s) = take (Suc (text_run s)) (c # s) @ unescape (drop (text_run s) s)"
    using assms run by (simp add: unescape_step(1) [of "c # s"] segment_def)
  show ?thesis
  proof (cases "text_run s = 0")
    case True
    then show ?thesis using one by simp
  next
    case False
    then have "s \<noteq> []" "hd s \<noteq> CHR 0x5C" by (auto simp: text_run.simps [of s] split: if_splits)
    then have "unescape s = take (text_run s) s @ unescape (drop (text_run s) s)"
      using False unescape_step(1) [of s] by (simp add: segment_def Let_def)
    then show ?thesis using one by simp
  qed
qed

lemma unescape_rune:
  assumes "\<not> byte (hd s) < (0x80::nat)" "s \<noteq> []" "DecodeRune s = (r, n)" "\<not> (r = RuneError \<and> n = 1)"
  shows "unescape s = take n s @ unescape (drop n s)"
proof -
  have hd: "hd s \<noteq> CHR 0x5C" using assms(1) by auto
  have run: "text_run s = n + text_run (drop n s)" using assms hd by (simp add: text_run.simps [of s])
  have pos: "n > 0" using DecodeRune_size [of s] assms(2,3) by auto
  have one: "unescape s = take (text_run s) s @ unescape (drop (text_run s) s)"
    using hd assms(2) run pos by (simp add: unescape_step(1) [of s] segment_def Let_def)
  show ?thesis
  proof (cases "text_run (drop n s) = 0")
    case True
    then show ?thesis using one run by simp
  next
    case False
    let ?t = "drop n s"
    have "?t \<noteq> []" "hd ?t \<noteq> CHR 0x5C" using False by (auto simp: text_run.simps [of ?t] split: if_splits)
    then have "unescape ?t = take (text_run ?t) ?t @ unescape (drop (text_run ?t) ?t)"
      using False unescape_step(1) [of ?t] by (simp add: segment_def Let_def)
    then show ?thesis using one run by (simp add: take_add add.commute)
  qed
qed

lemma unescape_escape:
  "unescape (CHR 0x5C # s) = fst (escape_segment (CHR 0x5C # s)) @ unescape (drop (snd (escape_segment (CHR 0x5C # s))) (CHR 0x5C # s))"
  by (simp add: unescape_step(1) [of "CHR 0x5C # s"] segment_def)

lemma hex_of_char: "d < 16 \<Longrightarrow> hex_digit (hex_char d) = Some d"
proof -
  assume "d < 16"
  then have "d \<in> set [0..<16]" by simp
  then show ?thesis by (auto simp: hex_char_def hex_digit_def upt_rec)
qed

lemma unescape_u:
  assumes "a < 16" "b < 16" "c < 16" "d < 16" "\<not> surrogate (((a * 16 + b) * 16 + c) * 16 + d)"
  shows "unescape (CHR 0x5C # CHR ''u'' # hex_char a # hex_char b # hex_char c # hex_char d # s) =
     EncodeRune (((a * 16 + b) * 16 + c) * 16 + d) @ unescape s"
  using assms by (simp add: unescape_escape escape_segment_def escapeU_def hex4_def hex_of_char)

lemma ascii_cases:
  assumes "byte c < (0x80::nat)"
  obtains (safe) "html_safe c" "escape_ascii c = [c]"
  | (short) e where "escape_ascii c = [CHR 0x5C, e]" "e \<noteq> CHR ''u''" "escape_segment (CHR 0x5C # e # s) = ([c], 2)"
  | (hex) "escape_ascii c = CHR 0x5C # ''u00'' @ [hex_char (byte c div 16), hex_char (byte c mod 16)]"
proof -
  consider "html_safe c" | "c = CHR 0x22" | "c = CHR 0x5C" | "c = CHR 0x08" | "c = CHR 0x0C" | "c = CHR 0x0A"
    | "c = CHR 0x0D" | "c = CHR 0x09"
    | "\<not> html_safe c" "c \<noteq> CHR 0x22" "c \<noteq> CHR 0x5C" "c \<noteq> CHR 0x08" "c \<noteq> CHR 0x0C" "c \<noteq> CHR 0x0A"
      "c \<noteq> CHR 0x0D" "c \<noteq> CHR 0x09" by blast
  then show ?thesis
  proof cases
    case 1
    then show ?thesis by (intro safe) (simp_all add: escape_ascii_def)
  next
    case 9
    then show ?thesis by (intro hex) (simp add: escape_ascii_def)
  qed (rule short [of c] short [of "CHR ''b''"] short [of "CHR ''f''"] short [of "CHR ''n''"] short [of "CHR ''r''"]
      short [of "CHR ''t''"]; simp add: escape_ascii_def html_safe_def escape_segment_def; fail)+
qed

lemma unescape_ascii:
  assumes "byte c < (0x80::nat)"
  shows "unescape (escape_ascii c @ s) = c # unescape s"
  using assms
proof (cases rule: ascii_cases [where s = s])
  case safe
  then show ?thesis using unescape_plain [of c s] assms by (simp add: html_safe_def)
next
  case (short e)
  then show ?thesis by (simp add: unescape_escape)
next
  case hex
  let ?b = "byte c :: nat"
  have d: "?b div 16 < 16" "?b mod 16 < 16" "?b div 16 * 16 + ?b mod 16 = ?b" using assms by simp_all
  have zero: "CHR ''0'' = hex_char 0" by (simp add: hex_char_def)
  have "unescape (escape_ascii c @ s) =
      unescape (CHR 0x5C # CHR ''u'' # hex_char 0 # hex_char 0 # hex_char (?b div 16) # hex_char (?b mod 16) # s)"
    by (simp add: hex zero)
  also have "\<dots> = EncodeRune ?b @ unescape s"
    using unescape_u [of 0 0 "?b div 16" "?b mod 16" s] d assms by (simp add: surrogate_def)
  also have "EncodeRune ?b = [c]"
    using assms by (simp add: EncodeRune_def valid_rune_def surrogate_def encode_valid_def)
  finally show ?thesis by simp
qed

text \<open>
  A string written by json.Marshal reads back as itself, each byte that is not UTF-8 replaced
  as json.Marshal replaces it; in particular a valid string reads back unchanged.
\<close>

lemma unescape_escape_text: "unescape (escape_text s) = valid_text s"
proof (induction s rule: escape_text.induct)
  case (1 s)
  obtain r n where dec: "DecodeRune s = (r, n)" by (cases "DecodeRune s")
  consider (nil) "s = []" | (ascii) "s \<noteq> []" "byte (hd s) < (0x80::nat)"
    | (bad) "s \<noteq> []" "\<not> byte (hd s) < (0x80::nat)" "r = RuneError" "n = 1"
    | (rune) "s \<noteq> []" "\<not> byte (hd s) < (0x80::nat)" "\<not> (r = RuneError \<and> n = 1)" by blast
  then show ?case
  proof cases
    case nil
    then show ?thesis by (simp add: escape_text.simps [of "[]"] valid_text.simps [of "[]"] unescape_step(2))
  next
    case ascii
    obtain c t where s: "s = c # t" using ascii by (cases s) auto
    have d: "DecodeRune s = (byte c, 1)" using ascii by (simp add: s DecodeRune_def)
    have "byte c \<noteq> RuneError" using ascii by (auto simp: s RuneError_def)
    then have "valid_text s = c # valid_text t" using d by (simp add: valid_text.simps [of s]) (simp add: s)
    then show ?thesis
      using 1(1) ascii unescape_ascii [of c "escape_text t"] by (simp add: escape_text.simps [of s]) (simp add: s)
  next
    case bad
    have esc: "escape_text s = CHR 0x5C # CHR ''u'' # hex_char 15 # hex_char 15 # hex_char 15 # hex_char 13 # escape_text (tl s)"
      using bad dec by (simp add: escape_text.simps [of s] hex_char_def)
    have "unescape (escape_text s) = EncodeRune RuneError @ unescape (escape_text (tl s))"
      unfolding esc using unescape_u [of 15 15 15 13 "escape_text (tl s)"] by (simp add: surrogate_def RuneError_def)
    then show ?thesis using 1(2) bad dec by (simp add: valid_text.simps [of s])
  next
    case rune
    obtain u where u: "valid_rune r" "s = encode_valid r @ u" "n = length (encode_valid r)"
      using DecodeRune_bytes [OF dec rune(3,1)] by blast
    have part: "take n s = encode_valid r" "drop n s = u" using u by simp_all
    have val: "valid_text s = encode_valid r @ valid_text u"
      using rune dec part by (auto simp: valid_text.simps [of s])
    have IH: "unescape (escape_text u) = valid_text u"
      using 1(3) rune dec part by simp
    show ?thesis
    proof (cases "r = 0x2028 \<or> r = 0x2029")
      case True
      then have d: "r mod 16 < 16" "((2 * 16 + 0) * 16 + 2) * 16 + r mod 16 = r" by auto
      have zero: "CHR ''0'' = hex_char 0" "CHR ''2'' = hex_char 2" by (simp_all add: hex_char_def)
      have esc: "escape_text s = CHR 0x5C # CHR ''u'' # hex_char 2 # hex_char 0 # hex_char 2 # hex_char (r mod 16) # escape_text u"
        using True rune dec part by (auto simp: escape_text.simps [of s] zero)
      have "unescape (escape_text s) = EncodeRune r @ unescape (escape_text u)"
        unfolding esc using unescape_u [of 2 0 2 "r mod 16" "escape_text u"] d True by (auto simp: surrogate_def)
      then show ?thesis using val IH u(1) by (simp add: EncodeRune_def)
    next
      case False
      have esc: "escape_text s = encode_valid r @ escape_text u"
        using False rune dec part by (auto simp: escape_text.simps [of s])
      have ne: "encode_valid r \<noteq> []" by (auto simp: encode_valid_def)
      then have "hd (escape_text s) = hd s" using esc u(2) by simp
      then have "unescape (escape_text s) = take n (escape_text s) @ unescape (drop n (escape_text s))"
        using rune DecodeRune_encode_valid [OF u(1), of "escape_text u"] ne u(3)
        by (intro unescape_rune [of _ r]) (simp_all add: esc)
      then show ?thesis using val IH u(3) by (simp add: esc)
    qed
  qed
qed

text \<open>Nothing between the quotes ends the string before its closing quote.\<close>

definition string_plain :: "char \<Rightarrow> bool" where
  "string_plain c \<longleftrightarrow> 0x20 \<le> byte c \<and> c \<noteq> CHR 0x22 \<and> c \<noteq> CHR 0x5C"

lemma str_tail_plain: "list_all string_plain x \<Longrightarrow> str_tail (x @ s) = str_tail s"
  by (induction x) (simp_all add: string_plain_def str_tail.simps [of "_ # _"])

lemma str_tail_short:
  "e \<in> set ''bfnrt/'' \<or> e = CHR 0x5C \<or> e = CHR 0x22 \<Longrightarrow> str_tail (CHR 0x5C # e # s) = str_tail s"
  by (auto simp: str_tail.simps [of "CHR 0x5C # e # s"])

lemma str_tail_u:
  "list_all (\<lambda>c. hex_digit c \<noteq> None) [a, b, c, d] \<Longrightarrow> str_tail (CHR 0x5C # CHR ''u'' # a # b # c # d # s) = str_tail s"
  by (simp add: str_tail.simps [of "CHR 0x5C # CHR ''u'' # _"])

lemma str_tail_ascii:
  assumes "byte c < (0x80::nat)"
  shows "str_tail (escape_ascii c @ s) = str_tail s"
proof -
  consider "html_safe c" | "c \<in> {CHR 0x22, CHR 0x5C, CHR 0x08, CHR 0x0C, CHR 0x0A, CHR 0x0D, CHR 0x09}"
    | "\<not> html_safe c" "c \<notin> {CHR 0x22, CHR 0x5C, CHR 0x08, CHR 0x0C, CHR 0x0A, CHR 0x0D, CHR 0x09}" by blast
  then show ?thesis
  proof cases
    case 1
    then show ?thesis using str_tail_plain [of "[c]" s] by (simp add: escape_ascii_def html_safe_def string_plain_def)
  next
    case 2
    then show ?thesis by (auto simp: escape_ascii_def html_safe_def str_tail_short)
  next
    case 3
    have "hex_digit (hex_char (byte c div 16)) \<noteq> None" "hex_digit (hex_char (byte c mod 16)) \<noteq> None"
      using assms by (simp_all add: hex_of_char)
    moreover have "hex_digit (CHR ''0'') \<noteq> None" by (simp add: hex_digit_def)
    ultimately show ?thesis using 3 by (simp add: escape_ascii_def str_tail_u)
  qed
qed

lemma high_plain: "128 \<le> x \<Longrightarrow> x < 256 \<Longrightarrow> string_plain (char_of (x::nat))"
  using byte_inj [of "char_of x" "CHR 0x22"] byte_inj [of "char_of x" "CHR 0x5C"]
  by (auto simp: string_plain_def)

lemma encode_plain: "valid_rune r \<Longrightarrow> 0x80 \<le> r \<Longrightarrow> list_all string_plain (encode_valid r)"
  by (auto simp: encode_valid_def valid_rune_def intro!: high_plain)

lemma str_tail_text: "str_tail (escape_text s @ CHR 0x22 # u) = Some u"
proof (induction s rule: escape_text.induct)
  case (1 s)
  obtain r n where dec: "DecodeRune s = (r, n)" by (cases "DecodeRune s")
  consider (nil) "s = []" | (ascii) "s \<noteq> []" "byte (hd s) < (0x80::nat)"
    | (bad) "s \<noteq> []" "\<not> byte (hd s) < (0x80::nat)" "r = RuneError" "n = 1"
    | (rune) "s \<noteq> []" "\<not> byte (hd s) < (0x80::nat)" "\<not> (r = RuneError \<and> n = 1)" by blast
  then show ?case
  proof cases
    case nil
    then show ?thesis by (simp add: escape_text.simps [of "[]"] str_tail.simps [of "_ # _"])
  next
    case ascii
    then show ?thesis using 1(1) str_tail_ascii by (simp add: escape_text.simps [of s])
  next
    case bad
    have "list_all (\<lambda>c. hex_digit c \<noteq> None) ''fffd''" by (simp add: hex_digit_def)
    then show ?thesis using 1(2) bad dec by (simp add: escape_text.simps [of s] str_tail_u)
  next
    case rune
    obtain v where v: "valid_rune r" "s = encode_valid r @ v" "n = length (encode_valid r)"
      using DecodeRune_bytes [OF dec rune(3,1)] by blast
    have part: "take n s = encode_valid r" "drop n s = v" using v by simp_all
    have IH: "str_tail (escape_text v @ CHR 0x22 # u) = Some u" using 1(3) rune dec part by simp
    have high: "0x80 \<le> r"
    proof (rule ccontr)
      assume "\<not> 0x80 \<le> r"
      then show False using rune(2) v(2) by (simp add: encode_valid_def)
    qed
    have hex: "list_all (\<lambda>c. hex_digit c \<noteq> None) [CHR ''2'', CHR ''0'', CHR ''2'', hex_char (r mod 16)]"
      using hex_of_char [of "r mod 16"] by (simp add: hex_digit_def)
    show ?thesis
      using rune dec part IH encode_plain [OF v(1) high] hex
      by (auto simp: escape_text.simps [of s] str_tail_plain str_tail_u)
  qed
qed

text \<open>A member written by json.Marshal: its quoted text is one string of the grammar.\<close>

definition quote_text :: "string \<Rightarrow> string" where
  "quote_text s = CHR 0x22 # escape_text s @ [CHR 0x22]"

lemma DecodeString_quote:
  assumes "sp_kind sp = KString" "sp_len sp = length (quote_text s)" "buf = pre @ quote_text s @ post"
    "sp_off sp = length pre"
  shows "DecodeString buf sp = Inr (valid_text s)"
  using assms by (simp add: DecodeString_def span_body_def span_inside_def quote_text_def unescape_escape_text)

end
