(* ===== verification/JsonObject.thy ===== *)
theory JsonObject
  imports JsonText
begin

text \<open>
  The object a writer of the standard library's encoding/json makes, and that
  \<^verbatim>\<open>internal/jsonscan\<close> reads it back: each member's key and value, in the order written.
\<close>

section \<open>Values\<close>

text \<open>An object as json.Marshal writes a map of already encoded values, its keys in order.\<close>

definition json_member :: "string \<times> string \<Rightarrow> string" where
  "json_member kv = quote_text (fst kv) @ CHR '':'' # snd kv"

definition json_object :: "(string \<times> string) list \<Rightarrow> string" where
  "json_object kvs = CHR ''{'' # Join (map json_member kvs) '','' @ ''}''"

definition json_array :: "string list \<Rightarrow> string" where
  "json_array vs = CHR ''['' # Join vs '','' @ '']''"

definition json_bool :: "bool \<Rightarrow> string" where
  "json_bool b = (if b then ''true'' else ''false'')"

definition json_opt :: "string option \<Rightarrow> string" where
  "json_opt v = (case v of None \<Rightarrow> ''null'' | Some s \<Rightarrow> quote_text s)"

fun json_nat :: "nat \<Rightarrow> string" where
  "json_nat n = (if n < 10 then [char_of (48 + n)] else json_nat (n div 10) @ [char_of (48 + n mod 10)])"

declare json_nat.simps [simp del]

definition json_int :: "int \<Rightarrow> string" where
  "json_int i = (if i < 0 then CHR ''-'' # json_nat (nat (- i)) else json_nat (nat i))"

section \<open>What the grammar makes of them\<close>

text \<open>
  A text the grammar reads as one value, to its end, whatever follows it in an array or an object;
  \<open>k\<close> is how deep it nests.
\<close>

definition ends_after :: "string \<Rightarrow> bool" where
  "ends_after t \<longleftrightarrow> t = [] \<or> hd t \<in> set '',]}''"

definition good_value :: "nat \<Rightarrow> string \<Rightarrow> bool" where
  "good_value k v \<longleftrightarrow> v \<noteq> [] \<and> \<not> isWS (hd v) \<and> kindOf (hd v) \<noteq> KAbsent \<and>
     (\<forall>n d t. length v < n \<longrightarrow> d + k \<le> maxNestingDepth \<longrightarrow> ends_after t \<longrightarrow> json_value n d (v @ t) = Some t)"

lemma good_value_reads:
  "good_value k v \<Longrightarrow> length v < n \<Longrightarrow> d + k \<le> maxNestingDepth \<Longrightarrow> ends_after t \<Longrightarrow> json_value n d (v @ t) = Some t"
  by (simp add: good_value_def)

lemma good_value_mono: "good_value k v \<Longrightarrow> k \<le> m \<Longrightarrow> good_value m v"
  by (simp add: good_value_def)

lemma ws_end: "ends_after t \<Longrightarrow> ws t = t"
  by (cases t) (auto simp: ends_after_def ws_def isWS_def)

lemma good_quote: "good_value k (quote_text s)"
proof -
  have "json_value n d (quote_text s @ t) = Some t" if "0 < n" for n d t
    using that by (cases n) (simp_all add: quote_text_def str_tail_text)
  then show ?thesis by (auto simp: good_value_def isWS_def quote_text_def kindOf_def)
qed

lemma literal_reads:
  "json_value (Suc n) d (''null'' @ t) = Some t" "json_value (Suc n) d (''true'' @ t) = Some t"
  "json_value (Suc n) d (''false'' @ t) = Some t"
  by (simp_all add: json_literal_def HasPrefix_def)

lemma good_literals: "good_value k ''null''" "good_value k ''true''" "good_value k ''false''"
  unfolding good_value_def using literal_reads
  by (auto simp: isWS_def kindOf_def gr0_conv_Suc less_Suc_eq_0_disj dest!: Nat.lessE elim!: less_natE)

lemma good_opt: "good_value k (json_opt v)"
  by (simp add: json_opt_def good_quote good_literals split: option.split)

lemma good_bool: "good_value k (json_bool b)"
  by (simp add: json_bool_def good_literals)

subsection \<open>Numbers\<close>

lemma is_digit_byte: "is_digit c \<longleftrightarrow> 48 \<le> (of_char c :: nat) \<and> (of_char c :: nat) \<le> 57"
  by (simp add: is_digit_def less_eq_char_def)

lemma digit_of: "d < 10 \<Longrightarrow> is_digit (char_of (48 + d :: nat))"
  by (simp add: is_digit_byte)

lemma digit_zero: "d < 10 \<Longrightarrow> char_of (48 + d :: nat) = CHR ''0'' \<Longrightarrow> d = 0"
proof -
  assume d: "d < 10" and z: "char_of (48 + d :: nat) = CHR ''0''"
  from z have "of_char (char_of (48 + d :: nat)) = (of_char (CHR ''0'') :: nat)" by simp
  then show "d = 0" using d by simp
qed

lemma json_nat_shape:
  "json_nat n \<noteq> [] \<and> list_all is_digit (json_nat n) \<and> (hd (json_nat n) = CHR ''0'' \<longrightarrow> n = 0)"
proof (induction n rule: json_nat.induct)
  case (1 n)
  show ?case
  proof (cases "n < 10")
    case True
    then show ?thesis using digit_zero [of n] by (simp add: json_nat.simps [of n] digit_of)
  next
    case False
    then have "n div 10 \<noteq> 0" by simp
    then show ?thesis using 1 False by (simp add: json_nat.simps [of n] digit_of)
  qed
qed

lemma json_nat_zero: "json_nat 0 = ''0''"
  using char_of_char [where c = "CHR ''0''" and 'a = nat] by (simp add: json_nat.simps [of 0])

lemma digit_stops: "ends_after t \<Longrightarrow> t = [] \<or> \<not> is_digit (hd t) \<and> hd t \<notin> set ''.eE''"
  by (auto simp: ends_after_def is_digit_def less_eq_char_def)

lemma some_digits_all:
  assumes "x \<noteq> []" "list_all is_digit x" "ends_after t"
  shows "some_digits (x @ t) = Some t"
proof -
  have "dropWhile is_digit (x @ t) = dropWhile is_digit t" using assms(2) by (auto simp: list_all_iff intro: dropWhile_append2)
  moreover have "dropWhile is_digit t = t" using digit_stops [OF assms(3)] by (cases t) auto
  moreover have "is_digit (hd (x @ t))" using assms(1,2) by (cases x) auto
  ultimately show ?thesis using assms(1) by (simp add: some_digits_def)
qed

lemma number_nat:
  assumes "ends_after t"
  shows "Option.bind (Option.bind (after_int (json_nat n @ t)) after_frac) after_exp = Some t"
proof -
  have tail: "Option.bind (after_frac t) after_exp = Some t"
    using digit_stops [OF assms] by (auto simp: after_frac_def after_exp_def starts_def)
  show ?thesis
  proof (cases "n = 0")
    case True
    then show ?thesis using tail by (simp add: json_nat_zero after_int_def starts_def)
  next
    case False
    then have "\<not> starts (CHR ''0'') (json_nat n @ t)" using json_nat_shape [of n] by (simp add: starts_def)
    then show ?thesis using tail some_digits_all [OF _ _ assms, of "json_nat n"] json_nat_shape [of n]
      by (simp add: after_int_def)
  qed
qed

lemma digit_facts:
  assumes "is_digit c"
  shows "\<not> isWS c" "kindOf c = KNumber" "c \<notin> set ''tfn{[''" "c \<noteq> CHR 0x22" "c \<noteq> CHR ''-''"
proof -
  have "\<not> is_digit x" if "x \<in> set ('' tfn{[-'' @ [CHR 0x09, CHR 0x0A, CHR 0x0D, CHR 0x22])" for x
    using that by (auto simp: is_digit_byte)
  then have "c \<notin> set ('' tfn{[-'' @ [CHR 0x09, CHR 0x0A, CHR 0x0D, CHR 0x22])" using assms by blast
  then show "\<not> isWS c" "c \<notin> set ''tfn{[''" "c \<noteq> CHR 0x22" "c \<noteq> CHR ''-''" "kindOf c = KNumber"
    using assms by (simp_all add: isWS_def kindOf_def is_digit_def)
qed

lemma good_nat: "good_value k (json_nat m)"
proof -
  have h: "json_nat m \<noteq> []" "is_digit (hd (json_nat m))" using json_nat_shape [of m] by (cases "json_nat m"; auto)+
  have "json_value n d (json_nat m @ t) = Some t" if "0 < n" "ends_after t" for n d t
    using that h digit_facts [OF h(2)] number_nat [of t m]
    by (cases n) (simp_all add: json_number_def starts_def)
  then show ?thesis using h digit_facts [OF h(2)] by (auto simp: good_value_def)
qed

lemma good_int: "good_value k (json_int i)"
proof (cases "i < 0")
  case False
  then show ?thesis by (simp add: json_int_def good_nat)
next
  case True
  have "json_value n d (CHR ''-'' # json_nat (nat (- i)) @ t) = Some t" if "0 < n" "ends_after t" for n d t
    using that number_nat [of t "nat (- i)"]
    by (cases n) (simp_all add: json_number_def starts_def)
  then show ?thesis using True by (auto simp: good_value_def json_int_def isWS_def kindOf_def)
qed

subsection \<open>Objects and arrays\<close>

lemma ends_simps [simp]: "ends_after (CHR '','' # t)" "ends_after (CHR ''}'' # t)" "ends_after (CHR '']'' # t)"
  by (simp_all add: ends_after_def)

lemma Join_two: "Join (x # y # xs) sep = x @ sep @ Join (y # xs) sep"
  by simp

definition good_members :: "nat \<Rightarrow> (string \<times> string) list \<Rightarrow> bool" where
  "good_members k kvs \<longleftrightarrow> list_all (\<lambda>kv. good_value k (snd kv)) kvs"

lemma ws_head: "x \<noteq> [] \<Longrightarrow> \<not> isWS (hd x) \<Longrightarrow> ws (x @ t) = x @ t"
  by (cases x) (simp_all add: ws_def)

lemma ws_value: "good_value k v \<Longrightarrow> ws (v @ t) = v @ t"
  by (rule ws_head) (simp_all add: good_value_def)

lemma ws_punct [simp]: "ws (CHR '','' # t) = CHR '','' # t" "ws (CHR ''}'' # t) = CHR ''}'' # t"
  "ws (CHR '']'' # t) = CHR '']'' # t" "ws (CHR '':'' # t) = CHR '':'' # t" "ws (CHR 0x22 # t) = CHR 0x22 # t"
  by (simp_all add: ws_def isWS_def)

text \<open>One member: its key, its colon and its value, and what follows.\<close>

lemma member_text: "json_member kv @ t = CHR 0x22 # escape_text (fst kv) @ CHR 0x22 # CHR '':'' # snd kv @ t"
  by (simp add: json_member_def quote_text_def)

lemma member_key: "str_tail (tl (json_member kv @ t)) = Some (CHR '':'' # snd kv @ t)"
  by (simp add: member_text str_tail_text)

lemma member_value:
  "good_value k (snd kv) \<Longrightarrow> ws (tl (ws (CHR '':'' # snd kv @ t))) = snd kv @ t"
  by (simp add: ws_value)

lemma join_member_starts: "kvs \<noteq> [] \<Longrightarrow> \<exists>x. Join (map json_member kvs) '','' @ t = CHR 0x22 # x"
  by (cases kvs; cases "tl kvs") (auto simp: member_text [where t = "[]", simplified] json_member_def quote_text_def)

lemma join_member_ws: "kvs \<noteq> [] \<Longrightarrow> ws (Join (map json_member kvs) '','' @ t) = Join (map json_member kvs) '','' @ t"
  using join_member_starts [of kvs t] by auto

lemma members_read:
  assumes "kvs \<noteq> []" "good_members k kvs" "length (Join (map json_member kvs) '','') < n" "d + k \<le> maxNestingDepth"
  shows "json_members n d (Join (map json_member kvs) '','' @ CHR ''}'' # t) = Some t"
  using assms
proof (induction kvs arbitrary: n)
  case (Cons kv kvs)
  obtain m where n: "n = Suc m" using Cons.prems(3) by (cases n) auto
  have v: "good_value k (snd kv)" using Cons.prems(2) by (simp add: good_members_def)
  have len: "length (snd kv) < m"
    using Cons.prems(3) n by (cases kvs) (simp_all add: json_member_def quote_text_def)
  show ?case
  proof (cases "kvs = []")
    case True
    have "json_value m d (snd kv @ CHR ''}'' # t) = Some (CHR ''}'' # t)"
      by (rule good_value_reads [OF v len Cons.prems(4)]) simp
    then show ?thesis
      using True v by (simp add: n member_text str_tail_text starts_def ws_value)
  next
    case False
    define rest where "rest = Join (map json_member kvs) '','' @ CHR ''}'' # t"
    have joined: "Join (map json_member (kv # kvs)) '','' = json_member kv @ CHR '','' # Join (map json_member kvs) '',''"
      using False by (auto simp: neq_Nil_conv)
    have "json_value m d (snd kv @ CHR '','' # rest) = Some (CHR '','' # rest)"
      by (rule good_value_reads [OF v len Cons.prems(4)]) simp
    moreover have "json_members m d rest = Some t"
      unfolding rest_def
      by (rule Cons.IH [OF False]) (use Cons.prems joined n in \<open>simp_all add: good_members_def\<close>)
    moreover have "ws rest = rest" unfolding rest_def by (rule join_member_ws [OF False])
    moreover have "Join (map json_member (kv # kvs)) '','' @ CHR ''}'' # t = json_member kv @ CHR '','' # rest"
      unfolding joined rest_def by simp
    ultimately show ?thesis
      using v by (simp only: n) (simp add: member_text str_tail_text starts_def ws_value)
  qed
qed simp

lemma object_text: "json_object kvs @ t = CHR ''{'' # Join (map json_member kvs) '','' @ CHR ''}'' # t"
  by (simp add: json_object_def)

lemma object_reads:
  assumes "good_members k kvs" "length (json_object kvs) < n" "d + Suc k \<le> maxNestingDepth"
  shows "json_value n d (json_object kvs @ t) = Some t"
proof (cases n)
  case (Suc m)
  show ?thesis
  proof (cases "kvs = []")
    case True
    then show ?thesis using assms(3) Suc by (simp add: object_text starts_def)
  next
    case False
    have "json_members m (d + 1) (Join (map json_member kvs) '','' @ CHR ''}'' # t) = Some t"
      by (rule members_read [OF False assms(1)]) (use assms Suc in \<open>simp_all add: json_object_def\<close>)
    moreover have "ws (Join (map json_member kvs) '','' @ CHR ''}'' # t) = Join (map json_member kvs) '','' @ CHR ''}'' # t"
      by (rule join_member_ws [OF False])
    moreover obtain x where "Join (map json_member kvs) '','' @ CHR ''}'' # t = CHR 0x22 # x"
      using join_member_starts [OF False] by blast
    ultimately show ?thesis using assms(3) Suc by (simp add: object_text starts_def)
  qed
qed (use assms in simp)

lemma good_object: "good_members k kvs \<Longrightarrow> good_value (Suc k) (json_object kvs)"
  using object_reads [of k kvs]
  by (auto simp: good_value_def json_object_def isWS_def kindOf_def)

lemma join_value_ws:
  assumes "vs \<noteq> []" "list_all (good_value k) vs"
  shows "ws (Join vs '','' @ t) = Join vs '','' @ t" "\<not> starts (CHR '']'') (Join vs '','' @ t)"
proof -
  obtain v r where v: "vs = v # r" using assms(1) by (cases vs) auto
  have g: "v \<noteq> []" "\<not> isWS (hd v)" "hd v \<noteq> CHR '']''"
    using assms(2) by (auto simp: v good_value_def kindOf_def)
  obtain x where "Join vs '','' @ t = v @ x" by (cases r) (auto simp: v)
  then show "ws (Join vs '','' @ t) = Join vs '','' @ t" "\<not> starts (CHR '']'') (Join vs '','' @ t)"
    using g by (simp_all add: ws_head starts_def)
qed

lemma elements_read:
  assumes "vs \<noteq> []" "list_all (good_value k) vs" "length (Join vs '','') + 1 < n" "d + k \<le> maxNestingDepth"
  shows "json_elements n d (Join vs '','' @ CHR '']'' # t) = Some t"
  using assms
proof (induction vs arbitrary: n)
  case (Cons v vs)
  obtain m where n: "n = Suc m" using Cons.prems(3) by (cases n) auto
  have v: "good_value k v" using Cons.prems(2) by simp
  then have ne: "0 < length v" by (simp add: good_value_def)
  show ?case
  proof (cases "vs = []")
    case True
    have "json_value m d (v @ CHR '']'' # t) = Some (CHR '']'' # t)"
      by (rule good_value_reads [OF v _ Cons.prems(4)]) (use Cons.prems(3) n True in simp_all)
    then show ?thesis using True by (simp add: n starts_def)
  next
    case False
    define rest where "rest = Join vs '','' @ CHR '']'' # t"
    have joined: "Join (v # vs) '','' = v @ CHR '','' # Join vs '',''" using False by (cases vs) simp_all
    have "json_value m d (v @ CHR '','' # rest) = Some (CHR '','' # rest)"
      by (rule good_value_reads [OF v _ Cons.prems(4)]) (use Cons.prems(3) n joined in simp_all)
    moreover have "json_elements m d rest = Some t"
      unfolding rest_def
      by (rule Cons.IH [OF False]) (use Cons.prems joined n ne in simp_all)
    moreover have "ws rest = rest"
      unfolding rest_def by (rule join_value_ws [OF False, of k]) (use Cons.prems(2) in simp)
    moreover have "Join (v # vs) '','' @ CHR '']'' # t = v @ CHR '','' # rest"
      by (simp add: joined rest_def)
    ultimately show ?thesis by (simp add: n starts_def)
  qed
qed simp

lemma array_reads:
  assumes "list_all (good_value k) vs" "length (json_array vs) < n" "d + Suc k \<le> maxNestingDepth"
  shows "json_value n d (json_array vs @ t) = Some t"
proof (cases n)
  case (Suc m)
  show ?thesis
  proof (cases "vs = []")
    case True
    then show ?thesis using assms(3) Suc by (simp add: json_array_def starts_def)
  next
    case False
    have "json_elements m (d + 1) (Join vs '','' @ CHR '']'' # t) = Some t"
      by (rule elements_read [OF False assms(1)]) (use assms Suc in \<open>simp_all add: json_array_def\<close>)
    then show ?thesis
      using assms(3) Suc join_value_ws [OF False assms(1), of "CHR '']'' # t"] by (simp add: json_array_def)
  qed
qed (use assms in simp)

lemma good_array: "list_all (good_value k) vs \<Longrightarrow> good_value (Suc k) (json_array vs)"
  using array_reads [of k vs]
  by (auto simp: good_value_def json_array_def isWS_def kindOf_def)

section \<open>Reading an object back\<close>

text \<open>What a span of a text holds: the kind of its value and the value.\<close>

definition span_text :: "string \<Rightarrow> span \<Rightarrow> span_kind \<times> string" where
  "span_text buf sp = (sp_kind sp, span_raw sp buf)"

definition value_text :: "string \<Rightarrow> span_kind \<times> string" where
  "value_text v = (kindOf (hd v), v)"

lemma span_at:
  assumes "buf = pre @ v @ post"
  shows "span_raw \<lparr>sp_off = length pre, sp_len = length v, sp_kind = kindOf (hd v)\<rparr> buf =
     (if kindOf (hd v) = KAbsent then [] else v)"
  using assms by (simp add: span_raw_def span_inside_def)

lemma field_span:
  assumes "good_value k v" "suffix (v @ t) buf"
  shows "span_text buf \<lparr>sp_off = pos buf (v @ t), sp_len = length (v @ t) - length t, sp_kind = kindOf (hd (v @ t))\<rparr> = value_text v"
proof -
  obtain pre where buf: "buf = pre @ v @ t" using assms(2) by (auto simp: suffix_def)
  have "v \<noteq> []" "kindOf (hd v) \<noteq> KAbsent" using assms(1) by (simp_all add: good_value_def)
  then show ?thesis
    using span_at [OF buf] buf by (simp add: span_text_def value_text_def pos_def)
qed

lemma key_taken:
  "take (length (tl (json_member kv @ t)) - length (CHR '':'' # snd kv @ t) - 1) (tl (json_member kv @ t)) =
     escape_text (fst kv)"
  by (simp add: member_text)

lemma fields_read:
  assumes "kvs \<noteq> []" "good_members k kvs" "length (Join (map json_member kvs) '','') < n" "d + k \<le> maxNestingDepth"
    "suffix (Join (map json_member kvs) '','' @ CHR ''}'' # t) buf"
  shows "map (\<lambda>f. (fst f, span_text buf (snd f))) (json_fields n d buf (Join (map json_member kvs) '','' @ CHR ''}'' # t)) =
     map (\<lambda>kv. (escape_text (fst kv), value_text (snd kv))) kvs"
  using assms
proof (induction kvs arbitrary: n)
  case (Cons kv kvs)
  obtain m where n: "n = Suc m" using Cons.prems(3) by (cases n) auto
  have v: "good_value k (snd kv)" using Cons.prems(2) by (simp add: good_members_def)
  have len: "length (snd kv) < m"
    using Cons.prems(3) n by (cases kvs) (simp_all add: json_member_def quote_text_def)
  define rest where "rest = (if kvs = [] then CHR ''}'' # t else CHR '','' # Join (map json_member kvs) '','' @ CHR ''}'' # t)"
  have whole: "Join (map json_member (kv # kvs)) '','' @ CHR ''}'' # t = json_member kv @ rest"
    by (cases kvs) (simp_all add: rest_def)
  have inside: "suffix (snd kv @ rest) buf"
  proof -
    have "suffix (snd kv @ rest) (json_member kv @ rest)" by (auto simp: json_member_def suffix_def)
    then show ?thesis using Cons.prems(5) unfolding whole by (rule suffix_order.trans)
  qed
  have "json_value m d (snd kv @ rest) = Some rest"
    by (rule good_value_reads [OF v len Cons.prems(4)]) (simp add: rest_def)
  then have first: "json_fields n d buf (json_member kv @ rest) =
      (escape_text (fst kv), \<lparr>sp_off = pos buf (snd kv @ rest), sp_len = length (snd kv @ rest) - length rest,
        sp_kind = kindOf (hd (snd kv @ rest))\<rparr>) #
      (if starts (CHR '','') (ws rest) then json_fields m d buf (ws (tl (ws rest))) else [])"
    using v key_taken [of kv rest] by (simp only: n json_fields.simps member_key option.case member_value Let_def)
  show ?case
  proof (cases "kvs = []")
    case True
    then show ?thesis
      unfolding whole first using field_span [OF v inside] by (simp add: rest_def starts_def)
  next
    case False
    define more where "more = Join (map json_member kvs) '','' @ CHR ''}'' # t"
    have rest: "rest = CHR '','' # more" using False by (simp add: rest_def more_def)
    have "ws more = more" unfolding more_def by (rule join_member_ws [OF False])
    moreover have "map (\<lambda>f. (fst f, span_text buf (snd f))) (json_fields m d buf more) =
        map (\<lambda>kv. (escape_text (fst kv), value_text (snd kv))) kvs"
      unfolding more_def
    proof (rule Cons.IH [OF False])
      have joined: "Join (map json_member (kv # kvs)) '','' = json_member kv @ CHR '','' # Join (map json_member kvs) '',''"
        using False by (auto simp: neq_Nil_conv)
      show "length (Join (map json_member kvs) '','') < m" using Cons.prems(3) n unfolding joined by simp
      have "suffix more (snd kv @ rest)" by (auto simp: rest suffix_def)
      then show "suffix (Join (map json_member kvs) '','' @ CHR ''}'' # t) buf"
        using inside unfolding more_def by (rule suffix_order.trans)
    qed (use Cons.prems in \<open>simp_all add: good_members_def\<close>)
    ultimately show ?thesis
      unfolding whole first using field_span [OF v inside] by (simp add: rest starts_def)
  qed
qed simp

lemma object_fields_read:
  assumes "good_members k kvs" "Suc k \<le> maxNestingDepth"
  shows "map (\<lambda>f. (fst f, span_text (json_object kvs) (snd f))) (object_fields (json_object kvs)) =
     map (\<lambda>kv. (escape_text (fst kv), value_text (snd kv))) kvs"
proof (cases "kvs = []")
  case True
  then show ?thesis by (simp add: object_fields_def json_object_def starts_def ws_def isWS_def)
next
  case False
  define ms where "ms = Join (map json_member kvs) '','' @ CHR ''}'' # []"
  have whole: "json_object kvs = CHR ''{'' # ms" by (simp add: json_object_def ms_def)
  have w: "ws ms = ms" unfolding ms_def by (rule join_member_ws [OF False])
  obtain x where x: "ms = CHR 0x22 # x" using join_member_starts [OF False] unfolding ms_def by blast
  have "object_fields (json_object kvs) = json_fields (length (json_object kvs)) 1 (json_object kvs) ms"
    using w x by (simp add: object_fields_def whole starts_def ws_def isWS_def)
  moreover have "map (\<lambda>f. (fst f, span_text (json_object kvs) (snd f))) (json_fields (length (json_object kvs)) 1 (json_object kvs) ms) =
      map (\<lambda>kv. (escape_text (fst kv), value_text (snd kv))) kvs"
    unfolding ms_def
    by (rule fields_read [OF False assms(1)]) (use assms(2) in \<open>auto simp: json_object_def suffix_def\<close>)
  ultimately show ?thesis by simp
qed

lemma object_valid:
  assumes "good_members k kvs" "Suc k \<le> maxNestingDepth"
  shows "json_valid (json_object kvs)" "starts (CHR ''{'') (ws (json_object kvs))"
proof -
  have w: "ws (json_object kvs) = json_object kvs" by (simp add: json_object_def ws_def isWS_def)
  have "json_value (length (json_object kvs) + 1) 0 (json_object kvs @ []) = Some []"
    by (rule object_reads [OF assms(1)]) (use assms(2) in simp_all)
  then have "json_value (length (json_object kvs) + 1) 0 (ws (json_object kvs)) = Some []" by (simp only: w append_Nil2)
  then show "json_valid (json_object kvs)" unfolding json_valid_def by (simp only: option.case) (simp add: ws_def)
  show "starts (CHR ''{'') (ws (json_object kvs))" by (simp add: w) (simp add: json_object_def starts_def)
qed

section \<open>Keys looked up\<close>

text \<open>A key the writer leaves as it is: printable ASCII with nothing to escape.\<close>

definition plain_key :: "string \<Rightarrow> bool" where
  "plain_key k \<longleftrightarrow> list_all (\<lambda>c. html_safe c \<and> byte c < (0x80::nat)) k"

lemma plain_escape: "plain_key k \<Longrightarrow> escape_text k = k"
proof (induction k)
  case Nil
  then show ?case by (simp add: escape_text.simps [of "[]"])
next
  case (Cons c k)
  then show ?case by (simp add: plain_key_def escape_text.simps [of "c # k"] escape_ascii_def)
qed

lemma plain_key_text: "plain_key k \<Longrightarrow> key_text (escape_text k) = k"
  by (auto simp: plain_escape key_text_def) (auto simp: plain_key_def list_all_iff html_safe_def)

definition member_of :: "(string \<times> string) list \<Rightarrow> string \<Rightarrow> span_kind \<times> string" where
  "member_of kvs k = (case map_of (rev kvs) k of None \<Rightarrow> (KAbsent, []) | Some v \<Rightarrow> value_text v)"

lemma member_of_snoc: "member_of (kvs @ [kv]) k = (if fst kv = k then value_text (snd kv) else member_of kvs k)"
  by (cases kv) (simp add: member_of_def)

lemma last_field_member:
  "list_all (\<lambda>kv. plain_key (fst kv)) kvs \<Longrightarrow>
   map (\<lambda>f. (fst f, span_text buf (snd f))) fs = map (\<lambda>kv. (escape_text (fst kv), value_text (snd kv))) kvs \<Longrightarrow>
   span_text buf (last_field fs k) = member_of kvs k"
proof (induction kvs arbitrary: fs rule: rev_induct)
  case Nil
  then show ?case by (simp add: last_field_def member_of_def span_text_def no_span_def span_raw_def)
next
  case (snoc kv kvs)
  then obtain gs f where fs: "fs = gs @ [f]" by (cases fs rule: rev_cases) auto
  then have "fst f = escape_text (fst kv)" "span_text buf (snd f) = value_text (snd kv)"
    "map (\<lambda>f. (fst f, span_text buf (snd f))) gs = map (\<lambda>kv. (escape_text (fst kv), value_text (snd kv))) kvs"
    using snoc.prems(2) by simp_all
  then show ?case using snoc plain_key_text [of "fst kv"] by (simp add: fs last_field_snoc member_of_snoc)
qed

lemma Top_object:
  assumes "distinct ks" "list_all (\<lambda>k. length k \<le> maxKeyBytes) ks" "length out = length ks"
    and "list_all (\<lambda>kv. plain_key (fst kv)) kvs" "good_members k kvs" "Suc k \<le> maxNestingDepth"
    and "length (json_object kvs) \<le> MaxInt32"
  shows "snd (Top (json_object kvs) (NewKeySet ks) out) = None"
    and "map (span_text (json_object kvs)) (fst (Top (json_object kvs) (NewKeySet ks) out)) = map (member_of kvs) ks"
proof -
  note valid = object_valid [OF assms(5,6)]
  have "\<not> starts (CHR ''n'') (ws (json_object kvs))" using valid(2) by (simp add: starts_def)
  then have top: "Top (json_object kvs) (NewKeySet ks) out = (map (last_field (object_fields (json_object kvs))) ks, None)"
    using valid assms(7) top_reading [OF assms(1,2,3), of "json_object kvs"] by simp
  then show "snd (Top (json_object kvs) (NewKeySet ks) out) = None" by simp
  show "map (span_text (json_object kvs)) (fst (Top (json_object kvs) (NewKeySet ks) out)) = map (member_of kvs) ks"
    using last_field_member [OF assms(4) object_fields_read [OF assms(5,6)]] by (simp add: top)
qed

lemma string_body:
  assumes "span_text buf sp = (KString, quote_text s)"
  shows "span_body buf sp = Inr (escape_text s)"
proof -
  have raw: "sp_kind sp = KString" "span_raw sp buf = quote_text s" using assms by (simp_all add: span_text_def)
  then have inside: "span_inside sp buf" "take (sp_len sp) (drop (sp_off sp) buf) = quote_text s"
    by (auto simp: span_raw_def quote_text_def split: if_splits)
  then have len: "sp_len sp = length (quote_text s)"
    by (metis add_diff_cancel_left' length_drop length_take min.absorb2 diff_le_mono span_inside_def)
  have "take (sp_len sp - 2) (drop (sp_off sp + 1) buf) = take (sp_len sp - 2) (tl (take (sp_len sp) (drop (sp_off sp) buf)))"
    by (simp add: tl_take drop_Suc tl_drop min_def len)
  then show ?thesis
    using inside len raw(1) by (simp add: span_body_def quote_text_def)
qed

lemma Head_is:
  assumes "span_text buf sp = (KString, quote_text s)" "ValidString s"
  shows "(case Head buf sp (length want + 1) of Inl e \<Rightarrow> False | Inr r \<Rightarrow> \<not> snd r \<and> fst r = want) \<longleftrightarrow> s = want"
proof -
  have u: "unescape (escape_text s) = s" by (simp add: unescape_escape_text valid_text_id assms(2))
  note head = unescapeHead_spec [of "[]" "length want + 1" "escape_text s", unfolded u append_Nil]
  show ?thesis
    using head by (auto simp: Head_def string_body [OF assms(1)] split: if_splits)
qed

section \<open>Strings written and read\<close>

lemma ValidString_ascii: "byte c < (0x80 :: nat) \<Longrightarrow> ValidString (c # s) = ValidString s"
  by (subst ValidString.simps) (simp add: DecodeRune_def RuneError_def)

lemma ValidString_nil [simp]: "ValidString []"
  by (simp add: ValidString.simps [of "[]"])

lemma ValidString_plain: "list_all (\<lambda>c. byte c < (0x80 :: nat)) a \<Longrightarrow> ValidString (a @ s) = ValidString s"
  by (induction a) (simp_all add: ValidString_ascii)

definition string_members :: "(string \<times> string) list \<Rightarrow> (string \<times> string) list" where
  "string_members kvs = map (\<lambda>kv. (fst kv, quote_text (snd kv))) kvs"

lemma kindOf_quote: "value_text (quote_text s) = (KString, quote_text s)"
  by (simp add: value_text_def quote_text_def kindOf_def)

lemma map_of_rev_distinct: "distinct (map fst kvs) \<Longrightarrow> map_of (rev kvs) = map_of kvs"
  by (rule map_of_inject_set [THEN iffD2]) (simp_all add: rev_map [symmetric])

lemma member_of_strings:
  assumes "distinct (map fst kvs)" "(k, s) \<in> set kvs"
  shows "member_of (string_members kvs) k = (KString, quote_text s)"
proof -
  have "distinct (map fst (string_members kvs))" using assms(1) by (simp add: string_members_def comp_def)
  moreover have "(k, quote_text s) \<in> set (string_members kvs)" using assms(2) by (force simp: string_members_def)
  ultimately have "map_of (rev (string_members kvs)) k = Some (quote_text s)"
    by (simp add: map_of_rev_distinct)
  then show ?thesis by (simp add: member_of_def kindOf_quote)
qed

lemma string_read: "span_text buf sp = (KString, quote_text s) \<Longrightarrow> ValidString s \<Longrightarrow> DecodeString buf sp = Inr s"
  by (simp add: DecodeString_def string_body unescape_escape_text valid_text_id)

text \<open>
  C39: what encoding/json writes, the scanner reads back: of an object whose members are strings, the
  walk finds each wanted key's value, whatever its text holds (quotes, backslashes, control
  bytes, characters HTML escapes, any valid UTF-8), and decoding the span gives the string that
  was written.
\<close>

theorem strings_read_back:
  assumes "distinct (map fst kvs)" "list_all (\<lambda>kv. plain_key (fst kv) \<and> length (fst kv) \<le> maxKeyBytes) kvs"
    and "list_all (\<lambda>kv. ValidString (snd kv)) kvs" "length (json_object (string_members kvs)) \<le> MaxInt32"
  shows "case Top (json_object (string_members kvs)) (NewKeySet (map fst kvs)) (replicate (length kvs) no_span) of
      (spans, err) \<Rightarrow>
        err = None \<and> map (DecodeString (json_object (string_members kvs))) spans = map (\<lambda>kv. Inr (snd kv)) kvs"
proof -
  let ?buf = "json_object (string_members kvs)"
  have keys: "list_all (\<lambda>k. length k \<le> maxKeyBytes) (map fst kvs)" using assms(2) by (simp add: list_all_iff)
  have plain: "list_all (\<lambda>kv. plain_key (fst kv)) (string_members kvs)"
    using assms(2) by (simp add: list_all_iff string_members_def)
  have good: "good_members 0 (string_members kvs)" by (simp add: good_members_def string_members_def list_all_iff good_quote)
  note top = Top_object [OF assms(1) keys, of "replicate (length kvs) no_span" "string_members kvs" 0]
  obtain spans err where run: "Top ?buf (NewKeySet (map fst kvs)) (replicate (length kvs) no_span) = (spans, err)"
    by (cases "Top ?buf (NewKeySet (map fst kvs)) (replicate (length kvs) no_span)")
  have ok: "err = None" "map (span_text ?buf) spans = map (\<lambda>kv. (KString, quote_text (snd kv))) kvs"
    using top plain good assms(4) member_of_strings [OF assms(1)] run
    by (simp_all add: maxNestingDepth_def)
  then have len: "length spans = length kvs" by (metis length_map)
  have "DecodeString ?buf (spans ! i) = Inr (snd (kvs ! i))" if "i < length kvs" for i
  proof (rule string_read)
    show "span_text ?buf (spans ! i) = (KString, quote_text (snd (kvs ! i)))"
      using ok(2) that len by (metis (no_types, lifting) nth_map)
    show "ValidString (snd (kvs ! i))" using assms(3) that by (simp add: list_all_length)
  qed
  then have "map (DecodeString ?buf) spans = map (\<lambda>kv. Inr (snd kv)) kvs"
    using len by (intro nth_equalityI) simp_all
  then show ?thesis using ok(1) run by simp
qed

theorem strings_read_back_witness:
  "case Top (json_object (string_members [(''k'', [CHR 0x22, CHR 0x0A])])) (NewKeySet [''k'']) [no_span] of
      (spans, err) \<Rightarrow>
        err = None \<and>
        map (DecodeString (json_object (string_members [(''k'', [CHR 0x22, CHR 0x0A])]))) spans = [Inr [CHR 0x22, CHR 0x0A]]"
proof -
  have quoted: "quote_text [CHR 0x22, CHR 0x0A] = [CHR 0x22, CHR 0x5C, CHR 0x22, CHR 0x5C, CHR ''n'', CHR 0x22]"
    by (simp add: quote_text_def escape_text.simps escape_ascii_def html_safe_def)
  have "length (json_object (string_members [(''k'', [CHR 0x22, CHR 0x0A])])) \<le> MaxInt32"
    by (simp add: json_object_def string_members_def json_member_def quoted plain_escape plain_key_def html_safe_def
        quote_text_def [of "''k''"] MaxInt32_def)
  then show ?thesis
    using strings_read_back [of "[(''k'', [CHR 0x22, CHR 0x0A])]"]
    by (simp add: plain_key_def html_safe_def maxKeyBytes_def ValidString.simps [of "_ # _"] ValidString.simps [of "[]"]
        DecodeRune_def RuneError_def)
qed

end
