(* ===== verification/SteerFinding.thy ===== *)
theory SteerFinding
  imports Render JsonObject
begin

text \<open>
  A finding and the output it may become, \<^verbatim>\<open>internal/steer\<close> (finding.go and the admission of
  route.go): the checks a finding passes before the router, and the one JSON object a hook prints,
  with the keys each event allows.
\<close>

section \<open>Findings\<close>

record Finding =
  f_Pattern :: string
  f_Kind :: string
  f_Key :: string
  f_Priority :: int
  f_MaxLevel :: nat
  f_StopForm :: string
  f_Message :: Message
  f_Record :: Message
  f_Evidence :: "int list"
  f_AfterSeq :: int
  f_AgentID :: string
  f_OutcomeFrom :: string

definition OutcomeFromOutputSummary :: string where
  "OutcomeFromOutputSummary = ''output_summary''"

datatype finding_error = OutsideContract | AfterSeqLow

text \<open>The patterns, and the one kind, the model never sees.\<close>

definition userOnly :: "Finding \<Rightarrow> bool" where
  "userOnly f \<longleftrightarrow>
     f_Pattern f \<in> {''integrity'', ''sequence-risk'', ''model-switch''} \<or>
     f_Pattern f = ''claim-vs-record'' \<and> f_Kind f = ''masked''"

text \<open>The pattern stands on its own channel's event.\<close>

definition ownChannel :: "string \<Rightarrow> string \<Rightarrow> bool" where
  "ownChannel p event \<longleftrightarrow> p = ''continuity-briefing'' \<and> (event = EventSessionStart \<or> event = EventUserPromptSubmit)"

fun evidence_from :: "int \<Rightarrow> int \<Rightarrow> int list \<Rightarrow> bool" where
  "evidence_from prev after [] = True"
| "evidence_from prev after (s # ss) = (1 \<le> s \<and> s \<le> after \<and> prev < s \<and> evidence_from s after ss)"

definition checkSeqs :: "int \<Rightarrow> Finding \<Rightarrow> finding_error option" where
  "checkSeqs floor f =
     (if f_AfterSeq f < floor then Some AfterSeqLow
      else if \<not> evidence_from 0 (f_AfterSeq f) (f_Evidence f) then Some OutsideContract
      else None)"

definition check_finding :: "bool \<Rightarrow> Finding \<Rightarrow> finding_error option" where
  "check_finding own f =
     (if \<not> KindValid (f_Pattern f) (f_Kind f) then Some OutsideContract
      else if userOnly f \<and> (f_MaxLevel f > LevelFlag \<or> f_StopForm f \<noteq> StopFormNone) then Some OutsideContract
      else if f_MaxLevel f > LevelStop \<or> f_StopForm f \<notin> set AllStopForms then Some OutsideContract
      else if f_StopForm f \<noteq> StopFormNone \<and> f_MaxLevel f \<noteq> LevelStop then Some OutsideContract
      else if m_Template (f_Message f) \<noteq> [] \<and> m_Pattern (f_Message f) \<noteq> f_Pattern f then Some OutsideContract
      else if f_OutcomeFrom f \<noteq> [] \<and> f_OutcomeFrom f \<noteq> OutcomeFromOutputSummary then Some OutsideContract
      else if m_Template (f_Record f) \<noteq> [] \<and> m_Pattern (f_Record f) \<noteq> f_Pattern f then Some OutsideContract
      else if own \<and> Priority (f_Pattern f) = None \<and> f_Priority f = 0 then checkSeqs 1 f
      else if Priority (f_Pattern f) \<noteq> Some (f_Priority f) then Some OutsideContract
      else checkSeqs 1 f)"

definition Check :: "Finding \<Rightarrow> finding_error option" where
  "Check f = check_finding False f"

definition CheckOn :: "string \<Rightarrow> Finding \<Rightarrow> finding_error option" where
  "CheckOn event f =
     (let own = ownChannel (f_Pattern f) event; e = check_finding own f in
      if event \<noteq> EventUserPromptSubmit \<and> event \<noteq> EventSessionStart \<or> f_AfterSeq f \<noteq> 0 then e
      else if e \<noteq> Some AfterSeqLow then e
      else checkSeqs 0 f)"

definition admit :: "string \<Rightarrow> Finding list \<Rightarrow> Finding list" where
  "admit event fs = filter (\<lambda>f. CheckOn event f = None) fs"

text \<open>How many were dropped, which the package counts.\<close>

definition dropped_by :: "string \<Rightarrow> Finding list \<Rightarrow> nat" where
  "dropped_by event fs = length (filter (\<lambda>f. CheckOn event f \<noteq> None) fs)"

section \<open>The output of a hook\<close>

record PreDecision =
  pd_Ask :: bool
  pd_Reason :: string

record Output =
  o_SystemMessage :: string
  o_AdditionalContext :: string
  o_Decision :: "PreDecision option"
  o_StopContinue :: string

definition no_output :: Output where
  "no_output = \<lparr>o_SystemMessage = [], o_AdditionalContext = [], o_Decision = None, o_StopContinue = []\<rparr>"

datatype marshal_error =
    UnknownEvent | DecisionWrongEvent | StopContinueWrongEvent | AdditionalContextWrongEvent | DecisionRequired
  | InvalidUTF8 | UnverifiedChannel

definition check_output :: "Output \<Rightarrow> eventKeys \<Rightarrow> marshal_error option" where
  "check_output o' keys =
     (if o_Decision o' \<noteq> None \<and> \<not> ek_decision keys then Some DecisionWrongEvent
      else if o_StopContinue o' \<noteq> [] \<and> \<not> ek_stopContinue keys then Some StopContinueWrongEvent
      else if o_AdditionalContext o' \<noteq> [] \<and> \<not> ek_context keys then Some AdditionalContextWrongEvent
      else None)"

definition output_valid_utf8 :: "Output \<Rightarrow> bool" where
  "output_valid_utf8 o' \<longleftrightarrow>
     list_all ValidString
       [o_SystemMessage o', o_AdditionalContext o', o_StopContinue o',
        (case o_Decision o' of None \<Rightarrow> [] | Some d \<Rightarrow> pd_Reason d)]"

definition hook_output :: "Output \<Rightarrow> string \<Rightarrow> (string \<times> string) list" where
  "hook_output o' event =
     (let context = (if o_StopContinue o' \<noteq> [] then o_StopContinue o' else o_AdditionalContext o') in
      (if context = [] then [] else [(''additionalContext'', quote_text context)]) @
      (if context = [] \<and> o_Decision o' = None then [] else [(''hookEventName'', quote_text event)]) @
      (case o_Decision o' of
         None \<Rightarrow> []
       | Some d \<Rightarrow> [(''permissionDecision'', quote_text (if pd_Ask d then ''ask'' else ''deny'')),
                     (''permissionDecisionReason'', quote_text (pd_Reason d))]))"

definition output_text :: "Output \<Rightarrow> string \<Rightarrow> string" where
  "output_text o' event =
     (let hso = hook_output o' event in
      json_object
        ((if hso = [] then [] else [(''hookSpecificOutput'', json_object hso)]) @
         (if o_SystemMessage o' = [] then [] else [(''systemMessage'', quote_text (o_SystemMessage o'))])))"

text \<open>What is printed: an error, nothing, or the text of the object.\<close>

definition marshalFor :: "Output \<Rightarrow> string \<Rightarrow> Client \<Rightarrow> (string \<times> string \<rightharpoonup> channelBasis) \<Rightarrow> marshal_error + string option" where
  "marshalFor o' event c table =
     (case outputKeys event of
        None \<Rightarrow> Inl UnknownEvent
      | Some keys \<Rightarrow>
          (case check_output o' keys of
             Some e \<Rightarrow> Inl e
           | None \<Rightarrow>
               if o' = no_output then Inr None
               else if ek_decision keys \<and> o_Decision o' = None then Inl DecisionRequired
               else if \<not> output_valid_utf8 o' then Inl InvalidUTF8
               else if o_AdditionalContext o' \<noteq> [] \<and> \<not> verified keys event c table then Inl UnverifiedChannel
               else if o_Decision o' \<noteq> None \<and> \<not> verified keys event c table then Inl UnverifiedChannel
               else Inr (Some (output_text o' event))))"

definition MarshalFor :: "Output \<Rightarrow> string \<Rightarrow> Client \<Rightarrow> marshal_error + string option" where
  "MarshalFor o' event c = marshalFor o' event c mirrorVerifiedOn"

end
