(* ===== verification/SteerDecide.thy ===== *)
theory SteerDecide
  imports SteerFinding
begin

text \<open>
  The router's decision, \<^verbatim>\<open>internal/steer\<close> (decide.go, delivery.go): the admitted findings in
  rank order become plans, the prompt's budget decides which one note or one flag prints, and
  every finding leaves one line that says why it did or did not. It reads no clock and no file:
  the counts of the prompt, the client and the ids minted are arguments.
\<close>

section \<open>The context and the counts\<close>

record Context =
  ct_Event :: string
  ct_SessionID :: string
  ct_PromptID :: "string option"
  ct_AgentID :: string
  ct_Project :: string
  ct_InvocationID :: string
  ct_HarnessID :: string
  ct_Surface :: string
  ct_NowUnixMS :: int
  ct_Consent :: bool
  ct_SteerOff :: bool
  ct_ConfigUnreadable :: bool
  ct_Arm :: arm
  ct_Attendance :: attendance
  ct_StopHookActive :: bool
  ct_Holdout :: bool

type_synonym findingKey = "string \<times> string \<times> string"

record counts =
  k_notes :: nat
  k_flags :: nat
  k_keys :: "findingKey list"

definition maxNotes :: nat where
  "maxNotes = 3"

definition maxFlags :: nat where
  "maxFlags = 5"

datatype channelRule = ruleNoChannel | ruleContext | ruleFlagOnly

definition ruleOf :: "string \<Rightarrow> channelRule" where
  "ruleOf e =
     (case outputKeys e of
        None \<Rightarrow> ruleNoChannel
      | Some k \<Rightarrow> if ek_decision k then ruleNoChannel else if ek_context k then ruleContext else ruleFlagOnly)"

text \<open>Priority first, then the lower point, then the order given; and the own channel before all.\<close>

definition rank :: "Finding list \<Rightarrow> Finding list" where
  "rank fs = sort_key (\<lambda>f. (- f_Priority f, f_AfterSeq f)) fs"

definition ownFirst :: "string \<Rightarrow> Finding list \<Rightarrow> Finding list" where
  "ownFirst event fs = sort_key (\<lambda>f. if ownChannel (f_Pattern f) event then (0::nat) else 1) fs"

section \<open>Texts\<close>

definition MaxSteerTextBytes :: nat where
  "MaxSteerTextBytes = 2048"

definition withAside :: "string \<Rightarrow> string \<Rightarrow> string" where
  "withAside user aside =
     (if aside = [] then user
      else if user = [] then AsidePrefix @ aside
      else user @ CHR 0x0A # AsidePrefix @ aside)"

text \<open>The model's text and the user's, or why neither may be written.\<close>

definition noteTexts :: "string \<Rightarrow> string \<Rightarrow> bool \<Rightarrow> suppressed_by + (string \<times> string)" where
  "noteTexts t aside brief =
     (if length t > MaxSteerTextBytes then Inl ByOutputGate
      else (case (if brief then MirrorBriefing t else Mirror t) of
        None \<Rightarrow> Inl ByRenderRefused
      | Some m \<Rightarrow>
          (let user = withAside m aside in
           if length user > MaxSteerTextBytes then Inl ByOutputGate else Inr (t, user))))"

definition flagText :: "string \<Rightarrow> string \<Rightarrow> suppressed_by + string" where
  "flagText t aside =
     (let user = withAside t aside in if length user > MaxSteerTextBytes then Inl ByOutputGate else Inr user)"

definition recorded :: "Finding \<Rightarrow> Message" where
  "recorded f = (if m_Template (f_Record f) \<noteq> [] then f_Record f else f_Message f)"

text \<open>The slots a line records; \<open>None\<close> where one has no row or two would write one key.\<close>

definition slotsOf :: "Message \<Rightarrow> (string \<times> string) list option" where
  "slotsOf m =
     (if list_ex (\<lambda>s. sl_Line s = None) (m_Slots m) then None
      else (let entries = concat (map (\<lambda>s. the (sl_Line s)) (m_Slots m)) in
            if distinct (map fst entries) then Some entries else None))"

section \<open>Plans\<close>

record plan =
  p_f :: Finding
  p_key :: findingKey
  p_level :: nat
  p_state :: "line_state option"
  p_by :: "suppressed_by option"
  p_slots :: "(string \<times> string) list"
  p_model :: string
  p_user :: string
  p_recModel :: string
  p_recUser :: string
  p_decide :: bool
  p_holdout :: bool
  p_direct :: bool

definition suppress :: "suppressed_by \<Rightarrow> plan \<Rightarrow> plan" where
  "suppress r p = p\<lparr>p_state := Some StateSuppressed, p_by := Some r, p_decide := False\<rparr>"

definition clampReason :: "Context \<Rightarrow> bool \<Rightarrow> suppressed_by option" where
  "clampReason ctx direct =
     (if ct_ConfigUnreadable ctx then Some ByConfigUnreadable
      else if ct_SteerOff ctx then Some BySteerOff
      else if \<not> ct_Consent ctx then Some ByConsentMissing
      else if ct_PromptID ctx = None \<and> \<not> direct then Some ByBudgetPrompt
      else if ct_Event ctx = EventStop \<and> ct_StopHookActive ctx then Some ByStopHookActive
      else None)"

definition findingKey_of :: "Finding \<Rightarrow> findingKey" where
  "findingKey_of f = (f_Pattern f, f_Kind f, f_Key f)"

text \<open>The level a finding may have at most: stop needs a project setting that does not exist.\<close>

definition base_level :: "Finding \<Rightarrow> nat" where
  "base_level f = (if f_MaxLevel f = LevelStop then LevelNudge else f_MaxLevel f)"

definition fresh_plan :: "Context \<Rightarrow> Finding \<Rightarrow> plan" where
  "fresh_plan ctx f =
     \<lparr>p_f = f, p_key = findingKey_of f, p_level = base_level f, p_state = None, p_by = None, p_slots = [],
      p_model = [], p_user = [], p_recModel = [], p_recUser = [], p_decide = True, p_holdout = False,
      p_direct = ownChannel (f_Pattern f) (ct_Event ctx)\<rparr>"

definition clamped :: "Context \<Rightarrow> plan \<Rightarrow> plan" where
  "clamped ctx p =
     (if p_level p = LevelNudge
      then (case clampReason ctx (p_direct p) of
              None \<Rightarrow> p
            | Some r \<Rightarrow> p\<lparr>p_level := LevelFlag, p_by := Some r\<rparr>)
      else p)"

definition demoted :: "channelRule \<Rightarrow> plan \<Rightarrow> plan" where
  "demoted rule p =
     (let q = (if p_level p = LevelNudge \<and> rule = ruleFlagOnly then p\<lparr>p_level := LevelFlag\<rparr> else p) in
      if p_level q = LevelNudge \<and> m_Text (f_Message (p_f q)) = [] then q\<lparr>p_level := LevelFlag\<rparr> else q)"

definition gated :: "Context \<Rightarrow> Client \<Rightarrow> channelRule \<Rightarrow> findingKey list \<Rightarrow> plan \<Rightarrow> plan" where
  "gated ctx c rule claimed p =
     (let m = f_Message (p_f p); slots = slotsOf (recorded (p_f p));
          q = p\<lparr>p_slots := (case slots of None \<Rightarrow> [] | Some s \<Rightarrow> s)\<rparr> in
      if rule = ruleNoChannel then suppress ByNoChannel q
      else if p_key q \<in> set claimed then suppress ByBudgetPattern q
      else if m_Text m = [] \<and> m_Aside m = [] \<or> slots = None then suppress ByRenderRefused q
      else if p_level q = LevelNudge \<and> \<not> ContextAllowed (ct_Event ctx) c then suppress ByUnverifiedChannel q
      else if p_level q = LevelNudge \<and> ct_Attendance ctx = Unattended then suppress ByNoMirror q
      else q)"

text \<open>The texts of the record form, where the producer set one.\<close>

definition recordTexts :: "plan \<Rightarrow> plan" where
  "recordTexts p =
     (let r = f_Record (p_f p) in
      if m_Template r = [] then p
      else if p_level p = LevelNudge
      then (case noteTexts (m_Text r) (m_Aside r) (briefing (f_Pattern (p_f p))) of
              Inl e \<Rightarrow> suppress e p
            | Inr (model, user) \<Rightarrow> p\<lparr>p_recModel := model, p_recUser := user\<rparr>)
      else (case flagText (m_Text r) (m_Aside r) of
              Inl e \<Rightarrow> suppress e p
            | Inr user \<Rightarrow> p\<lparr>p_recUser := user\<rparr>))"

definition with_texts :: "plan \<Rightarrow> plan" where
  "with_texts p =
     (let m = f_Message (p_f p) in
      if \<not> p_decide p then p
      else if p_level p = LevelNudge
      then (case noteTexts (m_Text m) (m_Aside m) (briefing (f_Pattern (p_f p))) of
              Inl e \<Rightarrow> suppress e p
            | Inr (model, user) \<Rightarrow> recordTexts (p\<lparr>p_model := model, p_user := user\<rparr>))
      else (case flagText (m_Text m) (m_Aside m) of
              Inl e \<Rightarrow> suppress e p
            | Inr user \<Rightarrow> recordTexts (p\<lparr>p_user := user\<rparr>)))"

definition plan_of :: "Context \<Rightarrow> Client \<Rightarrow> findingKey list \<Rightarrow> Finding \<Rightarrow> plan" where
  "plan_of ctx c claimed f =
     (let rule = ruleOf (ct_Event ctx) in
      with_texts (gated ctx c rule claimed (demoted rule (clamped ctx (fresh_plan ctx f)))))"

fun plans_of :: "Context \<Rightarrow> Client \<Rightarrow> findingKey list \<Rightarrow> Finding list \<Rightarrow> plan list" where
  "plans_of ctx c claimed [] = []"
| "plans_of ctx c claimed (f # fs) =
     (if f_MaxLevel f = LevelOff then plans_of ctx c claimed fs
      else plan_of ctx c claimed f # plans_of ctx c (findingKey_of f # claimed) fs)"

section \<open>The budget\<close>

text \<open>The pass over the notes, with whether one has delivered; and the pass over the flags.\<close>

definition charge_note :: "counts \<Rightarrow> bool \<Rightarrow> plan \<Rightarrow> plan \<times> bool" where
  "charge_note spent took p =
     (if \<not> p_decide p \<or> p_level p \<noteq> LevelNudge then (p, took)
      else if p_key p \<in> set (k_keys spent) then (suppress ByBudgetPattern p, took)
      else if p_direct p \<and> \<not> took then (p\<lparr>p_state := Some StateDelivered, p_decide := False\<rparr>, True)
      else if took
      then (p\<lparr>p_state := Some StateSuperseded, p_by := Some ByBudgetBatch, p_decide := False\<rparr>, took)
      else if k_notes spent + Reserve (f_Pattern (p_f p)) \<ge> maxNotes then (suppress ByBudgetPrompt p, took)
      else (p\<lparr>p_state := Some StateDelivered, p_decide := False\<rparr>, True))"

definition charge_flag :: "counts \<Rightarrow> bool \<Rightarrow> bool \<Rightarrow> plan \<Rightarrow> plan \<times> bool" where
  "charge_flag spent took flag p =
     (if \<not> p_decide p then (p, flag)
      else if took \<or> flag \<or> k_flags spent \<ge> maxFlags
      then (p\<lparr>p_state := Some StateCandidate, p_decide := False\<rparr>, flag)
      else (p\<lparr>p_state := Some StateDelivered, p_decide := False\<rparr>, True))"

fun pass :: "(bool \<Rightarrow> plan \<Rightarrow> plan \<times> bool) \<Rightarrow> bool \<Rightarrow> plan list \<Rightarrow> plan list \<times> bool" where
  "pass step done [] = ([], done)"
| "pass step done (p # ps) =
     (let r = step done p; rs = pass step (snd r) ps in (fst r # fst rs, snd rs))"

definition charge :: "counts \<Rightarrow> plan list \<Rightarrow> plan list" where
  "charge spent ps =
     (let notes = pass (charge_note spent) False ps in fst (pass (charge_flag spent (snd notes)) False (fst notes)))"

definition delivered :: "plan \<Rightarrow> bool" where
  "delivered p \<longleftrightarrow> p_state p = Some StateDelivered"

definition armOff :: "plan list \<Rightarrow> plan list" where
  "armOff ps = map (\<lambda>p. if delivered p then suppress ByArmOff p else p) ps"

definition holdoutEligible :: "plan \<Rightarrow> bool" where
  "holdoutEligible p \<longleftrightarrow> delivered p \<and> p_level p = LevelNudge"

definition holdOut :: "plan \<Rightarrow> plan" where
  "holdOut p = p\<lparr>p_user := [], p_model := [], p_holdout := True\<rparr>"

text \<open>The plan that prints: the note where one delivered, else the flag.\<close>

definition printed_plan :: "arm \<Rightarrow> plan list \<Rightarrow> plan option" where
  "printed_plan a ps = (if a = ArmOff then None else find delivered ps)"

definition output_of :: "plan option \<Rightarrow> Output" where
  "output_of p =
     (case p of
        None \<Rightarrow> no_output
      | Some x \<Rightarrow> no_output\<lparr>o_AdditionalContext := (if p_level x = LevelNudge then p_model x else []),
                           o_SystemMessage := p_user x\<rparr>)"

section \<open>Lines\<close>

definition budgetReason :: "suppressed_by \<Rightarrow> bool" where
  "budgetReason b \<longleftrightarrow> b = ByBudgetPrompt \<or> b = ByBudgetPattern \<or> b = ByBudgetBatch"

definition DeriveDelivery :: "line_state \<Rightarrow> nat \<Rightarrow> suppressed_by option \<Rightarrow> bool \<Rightarrow> delivery option" where
  "DeriveDelivery state level sb printed =
     (case state of
        StateDelivered \<Rightarrow>
          if level = LevelFlag then Some DeliveryFlagOnly
          else if level = LevelNudge \<or> level = LevelStop then Some DeliveryDelivered else None
      | StateSuppressed \<Rightarrow>
          (case sb of
             None \<Rightarrow> Some DeliveryShadow
           | Some b \<Rightarrow> if budgetReason b then Some DeliverySuppressedBudget else Some DeliveryShadow)
      | StateSuperseded \<Rightarrow> Some DeliverySuppressedBudget
      | StateStale \<Rightarrow> Some DeliveryShadow
      | StateExpired \<Rightarrow> Some (if printed then DeliveryFlagOnly else DeliveryShadow)
      | _ \<Rightarrow> None)"

datatype notice_kind = NoticeChannel | NoticeHoldout

record Line =
  l_ID :: string
  l_At :: int
  l_SessionID :: string
  l_PromptID :: "string option"
  l_AgentID :: "string option"
  l_Project :: string
  l_Pattern :: string
  l_Kind :: string
  l_Key :: string
  l_Level :: string
  l_Channel :: string
  l_Event :: string
  l_Attendance :: attendance
  l_Arm :: arm
  l_AfterSeq :: int
  l_EvidenceSeqs :: "int list"
  l_Slots :: "(string \<times> string) list"
  l_ModelText :: string
  l_UserText :: string
  l_State :: "line_state option"
  l_SuppressedBy :: "suppressed_by option"
  l_InvocationID :: string
  l_Delivery :: "delivery option"
  l_Mirrored :: bool
  l_OutcomeFrom :: "string option"
  l_HarnessID :: string
  l_Surface :: string
  l_ClientVersion :: string
  l_VerifiedFloor :: string
  l_Excluded :: "string list"
  l_Notice :: "notice_kind option"

definition lineOf :: "Context \<Rightarrow> Client \<Rightarrow> plan \<Rightarrow> string \<Rightarrow> Line" where
  "lineOf ctx c p lid =
     (let f = p_f p; shown = delivered p \<and> \<not> p_holdout p; rec = m_Template (f_Record f) \<noteq> [];
          basis = basis_of mirrorVerifiedOn (ct_Event ctx) c in
      \<lparr>l_ID = lid, l_At = ct_NowUnixMS ctx, l_SessionID = ct_SessionID ctx, l_PromptID = ct_PromptID ctx,
       l_AgentID = (if ct_AgentID ctx = [] then None else Some (ct_AgentID ctx)), l_Project = ct_Project ctx,
       l_Pattern = f_Pattern f, l_Kind = f_Kind f, l_Key = f_Key f, l_Level = level_word (p_level p),
       l_Channel = channelOf (ct_Event ctx), l_Event = ct_Event ctx, l_Attendance = ct_Attendance ctx,
       l_Arm = ct_Arm ctx, l_AfterSeq = f_AfterSeq f, l_EvidenceSeqs = f_Evidence f, l_Slots = p_slots p,
       l_ModelText = (if \<not> shown then [] else if rec then p_recModel p else p_model p),
       l_UserText = (if \<not> shown then [] else if rec then p_recUser p else p_user p),
       l_State = p_state p, l_SuppressedBy = p_by p, l_InvocationID = ct_InvocationID ctx,
       l_Delivery = (if p_holdout p \<and> delivered p then Some DeliveryHoldout
                     else Option.bind (p_state p) (\<lambda>s. DeriveDelivery s (p_level p) (p_by p) False)),
       l_Mirrored = shown,
       l_OutcomeFrom = (if f_OutcomeFrom f = [] then None else Some (f_OutcomeFrom f)),
       l_HarnessID = ct_HarnessID ctx, l_Surface = ct_Surface ctx, l_ClientVersion = c_Version c,
       l_VerifiedFloor = cb_floor basis, l_Excluded = cb_excluded basis, l_Notice = None\<rparr>)"

section \<open>The decision\<close>

definition decided :: "Context \<Rightarrow> Client \<Rightarrow> Finding list \<Rightarrow> counts \<Rightarrow> plan list" where
  "decided ctx c fs spent =
     (let ps = charge spent (plans_of ctx c [] (ownFirst (ct_Event ctx) (rank fs)));
          qs = (if ct_Arm ctx = ArmOff then armOff ps else ps) in
      map (\<lambda>p. if ct_Holdout ctx \<and> holdoutEligible p then holdOut p else p) qs)"

text \<open>What prints, and the plans once an output the marshaller refuses is withheld.\<close>

definition printed :: "Context \<Rightarrow> Client \<Rightarrow> plan list \<Rightarrow> Output \<times> plan list" where
  "printed ctx c ps =
     (let o' = output_of (printed_plan (ct_Arm ctx) ps) in
      if o' = no_output then (no_output, ps)
      else (case MarshalFor o' (ct_Event ctx) c of
              Inl e \<Rightarrow> (no_output, map (\<lambda>p. if delivered p then suppress ByOutputGate p else p) ps)
            | Inr t \<Rightarrow> (o', ps)))"

definition decide :: "Context \<Rightarrow> Client \<Rightarrow> Finding list \<Rightarrow> counts \<Rightarrow> (nat \<Rightarrow> string) \<Rightarrow> Output \<times> Line list" where
  "decide ctx c fs spent mint =
     (case printed ctx c (decided ctx c fs spent) of
        (o', ps) \<Rightarrow> (o', map (\<lambda>(i, p). lineOf ctx c p (mint i)) (enumerate 0 ps)))"

end
