(* ===== verification/SteerLog.thy ===== *)
theory SteerLog
  imports SteerDecide
begin

text \<open>
  The steer log of a session: a line's JSON (\<^verbatim>\<open>internal/steer\<close>, line.go) and the append that writes
  a call's lines (\<^verbatim>\<open>internal/store\<close>, steerlog.go, store.go and tail.go). The log is its bytes; what the
  operating system may refuse is an argument, a fault at the step where it stops the append.
\<close>

section \<open>Words\<close>

definition attendance_word :: "attendance \<Rightarrow> string" where
  "attendance_word a = (case a of Attended \<Rightarrow> ''attended'' | Unattended \<Rightarrow> ''unattended'' | Looping \<Rightarrow> ''looping'')"

definition arm_word :: "arm \<Rightarrow> string" where
  "arm_word a = (case a of ArmLive \<Rightarrow> ''live'' | ArmSteer \<Rightarrow> ''steer'' | ArmOff \<Rightarrow> ''off'')"

definition delivery_word :: "delivery \<Rightarrow> string" where
  "delivery_word d = (case d of
       DeliveryDelivered \<Rightarrow> ''delivered'' | DeliveryFlagOnly \<Rightarrow> ''flag_only'' | DeliveryHoldout \<Rightarrow> ''holdout''
     | DeliverySuppressedBudget \<Rightarrow> ''suppressed_budget'' | DeliveryShadow \<Rightarrow> ''shadow'')"

definition notice_word :: "notice_kind \<Rightarrow> string" where
  "notice_word n = (case n of NoticeChannel \<Rightarrow> ''channel'' | NoticeHoldout \<Rightarrow> ''holdout'')"

section \<open>A line's JSON\<close>

definition LineType :: string where "LineType = ''steer''"

definition LineVersion :: nat where "LineVersion = 1"

definition patternVersion :: nat where "patternVersion = 1"

definition RendererVersion :: nat where "RendererVersion = 2"

definition RulesVersion :: nat where "RulesVersion = 13"

text \<open>The columns other parts own are null, or zero, until they fill them.\<close>

definition facts_json :: "Line \<Rightarrow> string" where
  "facts_json l =
     json_object (map (\<lambda>k. (k, ''null'')) [''program'', ''runner_digest'', ''target_id'', ''mechanism_id'', ''class_id'', ''rule_id'']
       @ [(''outcome_from'', json_opt (l_OutcomeFrom l))])"

definition line_members :: "Line \<Rightarrow> (string \<times> string) list" where
  "line_members l =
     [(''type'', quote_text LineType), (''v'', json_nat LineVersion), (''id'', quote_text (l_ID l)),
      (''at_unix_ms'', json_int (l_At l)), (''session_id'', quote_text (l_SessionID l)),
      (''prompt_id'', json_opt (l_PromptID l)), (''agent_id'', json_opt (l_AgentID l)),
      (''project'', quote_text (l_Project l)), (''pattern'', quote_text (l_Pattern l)), (''kind'', quote_text (l_Kind l)),
      (''key'', quote_text (l_Key l)), (''pattern_version'', json_nat patternVersion), (''level'', quote_text (l_Level l)),
      (''channel'', quote_text (l_Channel l)), (''event'', quote_text (l_Event l)),
      (''attendance'', quote_text (attendance_word (l_Attendance l))), (''arm'', quote_text (arm_word (l_Arm l))),
      (''after_seq'', json_int (l_AfterSeq l)), (''evidence_seqs'', json_array (map json_int (l_EvidenceSeqs l))),
      (''slots'', json_object (sort_key fst (l_Slots l))), (''model_text'', quote_text (l_ModelText l)),
      (''user_text'', quote_text (l_UserText l)), (''model_text_withheld'', ''null''), (''user_text_withheld'', ''null''),
      (''state'', quote_text (case l_State l of None \<Rightarrow> [] | Some s \<Rightarrow> state_word s)),
      (''suppressed_by'', json_opt (map_option by_word (l_SuppressedBy l))),
      (''invocation_id'', quote_text (l_InvocationID l)), (''renderer_version'', json_nat RendererVersion),
      (''rules_version'', json_nat RulesVersion), (''steer_id'', quote_text (l_ID l)), (''label_rule'', ''null''),
      (''delivery'', json_opt (map_option delivery_word (l_Delivery l))), (''mirrored_to_user'', json_bool (l_Mirrored l)),
      (''facts'', facts_json l), (''records_offset'', json_nat 0), (''harness_id'', quote_text (l_HarnessID l)),
      (''surface'', quote_text (l_Surface l)),
      (''mirror'', quote_text (if l_Mirrored l then ''system_message'' else ''none'')), (''mirror_failure'', ''null''),
      (''outcome'', ''null''), (''client_version'', quote_text (l_ClientVersion l)),
      (''verified_floor'', quote_text (l_VerifiedFloor l)), (''excluded'', json_array (map quote_text (l_Excluded l))),
      (''notice'', json_opt (map_option notice_word (l_Notice l)))]"

definition line_json :: "Line \<Rightarrow> string" where
  "line_json l = json_object (line_members l)"

section \<open>The batch\<close>

datatype append_error = LockTimeout | TextWithheld | RecordOversize | BreaksFraming | OtherFailure

definition MaxRecordBytes :: nat where
  "MaxRecordBytes = 2 ^ 20"

text \<open>A text over its cap is withheld, and the batch refused.\<close>

definition CapText :: "Line \<Rightarrow> bool" where
  "CapText l \<longleftrightarrow> length (l_ModelText l) > MaxSteerTextBytes \<or> length (l_UserText l) > MaxSteerTextBytes"

definition marshalLine :: "string \<Rightarrow> append_error + string" where
  "marshalLine j =
     (if length j + 1 > MaxRecordBytes then Inl RecordOversize
      else if list_ex (\<lambda>c. c = CHR 0x0A \<or> c = CHR 0x0D) j then Inl BreaksFraming
      else Inr (j @ [CHR 0x0A]))"

fun marshalSteer :: "Line list \<Rightarrow> append_error + string" where
  "marshalSteer [] = Inr []"
| "marshalSteer (l # ls) =
     (if CapText l then Inl TextWithheld
      else (case marshalLine (line_json l) of
        Inl e \<Rightarrow> Inl e
      | Inr b \<Rightarrow> (case marshalSteer ls of Inl e \<Rightarrow> Inl e | Inr rest \<Rightarrow> Inr (b @ rest))))"

section \<open>The append\<close>

text \<open>
  What may stop an append: the store, the directory or the log cannot be opened, the lock is not
  had in time, the log cannot be read, the write stops after some bytes (which are cut back, where
  that succeeds), or the sync fails after the write.
\<close>

datatype append_fault = NoFault | OpenFails | LockFails | ReadFails | WriteFails nat bool | SyncFails

definition appendHealed :: "string \<Rightarrow> string \<Rightarrow> append_fault \<Rightarrow> string \<times> append_error option" where
  "appendHealed log batch fault =
     (let line = (if log \<noteq> [] \<and> last log \<noteq> CHR 0x0A then CHR 0x0A # batch else batch) in
      (case fault of
         WriteFails n back \<Rightarrow> (if back then log else log @ take n line, Some OtherFailure)
       | _ \<Rightarrow> (log @ line, None)))"

text \<open>
  One append, with what its build made of the log it read: nothing of it runs where the log was
  not had, and its lines are on the log where the append says nothing went wrong.
\<close>

definition AppendSteer ::
  "append_fault \<Rightarrow> string \<Rightarrow> (string \<Rightarrow> 'b \<times> Line list) \<Rightarrow> string \<times> 'b option \<times> append_error option" where
  "AppendSteer fault log build =
     (if fault = OpenFails then (log, None, Some OtherFailure)
      else if fault = LockFails then (log, None, Some LockTimeout)
      else if fault = ReadFails then (log, None, Some OtherFailure)
      else (case build log of (b, ls) \<Rightarrow>
        (case marshalSteer ls of
           Inl e \<Rightarrow> (log, Some b, Some e)
         | Inr batch \<Rightarrow>
             if batch = [] then (log, Some b, None)
             else (case appendHealed log batch fault of
                     (log', Some e) \<Rightarrow> (log', Some b, Some e)
                   | (log', None) \<Rightarrow> (log', Some b, if fault = SyncFails then Some OtherFailure else None)))))"

end
