(* ===== verification/SteerBudget.thy ===== *)
theory SteerBudget
  imports SteerLog
begin

text \<open>
  The budget of a prompt, \<^verbatim>\<open>internal/steer/budget.go\<close>: what the prompt has already delivered, read
  from the steer log's end backwards, a chunk at a time, one line after another from the newest.
  The log's bytes are an argument; that they cannot be read is a fault of the append (SteerLog).
\<close>

section \<open>The keys a line is read with\<close>

definition budget_key_names :: "string list" where
  "budget_key_names =
     [''session_id'', ''prompt_id'', ''at_unix_ms'', ''state'', ''level'', ''pattern'', ''kind'', ''key'', ''type'', ''suppressed_by'']"

definition budgetKeys :: KeySet where
  "budgetKeys = NewKeySet budget_key_names"

definition bkSession :: nat where "bkSession = 0"
definition bkPrompt :: nat where "bkPrompt = 1"
definition bkAt :: nat where "bkAt = 2"
definition bkState :: nat where "bkState = 3"
definition bkLevel :: nat where "bkLevel = 4"
definition bkPattern :: nat where "bkPattern = 5"
definition bkKind :: nat where "bkKind = 6"
definition bkKey :: nat where "bkKey = 7"
definition bkType :: nat where "bkType = 8"
definition bkSuppressedBy :: nat where "bkSuppressedBy = 9"
definition bkCount :: nat where "bkCount = 10"

lemmas bk_defs = bkSession_def bkPrompt_def bkAt_def bkState_def bkLevel_def bkPattern_def bkKind_def bkKey_def
  bkType_def bkSuppressedBy_def bkCount_def

definition EvidenceLineType :: string where
  "EvidenceLineType = ''steer_evidence''"

section \<open>One line\<close>

text \<open>What has been counted, and the foreign batch being skipped, by its raw time and prompt.\<close>

record budgetScan =
  bs_c :: counts
  bs_done :: bool
  bs_own :: bool
  bs_batch :: "(string \<times> string) option"

definition new_scan :: budgetScan where
  "new_scan = \<lparr>bs_c = \<lparr>k_notes = 0, k_flags = 0, k_keys = []\<rparr>, bs_done = False, bs_own = False, bs_batch = None\<rparr>"

definition budget_is :: "string \<Rightarrow> span \<Rightarrow> string \<Rightarrow> bool" where
  "budget_is b sp want \<longleftrightarrow>
     sp_kind sp = KString \<and>
     (case Head b sp (length want + 1) of Inl e \<Rightarrow> False | Inr r \<Rightarrow> \<not> snd r \<and> fst r = want)"

definition budget_text :: "string \<Rightarrow> span \<Rightarrow> string" where
  "budget_text b sp =
     (if sp_kind sp \<noteq> KString then [] else (case DecodeString b sp of Inl e \<Rightarrow> [] | Inr v \<Rightarrow> v))"

definition budget_ours :: "Context \<Rightarrow> string \<Rightarrow> span list \<Rightarrow> bool" where
  "budget_ours ctx b out \<longleftrightarrow>
     budget_is b (out ! bkSession) (ct_SessionID ctx) \<and>
     (case ct_PromptID ctx of
        None \<Rightarrow> sp_kind (out ! bkPrompt) = KNull \<or> sp_kind (out ! bkPrompt) = KAbsent
      | Some p \<Rightarrow> budget_is b (out ! bkPrompt) p)"

text \<open>A line of another prompt: the first batch at the tail is skipped, and anything further ends the scan.\<close>

definition budget_foreign :: "budgetScan \<Rightarrow> string \<times> string \<Rightarrow> budgetScan" where
  "budget_foreign s batch =
     (if bs_own s then s\<lparr>bs_done := True\<rparr>
      else (case bs_batch s of
              None \<Rightarrow> s\<lparr>bs_batch := Some batch\<rparr>
            | Some x \<Rightarrow> if x \<noteq> batch then s\<lparr>bs_done := True\<rparr> else s))"

definition charge_flag_line :: "budgetScan \<Rightarrow> budgetScan" where
  "charge_flag_line s = s\<lparr>bs_c := (bs_c s)\<lparr>k_flags := k_flags (bs_c s) + 1\<rparr>\<rparr>"

text \<open>The briefing is outside the prompt's notes; its key still answers a second one.\<close>

definition charge_note_line :: "budgetScan \<Rightarrow> bool \<Rightarrow> findingKey \<Rightarrow> budgetScan" where
  "charge_note_line s brief k =
     s\<lparr>bs_c := (bs_c s)\<lparr>k_notes := k_notes (bs_c s) + (if brief then 0 else 1), k_keys := k # k_keys (bs_c s)\<rparr>\<rparr>"

definition budget_line :: "Context \<Rightarrow> budgetScan \<Rightarrow> string \<Rightarrow> budgetScan" where
  "budget_line ctx s b =
     (case Top b budgetKeys (replicate bkCount no_span) of (out, e) \<Rightarrow>
       if b = [] \<or> e \<noteq> None then s
       else if budget_is b (out ! bkType) EvidenceLineType then s
       else if \<not> budget_ours ctx b out then budget_foreign s (span_raw (out ! bkAt) b, span_raw (out ! bkPrompt) b)
       else (let s' = s\<lparr>bs_own := True\<rparr> in
         if \<not> budget_is b (out ! bkState) (state_word StateDelivered) \<and>
            \<not> budget_is b (out ! bkSuppressedBy) (by_word ByArmOff) then s'
         else if budget_is b (out ! bkLevel) (level_word LevelFlag) then charge_flag_line s'
         else if budget_is b (out ! bkLevel) (level_word LevelNudge) \<or> budget_is b (out ! bkLevel) (level_word LevelStop)
         then charge_note_line s' (budget_is b (out ! bkPattern) ''continuity-briefing'')
                (budget_text b (out ! bkPattern), budget_text b (out ! bkKind), budget_text b (out ! bkKey))
         else s'))"

section \<open>The reads\<close>

definition budgetChunk :: nat where
  "budgetChunk = 64 * 2 ^ 10"

text \<open>
  The whole lines of one read, newest first: \<open>whole\<close> is where the first of them begins, after the
  line feed there, or \<open>None\<close> where the read holds the log's start. The place in the read is one more
  than the code's, which counts down to -1.
\<close>

function budget_lines :: "Context \<Rightarrow> string \<Rightarrow> nat option \<Rightarrow> nat \<Rightarrow> budgetScan \<Rightarrow> budgetScan" where
  "budget_lines ctx work whole i s =
     (if bs_done s \<or> i = 0 \<or> (case whole of None \<Rightarrow> False | Some w \<Rightarrow> i \<le> w + 1) then s
      else (case LastIndexByte (take (i - 1) work) (CHR 0x0A) of
              None \<Rightarrow> budget_lines ctx work whole 0 (budget_line ctx s (take (i - 1) work))
            | Some j \<Rightarrow> budget_lines ctx work whole (j + 1) (budget_line ctx s (drop (j + 1) (take (i - 1) work)))))"
  by pat_completeness auto
termination
  by (relation "measure (\<lambda>(ctx, work, whole, i, s). i)") (auto dest!: LastIndexByte_Some)

declare budget_lines.simps [simp del]

function budget_reads :: "Context \<Rightarrow> string \<Rightarrow> nat \<Rightarrow> string \<Rightarrow> budgetScan \<Rightarrow> budgetScan" where
  "budget_reads ctx log stop carry s =
     (if stop = 0 \<or> bs_done s then s
      else (let start = stop - budgetChunk;
                work = take (stop - start) (drop start log) @ carry in
            case IndexByte work (CHR 0x0A) of
              None \<Rightarrow> if start > 0 then budget_reads ctx log start work s
                      else budget_reads ctx log start [] (budget_lines ctx work None (length work + 1) s)
            | Some first \<Rightarrow>
                budget_reads ctx log start (take first work)
                  (budget_lines ctx work (if start = 0 then None else Some first) (length work + 1) s)))"
  by pat_completeness auto
termination
  by (relation "measure (\<lambda>(ctx, log, stop, carry, s). stop)") (auto simp: budgetChunk_def)

declare budget_reads.simps [simp del]

definition countBudget :: "Context \<Rightarrow> string \<Rightarrow> counts" where
  "countBudget ctx log = bs_c (budget_reads ctx log (length log) [] new_scan)"

section \<open>The lines of the log\<close>

definition scan_step :: "Context \<Rightarrow> budgetScan \<Rightarrow> string \<Rightarrow> budgetScan" where
  "scan_step ctx s b = (if bs_done s then s else budget_line ctx s b)"

text \<open>The scan over the lines one after the other, from the newest.\<close>

definition scan_lines :: "Context \<Rightarrow> budgetScan \<Rightarrow> string list \<Rightarrow> budgetScan" where
  "scan_lines ctx s ls = foldl (scan_step ctx) s (rev ls)"

lemma scan_done: "bs_done s \<Longrightarrow> scan_lines ctx s ls = s"
  by (induction ls rule: rev_induct) (simp_all add: scan_lines_def scan_step_def)

lemma scan_lines_append: "scan_lines ctx s (xs @ ys) = scan_lines ctx (scan_lines ctx s ys) xs"
  by (simp add: scan_lines_def)

lemma scan_lines_last: "scan_lines ctx s (xs @ [x]) = scan_lines ctx (scan_step ctx s x) xs"
  by (simp add: scan_lines_def)

lemma last_line_cases:
  fixes c :: char
  obtains "c \<notin> set t" | a b where "t = a @ c # b" "c \<notin> set b"
  using split_list_last [of c t] by blast

lemma last_line_at:
  assumes "take i w = a @ c # b"
  shows "length a < i" "take (length a) w = a"
proof -
  show len: "length a < i" using length_take [of i w] assms by (metis add_Suc_right length_append less_add_Suc1 less_le_trans list.size(4) min.cobounded2)
  have "take (length a) w = take (length a) (take i w)" using len by simp
  then show "take (length a) w = a" using assms by simp
qed

lemma budget_lines_all:
  "budget_lines ctx work None (i + 1) s = scan_lines ctx s (Split (take i work) (CHR 0x0A))"
proof (induction i arbitrary: s rule: less_induct)
  case (less i)
  let ?t = "take i work"
  show ?case
  proof (cases "bs_done s")
    case True
    then show ?thesis by (simp add: budget_lines.simps [of ctx work] scan_done)
  next
    case False
    show ?thesis
    proof (rule last_line_cases [of "CHR 0x0A" ?t])
      assume none: "CHR 0x0A \<notin> set ?t"
      then have "budget_lines ctx work None (i + 1) s = budget_line ctx s ?t"
        using False by (subst budget_lines.simps) (simp add: budget_lines.simps [of ctx work None 0])
      then show ?thesis using False none by (simp add: Split_absent scan_lines_def scan_step_def)
    next
      fix a b assume t: "?t = a @ CHR 0x0A # b" "CHR 0x0A \<notin> set b"
      note len = last_line_at(1) [OF t(1)] and a = last_line_at(2) [OF t(1)]
      have "budget_lines ctx work None (i + 1) s = budget_lines ctx work None (length a + 1) (budget_line ctx s b)"
        using False t by (subst budget_lines.simps) simp
      also have "\<dots> = scan_lines ctx (budget_line ctx s b) (Split a (CHR 0x0A))" using less [OF len] a by simp
      also have "\<dots> = scan_lines ctx s (Split ?t (CHR 0x0A))"
        using False t by (simp add: Split_append Split_absent scan_lines_last scan_step_def)
      finally show ?thesis .
    qed
  qed
qed

lemma budget_lines_after:
  assumes "CHR 0x0A \<notin> set p"
  shows "budget_lines ctx (p @ CHR 0x0A # q) (Some (length p)) (length p + 1 + (i + 1)) s =
     scan_lines ctx s (Split (take i q) (CHR 0x0A))"
proof (induction i arbitrary: s rule: less_induct)
  case (less i)
  let ?w = "p @ CHR 0x0A # q"
  let ?t = "take i q"
  have at: "take (length p + 1 + i) ?w = p @ CHR 0x0A # ?t" by simp
  have stop: "budget_lines ctx ?w (Some (length p)) (length p + 1) s' = s'" for s'
    by (subst budget_lines.simps) simp
  show ?case
  proof (cases "bs_done s")
    case True
    then show ?thesis by (simp add: budget_lines.simps [of ctx ?w] scan_done)
  next
    case False
    show ?thesis
    proof (rule last_line_cases [of "CHR 0x0A" ?t])
      assume none: "CHR 0x0A \<notin> set ?t"
      then have "LastIndexByte (take (length p + 1 + i) ?w) (CHR 0x0A) = Some (length p)" unfolding at by simp
      then have "budget_lines ctx ?w (Some (length p)) (length p + 1 + (i + 1)) s = budget_line ctx s ?t"
        using False stop by (subst budget_lines.simps) simp
      then show ?thesis using False none by (simp add: Split_absent scan_lines_def scan_step_def)
    next
      fix a b assume t: "?t = a @ CHR 0x0A # b" "CHR 0x0A \<notin> set b"
      note len = last_line_at(1) [OF t(1)] and a = last_line_at(2) [OF t(1)]
      have "p @ CHR 0x0A # ?t = (p @ CHR 0x0A # a) @ CHR 0x0A # b" by (simp add: t(1))
      then have last: "LastIndexByte (take (length p + 1 + i) ?w) (CHR 0x0A) = Some (length p + 1 + length a)"
        unfolding at using LastIndexByte_append [OF t(2), of "p @ CHR 0x0A # a"] by simp
      have "budget_lines ctx ?w (Some (length p)) (length p + 1 + (i + 1)) s =
          budget_lines ctx ?w (Some (length p)) (length p + 1 + (length a + 1)) (budget_line ctx s b)"
        using False last t(1) by (subst budget_lines.simps) simp
      also have "\<dots> = scan_lines ctx (budget_line ctx s b) (Split a (CHR 0x0A))" using less [OF len] a by simp
      also have "\<dots> = scan_lines ctx s (Split ?t (CHR 0x0A))"
        using False t by (simp add: Split_append Split_absent scan_lines_last scan_step_def)
      finally show ?thesis .
    qed
  qed
qed

lemma first_line_cases:
  fixes c :: char
  obtains "c \<notin> set t" | a b where "t = a @ c # b" "c \<notin> set a"
  using split_list_first [of c t] by blast

lemma budget_reads_all:
  "0 < stop \<Longrightarrow> CHR 0x0A \<notin> set carry \<Longrightarrow>
     budget_reads ctx log stop carry s = scan_lines ctx s (Split (take stop log @ carry) (CHR 0x0A))"
proof (induction stop arbitrary: carry s rule: less_induct)
  case (less stop)
  define start where "start = stop - budgetChunk"
  define work where "work = take (stop - start) (drop start log) @ carry"
  have start: "start < stop" using less.prems(1) by (simp add: start_def budgetChunk_def)
  have over: "take stop log @ carry = take start log @ work"
    using start take_add [of start "stop - start" log] by (simp add: work_def)
  have ended: "budget_reads ctx log 0 c s' = s'" for c s' by (simp add: budget_reads.simps)
  show ?case
  proof (cases "bs_done s")
    case True
    then show ?thesis by (simp add: budget_reads.simps [of ctx log stop] scan_done)
  next
    case False
    then have step: "budget_reads ctx log stop carry s =
        (case IndexByte work (CHR 0x0A) of
           None \<Rightarrow> if start > 0 then budget_reads ctx log start work s
                   else budget_reads ctx log start [] (budget_lines ctx work None (length work + 1) s)
         | Some first \<Rightarrow>
             budget_reads ctx log start (take first work)
               (budget_lines ctx work (if start = 0 then None else Some first) (length work + 1) s))"
      using less.prems(1) [unfolded neq0_conv [symmetric]]
      unfolding budget_reads.simps [of ctx log stop carry s] work_def start_def Let_def by (simp only: if_False simp_thms)
    have all: "budget_lines ctx work None (length work + 1) s = scan_lines ctx s (Split work (CHR 0x0A))"
      using budget_lines_all [of ctx work "length work" s] by simp
    show ?thesis
    proof (rule first_line_cases [of "CHR 0x0A" work])
      assume none: "CHR 0x0A \<notin> set work"
      then show ?thesis
        using less.IH [OF start _ none] all ended over unfolding step by (simp add: IndexByte_def)
    next
      fix p q assume w: "work = p @ CHR 0x0A # q" "CHR 0x0A \<notin> set p"
      show ?thesis
      proof (cases "start = 0")
        case True
        then show ?thesis unfolding step using w all ended over by simp
      next
        case False
        have "budget_lines ctx work (Some (length p)) (length work + 1) s = scan_lines ctx s (Split q (CHR 0x0A))"
          using budget_lines_after [OF w(2), of ctx q "length q" s] by (simp add: w(1))
        moreover have "Split (take start log @ work) (CHR 0x0A) = Split (take start log @ p) (CHR 0x0A) @ Split q (CHR 0x0A)"
          using Split_append [of "take start log @ p" "CHR 0x0A" q] by (simp add: w(1))
        ultimately show ?thesis
          unfolding step over using False w less.IH [OF start _ w(2)] by (simp add: scan_lines_append)
      qed
    qed
  qed
qed

lemma empty_line: "budget_line ctx s [] = s"
  by (simp add: budget_line_def split: prod.split)

text \<open>The reads in chunks find the lines the log has, and each of them once.\<close>

lemma countBudget_reads: "countBudget ctx log = bs_c (scan_lines ctx new_scan (Split log (CHR 0x0A)))"
proof (cases "log = []")
  case True
  then show ?thesis
    by (simp add: countBudget_def budget_reads.simps [of ctx "[]" 0] scan_lines_def scan_step_def empty_line)
next
  case False
  then show ?thesis using budget_reads_all [of "length log" "[]" ctx log new_scan] by (simp add: countBudget_def)
qed

text \<open>
  C12: what a prompt has spent is read in 64 KiB steps from the end of the log, and the steps do not
  show: on any bytes whatever, with lines of any length cut anywhere by the chunks, the count is that
  of one scan over the log's lines from the last to the first, each line once, stopping where that
  scan would stop.
\<close>

theorem countBudget_lines: "countBudget ctx log = bs_c (scan_lines ctx new_scan (Split log (CHR 0x0A)))"
  by (rule countBudget_reads)

section \<open>A line the router wrote\<close>

text \<open>The same reading over a line's fields.\<close>

definition line_ours :: "Context \<Rightarrow> Line \<Rightarrow> bool" where
  "line_ours ctx l \<longleftrightarrow> l_SessionID l = ct_SessionID ctx \<and> l_PromptID l = ct_PromptID ctx"

definition line_batch :: "Line \<Rightarrow> string \<times> string" where
  "line_batch l = (json_int (l_At l), json_opt (l_PromptID l))"

definition line_key :: "Line \<Rightarrow> findingKey" where
  "line_key l = (l_Pattern l, l_Kind l, l_Key l)"

text \<open>A line that counts: it was delivered, or the off arm alone withheld it.\<close>

definition line_charged :: "Line \<Rightarrow> bool" where
  "line_charged l \<longleftrightarrow> l_State l = Some StateDelivered \<or> l_SuppressedBy l = Some ByArmOff"

definition line_flag :: "Line \<Rightarrow> bool" where
  "line_flag l \<longleftrightarrow> line_charged l \<and> l_Level l = level_word LevelFlag"

definition line_note :: "Line \<Rightarrow> bool" where
  "line_note l \<longleftrightarrow> line_charged l \<and> (l_Level l = level_word LevelNudge \<or> l_Level l = level_word LevelStop)"

definition line_step :: "Context \<Rightarrow> budgetScan \<Rightarrow> Line \<Rightarrow> budgetScan" where
  "line_step ctx s l =
     (if \<not> line_ours ctx l then budget_foreign s (line_batch l)
      else (let s' = s\<lparr>bs_own := True\<rparr> in
        if line_flag l then charge_flag_line s'
        else if line_note l then charge_note_line s' (l_Pattern l = ''continuity-briefing'') (line_key l)
        else s'))"

text \<open>
  What a line's strings and slots are, as the hook makes them: valid UTF-8, and slots that are JSON
  on one line.
\<close>

definition line_valid :: "Line \<Rightarrow> bool" where
  "line_valid l \<longleftrightarrow>
     list_all ValidString [l_SessionID l, l_Pattern l, l_Kind l, l_Key l, l_Level l] \<and>
     (case l_PromptID l of None \<Rightarrow> True | Some p \<Rightarrow> ValidString p)"

definition slots_valid :: "Line \<Rightarrow> bool" where
  "slots_valid l \<longleftrightarrow> good_members 1 (l_Slots l)"

lemma good_zero: "good_value 0 v \<Longrightarrow> good_value k v"
  using good_value_mono [of 0 v k] by simp

lemma good_line:
  assumes "slots_valid l"
  shows "good_members 2 (line_members l)"
proof -
  have ints: "good_value 2 (json_array (map json_int xs))" for xs
    using good_array [of 1 "map json_int xs"] by (simp add: list_all_iff good_int numeral_2_eq_2)
  have strings: "good_value 2 (json_array (map quote_text xs))" for xs
    using good_array [of 1 "map quote_text xs"] by (simp add: list_all_iff good_quote numeral_2_eq_2)
  have "good_members 1 (sort_key fst (l_Slots l))"
    using assms by (simp add: slots_valid_def good_members_def list_all_iff)
  then have slots: "good_value 2 (json_object (sort_key fst (l_Slots l)))"
    using good_object by (simp add: numeral_2_eq_2)
  have "good_members 1 (map (\<lambda>k. (k, ''null'')) ks @ [(n, json_opt x)])" for ks n x
    by (simp add: good_members_def list_all_iff good_literals good_opt)
  then have facts: "good_value 2 (facts_json l)"
    unfolding facts_json_def by (simp only: numeral_2_eq_2 good_object One_nat_def)
  show ?thesis
    unfolding good_members_def line_members_def list.pred_inject(2) snd_conv
    by (intro conjI list.pred_inject(1) good_quote good_nat good_int good_opt good_bool good_literals ints strings slots facts)
qed

lemma line_keys_plain: "list_all (\<lambda>kv. plain_key (fst kv)) (line_members l)"
  unfolding line_members_def list.pred_inject(2) fst_conv
  by (intro conjI list.pred_inject(1); simp add: plain_key_def html_safe_def)

lemma budget_keys: "distinct budget_key_names" "list_all (\<lambda>k. length k \<le> maxKeyBytes) budget_key_names"
  by (simp_all add: budget_key_names_def maxKeyBytes_def)

lemma line_member_simps:
  "member_of (line_members l) ''session_id'' = value_text (quote_text (l_SessionID l))"
  "member_of (line_members l) ''prompt_id'' = value_text (json_opt (l_PromptID l))"
  "member_of (line_members l) ''at_unix_ms'' = value_text (json_int (l_At l))"
  "member_of (line_members l) ''state'' = value_text (quote_text (case l_State l of None \<Rightarrow> [] | Some s \<Rightarrow> state_word s))"
  "member_of (line_members l) ''level'' = value_text (quote_text (l_Level l))"
  "member_of (line_members l) ''pattern'' = value_text (quote_text (l_Pattern l))"
  "member_of (line_members l) ''kind'' = value_text (quote_text (l_Kind l))"
  "member_of (line_members l) ''key'' = value_text (quote_text (l_Key l))"
  "member_of (line_members l) ''type'' = value_text (quote_text LineType)"
  "member_of (line_members l) ''suppressed_by'' = value_text (json_opt (map_option by_word (l_SuppressedBy l)))"
  unfolding member_of_def line_members_def by simp_all

text \<open>What the scanner finds of a line that was written.\<close>

lemma line_spans:
  assumes "slots_valid l" "length (line_json l) \<le> MaxInt32"
  obtains out where "Top (line_json l) budgetKeys (replicate bkCount no_span) = (out, None)"
    "map (span_text (line_json l)) out = map (member_of (line_members l)) budget_key_names"
proof -
  have n: "length (replicate bkCount no_span) = length budget_key_names" by (simp add: bkCount_def budget_key_names_def)
  note top = Top_object [OF budget_keys n line_keys_plain good_line [OF assms(1)]]
  have d: "Suc 2 \<le> maxNestingDepth" by (simp add: maxNestingDepth_def)
  show ?thesis
    using that top [OF d] assms(2) unfolding line_json_def budgetKeys_def
    by (cases "Top (json_object (line_members l)) (NewKeySet budget_key_names) (replicate bkCount no_span)") simp
qed

lemma budget_is_string:
  "span_text b sp = value_text (quote_text s) \<Longrightarrow> ValidString s \<Longrightarrow> budget_is b sp want \<longleftrightarrow> s = want"
  using Head_is [of b sp s want] by (auto simp: budget_is_def kindOf_quote span_text_def)

lemma budget_text_string:
  "span_text b sp = value_text (quote_text s) \<Longrightarrow> ValidString s \<Longrightarrow> budget_text b sp = s"
  using string_read [of b sp s] by (simp add: budget_text_def kindOf_quote span_text_def)

lemma opt_value: "value_text (json_opt v) = (case v of None \<Rightarrow> (KNull, ''null'') | Some s \<Rightarrow> value_text (quote_text s))"
  by (simp add: json_opt_def value_text_def kindOf_def split: option.split)

lemma budget_is_opt:
  assumes "span_text b sp = value_text (json_opt v)" "case v of None \<Rightarrow> True | Some s \<Rightarrow> ValidString s"
  shows "budget_is b sp want \<longleftrightarrow> v = Some want"
  using assms budget_is_string [of b sp _ want]
  by (cases v) (auto simp: opt_value budget_is_def span_text_def)

lemma int_value: "value_text (json_int i) = (KNumber, json_int i)"
proof -
  have "kindOf (hd (json_nat n)) = KNumber" for n
    using json_nat_shape [of n] by (cases "json_nat n") (auto simp: digit_facts)
  then show ?thesis by (simp add: value_text_def json_int_def) (simp add: kindOf_def)
qed

lemma words_valid: "ValidString (state_word s)" "ValidString (by_word b)" "ValidString LineType"
proof -
  show "ValidString (state_word s)" by (cases s) (simp_all add: state_word_def ValidString_ascii)
  show "ValidString (by_word b)" by (cases b) (simp_all add: by_word_def ValidString_ascii)
  show "ValidString LineType" by (simp add: LineType_def ValidString_ascii)
qed

lemma by_word_inj: "by_word a = by_word ByArmOff \<longleftrightarrow> a = ByArmOff"
  by (cases a) (simp_all add: by_word_def)

lemma state_word_inj: "state_word s = state_word StateDelivered \<longleftrightarrow> s = StateDelivered"
  by (cases s) (simp_all add: state_word_def)

lemma state_read:
  "(case st of None \<Rightarrow> [] | Some s \<Rightarrow> state_word s) = state_word StateDelivered \<longleftrightarrow> st = Some StateDelivered"
  by (cases st) (auto simp: state_word_inj, simp add: state_word_def)

lemma by_read: "map_option by_word b = Some (by_word ByArmOff) \<longleftrightarrow> b = Some ByArmOff"
  by (cases b) (auto simp: by_word_inj)

text \<open>The scan reads of a written line what its fields say.\<close>

lemma budget_line_written:
  assumes "slots_valid l" "line_valid l" "length (line_json l) \<le> MaxInt32"
  shows "budget_line ctx s (line_json l) = line_step ctx s l"
proof -
  obtain out where out: "Top (line_json l) budgetKeys (replicate bkCount no_span) = (out, None)"
    "map (span_text (line_json l)) out = map (member_of (line_members l)) budget_key_names"
    using line_spans [OF assms(1,3)] by blast
  let ?b = "line_json l"
  have len: "length out = 10" using arg_cong [OF out(2), of length] by (simp add: budget_key_names_def)
  have at: "span_text ?b (out ! i) = member_of (line_members l) (budget_key_names ! i)" if "i < 10" for i
  proof -
    have "length budget_key_names = 10" by (simp add: budget_key_names_def)
    then show ?thesis using arg_cong [OF out(2), of "\<lambda>xs. xs ! i"] that len by simp
  qed
  note keys = budget_key_names_def bk_defs
  have valid: "ValidString (l_SessionID l)" "ValidString (l_Pattern l)" "ValidString (l_Kind l)" "ValidString (l_Key l)"
    "ValidString (l_Level l)" "case l_PromptID l of None \<Rightarrow> True | Some p \<Rightarrow> ValidString p"
    using assms(2) by (simp_all add: line_valid_def)
  have ty: "\<not> budget_is ?b (out ! bkType) EvidenceLineType"
    using budget_is_string [of ?b "out ! bkType" LineType EvidenceLineType] at [of bkType] words_valid
    by (simp add: keys line_member_simps) (simp add: LineType_def EvidenceLineType_def)
  have session: "budget_is ?b (out ! bkSession) w \<longleftrightarrow> l_SessionID l = w" for w
    using budget_is_string [OF _ valid(1), of ?b "out ! bkSession" w] at [of bkSession] by (simp add: keys line_member_simps)
  have prompt: "budget_is ?b (out ! bkPrompt) w \<longleftrightarrow> l_PromptID l = Some w" for w
    using budget_is_opt [OF _ valid(6), of ?b "out ! bkPrompt" w] at [of bkPrompt] by (simp add: keys line_member_simps)
  have null: "sp_kind (out ! bkPrompt) = KNull \<or> sp_kind (out ! bkPrompt) = KAbsent \<longleftrightarrow> l_PromptID l = None"
    using at [of bkPrompt]
    by (cases "l_PromptID l") (simp_all add: keys line_member_simps opt_value kindOf_quote span_text_def)
  have ours: "budget_ours ctx ?b out \<longleftrightarrow> line_ours ctx l"
    using null by (auto simp: budget_ours_def line_ours_def session prompt split: option.split)
  have state: "budget_is ?b (out ! bkState) (state_word StateDelivered) \<longleftrightarrow> l_State l = Some StateDelivered"
    using budget_is_string [of ?b "out ! bkState" "case l_State l of None \<Rightarrow> [] | Some s \<Rightarrow> state_word s"] at [of bkState]
      words_valid state_read [of "l_State l"]
    by (simp add: keys line_member_simps split: option.splits)
  have armoff: "budget_is ?b (out ! bkSuppressedBy) (by_word ByArmOff) \<longleftrightarrow> l_SuppressedBy l = Some ByArmOff"
    using budget_is_opt [of ?b "out ! bkSuppressedBy" "map_option by_word (l_SuppressedBy l)" "by_word ByArmOff"]
      at [of bkSuppressedBy] words_valid by_read [of "l_SuppressedBy l"]
    by (simp add: keys line_member_simps split: option.splits)
  have level: "budget_is ?b (out ! bkLevel) w \<longleftrightarrow> l_Level l = w" for w
    using budget_is_string [OF _ valid(5), of ?b "out ! bkLevel" w] at [of bkLevel] by (simp add: keys line_member_simps)
  have pattern: "budget_is ?b (out ! bkPattern) w \<longleftrightarrow> l_Pattern l = w" for w
    using budget_is_string [OF _ valid(2), of ?b "out ! bkPattern" w] at [of bkPattern] by (simp add: keys line_member_simps)
  have texts: "budget_text ?b (out ! bkPattern) = l_Pattern l" "budget_text ?b (out ! bkKind) = l_Kind l"
    "budget_text ?b (out ! bkKey) = l_Key l"
    using budget_text_string [OF _ valid(2), of ?b "out ! bkPattern"] budget_text_string [OF _ valid(3), of ?b "out ! bkKind"]
      budget_text_string [OF _ valid(4), of ?b "out ! bkKey"] at [of bkPattern] at [of bkKind] at [of bkKey]
    by (simp_all add: keys line_member_simps)
  have batch: "(span_raw (out ! bkAt) ?b, span_raw (out ! bkPrompt) ?b) = line_batch l"
    using at [of bkAt] at [of bkPrompt]
    by (simp add: keys line_member_simps span_text_def line_batch_def value_text_def)
  have ne: "?b \<noteq> []" by (simp add: line_json_def json_object_def)
  show ?thesis
    unfolding budget_line_def out(1) prod.case batch ours state armoff level pattern texts
    using ty ne by (simp add: line_step_def line_flag_def line_note_def line_charged_def line_key_def Let_def)
qed

end
