(* ===== verification/SteerPrints.thy ===== *)
theory SteerPrints
  imports SteerDecide
begin

text \<open>
  What the router prints (\<^verbatim>\<open>internal/steer\<close>, decide.go): the two passes of the budget deliver the
  first note the prompt can afford, or else the first flag; and what reaches the model passed every
  gate and is shown to the user byte for byte.
\<close>

section \<open>Plans before the budget\<close>

definition undecided :: "plan \<Rightarrow> bool" where
  "undecided p \<longleftrightarrow>
     \<not> p_holdout p \<and> (p_decide p \<longrightarrow> p_state p = None) \<and> (\<not> p_decide p \<longrightarrow> p_state p = Some StateSuppressed)"

lemma suppress_simps [simp]:
  "p_state (suppress r p) = Some StateSuppressed" "p_by (suppress r p) = Some r" "p_decide (suppress r p) = False"
  "p_f (suppress r p) = p_f p" "p_key (suppress r p) = p_key p" "p_level (suppress r p) = p_level p"
  "p_direct (suppress r p) = p_direct p" "p_holdout (suppress r p) = p_holdout p"
  "p_model (suppress r p) = p_model p" "p_user (suppress r p) = p_user p"
  by (simp_all add: suppress_def)

lemma clamped_undecided: "undecided p \<Longrightarrow> undecided (clamped ctx p)"
  by (auto simp: clamped_def undecided_def split: option.split)

lemma demoted_undecided: "undecided p \<Longrightarrow> undecided (demoted rule p)"
  by (auto simp: demoted_def undecided_def Let_def)

lemma gated_undecided: "undecided p \<Longrightarrow> undecided (gated ctx c rule claimed p)"
  by (auto simp: gated_def undecided_def Let_def)

lemma recordTexts_undecided: "undecided p \<Longrightarrow> undecided (recordTexts p)"
  by (auto simp: recordTexts_def undecided_def Let_def split: sum.split)

lemma with_texts_undecided:
  assumes "undecided p"
  shows "undecided (with_texts p)"
proof -
  have "undecided (p\<lparr>p_model := m, p_user := u\<rparr>)" "undecided (p\<lparr>p_user := u\<rparr>)" for m u
    using assms by (simp_all add: undecided_def)
  moreover have "undecided (suppress e p)" for e using assms by (simp add: undecided_def)
  ultimately show ?thesis
    using assms by (auto simp: with_texts_def Let_def recordTexts_undecided split: sum.split)
qed

lemma plan_of_undecided: "undecided (plan_of ctx c claimed f)"
proof -
  have "undecided (fresh_plan ctx f)" by (simp add: fresh_plan_def undecided_def)
  then show ?thesis
    unfolding plan_of_def Let_def
    by (intro with_texts_undecided gated_undecided demoted_undecided clamped_undecided)
qed

lemma plans_undecided: "list_all undecided (plans_of ctx c claimed fs)"
  by (induction fs arbitrary: claimed) (simp_all add: plan_of_undecided)

section \<open>The two passes\<close>

definition deliver :: "plan \<Rightarrow> plan" where
  "deliver p = p\<lparr>p_state := Some StateDelivered, p_decide := False\<rparr>"

text \<open>A note the prompt can afford, and a plan the second pass may deliver.\<close>

definition note_ok :: "counts \<Rightarrow> plan \<Rightarrow> bool" where
  "note_ok spent p \<longleftrightarrow>
     p_decide p \<and> p_level p = LevelNudge \<and> p_key p \<notin> set (k_keys spent) \<and>
     (p_direct p \<or> k_notes spent + Reserve (f_Pattern (p_f p)) < maxNotes)"

definition flag_ok :: "plan \<Rightarrow> bool" where
  "flag_ok p \<longleftrightarrow> p_decide p \<and> p_level p \<noteq> LevelNudge"

lemma delivered_deliver [simp]: "delivered (deliver p)" "\<not> p_decide (deliver p)"
  by (simp_all add: deliver_def delivered_def)

lemma note_after:
  "undecided p \<Longrightarrow> \<not> delivered (fst (charge_note spent True p)) \<and> snd (charge_note spent True p) \<and>
     p_decide (fst (charge_note spent True p)) = flag_ok p"
  by (auto simp: charge_note_def undecided_def delivered_def flag_ok_def)

lemma note_before:
  assumes "undecided p"
  shows "snd (charge_note spent False p) = note_ok spent p"
    "note_ok spent p \<Longrightarrow> fst (charge_note spent False p) = deliver p"
    "\<not> note_ok spent p \<Longrightarrow> \<not> delivered (fst (charge_note spent False p))"
    "p_decide (fst (charge_note spent False p)) = flag_ok p"
    "flag_ok p \<Longrightarrow> fst (charge_note spent False p) = p"
  using assms by (auto simp: charge_note_def note_ok_def undecided_def delivered_def deliver_def flag_ok_def)

lemma notes_after:
  "list_all undecided ps \<Longrightarrow>
     filter delivered (fst (pass (charge_note spent) True ps)) = [] \<and> snd (pass (charge_note spent) True ps)"
  by (induction ps) (auto simp: note_after Let_def)

lemma notes_pass:
  "list_all undecided ps \<Longrightarrow>
     filter delivered (fst (pass (charge_note spent) False ps)) =
       (case find (note_ok spent) ps of None \<Rightarrow> [] | Some p \<Rightarrow> [deliver p]) \<and>
     snd (pass (charge_note spent) False ps) = list_ex (note_ok spent) ps"
proof (induction ps)
  case (Cons p ps)
  then show ?case
    using note_before [of p spent] notes_after [of ps spent] by (cases "note_ok spent p") (auto simp: Let_def)
qed simp

text \<open>A plan a pass has not settled has no state yet.\<close>

definition unsettled :: "plan \<Rightarrow> bool" where
  "unsettled p \<longleftrightarrow> (p_decide p \<longrightarrow> p_state p = None) \<and> (\<not> p_decide p \<longrightarrow> p_state p \<noteq> None)"

lemma charge_note_unsettled: "undecided p \<Longrightarrow> unsettled (fst (charge_note spent took p))"
  by (auto simp: charge_note_def undecided_def unsettled_def)

lemma notes_unsettled: "list_all undecided ps \<Longrightarrow> list_all unsettled (fst (pass (charge_note spent) took ps))"
  by (induction ps arbitrary: took) (auto simp: Let_def charge_note_unsettled)

lemma flags_shut:
  "list_all unsettled ps \<Longrightarrow> took \<or> flag \<or> k_flags spent \<ge> maxFlags \<Longrightarrow>
     filter delivered (fst (pass (charge_flag spent took) flag ps)) = filter delivered ps"
  by (induction ps) (auto simp: charge_flag_def Let_def delivered_def unsettled_def)

lemma flags_open:
  "list_all unsettled ps \<Longrightarrow> filter delivered ps = [] \<Longrightarrow> \<not> k_flags spent \<ge> maxFlags \<Longrightarrow>
     filter delivered (fst (pass (charge_flag spent False) False ps)) =
       (case find p_decide ps of None \<Rightarrow> [] | Some p \<Rightarrow> [deliver p])"
proof (induction ps)
  case (Cons p ps)
  have shut: "filter delivered (fst (pass (charge_flag spent False) True ps)) = []"
    using flags_shut [of ps False True spent] Cons.prems by (auto split: if_splits)
  show ?case
  proof (cases "p_decide p")
    case True
    then have "charge_flag spent False False p = (deliver p, True)"
      using Cons.prems(3) by (simp add: charge_flag_def deliver_def)
    then show ?thesis using shut True by (simp add: Let_def)
  next
    case False
    then have "charge_flag spent False False p = (p, False)" by (simp add: charge_flag_def)
    then show ?thesis using Cons False by (auto simp: Let_def split: if_splits)
  qed
qed simp

lemma flags_settle:
  "list_all unsettled ps \<Longrightarrow> list_all (\<lambda>p. p_state p \<noteq> None) (fst (pass (charge_flag spent took) flag ps))"
  by (induction ps arbitrary: flag) (auto simp: charge_flag_def Let_def unsettled_def)

text \<open>Where no note can be afforded, the second pass meets the plans that are not notes as they were.\<close>

lemma first_open:
  "list_all undecided ps \<Longrightarrow> \<not> list_ex (note_ok spent) ps \<Longrightarrow>
     find p_decide (fst (pass (charge_note spent) False ps)) = find flag_ok ps"
proof (induction ps)
  case (Cons p ps)
  then show ?case
    using note_before [of p spent] by (cases "flag_ok p") (auto simp: Let_def)
qed simp

text \<open>
  The budget delivers at most one plan: the first note the prompt can afford, and where there is
  none, and the prompt has flags left, the first flag. Every plan leaves it with a state.
\<close>

lemma charge_delivers:
  assumes "list_all undecided ps"
  shows "filter delivered (charge spent ps) =
      (case find (note_ok spent) ps of
         Some p \<Rightarrow> [deliver p]
       | None \<Rightarrow> if k_flags spent \<ge> maxFlags then []
                 else (case find flag_ok ps of None \<Rightarrow> [] | Some p \<Rightarrow> [deliver p]))"
    and "list_all (\<lambda>p. p_state p \<noteq> None) (charge spent ps)"
proof -
  note pass = notes_pass [OF assms, of spent]
  note unset = notes_unsettled [OF assms, of spent False]
  show "list_all (\<lambda>p. p_state p \<noteq> None) (charge spent ps)"
    unfolding charge_def Let_def by (rule flags_settle [OF unset])
  show "filter delivered (charge spent ps) =
      (case find (note_ok spent) ps of
         Some p \<Rightarrow> [deliver p]
       | None \<Rightarrow> if k_flags spent \<ge> maxFlags then []
                 else (case find flag_ok ps of None \<Rightarrow> [] | Some p \<Rightarrow> [deliver p]))"
  proof (cases "find (note_ok spent) ps")
    case None
    then have no: "\<not> list_ex (note_ok spent) ps" by (auto simp: find_None_iff list_ex_iff)
    then show ?thesis
      using None pass flags_shut [OF unset, of False False spent] flags_open [OF unset, of spent] first_open [OF assms no]
      by (auto simp: charge_def Let_def)
  next
    case (Some p)
    then have "list_ex (note_ok spent) ps" by (auto simp: find_Some_iff list_ex_iff)
    then show ?thesis
      using Some pass flags_shut [OF unset, of True False spent] by (simp add: charge_def Let_def)
  qed
qed

section \<open>What a note passed\<close>

lemma level_simps [simp]: "LevelFlag \<noteq> LevelNudge" "LevelNudge \<noteq> LevelFlag" "LevelStop \<noteq> LevelNudge" "LevelOff \<noteq> LevelNudge"
  "LevelOff \<noteq> LevelFlag" "LevelStop \<noteq> LevelFlag"
  by (simp_all add: vocab_defs)

text \<open>The texts a note needs: its own, and those of its record form where it has one.\<close>

definition texts_fit :: "Finding \<Rightarrow> bool" where
  "texts_fit f \<longleftrightarrow>
     (\<exists>x. noteTexts (m_Text (f_Message f)) (m_Aside (f_Message f)) (briefing (f_Pattern f)) = Inr x) \<and>
     (m_Template (f_Record f) = [] \<or>
      (\<exists>x. noteTexts (m_Text (f_Record f)) (m_Aside (f_Record f)) (briefing (f_Pattern f)) = Inr x))"

definition note_clear :: "Context \<Rightarrow> Client \<Rightarrow> Finding \<Rightarrow> bool" where
  "note_clear ctx c f \<longleftrightarrow>
     base_level f = LevelNudge \<and> clampReason ctx (ownChannel (f_Pattern f) (ct_Event ctx)) = None \<and>
     ruleOf (ct_Event ctx) = ruleContext \<and> m_Text (f_Message f) \<noteq> [] \<and> slotsOf (recorded f) \<noteq> None \<and>
     ContextAllowed (ct_Event ctx) c \<and> ct_Attendance ctx \<noteq> Unattended \<and> texts_fit f"

lemma demoted_facts [simp]:
  "p_f (demoted rule p) = p_f p" "p_key (demoted rule p) = p_key p" "p_direct (demoted rule p) = p_direct p"
  "p_decide (demoted rule p) = p_decide p" "p_model (demoted rule p) = p_model p" "p_user (demoted rule p) = p_user p"
  by (simp_all add: demoted_def Let_def)

lemma clamped_facts [simp]:
  "p_f (clamped ctx p) = p_f p" "p_key (clamped ctx p) = p_key p" "p_direct (clamped ctx p) = p_direct p"
  "p_decide (clamped ctx p) = p_decide p" "p_model (clamped ctx p) = p_model p" "p_user (clamped ctx p) = p_user p"
  by (auto simp: clamped_def split: option.split)

lemma gated_facts [simp]:
  "p_f (gated ctx c rule claimed p) = p_f p" "p_key (gated ctx c rule claimed p) = p_key p"
  "p_direct (gated ctx c rule claimed p) = p_direct p" "p_level (gated ctx c rule claimed p) = p_level p"
  "p_model (gated ctx c rule claimed p) = p_model p" "p_user (gated ctx c rule claimed p) = p_user p"
  by (auto simp: gated_def Let_def)

lemma fresh_facts [simp]:
  "p_f (fresh_plan ctx f) = f" "p_key (fresh_plan ctx f) = findingKey_of f" "p_decide (fresh_plan ctx f)"
  "p_level (fresh_plan ctx f) = base_level f" "p_model (fresh_plan ctx f) = []" "p_user (fresh_plan ctx f) = []"
  "p_direct (fresh_plan ctx f) = ownChannel (f_Pattern f) (ct_Event ctx)"
  by (simp_all add: fresh_plan_def)

lemma demoted_level:
  "p_level (demoted rule p) = LevelNudge \<longleftrightarrow>
     p_level p = LevelNudge \<and> rule \<noteq> ruleFlagOnly \<and> m_Text (f_Message (p_f p)) \<noteq> []"
  by (auto simp: demoted_def Let_def)

lemma clamped_level:
  "p_level (clamped ctx p) = LevelNudge \<longleftrightarrow> p_level p = LevelNudge \<and> clampReason ctx (p_direct p) = None"
  by (auto simp: clamped_def split: option.split)

lemma gated_open:
  "p_decide (gated ctx c rule claimed p) \<longleftrightarrow>
     p_decide p \<and> rule \<noteq> ruleNoChannel \<and> p_key p \<notin> set claimed \<and>
     (m_Text (f_Message (p_f p)) \<noteq> [] \<or> m_Aside (f_Message (p_f p)) \<noteq> []) \<and> slotsOf (recorded (p_f p)) \<noteq> None \<and>
     (p_level p = LevelNudge \<longrightarrow> ContextAllowed (ct_Event ctx) c \<and> ct_Attendance ctx \<noteq> Unattended)"
  by (auto simp: gated_def Let_def suppress_def)

lemma recordTexts_facts:
  "p_f (recordTexts p) = p_f p" "p_key (recordTexts p) = p_key p" "p_direct (recordTexts p) = p_direct p"
  "p_level (recordTexts p) = p_level p" "p_model (recordTexts p) = p_model p" "p_user (recordTexts p) = p_user p"
  by (auto simp: recordTexts_def Let_def split: sum.split)

lemma recordTexts_open:
  "p_level p = LevelNudge \<Longrightarrow> p_decide (recordTexts p) \<longleftrightarrow>
     p_decide p \<and> (m_Template (f_Record (p_f p)) = [] \<or>
       (\<exists>x. noteTexts (m_Text (f_Record (p_f p))) (m_Aside (f_Record (p_f p))) (briefing (f_Pattern (p_f p))) = Inr x))"
  by (auto simp: recordTexts_def Let_def split: sum.split)

lemma with_texts_facts:
  "p_f (with_texts p) = p_f p" "p_key (with_texts p) = p_key p" "p_direct (with_texts p) = p_direct p"
  "p_level (with_texts p) = p_level p"
  by (auto simp: with_texts_def Let_def recordTexts_facts split: sum.split)

lemma with_texts_note:
  "p_level p = LevelNudge \<Longrightarrow> p_decide (with_texts p) \<longleftrightarrow> p_decide p \<and> texts_fit (p_f p)"
  by (auto simp: with_texts_def Let_def recordTexts_open texts_fit_def split: sum.split)

lemma plan_of_facts [simp]:
  "p_f (plan_of ctx c claimed f) = f" "p_key (plan_of ctx c claimed f) = findingKey_of f"
  "p_direct (plan_of ctx c claimed f) = ownChannel (f_Pattern f) (ct_Event ctx)"
  by (simp_all add: plan_of_def Let_def with_texts_facts)

lemma plan_note_iff:
  "p_decide (plan_of ctx c claimed f) \<and> p_level (plan_of ctx c claimed f) = LevelNudge \<longleftrightarrow>
     note_clear ctx c f \<and> findingKey_of f \<notin> set claimed"
proof -
  let ?rule = "ruleOf (ct_Event ctx)"
  let ?q = "gated ctx c ?rule claimed (demoted ?rule (clamped ctx (fresh_plan ctx f)))"
  have q: "plan_of ctx c claimed f = with_texts ?q" by (simp add: plan_of_def Let_def)
  have level: "p_level ?q = LevelNudge \<longleftrightarrow>
      base_level f = LevelNudge \<and> clampReason ctx (ownChannel (f_Pattern f) (ct_Event ctx)) = None \<and>
      ?rule \<noteq> ruleFlagOnly \<and> m_Text (f_Message f) \<noteq> []"
    by (auto simp: demoted_level clamped_level)
  show ?thesis
  proof (cases "p_level ?q = LevelNudge")
    case True
    then have "p_decide (with_texts ?q) \<longleftrightarrow> p_decide ?q \<and> texts_fit f"
      by (simp add: with_texts_note)
    moreover have "p_decide ?q \<longleftrightarrow> ?rule \<noteq> ruleNoChannel \<and> findingKey_of f \<notin> set claimed \<and>
        slotsOf (recorded f) \<noteq> None \<and> ContextAllowed (ct_Event ctx) c \<and> ct_Attendance ctx \<noteq> Unattended"
      using True level by (simp add: gated_open demoted_level clamped_level)
    moreover have "?rule = ruleContext \<longleftrightarrow> ?rule \<noteq> ruleNoChannel \<and> ?rule \<noteq> ruleFlagOnly"
      by (cases ?rule) simp_all
    ultimately show ?thesis using True level by (auto simp: q with_texts_facts note_clear_def)
  next
    case False
    then have "\<not> note_clear ctx c f" using level by (auto simp: note_clear_def)
    then show ?thesis using False by (simp add: q with_texts_facts)
  qed
qed

text \<open>The texts of a note that is still to be decided.\<close>

lemma noteTexts_Inr:
  "noteTexts t aside brief = Inr (model, user) \<Longrightarrow>
     model = t \<and> (if brief then ValidateBriefing t else Validate t) = None \<and>
     user = withAside (MirrorPrefix @ t @ MirrorSuffix) aside"
  by (auto simp: noteTexts_def Let_def Mirror_def MirrorBriefing_def split: if_splits option.splits)

lemma plan_note_texts:
  assumes "p_decide (plan_of ctx c claimed f)" "p_level (plan_of ctx c claimed f) = LevelNudge"
  shows "p_model (plan_of ctx c claimed f) = m_Text (f_Message f)"
    "p_user (plan_of ctx c claimed f) =
       withAside (MirrorPrefix @ m_Text (f_Message f) @ MirrorSuffix) (m_Aside (f_Message f))"
    "check_of (f_Pattern f) (m_Text (f_Message f)) = None"
proof -
  let ?rule = "ruleOf (ct_Event ctx)"
  let ?q = "gated ctx c ?rule claimed (demoted ?rule (clamped ctx (fresh_plan ctx f)))"
  have q: "plan_of ctx c claimed f = with_texts ?q" by (simp add: plan_of_def Let_def)
  have level: "p_level ?q = LevelNudge" using assms(2) by (simp add: q with_texts_facts)
  then have open_: "p_decide ?q" "texts_fit f" using assms(1) with_texts_note [OF level] by (simp_all add: q)
  obtain model user where t: "noteTexts (m_Text (f_Message f)) (m_Aside (f_Message f)) (briefing (f_Pattern f)) = Inr (model, user)"
    using open_(2) by (auto simp: texts_fit_def)
  have "p_model (with_texts ?q) = model \<and> p_user (with_texts ?q) = user"
    using level open_(1) t by (simp add: with_texts_def recordTexts_facts)
  then show "p_model (plan_of ctx c claimed f) = m_Text (f_Message f)"
    "p_user (plan_of ctx c claimed f) =
       withAside (MirrorPrefix @ m_Text (f_Message f) @ MirrorSuffix) (m_Aside (f_Message f))"
    "check_of (f_Pattern f) (m_Text (f_Message f)) = None"
    using noteTexts_Inr [OF t] by (simp_all add: q check_of_def split: if_splits)
qed

end
