(* ===== verification/SteerOutput.thy ===== *)
theory SteerOutput
  imports SteerPrints
begin

text \<open>
  What one call of the router prints, over the findings alone (\<^verbatim>\<open>internal/steer\<close>, decide.go): a
  reference reading with no plans, states or passes, and the proof that the router prints it.
\<close>

section \<open>The first finding of each key\<close>

fun first_keys :: "findingKey list \<Rightarrow> Finding list \<Rightarrow> Finding list" where
  "first_keys claimed [] = []"
| "first_keys claimed (f # fs) =
     (if f_MaxLevel f = LevelOff \<or> findingKey_of f \<in> set claimed then first_keys claimed fs
      else f # first_keys (findingKey_of f # claimed) fs)"

lemma gated_claimed:
  "p_key p \<notin> set claimed \<Longrightarrow> gated ctx c rule claimed p = gated ctx c rule [] p"
  by (simp add: gated_def Let_def)

lemma plan_of_claimed:
  "findingKey_of f \<notin> set claimed \<Longrightarrow> plan_of ctx c claimed f = plan_of ctx c [] f"
  unfolding plan_of_def Let_def by (subst gated_claimed) simp_all

lemma first_keys_cong:
  "set a = set b \<Longrightarrow> first_keys a fs = first_keys b fs"
proof (induction fs arbitrary: a b)
  case (Cons f fs)
  have "set (findingKey_of f # a) = set (findingKey_of f # b)" using Cons.prems by simp
  then show ?case using Cons.IH [OF Cons.prems] Cons.IH [of "findingKey_of f # a" "findingKey_of f # b"] Cons.prems
    by simp
qed simp

text \<open>A plan the claimed key closes meets no test that asks for an open plan.\<close>

lemma plan_closed:
  assumes "findingKey_of f \<in> set claimed"
  shows "\<not> p_decide (plan_of ctx c claimed f)"
proof -
  have closed: "\<not> p_decide (gated ctx c rule claimed p)" if "p_key p \<in> set claimed" for rule p
    using that by (simp add: gated_open)
  show ?thesis using assms by (simp add: plan_of_def Let_def with_texts_def closed)
qed

lemma find_plans:
  assumes "\<And>p. P p \<Longrightarrow> p_decide p"
  shows "find P (plans_of ctx c claimed fs) =
     map_option (plan_of ctx c []) (find (\<lambda>f. P (plan_of ctx c [] f)) (first_keys claimed fs))"
proof (induction fs arbitrary: claimed)
  case (Cons f fs)
  show ?case
  proof (cases "findingKey_of f \<in> set claimed")
    case True
    then have "\<not> P (plan_of ctx c claimed f)" using plan_closed assms by blast
    moreover have "first_keys (findingKey_of f # claimed) fs = first_keys claimed fs"
      using True by (intro first_keys_cong) auto
    ultimately show ?thesis using Cons.IH True by simp
  next
    case False
    then show ?thesis using Cons.IH by (simp add: plan_of_claimed [OF False])
  qed
qed simp

section \<open>Flags\<close>

definition record_fits :: "Finding \<Rightarrow> bool" where
  "record_fits f \<longleftrightarrow>
     m_Template (f_Record f) = [] \<or> (\<exists>u. flagText (m_Text (f_Record f)) (m_Aside (f_Record f)) = Inr u)"

text \<open>A finding that may print as a flag: an event with a channel, a text, and nothing over the size.\<close>

definition flag_level :: "Context \<Rightarrow> Finding \<Rightarrow> bool" where
  "flag_level ctx f \<longleftrightarrow>
     base_level f \<noteq> LevelNudge \<or> clampReason ctx (ownChannel (f_Pattern f) (ct_Event ctx)) \<noteq> None \<or>
     ruleOf (ct_Event ctx) = ruleFlagOnly \<or> m_Text (f_Message f) = []"

definition flag_clear :: "Context \<Rightarrow> Finding \<Rightarrow> bool" where
  "flag_clear ctx f \<longleftrightarrow>
     flag_level ctx f \<and> ruleOf (ct_Event ctx) \<noteq> ruleNoChannel \<and>
     (m_Text (f_Message f) \<noteq> [] \<or> m_Aside (f_Message f) \<noteq> []) \<and> slotsOf (recorded f) \<noteq> None \<and>
     (\<exists>u. flagText (m_Text (f_Message f)) (m_Aside (f_Message f)) = Inr u) \<and> record_fits f"

lemma recordTexts_flag:
  "p_level p \<noteq> LevelNudge \<Longrightarrow> p_decide (recordTexts p) \<longleftrightarrow> p_decide p \<and> record_fits (p_f p)"
  by (auto simp: recordTexts_def record_fits_def Let_def split: sum.split)

lemma with_texts_flag:
  "p_level p \<noteq> LevelNudge \<Longrightarrow> p_decide (with_texts p) \<longleftrightarrow>
     p_decide p \<and> record_fits (p_f p) \<and>
     (\<exists>u. flagText (m_Text (f_Message (p_f p))) (m_Aside (f_Message (p_f p))) = Inr u)"
  by (auto simp: with_texts_def Let_def recordTexts_flag split: sum.split)

lemma plan_flag_iff:
  "p_decide (plan_of ctx c [] f) \<and> p_level (plan_of ctx c [] f) \<noteq> LevelNudge \<longleftrightarrow> flag_clear ctx f"
proof -
  let ?rule = "ruleOf (ct_Event ctx)"
  let ?q = "gated ctx c ?rule [] (demoted ?rule (clamped ctx (fresh_plan ctx f)))"
  have q: "plan_of ctx c [] f = with_texts ?q" by (simp add: plan_of_def Let_def)
  have level: "p_level ?q \<noteq> LevelNudge \<longleftrightarrow> flag_level ctx f"
    by (auto simp: demoted_level clamped_level flag_level_def)
  show ?thesis
  proof (cases "flag_level ctx f")
    case True
    have "p_decide ?q \<longleftrightarrow> ?rule \<noteq> ruleNoChannel \<and>
        (m_Text (f_Message f) \<noteq> [] \<or> m_Aside (f_Message f) \<noteq> []) \<and> slotsOf (recorded f) \<noteq> None"
      using True level by (simp add: gated_open)
    then show ?thesis
      using True level with_texts_flag [of ?q] by (auto simp: q with_texts_facts flag_clear_def)
  next
    case False
    then show ?thesis using level by (simp add: q with_texts_facts flag_clear_def)
  qed
qed

lemma plan_flag_text:
  assumes "flag_clear ctx f"
  shows "p_user (plan_of ctx c [] f) = withAside (m_Text (f_Message f)) (m_Aside (f_Message f))"
    and "p_level (plan_of ctx c [] f) \<noteq> LevelNudge"
proof -
  let ?rule = "ruleOf (ct_Event ctx)"
  let ?q = "gated ctx c ?rule [] (demoted ?rule (clamped ctx (fresh_plan ctx f)))"
  have q: "plan_of ctx c [] f = with_texts ?q" by (simp add: plan_of_def Let_def)
  have plan: "p_decide (with_texts ?q)" "p_level ?q \<noteq> LevelNudge"
    using plan_flag_iff [of ctx c f] assms by (simp_all add: q with_texts_facts)
  then have "p_decide ?q" using with_texts_flag [of ?q] by simp
  moreover obtain u where u: "flagText (m_Text (f_Message f)) (m_Aside (f_Message f)) = Inr u"
    using assms by (auto simp: flag_clear_def)
  ultimately have "p_user (with_texts ?q) = u"
    using plan(2) by (simp add: with_texts_def recordTexts_facts)
  then show "p_user (plan_of ctx c [] f) = withAside (m_Text (f_Message f)) (m_Aside (f_Message f))"
    using u by (auto simp: q flagText_def Let_def split: if_splits)
  show "p_level (plan_of ctx c [] f) \<noteq> LevelNudge" using plan(2) by (simp add: q with_texts_facts)
qed

section \<open>The reference reading\<close>

text \<open>A note the prompt's budget affords: its key unspent, and room for it and what it reserves.\<close>

definition affordable :: "Context \<Rightarrow> counts \<Rightarrow> Finding \<Rightarrow> bool" where
  "affordable ctx spent f \<longleftrightarrow>
     findingKey_of f \<notin> set (k_keys spent) \<and>
     (ownChannel (f_Pattern f) (ct_Event ctx) \<or> k_notes spent + Reserve (f_Pattern f) < maxNotes)"

definition note_output :: "Finding \<Rightarrow> Output" where
  "note_output f =
     no_output\<lparr>o_AdditionalContext := m_Text (f_Message f),
               o_SystemMessage := withAside (MirrorPrefix @ m_Text (f_Message f) @ MirrorSuffix) (m_Aside (f_Message f))\<rparr>"

definition flag_output :: "Finding \<Rightarrow> Output" where
  "flag_output f = no_output\<lparr>o_SystemMessage := withAside (m_Text (f_Message f)) (m_Aside (f_Message f))\<rparr>"

definition pick_note :: "Context \<Rightarrow> Client \<Rightarrow> counts \<Rightarrow> Finding list \<Rightarrow> Finding option" where
  "pick_note ctx c spent fs =
     find (\<lambda>f. note_clear ctx c f \<and> affordable ctx spent f) (first_keys [] (ownFirst (ct_Event ctx) (rank fs)))"

definition pick_flag :: "Context \<Rightarrow> counts \<Rightarrow> Finding list \<Rightarrow> Finding option" where
  "pick_flag ctx spent fs =
     (if k_flags spent \<ge> maxFlags then None
      else find (flag_clear ctx) (first_keys [] (ownFirst (ct_Event ctx) (rank fs))))"

text \<open>What the marshaller accepts is printed, and nothing else is.\<close>

definition writable :: "Context \<Rightarrow> Client \<Rightarrow> Output \<Rightarrow> Output" where
  "writable ctx c o' = (case MarshalFor o' (ct_Event ctx) c of Inl e \<Rightarrow> no_output | Inr t \<Rightarrow> o')"

definition prints :: "Context \<Rightarrow> Client \<Rightarrow> counts \<Rightarrow> Finding list \<Rightarrow> Output" where
  "prints ctx c spent fs =
     (if ct_Arm ctx = ArmOff then no_output
      else (case pick_note ctx c spent fs of
              Some f \<Rightarrow> if ct_Holdout ctx then no_output else writable ctx c (note_output f)
            | None \<Rightarrow> (case pick_flag ctx spent fs of Some f \<Rightarrow> writable ctx c (flag_output f) | None \<Rightarrow> no_output)))"

lemma note_ok_plan:
  "note_ok spent (plan_of ctx c [] f) \<longleftrightarrow> note_clear ctx c f \<and> affordable ctx spent f"
  using plan_note_iff [of ctx c "[]" f] by (auto simp: note_ok_def affordable_def)

lemma flag_ok_plan: "flag_ok (plan_of ctx c [] f) \<longleftrightarrow> flag_clear ctx f"
  using plan_flag_iff [of ctx c f] by (simp add: flag_ok_def)

lemma charge_picks:
  "filter delivered (charge spent (plans_of ctx c [] (ownFirst (ct_Event ctx) (rank fs)))) =
     (case pick_note ctx c spent fs of
        Some f \<Rightarrow> [deliver (plan_of ctx c [] f)]
      | None \<Rightarrow> (case pick_flag ctx spent fs of None \<Rightarrow> [] | Some f \<Rightarrow> [deliver (plan_of ctx c [] f)]))"
proof -
  let ?fs = "ownFirst (ct_Event ctx) (rank fs)"
  have picked: "find (note_ok spent) (plans_of ctx c [] ?fs) = map_option (plan_of ctx c []) (pick_note ctx c spent fs)"
    unfolding pick_note_def by (subst find_plans) (simp_all add: note_ok_plan, simp add: note_ok_def)
  have flags: "find flag_ok (plans_of ctx c [] ?fs) =
      map_option (plan_of ctx c []) (find (flag_clear ctx) (first_keys [] ?fs))"
    by (subst find_plans) (simp_all add: flag_ok_plan, simp add: flag_ok_def)
  show ?thesis
    unfolding charge_delivers(1) [OF plans_undecided] picked flags
    by (auto simp: pick_flag_def split: option.split)
qed

section \<open>The router prints it\<close>

lemma fst_printed: "fst (printed ctx c ps) = writable ctx c (output_of (printed_plan (ct_Arm ctx) ps))"
  by (auto simp: printed_def writable_def Let_def split: sum.split)

lemma find_as_filter: "find P xs = (case filter P xs of [] \<Rightarrow> None | x # r \<Rightarrow> Some x)"
  by (induction xs) auto

lemma holdOut_delivered: "delivered (holdOut p) = delivered p"
  by (simp add: holdOut_def delivered_def)

lemma find_held:
  "find delivered (map (\<lambda>p. if h \<and> holdoutEligible p then holdOut p else p) ps) =
     map_option (\<lambda>p. if h \<and> holdoutEligible p then holdOut p else p) (find delivered ps)"
  by (induction ps) (auto simp: holdOut_delivered)

lemma note_pick_plan:
  assumes "pick_note ctx c spent fs = Some f"
  shows "output_of (Some (deliver (plan_of ctx c [] f))) = note_output f" "holdoutEligible (deliver (plan_of ctx c [] f))"
proof -
  have "note_clear ctx c f" using assms by (auto simp: pick_note_def find_Some_iff)
  then have plan: "p_decide (plan_of ctx c [] f)" "p_level (plan_of ctx c [] f) = LevelNudge"
    using plan_note_iff [of ctx c "[]" f] by simp_all
  show "output_of (Some (deliver (plan_of ctx c [] f))) = note_output f"
    using plan_note_texts [OF plan] plan by (simp add: output_of_def deliver_def note_output_def)
  show "holdoutEligible (deliver (plan_of ctx c [] f))"
    using plan by (simp add: holdoutEligible_def delivered_def deliver_def)
qed

lemma flag_pick_plan:
  assumes "pick_flag ctx spent fs = Some f"
  shows "output_of (Some (deliver (plan_of ctx c [] f))) = flag_output f" "\<not> holdoutEligible (deliver (plan_of ctx c [] f))"
proof -
  have clear: "flag_clear ctx f" using assms by (auto simp: pick_flag_def find_Some_iff split: if_splits)
  show "output_of (Some (deliver (plan_of ctx c [] f))) = flag_output f"
    using plan_flag_text [OF clear, of c] by (simp add: output_of_def deliver_def flag_output_def no_output_def)
  show "\<not> holdoutEligible (deliver (plan_of ctx c [] f))"
    using plan_flag_text(2) [OF clear, of c] by (simp add: holdoutEligible_def deliver_def)
qed

lemma output_held: "output_of (Some (holdOut p)) = no_output"
  by (simp add: output_of_def holdOut_def no_output_def)

lemma writable_none [simp]: "writable ctx c no_output = no_output"
  by (simp add: writable_def split: sum.split)

lemma output_none: "output_of None = no_output"
  by (simp add: output_of_def)

lemma decide_output: "fst (decide ctx c fs spent mint) = prints ctx c spent fs"
proof -
  let ?ps = "charge spent (plans_of ctx c [] (ownFirst (ct_Event ctx) (rank fs)))"
  let ?hold = "\<lambda>p. if ct_Holdout ctx \<and> holdoutEligible p then holdOut p else p"
  have out: "fst (decide ctx c fs spent mint) =
      writable ctx c (output_of (printed_plan (ct_Arm ctx) (decided ctx c fs spent)))"
    by (simp add: decide_def fst_printed [symmetric] split: prod.split)
  show ?thesis
  proof (cases "ct_Arm ctx = ArmOff")
    case True
    then show ?thesis by (simp add: out printed_plan_def output_none prints_def)
  next
    case False
    then have live: "decided ctx c fs spent = map ?hold ?ps" by (simp add: decided_def)
    have first: "printed_plan (ct_Arm ctx) (decided ctx c fs spent) = map_option ?hold (find delivered ?ps)"
      using False by (simp add: printed_plan_def live find_held)
    have found: "find delivered ?ps =
       (case pick_note ctx c spent fs of
          Some f \<Rightarrow> Some (deliver (plan_of ctx c [] f))
        | None \<Rightarrow> map_option (\<lambda>f. deliver (plan_of ctx c [] f)) (pick_flag ctx spent fs))"
      by (simp add: find_as_filter [of delivered] charge_picks split: option.split)
    show ?thesis
    proof (cases "pick_note ctx c spent fs")
      case None
      then show ?thesis
        using False flag_pick_plan [of ctx spent fs]
        by (cases "pick_flag ctx spent fs") (auto simp: out first found prints_def output_none)
    next
      case (Some f)
      then show ?thesis
        using False note_pick_plan [OF Some] by (simp add: out first found prints_def output_held)
    qed
  qed
qed

section \<open>What is written\<close>

lemma ValidString_mark: "ValidString (reference_mark @ s) = ValidString s"
  by (subst ValidString.simps) (simp add: reference_mark_def DecodeRune_def leading_byte_def continues_def RuneError_def)

lemma ValidString_mirror: "ValidString (MirrorPrefix @ s) = ValidString s" "ValidString (AsidePrefix @ s) = ValidString s"
  by (simp_all add: MirrorPrefix_def AsidePrefix_def ValidString_mark ValidString_ascii)

lemma texts_checked: "texts_fit f \<Longrightarrow> check_of (f_Pattern f) (m_Text (f_Message f)) = None"
  using noteTexts_Inr by (fastforce simp: texts_fit_def check_of_def)

lemma checked_ascii: "check_of p t = None \<Longrightarrow> list_all (\<lambda>c. byte c < (0x80 :: nat)) t"
proof -
  assume "check_of p t = None"
  from check_of_bytes [OF this] have all: "list_all (\<lambda>c. note_byte c \<or> briefing p \<and> c = CHR 0x0A) t" .
  have "byte c < (0x80 :: nat)" if "note_byte c \<or> briefing p \<and> c = CHR 0x0A" for c
    using that
  proof
    assume "note_byte c"
    then show ?thesis by (simp add: note_byte_def)
  qed simp
  with all show ?thesis by (rule list.pred_mono_strong)
qed

lemma ValidString_note:
  assumes "check_of p t = None"
  shows "ValidString t" "ValidString (withAside (MirrorPrefix @ t @ MirrorSuffix) a) = ValidString a"
proof -
  have plain: "ValidString (t @ s) = ValidString s" for s
    by (rule ValidString_plain [OF checked_ascii [OF assms]])
  from plain [of "[]"] show "ValidString t" by simp
  show "ValidString (withAside (MirrorPrefix @ t @ MirrorSuffix) a) = ValidString a"
    by (simp add: withAside_def ValidString_mirror plain MirrorSuffix_def ValidString_ascii)
qed

text \<open>
  A note that is clear is marshalled where its aside is valid UTF-8: its text is ASCII, and the keys
  and the channel were settled before.
\<close>

lemma note_marshals:
  assumes "note_clear ctx c f" "ValidString (m_Aside (f_Message f))"
  shows "writable ctx c (note_output f) = note_output f"
proof -
  have "ContextAllowed (ct_Event ctx) c" using assms(1) by (simp add: note_clear_def)
  then obtain k where k: "outputKeys (ct_Event ctx) = Some k" "ek_context k" "verified k (ct_Event ctx) c mirrorVerifiedOn"
    by (auto simp: ContextAllowed_def allowed_def split: option.splits)
  have "ruleOf (ct_Event ctx) = ruleContext" using assms(1) by (simp add: note_clear_def)
  then have "\<not> ek_decision k" using k by (auto simp: ruleOf_def split: if_splits)
  moreover have "check_of (f_Pattern f) (m_Text (f_Message f)) = None"
    using assms(1) texts_checked by (simp add: note_clear_def)
  then have "output_valid_utf8 (note_output f)"
    using assms(2) ValidString_note [of "f_Pattern f" "m_Text (f_Message f)"]
    by (simp add: output_valid_utf8_def note_output_def no_output_def)
  ultimately have "MarshalFor (note_output f) (ct_Event ctx) c \<noteq> Inl e" for e
    using k by (simp add: MarshalFor_def marshalFor_def check_output_def note_output_def no_output_def)
  then show ?thesis by (simp add: writable_def split: sum.split)
qed

text \<open>
  C8: one call prints what the findings alone decide, whatever states, levels and passes the router
  goes through: nothing under the off arm; the first finding, by rank, of those whose key no
  earlier one has, that passes every gate of a note and that the prompt can afford, unless the
  session is held out; where no note is to be had, the first such flag while the prompt has flags
  left; and nothing that the marshaller of the event would refuse.
\<close>

theorem decide_prints: "fst (decide ctx c fs spent mint) = prints ctx c spent fs"
  by (rule decide_output)

text \<open>What reached the model, seen from the finding it came from.\<close>

lemma writable_cases: "writable ctx c o' = o' \<or> writable ctx c o' = no_output"
  by (simp add: writable_def split: sum.split)

lemma first_keys_subset: "set (first_keys claimed fs) \<subseteq> set fs"
  by (induction fs arbitrary: claimed) auto

lemma ranked_set: "set (ownFirst event (rank fs)) = set fs"
  by (simp add: ownFirst_def rank_def)

lemma prints_note:
  assumes "o_AdditionalContext (prints ctx c spent fs) \<noteq> []"
  obtains f where "f \<in> set fs" "note_clear ctx c f" "affordable ctx spent f" "prints ctx c spent fs = note_output f"
    "ct_Arm ctx \<noteq> ArmOff" "\<not> ct_Holdout ctx"
proof -
  have none: "o_AdditionalContext no_output = []" "\<And>f. o_AdditionalContext (flag_output f) = []"
    by (simp_all add: no_output_def flag_output_def)
  then have flag: "o_AdditionalContext (writable ctx c (flag_output f)) = []" for f
    using writable_cases [of ctx c "flag_output f"] by auto
  from assms obtain f where f: "pick_note ctx c spent fs = Some f" "ct_Arm ctx \<noteq> ArmOff" "\<not> ct_Holdout ctx"
    by (auto simp: prints_def none flag split: if_splits option.splits)
  then have out: "prints ctx c spent fs = writable ctx c (note_output f)" by (simp add: prints_def)
  then have "prints ctx c spent fs = note_output f"
    using writable_cases [of ctx c "note_output f"] assms none by auto
  moreover have "note_clear ctx c f" "affordable ctx spent f"
    "f \<in> set (first_keys [] (ownFirst (ct_Event ctx) (rank fs)))"
    using f(1) by (auto simp: pick_note_def find_Some_iff)
  ultimately show ?thesis
    using that f(2,3) first_keys_subset [of "[]" "ownFirst (ct_Event ctx) (rank fs)"] ranked_set [of "ct_Event ctx" fs]
    by blast
qed

lemma clamp_none:
  "clampReason ctx direct = None \<Longrightarrow>
     ct_Consent ctx \<and> \<not> ct_SteerOff ctx \<and> \<not> ct_ConfigUnreadable ctx \<and> (ct_PromptID ctx \<noteq> None \<or> direct) \<and>
     \<not> (ct_Event ctx = EventStop \<and> ct_StopHookActive ctx)"
  by (auto simp: clampReason_def split: if_splits)

text \<open>A call that prints, for the witnesses.\<close>

definition example_text :: string where
  "example_text = ''rashomon record: go test failed at call 4.''"

definition example_context :: Context where
  "example_context =
     \<lparr>ct_Event = EventPostToolUse, ct_SessionID = ''s'', ct_PromptID = Some ''p'', ct_AgentID = [], ct_Project = [],
      ct_InvocationID = [], ct_HarnessID = [], ct_Surface = [], ct_NowUnixMS = 0, ct_Consent = True, ct_SteerOff = False,
      ct_ConfigUnreadable = False, ct_Arm = ArmLive, ct_Attendance = Attended, ct_StopHookActive = False,
      ct_Holdout = False\<rparr>"

definition example_client :: Client where
  "example_client = \<lparr>c_Version = ''2.1.304'', c_MirrorInBand = True, c_Subagent = False, c_EvidenceAbsent = False, c_StartSource = []\<rparr>"

definition example_finding :: Finding where
  "example_finding =
     \<lparr>f_Pattern = ''claim-vs-record'', f_Kind = ''red'', f_Key = ''k'', f_Priority = 85, f_MaxLevel = LevelNudge,
      f_StopForm = StopFormNone,
      f_Message = no_message\<lparr>m_Pattern := ''claim-vs-record'', m_Template := ''t'', m_Text := example_text\<rparr>,
      f_Record = no_message, f_Evidence = [4], f_AfterSeq = 4, f_AgentID = [], f_OutcomeFrom = []\<rparr>"

definition no_counts :: counts where
  "no_counts = \<lparr>k_notes = 0, k_flags = 0, k_keys = []\<rparr>"

lemma example_valid: "Validate example_text = None"
proof -
  have "checkLine example_text = None" unfolding example_text_def by code_simp
  then show ?thesis by (simp add: Validate_def) (simp add: example_text_def MaxMessageBytes_def HasPrefix_def MessagePrefix_def)
qed

lemma example_clear: "note_clear example_context example_client example_finding"
proof -
  have "ContextAllowed EventPostToolUse example_client" by code_simp
  moreover have "ruleOf EventPostToolUse = ruleContext" by code_simp
  moreover have "noteTexts example_text [] False = Inr (example_text, MirrorPrefix @ example_text @ MirrorSuffix)"
    by (simp add: noteTexts_def Mirror_def example_valid)
      (simp add: withAside_def MirrorPrefix_def MirrorSuffix_def reference_mark_def example_text_def MaxSteerTextBytes_def)
  ultimately show ?thesis
    by (simp add: note_clear_def example_context_def example_finding_def base_level_def clampReason_def texts_fit_def
        no_message_def slotsOf_def recorded_def briefing_def vocab_defs)
      (simp add: example_text_def)
qed

lemma example_prints: "prints example_context example_client no_counts [example_finding] = note_output example_finding"
proof -
  have "affordable example_context no_counts example_finding"
    by (simp add: affordable_def no_counts_def maxNotes_def example_finding_def Reserve_def)
  moreover have "first_keys [] (ownFirst (ct_Event example_context) (rank [example_finding])) = [example_finding]"
    by (simp add: rank_def ownFirst_def example_finding_def vocab_defs)
  ultimately have "pick_note example_context example_client no_counts [example_finding] = Some example_finding"
    using example_clear by (simp add: pick_note_def)
  moreover have "writable example_context example_client (note_output example_finding) = note_output example_finding"
    by (rule note_marshals [OF example_clear]) (simp add: example_finding_def no_message_def)
  ultimately show ?thesis by (simp add: prints_def) (simp add: example_context_def)
qed



end
