(* ===== verification/SteerSpent.thy ===== *)
theory SteerSpent
  imports SteerBudget SteerOutput
begin

text \<open>
  What a prompt has spent, over the lines of the log (\<^verbatim>\<open>internal/steer\<close>, budget.go and decide.go): the
  scan over the log's bytes counts it where the prompt's lines stand together, and one call of
  the router adds at most one charge to it, within the prompt's budget.
\<close>

section \<open>The lines as the log holds them\<close>

definition log_text :: "Line list \<Rightarrow> string" where
  "log_text ls = concat (map (\<lambda>l. line_json l @ [CHR 0x0A]) ls)"

definition written :: "Line \<Rightarrow> bool" where
  "written l \<longleftrightarrow> slots_valid l \<and> line_valid l \<and> length (line_json l) + 1 \<le> MaxRecordBytes \<and> CHR 0x0A \<notin> set (line_json l)"

lemma log_text_append: "log_text (xs @ ys) = log_text xs @ log_text ys"
  by (simp add: log_text_def)

lemma log_text_ends: "log_text ls = [] \<longleftrightarrow> ls = []" "ls \<noteq> [] \<Longrightarrow> last (log_text ls) = CHR 0x0A"
  by (cases ls rule: rev_cases; simp add: log_text_def)+

lemma marshalSteer_text:
  "marshalSteer ls = Inr b \<Longrightarrow>
     b = log_text ls \<and> list_all (\<lambda>l. length (line_json l) + 1 \<le> MaxRecordBytes \<and> CHR 0x0A \<notin> set (line_json l)) ls"
proof (induction ls arbitrary: b)
  case (Cons l ls)
  then obtain rest where rest: "marshalSteer ls = Inr rest" "marshalLine (line_json l) = Inr (line_json l @ [CHR 0x0A])"
    "b = line_json l @ [CHR 0x0A] @ rest"
    by (auto simp: marshalLine_def split: if_splits sum.splits)
  then have "length (line_json l) + 1 \<le> MaxRecordBytes" "CHR 0x0A \<notin> set (line_json l)"
    by (auto simp: marshalLine_def list_ex_iff split: if_splits)
  then show ?case using Cons.IH [OF rest(1)] rest(3) by (simp add: log_text_def)
qed (simp add: log_text_def)

lemma Split_log: "list_all written ls \<Longrightarrow> Split (log_text ls) (CHR 0x0A) = map line_json ls @ [[]]"
proof (induction ls)
  case (Cons l ls)
  have "log_text (l # ls) = line_json l @ CHR 0x0A # log_text ls" by (simp add: log_text_def)
  then show ?case using Cons by (simp add: Split_append Split_absent written_def)
qed (simp add: log_text_def)

section \<open>The scan over lines\<close>

fun line_scan :: "Context \<Rightarrow> budgetScan \<Rightarrow> Line list \<Rightarrow> budgetScan" where
  "line_scan ctx s [] = s"
| "line_scan ctx s (l # ls) =
     (if bs_done (line_scan ctx s ls) then line_scan ctx s ls else line_step ctx (line_scan ctx s ls) l)"

lemma written_read: "written l \<Longrightarrow> budget_line ctx s (line_json l) = line_step ctx s l"
  by (rule budget_line_written) (simp_all add: written_def MaxRecordBytes_def MaxInt32_def)

lemma scan_Cons: "scan_lines ctx s (x # xs) = scan_step ctx (scan_lines ctx s xs) x"
  by (simp add: scan_lines_def)

lemma scan_written: "list_all written ls \<Longrightarrow> scan_lines ctx s (map line_json ls) = line_scan ctx s ls"
  by (induction ls) (simp_all add: scan_Cons scan_step_def written_read, simp add: scan_lines_def)

lemma countBudget_scan:
  assumes "list_all written ls"
  shows "countBudget ctx (log_text ls) = bs_c (line_scan ctx new_scan ls)"
proof -
  have "scan_lines ctx new_scan [[]] = new_scan" by (simp add: scan_lines_def scan_step_def empty_line)
  then show ?thesis
    by (simp add: countBudget_reads Split_log [OF assms] scan_lines_append scan_written [OF assms])
qed

section \<open>What a prompt has spent\<close>

definition of_prompt :: "string \<Rightarrow> string option \<Rightarrow> Line \<Rightarrow> bool" where
  "of_prompt sid pid l \<longleftrightarrow> l_SessionID l = sid \<and> l_PromptID l = pid"

definition spent_of :: "string \<Rightarrow> string option \<Rightarrow> Line list \<Rightarrow> counts" where
  "spent_of sid pid ls =
     (let own = filter (of_prompt sid pid) ls in
      \<lparr>k_notes = length (filter (\<lambda>l. line_note l \<and> l_Pattern l \<noteq> ''continuity-briefing'') own),
       k_flags = length (filter line_flag own), k_keys = map line_key (filter line_note own)\<rparr>)"

definition add_counts :: "counts \<Rightarrow> counts \<Rightarrow> counts" where
  "add_counts a b = \<lparr>k_notes = k_notes a + k_notes b, k_flags = k_flags a + k_flags b, k_keys = k_keys a @ k_keys b\<rparr>"

lemma spent_append: "spent_of sid pid (xs @ ys) = add_counts (spent_of sid pid xs) (spent_of sid pid ys)"
  by (simp add: spent_of_def add_counts_def Let_def)

lemma line_ours_prompt: "line_ours ctx = of_prompt (ct_SessionID ctx) (ct_PromptID ctx)"
  by (auto simp: line_ours_def of_prompt_def fun_eq_iff)

lemma flag_not_note: "line_flag l \<Longrightarrow> \<not> line_note l"
  by (auto simp: line_flag_def line_note_def level_word_def vocab_defs)

lemma scan_own:
  "list_all (line_ours ctx) own \<Longrightarrow> \<not> bs_done s \<Longrightarrow>
     \<not> bs_done (line_scan ctx s own) \<and>
     bs_c (line_scan ctx s own) = add_counts (spent_of (ct_SessionID ctx) (ct_PromptID ctx) own) (bs_c s)"
proof (induction own)
  case (Cons l own)
  then have ours: "line_ours ctx l" "of_prompt (ct_SessionID ctx) (ct_PromptID ctx) l" by (simp_all add: line_ours_prompt)
  then show ?case
    using Cons flag_not_note [of l]
    by (auto simp: line_step_def charge_flag_line_def charge_note_line_def spent_of_def add_counts_def Let_def)
qed (simp add: spent_of_def add_counts_def)

lemma foreign_counts: "bs_c (budget_foreign s b) = bs_c s"
  by (auto simp: budget_foreign_def split: option.split)

lemma scan_foreign: "list_all (\<lambda>l. \<not> line_ours ctx l) ls \<Longrightarrow> bs_c (line_scan ctx s ls) = bs_c s"
  by (induction ls) (auto simp: line_step_def foreign_counts)

text \<open>One foreign batch after the prompt's own lines.\<close>

lemma scan_batch:
  "list_all (\<lambda>l. \<not> line_ours ctx l \<and> line_batch l = b) ls \<Longrightarrow>
     \<not> bs_done (line_scan ctx new_scan ls) \<and> \<not> bs_own (line_scan ctx new_scan ls) \<and>
     bs_batch (line_scan ctx new_scan ls) = (if ls = [] then None else Some b)"
  by (induction ls) (auto simp: line_step_def budget_foreign_def new_scan_def)

lemma line_scan_append: "line_scan ctx s (xs @ ys) = line_scan ctx (line_scan ctx s ys) xs"
  by (induction xs) simp_all

text \<open>
  The prompt's lines stand together in the log, with at most one append of another prompt after
  them: what a session's prompts, one after the other, leave, and one hook that outlived its own.
\<close>

definition settled :: "string \<Rightarrow> string option \<Rightarrow> Line list \<Rightarrow> bool" where
  "settled sid pid ls =
     (let late = takeWhile (\<lambda>l. \<not> of_prompt sid pid l) (rev ls); rest = dropWhile (\<lambda>l. \<not> of_prompt sid pid l) (rev ls) in
      list_all (\<lambda>l. \<not> of_prompt sid pid l) (dropWhile (of_prompt sid pid) rest) \<and>
      (rest = [] \<or> list_all (\<lambda>l. line_batch l = line_batch (hd late)) late))"

lemma spent_none: "list_all (\<lambda>l. \<not> of_prompt sid pid l) ls \<Longrightarrow> spent_of sid pid ls = no_counts"
proof -
  assume "list_all (\<lambda>l. \<not> of_prompt sid pid l) ls"
  then have "filter (of_prompt sid pid) ls = []" by (simp add: list_all_iff filter_empty_conv)
  then show ?thesis by (simp add: spent_of_def no_counts_def)
qed

lemma no_counts_add [simp]: "add_counts no_counts c = c" "add_counts c no_counts = c"
  by (simp_all add: add_counts_def no_counts_def)

lemma settled_parts:
  assumes "settled sid pid ls"
  obtains before own late b where "ls = before @ own @ late" "list_all (\<lambda>l. \<not> of_prompt sid pid l) before"
    "list_all (of_prompt sid pid) own" "list_all (\<lambda>l. \<not> of_prompt sid pid l) late"
    "own = [] \<or> list_all (\<lambda>l. line_batch l = b) late"
proof -
  let ?P = "of_prompt sid pid"
  define late where "late = takeWhile (\<lambda>l. \<not> ?P l) (rev ls)"
  define rest where "rest = dropWhile (\<lambda>l. \<not> ?P l) (rev ls)"
  have ls: "ls = rev (dropWhile ?P rest) @ rev (takeWhile ?P rest) @ rev late"
    using takeWhile_dropWhile_id [of "\<lambda>l. \<not> ?P l" "rev ls"] takeWhile_dropWhile_id [of ?P rest]
    unfolding late_def [symmetric] rest_def [symmetric] by (metis rev_append rev_rev_ident append_assoc)
  have "list_all (\<lambda>l. \<not> ?P l) (rev (dropWhile ?P rest))" "rest = [] \<or> list_all (\<lambda>l. line_batch l = line_batch (hd late)) late"
    using assms by (simp_all add: settled_def late_def rest_def Let_def)
  moreover have "list_all ?P (rev (takeWhile ?P rest))" "list_all (\<lambda>l. \<not> ?P l) (rev late)"
    by (auto simp: list_all_iff late_def dest: set_takeWhileD)
  moreover have "rest = [] \<longrightarrow> takeWhile ?P rest = []" by simp
  ultimately show ?thesis
    using that [OF ls, of "line_batch (hd late)"] by (auto simp: list_all_iff)
qed

lemma new_scan_counts: "bs_c new_scan = no_counts" "\<not> bs_done new_scan"
  by (simp_all add: new_scan_def no_counts_def)

text \<open>The scan over the lines counts what the prompt has spent.\<close>

lemma line_scan_spent:
  assumes "settled (ct_SessionID ctx) (ct_PromptID ctx) ls"
  shows "bs_c (line_scan ctx new_scan ls) = spent_of (ct_SessionID ctx) (ct_PromptID ctx) ls"
proof -
  let ?P = "of_prompt (ct_SessionID ctx) (ct_PromptID ctx)"
  obtain before own late b where ls: "ls = before @ own @ late" and parts: "list_all (\<lambda>l. \<not> ?P l) before" "list_all ?P own"
    "list_all (\<lambda>l. \<not> ?P l) late" "own = [] \<or> list_all (\<lambda>l. line_batch l = b) late"
    using settled_parts [OF assms] by metis
  let ?s = "line_scan ctx new_scan late"
  have late: "bs_c ?s = no_counts" using scan_foreign [of ctx late] parts(3) by (simp add: line_ours_prompt new_scan_counts)
  have own: "bs_c (line_scan ctx ?s own) = spent_of (ct_SessionID ctx) (ct_PromptID ctx) own"
  proof (cases "own = []")
    case True
    then show ?thesis using late spent_none [of _ _ "[]"] by simp
  next
    case False
    then have "\<not> bs_done ?s" using scan_batch [of ctx b late] parts(3,4) by (auto simp: list_all_iff line_ours_prompt)
    then show ?thesis using scan_own [of ctx own ?s] parts(2) late by (simp add: line_ours_prompt)
  qed
  have "bs_c (line_scan ctx new_scan ls) = bs_c (line_scan ctx ?s own)"
    unfolding ls line_scan_append using scan_foreign [of ctx before] parts(1) by (simp add: line_ours_prompt)
  then show ?thesis
    unfolding own ls spent_append using spent_none [OF parts(1)] spent_none [OF parts(3)] by simp
qed

lemma countBudget_spent_of:
  "list_all written ls \<Longrightarrow> settled (ct_SessionID ctx) (ct_PromptID ctx) ls \<Longrightarrow>
     countBudget ctx (log_text ls) = spent_of (ct_SessionID ctx) (ct_PromptID ctx) ls"
  by (simp add: countBudget_scan line_scan_spent)

end
