(* ===== verification/SteerCharge.thy ===== *)
theory SteerCharge
  imports SteerSpent
begin

text \<open>
  What one call of the router spends (\<^verbatim>\<open>internal/steer\<close>, decide.go): of the lines it writes at most
  one is charged to the prompt, and charging it keeps the prompt within its budget.
\<close>

section \<open>Plans that are charged\<close>

definition plan_charged :: "plan \<Rightarrow> bool" where
  "plan_charged p \<longleftrightarrow> p_state p = Some StateDelivered \<or> p_by p = Some ByArmOff"

text \<open>What a charge is made for.\<close>

definition charge_sig :: "plan \<Rightarrow> nat \<times> Finding" where
  "charge_sig p = (p_level p, p_f p)"

lemma texts_reason: "noteTexts t a b = Inl e \<Longrightarrow> e \<noteq> ByArmOff" "flagText t a = Inl e \<Longrightarrow> e \<noteq> ByArmOff"
  by (auto simp: noteTexts_def flagText_def Let_def split: if_splits option.splits)

definition not_off :: "plan \<Rightarrow> bool" where
  "not_off p \<longleftrightarrow> p_by p \<noteq> Some ByArmOff"

lemma not_off_simps [simp]: "not_off (suppress r p) \<longleftrightarrow> r \<noteq> ByArmOff" "not_off (p\<lparr>p_model := m\<rparr>) = not_off p"
  "not_off (p\<lparr>p_user := u\<rparr>) = not_off p" "not_off (p\<lparr>p_recModel := m\<rparr>) = not_off p" "not_off (p\<lparr>p_recUser := u\<rparr>) = not_off p"
  "not_off (p\<lparr>p_level := v\<rparr>) = not_off p" "not_off (p\<lparr>p_slots := s\<rparr>) = not_off p" "not_off (p\<lparr>p_state := t\<rparr>) = not_off p"
  "not_off (p\<lparr>p_decide := d\<rparr>) = not_off p" "not_off (p\<lparr>p_by := b\<rparr>) \<longleftrightarrow> b \<noteq> Some ByArmOff"
  by (simp_all add: not_off_def)

lemma clamp_reason: "clampReason ctx direct = Some r \<Longrightarrow> r \<noteq> ByArmOff"
  by (auto simp: clampReason_def split: if_splits)

lemma recordTexts_not_off: "not_off p \<Longrightarrow> not_off (recordTexts p)"
  by (auto simp: recordTexts_def Let_def texts_reason split: sum.split)

lemma with_texts_not_off: "not_off p \<Longrightarrow> not_off (with_texts p)"
  by (auto simp: with_texts_def Let_def texts_reason intro!: recordTexts_not_off split: sum.split)

lemma plan_of_not_off: "not_off (plan_of ctx c claimed f)"
proof -
  have "not_off (fresh_plan ctx f)" by (simp add: fresh_plan_def not_off_def)
  then have "not_off (clamped ctx (fresh_plan ctx f))"
    using clamp_reason by (auto simp: clamped_def split: option.split)
  then have "not_off (demoted rule (clamped ctx (fresh_plan ctx f)))" for rule by (simp add: demoted_def Let_def)
  then have "not_off (gated ctx c rule claimed (demoted rule (clamped ctx (fresh_plan ctx f))))" for rule
    by (simp add: gated_def Let_def)
  then show ?thesis unfolding plan_of_def Let_def by (rule with_texts_not_off)
qed

lemma plans_not_off: "list_all not_off (plans_of ctx c claimed fs)"
  by (induction fs arbitrary: claimed) (simp_all add: plan_of_not_off)

lemma charge_note_not_off: "not_off p \<Longrightarrow> not_off (fst (charge_note spent took p))"
  by (simp add: charge_note_def)

lemma charge_flag_not_off: "not_off p \<Longrightarrow> not_off (fst (charge_flag spent took flag p))"
  by (simp add: charge_flag_def)

lemma pass_all: "(\<And>p b. P p \<Longrightarrow> P (fst (st b p))) \<Longrightarrow> list_all P ps \<Longrightarrow> list_all P (fst (pass st b ps))"
  by (induction ps arbitrary: b) (simp_all add: Let_def)

lemma charge_not_off: "list_all not_off ps \<Longrightarrow> list_all not_off (charge spent ps)"
  unfolding charge_def Let_def by (intro pass_all charge_flag_not_off charge_note_not_off)

lemma plans_from:
  "p \<in> set (plans_of ctx c claimed fs) \<Longrightarrow> \<exists>cl f. f \<in> set fs \<and> p = plan_of ctx c cl f"
proof (induction fs arbitrary: claimed)
  case (Cons a fs)
  consider "p = plan_of ctx c claimed a" | cl where "p \<in> set (plans_of ctx c cl fs)"
    using Cons.prems by (auto split: if_splits)
  then show ?case
  proof cases
    case 2
    then obtain cl' f where "f \<in> set fs" "p = plan_of ctx c cl' f" using Cons.IH by blast
    then show ?thesis by auto
  qed auto
qed simp

section \<open>The plans a call leaves\<close>

lemma charged_delivered: "not_off p \<Longrightarrow> plan_charged p = delivered p"
  by (simp add: plan_charged_def not_off_def delivered_def)

lemma sig_updates [simp]: "charge_sig (suppress r p) = charge_sig p" "charge_sig (holdOut p) = charge_sig p"
  "charge_sig (deliver p) = charge_sig p"
  by (simp_all add: charge_sig_def suppress_def holdOut_def deliver_def)

definition settle :: "Context \<Rightarrow> plan \<Rightarrow> plan" where
  "settle ctx p =
     (let q = (if ct_Arm ctx = ArmOff \<and> delivered p then suppress ByArmOff p else p) in
      if ct_Holdout ctx \<and> holdoutEligible q then holdOut q else q)"

lemma decided_settle:
  "decided ctx c fs spent = map (settle ctx) (charge spent (plans_of ctx c [] (ownFirst (ct_Event ctx) (rank fs))))"
  by (simp add: decided_def settle_def armOff_def Let_def comp_def)

lemma settle_facts:
  assumes "not_off p"
  shows "charge_sig (settle ctx p) = charge_sig p" "plan_charged (settle ctx p) = delivered p"
proof -
  show "charge_sig (settle ctx p) = charge_sig p" by (simp add: settle_def Let_def)
  have "plan_charged (holdOut q) = plan_charged q" for q by (simp add: plan_charged_def holdOut_def)
  moreover have "plan_charged (suppress ByArmOff p)" by (simp add: plan_charged_def suppress_def)
  ultimately show "plan_charged (settle ctx p) = delivered p"
    using charged_delivered [OF assms] by (auto simp: settle_def Let_def)
qed

lemma settled_sigs:
  "list_all not_off ps \<Longrightarrow>
     map charge_sig (filter plan_charged (map (settle ctx) ps)) = map charge_sig (filter delivered ps)"
  by (induction ps) (simp_all add: settle_facts)

text \<open>Where the marshaller refuses, no plan is charged: the off arm prints nothing that it could refuse.\<close>

lemma printed_sigs:
  assumes "ps = decided ctx c fs spent"
  shows "map charge_sig (filter plan_charged (snd (printed ctx c ps))) \<in> {map charge_sig (filter plan_charged ps), []}"
proof (cases "ct_Arm ctx = ArmOff")
  case True
  then show ?thesis by (simp add: printed_def printed_plan_def output_none Let_def)
next
  case False
  have "list_all not_off ps"
    using charge_not_off [OF plans_not_off, of spent ctx c "[]" "ownFirst (ct_Event ctx) (rank fs)"] False
    by (auto simp: assms decided_settle settle_def list_all_iff Let_def holdOut_def not_off_def)
  then have "filter plan_charged (map (\<lambda>p. if delivered p then suppress ByOutputGate p else p) ps) = []"
    by (auto simp: filter_empty_conv list_all_iff plan_charged_def suppress_def not_off_def delivered_def)
  then show ?thesis by (auto simp: printed_def Let_def split: sum.split)
qed

text \<open>The charge of one call: none, a note the prompt can afford, or a flag it has left.\<close>

definition fair_charge :: "Context \<Rightarrow> counts \<Rightarrow> nat \<times> Finding \<Rightarrow> bool" where
  "fair_charge ctx spent s \<longleftrightarrow>
     (if fst s = LevelNudge then affordable ctx spent (snd s) else fst s \<noteq> LevelStop \<and> k_flags spent < maxFlags)"

lemma plan_of_level: "p_level (plan_of ctx c claimed f) \<noteq> LevelStop"
proof -
  have "p_level (clamped ctx (fresh_plan ctx f)) \<noteq> LevelStop"
    by (auto simp: clamped_def base_level_def vocab_defs split: option.split)
  then have "p_level (demoted rule (clamped ctx (fresh_plan ctx f))) \<noteq> LevelStop" for rule
    by (simp add: demoted_def Let_def vocab_defs)
  then show ?thesis by (simp add: plan_of_def Let_def with_texts_facts)
qed

lemma call_charge:
  assumes "ps = charge spent (plans_of ctx c [] fs)"
  shows "length (filter delivered ps) \<le> 1"
    "list_all (fair_charge ctx spent) (map charge_sig (filter delivered ps))"
proof -
  let ?ps = "plans_of ctx c [] fs"
  note delivers = charge_delivers(1) [OF plans_undecided [of ctx c "[]" fs], of spent, folded assms]
  show "length (filter delivered ps) \<le> 1" unfolding delivers by (auto split: option.split)
  have note_fair: "fair_charge ctx spent (charge_sig p)" if "find (note_ok spent) ?ps = Some p" for p
  proof -
    have p: "p \<in> set ?ps" "note_ok spent p" using that by (auto simp: find_Some_iff)
    then obtain cl f where "p = plan_of ctx c cl f" using plans_from by blast
    then show ?thesis using p(2) by (auto simp: note_ok_def fair_charge_def charge_sig_def affordable_def)
  qed
  have flag_fair: "fair_charge ctx spent (charge_sig p)" if "find flag_ok ?ps = Some p" "\<not> k_flags spent \<ge> maxFlags" for p
  proof -
    have p: "p \<in> set ?ps" "flag_ok p" using that(1) by (auto simp: find_Some_iff)
    then obtain cl f where "p = plan_of ctx c cl f" using plans_from by blast
    then show ?thesis using p(2) that(2) plan_of_level by (auto simp: flag_ok_def fair_charge_def charge_sig_def)
  qed
  show "list_all (fair_charge ctx spent) (map charge_sig (filter delivered ps))"
    unfolding delivers using note_fair flag_fair by (auto split: option.split)
qed

section \<open>The lines a call writes\<close>

definition line_sig :: "Line \<Rightarrow> string \<times> findingKey" where
  "line_sig l = (l_Level l, line_key l)"

definition sig_line :: "nat \<times> Finding \<Rightarrow> string \<times> findingKey" where
  "sig_line s = (level_word (fst s), findingKey_of (snd s))"

lemma lineOf_facts:
  "line_charged (lineOf ctx c p i) = plan_charged p" "line_sig (lineOf ctx c p i) = sig_line (charge_sig p)"
  "of_prompt (ct_SessionID ctx) (ct_PromptID ctx) (lineOf ctx c p i)"
  by (simp_all add: lineOf_def Let_def line_charged_def plan_charged_def line_sig_def sig_line_def charge_sig_def
      line_key_def findingKey_of_def of_prompt_def)

lemma lines_sigs:
  "map line_sig (filter line_charged (map (\<lambda>(i, p). lineOf ctx c p (mint i)) (enumerate n ps))) =
     map sig_line (map charge_sig (filter plan_charged ps))"
  by (induction ps arbitrary: n) (simp_all add: lineOf_facts)

lemma decide_lines:
  "snd (decide ctx c fs spent mint) =
     map (\<lambda>(i, p). lineOf ctx c p (mint i)) (enumerate 0 (snd (printed ctx c (decided ctx c fs spent))))"
  by (simp add: decide_def split: prod.split)

lemma decide_ours: "list_all (of_prompt (ct_SessionID ctx) (ct_PromptID ctx)) (snd (decide ctx c fs spent mint))"
  by (auto simp: decide_lines list_all_iff lineOf_facts)

text \<open>At most one line of a call is charged, and the prompt had it to spend.\<close>

lemma decide_charge:
  obtains (none) "filter line_charged (snd (decide ctx c fs spent mint)) = []"
  | (one) l v f where "filter line_charged (snd (decide ctx c fs spent mint)) = [l]"
      "line_sig l = sig_line (v, f)" "fair_charge ctx spent (v, f)"
proof -
  let ?ps = "charge spent (plans_of ctx c [] (ownFirst (ct_Event ctx) (rank fs)))"
  let ?ls = "snd (decide ctx c fs spent mint)"
  have off: "list_all not_off ?ps" by (rule charge_not_off [OF plans_not_off])
  define sigs where "sigs = map charge_sig (filter plan_charged (snd (printed ctx c (decided ctx c fs spent))))"
  have "sigs \<in> {map charge_sig (filter delivered ?ps), []}"
    using printed_sigs [OF refl, of ctx c fs spent] settled_sigs [OF off, of ctx]
    by (simp add: sigs_def decided_settle)
  then have "length sigs \<le> 1" "list_all (fair_charge ctx spent) sigs"
    using call_charge [OF refl, where spent = spent and ctx = ctx and c = c and fs = "ownFirst (ct_Event ctx) (rank fs)"] by auto
  moreover have ls: "map line_sig (filter line_charged ?ls) = map sig_line sigs"
    unfolding decide_lines lines_sigs sigs_def ..
  ultimately consider "sigs = []" | s where "sigs = [s]" "fair_charge ctx spent s"
    by (cases sigs; cases "tl sigs") auto
  then show ?thesis
  proof cases
    case 1
    then show ?thesis using ls none by simp
  next
    case 2
    then obtain l where "filter line_charged ?ls = [l]" "line_sig l = sig_line s" using ls by (auto simp: map_eq_Cons_conv)
    then show ?thesis using 2(2) one [of l "fst s" "snd s"] by simp
  qed
qed

section \<open>Within the budget\<close>

definition within_budget :: "counts \<Rightarrow> bool" where
  "within_budget c \<longleftrightarrow> k_notes c \<le> maxNotes \<and> k_flags c \<le> maxFlags \<and> distinct (k_keys c)"

lemma spent_charged:
  "spent_of sid pid ls = spent_of sid pid (filter line_charged ls)"
proof -
  have "filter (\<lambda>l. line_note l \<and> l_Pattern l \<noteq> ''continuity-briefing'') (filter (of_prompt sid pid) ls) =
      filter (\<lambda>l. line_note l \<and> l_Pattern l \<noteq> ''continuity-briefing'') (filter (of_prompt sid pid) (filter line_charged ls))"
    "filter line_flag (filter (of_prompt sid pid) ls) = filter line_flag (filter (of_prompt sid pid) (filter line_charged ls))"
    "filter line_note (filter (of_prompt sid pid) ls) = filter line_note (filter (of_prompt sid pid) (filter line_charged ls))"
    by (induction ls) (auto simp: line_note_def line_flag_def)
  then show ?thesis by (simp add: spent_of_def Let_def)
qed

lemma level_word_inj: "level_word v = level_word LevelFlag \<longleftrightarrow> v = LevelFlag"
  "level_word v = level_word LevelNudge \<longleftrightarrow> v = LevelNudge" "level_word v = level_word LevelStop \<longleftrightarrow> v = LevelStop"
proof -
  have "v < 4 \<Longrightarrow> v \<in> {0, 1, 2, 3}" by auto
  then show "level_word v = level_word LevelFlag \<longleftrightarrow> v = LevelFlag"
    "level_word v = level_word LevelNudge \<longleftrightarrow> v = LevelNudge" "level_word v = level_word LevelStop \<longleftrightarrow> v = LevelStop"
    by (cases "v < 4"; auto simp: level_word_def vocab_defs)+
qed

lemma line_kinds:
  assumes "line_charged l" "line_sig l = sig_line (v, f)"
  shows "line_flag l \<longleftrightarrow> v = LevelFlag" "line_note l \<longleftrightarrow> v = LevelNudge \<or> v = LevelStop"
    "line_key l = findingKey_of f" "l_Pattern l = f_Pattern f"
  using assms level_word_inj [of v]
  by (simp_all add: line_flag_def line_note_def line_sig_def sig_line_def line_key_def findingKey_of_def)

text \<open>A call keeps the prompt within its budget.\<close>

lemma decide_within:
  assumes "within_budget spent"
  shows "within_budget (add_counts spent (spent_of (ct_SessionID ctx) (ct_PromptID ctx) (snd (decide ctx c fs spent mint))))"
proof (rule decide_charge [of ctx c fs spent mint])
  let ?ls = "snd (decide ctx c fs spent mint)" and ?sid = "ct_SessionID ctx" and ?pid = "ct_PromptID ctx"
  {
    assume "filter line_charged ?ls = []"
    then have "spent_of ?sid ?pid ?ls = no_counts" using spent_charged [of ?sid ?pid ?ls] spent_none [of _ _ "[]"] by simp
    then show ?thesis using assms by simp
  next
    fix l v f
    assume l: "filter line_charged ?ls = [l]" "line_sig l = sig_line (v, f)" and fair: "fair_charge ctx spent (v, f)"
    have "l \<in> set ?ls" "line_charged l" using l(1) by (auto simp: filter_eq_Cons_iff)
    then have own: "of_prompt ?sid ?pid l" using decide_ours [of ctx c fs spent mint] by (auto simp: list_all_iff)
    note kinds = line_kinds [OF \<open>line_charged l\<close> l(2)]
    have "spent_of ?sid ?pid ?ls = spent_of ?sid ?pid [l]" using spent_charged [of ?sid ?pid ?ls] l(1) by simp
    then show ?thesis
      using assms fair own kinds
      by (auto simp: spent_of_def add_counts_def within_budget_def fair_charge_def affordable_def ownChannel_def vocab_defs)
  }
qed

lemma other_prompt:
  assumes "(sid, pid) \<noteq> (ct_SessionID ctx, ct_PromptID ctx)"
  shows "spent_of sid pid (snd (decide ctx c fs spent mint)) = no_counts"
  using assms decide_ours [of ctx c fs spent mint] by (intro spent_none) (auto simp: list_all_iff of_prompt_def)

end
