(* ===== verification/SteerRoute.thy ===== *)
theory SteerRoute
  imports SteerCharge
begin

text \<open>
  The router, \<^verbatim>\<open>internal/steer\<close> (route.go and notice.go): one call admits the findings, reads the
  prompt's budget from the locked log, decides, appends the call's lines, and prints only what the
  log then holds. A session's store is the bytes of its log and the notices it has shown; what the
  operating system refuses, and what the transcript showed of earlier notes, are part of the call.
\<close>

section \<open>Notices\<close>

record steer_store =
  st_log :: string
  st_notices :: "notice_kind list"

definition surfaceSDK :: string where "surfaceSDK = ''sdk''"

definition holdoutNotice :: string where
  "holdoutNotice =
     ''rashomon: this session is in the measurement holdout: its notes are built and logged, '' @
     ''not sent to the agent. Shown once per session.''"

text \<open>The first line that asks for a notice, and which.\<close>

fun noticeFor :: "Line list \<Rightarrow> (nat \<times> notice_kind) option" where
  "noticeFor [] = None"
| "noticeFor (l # ls) =
     (if l_SuppressedBy l = Some ByUnverifiedChannel then Some (0, NoticeChannel)
      else if l_Delivery l = Some DeliveryHoldout then Some (0, NoticeHoldout)
      else map_option (\<lambda>(i, n). (Suc i, n)) (noticeFor ls))"

definition channelNotice :: "string \<Rightarrow> Client \<Rightarrow> string \<Rightarrow> (string \<times> string \<rightharpoonup> channelBasis) \<Rightarrow> string" where
  "channelNotice e c surface table =
     (let b = basis_of table e c;
          version = (if \<not> digitRuns (c_Version c) (CHR ''.'') then ''Claude Code, version unreadable''
                     else ''Claude Code '' @ c_Version c);
          floor = (if cb_floor b = [] then ''delivery verified on no version yet''
                   else ''delivery verified from '' @ cb_floor b);
          why = (case shutBy (keys_of e) e c table of
              shutNoMirror \<Rightarrow>
                if surface = surfaceSDK then ''claude -p and SDK sessions receive no notes by design''
                else ''the session's surface could not be read, and notes go only where the user sees what the agent is told''
            | shutSubagent \<Rightarrow> ''notes on a subagent's calls are not sent yet''
            | shutEventClosed \<Rightarrow> ''notes on this event wait for a release that passes the delivery check''
            | shutUnknownVersion \<Rightarrow> ''the version could not be read''
            | shutBelowFloor \<Rightarrow> ''this version is older''
            | shutExcluded \<Rightarrow> ''this version failed the delivery check''
            | shutEvidence \<Rightarrow> ''a transcript did not show a delivered note for this event''
            | channelOpen \<Rightarrow> ''the channel is not verified'') in
      ''rashomon: a note was built and not sent to the agent ('' @ version @ '', '' @ e @ ''; '' @ floor @ ''): '' @
      why @ ''. Shown once per session.'')"

text \<open>The marker of a notice is made once a session; \<open>created\<close> is whether the file could be made.\<close>

definition TakeNotice :: "notice_kind list \<Rightarrow> notice_kind \<Rightarrow> bool \<Rightarrow> bool" where
  "TakeNotice shown n created \<longleftrightarrow> created \<and> n \<notin> set shown"

definition ReturnNotice :: "notice_kind list \<Rightarrow> notice_kind \<Rightarrow> notice_kind list" where
  "ReturnNotice shown n = removeAll n shown"

record noticed =
  nd_out :: Output
  nd_lines :: "Line list"
  nd_shown :: "notice_kind list"
  nd_marker :: "notice_kind option"

definition notice_of :: "Context \<Rightarrow> Client \<Rightarrow> Line list \<Rightarrow> notice_kind list \<Rightarrow> bool \<Rightarrow> noticed" where
  "notice_of ctx c lines shown created =
     (let silent = \<lparr>nd_out = no_output, nd_lines = lines, nd_shown = shown, nd_marker = None\<rparr> in
      case noticeFor lines of
        None \<Rightarrow> silent
      | Some (i, n) \<Rightarrow>
          if \<not> TakeNotice shown n created then silent
          else (let t = (if n = NoticeChannel then channelNotice (ct_Event ctx) c (ct_Surface ctx) mirrorVerifiedOn
                         else holdoutNotice);
                    o' = no_output\<lparr>o_SystemMessage := t\<rparr> in
            case MarshalFor o' (ct_Event ctx) c of
              Inl e \<Rightarrow> silent\<lparr>nd_shown := ReturnNotice (n # shown) n\<rparr>
            | Inr x \<Rightarrow>
                \<lparr>nd_out = o', nd_lines = lines[i := (lines ! i)\<lparr>l_Notice := Some n\<rparr>], nd_shown = n # shown,
                 nd_marker = Some n\<rparr>))"

section \<open>One call\<close>

record Call =
  ca_ctx :: Context
  ca_client :: Client
  ca_findings :: "Finding list"
  ca_mint :: "nat \<Rightarrow> string"
  ca_shadow :: bool
  ca_fault :: append_fault
  ca_created :: bool

text \<open>The client as the router reads it: on a subagent where the call names one, and with what the transcript showed.\<close>

definition call_client :: "Call \<Rightarrow> Client" where
  "call_client k =
     (let ctx = ca_ctx k; c = (ca_client k)\<lparr>c_Subagent := c_Subagent (ca_client k) \<or> ct_AgentID ctx \<noteq> []\<rparr> in
      if verified (keys_of (ct_Event ctx)) (ct_Event ctx) c mirrorVerifiedOn
      then c\<lparr>c_EvidenceAbsent := ca_shadow k\<rparr> else c)"

text \<open>What the append builds of the log it reads: the output, the notices, and the lines.\<close>

definition route_build :: "Call \<Rightarrow> notice_kind list \<Rightarrow> string \<Rightarrow> noticed \<times> Line list" where
  "route_build k shown log =
     (let ctx = ca_ctx k; c = call_client k in
      case decide ctx c (ca_findings k) (countBudget ctx log) (ca_mint k) of
        (o', lines) \<Rightarrow>
          (let n = (if o' = no_output then notice_of ctx c lines shown (ca_created k)
                    else \<lparr>nd_out = o', nd_lines = lines, nd_shown = shown, nd_marker = None\<rparr>) in
           (n, nd_lines n)))"

record routed =
  ro_out :: Output
  ro_store :: steer_store
  ro_lockTimeouts :: nat
  ro_appendFailures :: nat

definition route :: "Call \<Rightarrow> steer_store \<Rightarrow> routed" where
  "route k st =
     (if \<not> list_ex (\<lambda>f. f_MaxLevel f > LevelOff) (ca_findings k)
      then \<lparr>ro_out = no_output, ro_store = st, ro_lockTimeouts = 0, ro_appendFailures = 0\<rparr>
      else (case AppendSteer (ca_fault k) (st_log st) (route_build k (st_notices st)) of
        (log, b, e) \<Rightarrow>
          (let shown = (case b of None \<Rightarrow> st_notices st | Some n \<Rightarrow> nd_shown n) in
           case e of
             None \<Rightarrow>
               \<lparr>ro_out = (case b of None \<Rightarrow> no_output | Some n \<Rightarrow> nd_out n),
                ro_store = \<lparr>st_log = log, st_notices = shown\<rparr>, ro_lockTimeouts = 0, ro_appendFailures = 0\<rparr>
           | Some err \<Rightarrow>
               \<lparr>ro_out = no_output,
                ro_store = \<lparr>st_log = log,
                  st_notices = (case Option.bind b nd_marker of None \<Rightarrow> shown | Some n \<Rightarrow> ReturnNotice shown n)\<rparr>,
                ro_lockTimeouts = (if err = LockTimeout then 1 else 0),
                ro_appendFailures = (if err = LockTimeout then 0 else 1)\<rparr>)))"

definition Route :: "Call \<Rightarrow> steer_store \<Rightarrow> routed" where
  "Route k st = route (k\<lparr>ca_findings := admit (ct_Event (ca_ctx k)) (ca_findings k)\<rparr>) st"

section \<open>The append\<close>

lemma removeAll_new: "n \<notin> set xs \<Longrightarrow> removeAll n (n # xs) = xs"
  by simp

lemma notice_returned:
  "nd_marker (notice_of ctx c lines shown created) = Some n \<Longrightarrow>
     ReturnNotice (nd_shown (notice_of ctx c lines shown created)) n = shown"
  "nd_marker (notice_of ctx c lines shown created) = None \<Longrightarrow> nd_shown (notice_of ctx c lines shown created) = shown"
  by (auto simp: notice_of_def Let_def TakeNotice_def ReturnNotice_def split: option.splits prod.splits if_splits sum.splits)

lemma build_returned:
  "(case nd_marker (fst (route_build k shown log)) of None \<Rightarrow> nd_shown (fst (route_build k shown log))
    | Some n \<Rightarrow> ReturnNotice (nd_shown (fst (route_build k shown log))) n) = shown"
  by (auto simp: route_build_def Let_def notice_returned split: prod.split option.split)

definition heals :: "string \<Rightarrow> string \<Rightarrow> string" where
  "heals log batch = (if log \<noteq> [] \<and> last log \<noteq> CHR 0x0A then CHR 0x0A # batch else batch)"

lemma appendHealed_cases:
  "appendHealed log batch fault =
     (case fault of
        WriteFails n back \<Rightarrow> (if back then log else log @ take n (heals log batch), Some OtherFailure)
      | _ \<Rightarrow> (log @ heals log batch, None))"
  unfolding appendHealed_def heals_def Let_def by (rule refl)

lemma marshalSteer_error: "marshalSteer ls = Inl e \<Longrightarrow> e \<noteq> LockTimeout"
  by (induction ls arbitrary: e) (auto simp: marshalLine_def split: if_splits sum.splits)

lemma append_result:
  "AppendSteer fault log build = (log', b, e) \<Longrightarrow>
     (\<exists>x. log' = log @ x) \<and> (b = None \<or> b = Some (fst (build log))) \<and>
     (e = None \<longrightarrow> b = Some (fst (build log)) \<and> (\<exists>batch. marshalSteer (snd (build log)) = Inr batch \<and>
        log' = (if batch = [] then log else log @ heals log batch))) \<and>
     (e = Some LockTimeout \<longleftrightarrow> fault = LockFails)"
  by (auto simp: AppendSteer_def appendHealed_cases dest: marshalSteer_error
      split: if_splits prod.splits sum.splits append_fault.splits)

section \<open>A call that fails\<close>

lemma route_cases:
  "route k st =
     (if \<not> list_ex (\<lambda>f. f_MaxLevel f > LevelOff) (ca_findings k)
      then \<lparr>ro_out = no_output, ro_store = st, ro_lockTimeouts = 0, ro_appendFailures = 0\<rparr>
      else (case AppendSteer (ca_fault k) (st_log st) (route_build k (st_notices st)) of
        (log, b, e) \<Rightarrow>
          (case e of
             None \<Rightarrow>
               (let n = fst (route_build k (st_notices st) (st_log st)) in
                \<lparr>ro_out = nd_out n, ro_store = \<lparr>st_log = log, st_notices = nd_shown n\<rparr>,
                 ro_lockTimeouts = 0, ro_appendFailures = 0\<rparr>)
           | Some err \<Rightarrow>
               \<lparr>ro_out = no_output, ro_store = \<lparr>st_log = log, st_notices = st_notices st\<rparr>,
                ro_lockTimeouts = (if ca_fault k = LockFails then 1 else 0),
                ro_appendFailures = (if ca_fault k = LockFails then 0 else 1)\<rparr>)))"
proof -
  obtain log b e where run: "AppendSteer (ca_fault k) (st_log st) (route_build k (st_notices st)) = (log, b, e)"
    by (cases "AppendSteer (ca_fault k) (st_log st) (route_build k (st_notices st))")
  note res = append_result [OF run]
  note given = build_returned [of k "st_notices st" "st_log st"]
  show ?thesis
  proof (cases e)
    case None
    then show ?thesis using res by (simp add: route_def run Let_def)
  next
    case (Some err)
    have "err = LockTimeout \<longleftrightarrow> ca_fault k = LockFails" using res Some by simp
    moreover have "(case Option.bind b nd_marker of
        None \<Rightarrow> (case b of None \<Rightarrow> st_notices st | Some n \<Rightarrow> nd_shown n)
      | Some n \<Rightarrow> ReturnNotice (case b of None \<Rightarrow> st_notices st | Some n \<Rightarrow> nd_shown n) n) = st_notices st"
    proof -
      have "b = None \<or> b = Some (fst (route_build k (st_notices st) (st_log st)))" using res by blast
      then show ?thesis using given by (auto split: option.splits)
    qed
    ultimately show ?thesis using Some by (simp add: route_def run Let_def)
  qed
qed

lemma plans_some: "list_ex (\<lambda>f. f_MaxLevel f > LevelOff) fs \<Longrightarrow> plans_of ctx c claimed fs \<noteq> []"
  by (induction fs arbitrary: claimed) auto

lemma pass_length: "length (fst (pass st b ps)) = length ps"
  by (induction ps arbitrary: b) (simp_all add: Let_def)

lemma decide_length:
  "length (snd (decide ctx c fs spent mint)) = length (plans_of ctx c [] (ownFirst (ct_Event ctx) (rank fs)))"
proof -
  have "length (charge spent ps) = length ps" for ps by (simp add: charge_def Let_def pass_length)
  moreover have "length (snd (printed ctx c ps)) = length ps" for ps
    by (simp add: printed_def Let_def split: sum.split)
  ultimately show ?thesis by (simp add: decide_lines decided_settle)
qed

lemma notice_length: "length (nd_lines (notice_of ctx c lines shown created)) = length lines"
  by (auto simp: notice_of_def Let_def split: option.split prod.split sum.split)

lemma build_lines:
  "snd (route_build k shown log) = nd_lines (fst (route_build k shown log))"
  "length (snd (route_build k shown log)) =
     length (snd (decide (ca_ctx k) (call_client k) (ca_findings k) (countBudget (ca_ctx k) log) (ca_mint k)))"
  by (auto simp: route_build_def Let_def notice_length split: prod.split)

lemma build_some:
  assumes "list_ex (\<lambda>f. f_MaxLevel f > LevelOff) (ca_findings k)"
  shows "snd (route_build k shown log) \<noteq> []"
proof -
  have "list_ex (\<lambda>f. f_MaxLevel f > LevelOff) (ownFirst (ct_Event (ca_ctx k)) (rank (ca_findings k)))"
    using assms ranked_set [of "ct_Event (ca_ctx k)" "ca_findings k"] by (simp add: list_ex_iff)
  from plans_some [OF this] have "length (snd (route_build k shown log)) \<noteq> 0"
    unfolding build_lines(2) decide_length by simp
  then show ?thesis by simp
qed

lemma append_fine:
  assumes "AppendSteer fault log build = (log', b, None)" "snd (build log) \<noteq> []"
  shows "fault = NoFault" "\<exists>batch. marshalSteer (snd (build log)) = Inr batch \<and> log' = log @ heals log batch"
proof -
  obtain x ls where bl: "build log = (x, ls)" by (cases "build log")
  have ne: "batch \<noteq> []" if "marshalSteer ls = Inr batch" for batch
    using marshalSteer_text [OF that] assms(2) log_text_ends(1) [of ls] by (simp add: bl)
  show "fault = NoFault"
    using assms(1) ne by (auto simp: AppendSteer_def appendHealed_cases bl split: if_splits sum.splits append_fault.splits)
  show "\<exists>batch. marshalSteer (snd (build log)) = Inr batch \<and> log' = log @ heals log batch"
    using append_result [OF assms(1)] ne by (auto simp: bl)
qed

lemma route_closed:
  assumes "list_ex (\<lambda>f. f_MaxLevel f > LevelOff) (ca_findings k)"
  shows "take (length (st_log st)) (st_log (ro_store (route k st))) = st_log st \<and>
     (if ro_lockTimeouts (route k st) + ro_appendFailures (route k st) = 0 then ca_fault k = NoFault
      else ro_lockTimeouts (route k st) + ro_appendFailures (route k st) = 1 \<and> ro_out (route k st) = no_output \<and>
           st_notices (ro_store (route k st)) = st_notices st \<and>
           (ro_lockTimeouts (route k st) = 1 \<longleftrightarrow> ca_fault k = LockFails))"
proof -
  obtain log b e where run: "AppendSteer (ca_fault k) (st_log st) (route_build k (st_notices st)) = (log, b, e)"
    by (cases "AppendSteer (ca_fault k) (st_log st) (route_build k (st_notices st))")
  have grown: "\<exists>x. log = st_log st @ x" using append_result [OF run] by simp
  show ?thesis
  proof (cases e)
    case None
    then have "ca_fault k = NoFault" using append_fine(1) [OF run [unfolded None] build_some [OF assms]] by simp
    moreover from None have "route k st =
        \<lparr>ro_out = nd_out (fst (route_build k (st_notices st) (st_log st))),
         ro_store = \<lparr>st_log = log, st_notices = nd_shown (fst (route_build k (st_notices st) (st_log st)))\<rparr>,
         ro_lockTimeouts = 0, ro_appendFailures = 0\<rparr>"
      using assms by (simp add: route_cases run Let_def)
    ultimately show ?thesis using grown by auto
  next
    case (Some err)
    then have "route k st =
        \<lparr>ro_out = no_output, ro_store = \<lparr>st_log = log, st_notices = st_notices st\<rparr>,
         ro_lockTimeouts = (if ca_fault k = LockFails then 1 else 0),
         ro_appendFailures = (if ca_fault k = LockFails then 0 else 1)\<rparr>"
      using assms by (simp add: route_cases run)
    then show ?thesis using grown by auto
  qed
qed


end
