(* ===== verification/SteerRuns.thy ===== *)
theory SteerRuns
  imports SteerRoute
begin

text \<open>
  Sequences of router calls over one session's store (\<^verbatim>\<open>internal/steer\<close>, route.go): the states calls
  reach, the budget every prompt keeps to in each of them, and that a note a prompt can afford is
  not silently lost. The router relies on the log through one interface, the locale \<open>prompt_log\<close>.
\<close>

section \<open>What the router asks of the log\<close>

locale prompt_log =
  fixes count :: "Context \<Rightarrow> 'g \<Rightarrow> counts"
    and append :: "'g \<Rightarrow> Line list \<Rightarrow> 'g"
    and spent :: "string \<Rightarrow> string option \<Rightarrow> 'g \<Rightarrow> counts"
    and sound :: "Context \<Rightarrow> 'g \<Rightarrow> bool"
  assumes count_sound: "sound ctx g \<Longrightarrow> count ctx g = spent (ct_SessionID ctx) (ct_PromptID ctx) g"
    and spent_appended: "spent sid pid (append g ls) = add_counts (spent sid pid g) (spent_of sid pid ls)"
begin

text \<open>Lines that charge what the decision charged keep every prompt within its budget.\<close>

lemma call_within:
  assumes "sound ctx g" "\<And>sid pid. within_budget (spent sid pid g)"
    and "\<And>sid pid. spent_of sid pid ls = spent_of sid pid (snd (decide ctx c fs (count ctx g) mint))"
  shows "within_budget (spent sid pid (append g ls))"
proof (cases "(sid, pid) = (ct_SessionID ctx, ct_PromptID ctx)")
  case True
  then show ?thesis
    using decide_within [OF assms(2), of "ct_SessionID ctx" "ct_PromptID ctx" ctx c fs mint]
    by (simp add: spent_appended assms(3) count_sound [OF assms(1)])
next
  case False
  then show ?thesis using assms(2) by (simp add: spent_appended assms(3) other_prompt)
qed

end

text \<open>The log's bytes, read backwards, are such a log where the prompt's lines stand together.\<close>

interpretation steer_log: prompt_log
  "\<lambda>ctx ls. countBudget ctx (log_text ls)" "(@)" spent_of
  "\<lambda>ctx ls. list_all written ls \<and> settled (ct_SessionID ctx) (ct_PromptID ctx) ls"
  by unfold_locales (simp_all add: countBudget_spent_of spent_append)

section \<open>The lines of a call are lines of the log\<close>

definition finding_valid :: "Finding \<Rightarrow> bool" where
  "finding_valid f \<longleftrightarrow>
     list_all ValidString [f_Pattern f, f_Kind f, f_Key f] \<and>
     (case slotsOf (recorded f) of None \<Rightarrow> True | Some s \<Rightarrow> good_members 1 s)"

definition call_valid :: "Call \<Rightarrow> bool" where
  "call_valid k \<longleftrightarrow>
     list_all finding_valid (ca_findings k) \<and> ValidString (ct_SessionID (ca_ctx k)) \<and>
     (case ct_PromptID (ca_ctx k) of None \<Rightarrow> True | Some p \<Rightarrow> ValidString p) \<and>
     (case ca_fault k of WriteFails n back \<Rightarrow> back | _ \<Rightarrow> True)"

definition plan_core :: "plan \<Rightarrow> Finding \<times> (string \<times> string) list" where
  "plan_core p = (p_f p, p_slots p)"

lemma core_simps [simp]: "plan_core (suppress r p) = plan_core p" "plan_core (p\<lparr>p_state := s\<rparr>) = plan_core p"
  "plan_core (p\<lparr>p_by := b\<rparr>) = plan_core p" "plan_core (p\<lparr>p_decide := d\<rparr>) = plan_core p"
  "plan_core (p\<lparr>p_level := v\<rparr>) = plan_core p" "plan_core (p\<lparr>p_model := m\<rparr>) = plan_core p"
  "plan_core (p\<lparr>p_user := m\<rparr>) = plan_core p" "plan_core (p\<lparr>p_recModel := m\<rparr>) = plan_core p"
  "plan_core (p\<lparr>p_recUser := m\<rparr>) = plan_core p" "plan_core (holdOut p) = plan_core p"
  by (simp_all add: plan_core_def suppress_def holdOut_def)

lemma recordTexts_core: "plan_core (recordTexts p) = plan_core p"
  by (auto simp: recordTexts_def Let_def split: sum.split)

lemma with_texts_core: "plan_core (with_texts p) = plan_core p"
  by (auto simp: with_texts_def Let_def recordTexts_core split: sum.split)

definition finding_slots :: "Finding \<Rightarrow> (string \<times> string) list" where
  "finding_slots f = (case slotsOf (recorded f) of None \<Rightarrow> [] | Some s \<Rightarrow> s)"

lemma plan_of_core: "plan_core (plan_of ctx c claimed f) = (f, finding_slots f)"
proof -
  have "plan_core (gated ctx c rule claimed p) = (p_f p, finding_slots (p_f p))" for rule p
    by (simp add: gated_def Let_def finding_slots_def) (simp add: plan_core_def)
  then show ?thesis by (simp add: plan_of_def Let_def with_texts_core)
qed

lemma pass_core: "(\<And>p b. plan_core (fst (st b p)) = plan_core p) \<Longrightarrow> map plan_core (fst (pass st b ps)) = map plan_core ps"
  by (induction ps arbitrary: b) (simp_all add: Let_def)

lemma charge_core: "map plan_core (charge spent ps) = map plan_core ps"
  by (simp add: charge_def Let_def pass_core charge_note_def charge_flag_def)

lemma call_core:
  "map plan_core (snd (printed ctx c (decided ctx c fs spent))) =
     map plan_core (plans_of ctx c [] (ownFirst (ct_Event ctx) (rank fs)))"
proof -
  have "map plan_core (snd (printed ctx c ps)) = map plan_core ps" for ps
    by (auto simp: printed_def Let_def split: sum.split)
  moreover have "plan_core (settle ctx p) = plan_core p" for p by (simp add: settle_def Let_def)
  then have "map plan_core (decided ctx c fs spent) =
      map plan_core (charge spent (plans_of ctx c [] (ownFirst (ct_Event ctx) (rank fs))))"
    by (simp add: decided_settle)
  ultimately show ?thesis by (simp add: charge_core)
qed

lemma call_plans:
  assumes "p \<in> set (snd (printed ctx c (decided ctx c fs spent)))"
  shows "p_f p \<in> set fs" "p_slots p = finding_slots (p_f p)"
proof -
  have "plan_core p \<in> set (map plan_core (plans_of ctx c [] (ownFirst (ct_Event ctx) (rank fs))))"
    unfolding call_core [of ctx c fs spent, symmetric] using assms by simp
  then obtain q where q: "q \<in> set (plans_of ctx c [] (ownFirst (ct_Event ctx) (rank fs)))" "plan_core p = plan_core q" by auto
  then obtain cl f where "f \<in> set fs" "q = plan_of ctx c cl f" using plans_from ranked_set by blast
  then show "p_f p \<in> set fs" "p_slots p = finding_slots (p_f p)" using q(2) plan_of_core by (simp_all add: plan_core_def)
qed

lemma level_valid: "ValidString (level_word v)"
proof -
  have "v < 4 \<Longrightarrow> v \<in> {0, 1, 2, 3}" by auto
  then show ?thesis by (cases "v < 4") (auto simp: level_word_def ValidString_ascii)
qed

lemma decide_valid:
  assumes "list_all finding_valid fs" "ValidString (ct_SessionID ctx)"
    "case ct_PromptID ctx of None \<Rightarrow> True | Some p \<Rightarrow> ValidString p"
  shows "list_all (\<lambda>l. slots_valid l \<and> line_valid l) (snd (decide ctx c fs spent mint))"
proof -
  have "slots_valid (lineOf ctx c p i) \<and> line_valid (lineOf ctx c p i)"
    if p: "p \<in> set (snd (printed ctx c (decided ctx c fs spent)))" for p i
  proof -
    have f: "finding_valid (p_f p)" using assms(1) call_plans(1) [OF p] by (simp add: list_all_iff)
    have "good_members 1 (p_slots p)"
      using f unfolding call_plans(2) [OF p]
      by (auto simp: finding_slots_def finding_valid_def good_members_def split: option.splits)
    then show ?thesis
      using f assms(2,3)
      by (simp add: slots_valid_def line_valid_def lineOf_def Let_def finding_valid_def level_valid)
  qed
  then show ?thesis by (auto simp: decide_lines list_all_iff in_set_enumerate_eq)
qed

text \<open>A notice on a line changes neither what the line charges nor that it can be read.\<close>

definition line_core :: "Line \<Rightarrow> Line" where
  "line_core l = l\<lparr>l_Notice := None\<rparr>"

lemma notice_core: "map line_core (nd_lines (notice_of ctx c lines shown created)) = map line_core lines"
proof -
  have "map line_core (lines[i := (lines ! i)\<lparr>l_Notice := n\<rparr>]) = map line_core lines" for i n
  proof (cases "i < length lines")
    case True
    have "line_core ((lines ! i)\<lparr>l_Notice := n\<rparr>) = map line_core lines ! i" using True by (simp add: line_core_def)
    then show ?thesis by (simp only: map_update list_update_id)
  next
    case False
    then show ?thesis by (simp add: list_update_beyond)
  qed
  then show ?thesis by (auto simp: notice_of_def Let_def split: option.split prod.split sum.split)
qed

lemma spent_core: "map line_core xs = map line_core ys \<Longrightarrow> spent_of sid pid xs = spent_of sid pid ys"
proof -
  have core: "of_prompt sid pid l = of_prompt sid pid (line_core l)" "line_note l = line_note (line_core l)"
    "line_flag l = line_flag (line_core l)" "line_key l = line_key (line_core l)" "l_Pattern l = l_Pattern (line_core l)" for l
    by (simp_all add: line_core_def of_prompt_def line_note_def line_flag_def line_charged_def line_key_def)
  have "spent_of sid pid xs = spent_of sid pid (map line_core xs)" for xs
    by (induction xs) (auto simp: spent_of_def Let_def core [symmetric])
  then show "map line_core xs = map line_core ys \<Longrightarrow> spent_of sid pid xs = spent_of sid pid ys" by metis
qed

lemma valid_core: "slots_valid l \<and> line_valid l \<longleftrightarrow> slots_valid (line_core l) \<and> line_valid (line_core l)"
  by (simp add: slots_valid_def line_valid_def line_core_def)

lemma build_core:
  "map line_core (snd (route_build k shown log)) =
     map line_core (snd (decide (ca_ctx k) (call_client k) (ca_findings k) (countBudget (ca_ctx k) log) (ca_mint k)))"
  by (auto simp: route_build_def Let_def notice_core split: prod.split)

lemma build_valid:
  assumes "call_valid k"
  shows "list_all (\<lambda>l. slots_valid l \<and> line_valid l) (snd (route_build k shown log))"
proof -
  let ?ls = "snd (decide (ca_ctx k) (call_client k) (ca_findings k) (countBudget (ca_ctx k) log) (ca_mint k))"
  have "list_all (\<lambda>l. slots_valid l \<and> line_valid l) ?ls"
    by (rule decide_valid) (use assms in \<open>simp_all add: call_valid_def\<close>)
  then have "list_all (\<lambda>l. slots_valid l \<and> line_valid l) (map line_core ?ls)"
    by (simp add: list_all_iff valid_core [symmetric])
  then have "list_all (\<lambda>l. slots_valid l \<and> line_valid l) (map line_core (snd (route_build k shown log)))"
    by (simp only: build_core)
  then show ?thesis by (simp add: list_all_iff valid_core [symmetric])
qed

section \<open>The states calls reach\<close>

text \<open>The lines a call put on the log.\<close>

definition admitted :: "Call \<Rightarrow> Call" where
  "admitted k = k\<lparr>ca_findings := admit (ct_Event (ca_ctx k)) (ca_findings k)\<rparr>"

definition route_lines :: "Call \<Rightarrow> steer_store \<Rightarrow> Line list" where
  "route_lines k st =
     (if st_log (ro_store (Route k st)) = st_log st then []
      else snd (route_build (admitted k) (st_notices st) (st_log st)))"

text \<open>
  The stores a session's calls reach, with the lines their logs hold: each call is for a prompt
  whose lines stand together, its findings' strings are valid UTF-8 and their slots JSON, and a write
  that stops half way could be cut back.
\<close>

inductive steered :: "Line list \<Rightarrow> steer_store \<Rightarrow> bool" where
  start: "steered [] \<lparr>st_log = [], st_notices = []\<rparr>"
| call: "steered ls st \<Longrightarrow> settled (ct_SessionID (ca_ctx k)) (ct_PromptID (ca_ctx k)) ls \<Longrightarrow> call_valid k \<Longrightarrow>
     steered (ls @ route_lines k st) (ro_store (Route k st))"

inductive_cases steered_cases: "steered ls st"

lemma admitted_simps [simp]: "ca_ctx (admitted k) = ca_ctx k" "ca_fault (admitted k) = ca_fault k"
  by (simp_all add: admitted_def)

lemma admitted_valid: "call_valid k \<Longrightarrow> call_valid (admitted k)"
  by (auto simp: call_valid_def admitted_def admit_def list_all_iff)

lemma heals_log: "heals (log_text ls) b = b"
  using log_text_ends [of ls] by (auto simp: heals_def)

lemma marshalled_written:
  assumes "marshalSteer ls = Inr b" "list_all (\<lambda>l. slots_valid l \<and> line_valid l) ls"
  shows "b = log_text ls" "list_all written ls"
  using marshalSteer_text [OF assms(1)] assms(2) by (auto simp: list_all_iff written_def)

text \<open>What a whole append does to a log of written lines: nothing, or the call's lines at its end.\<close>

lemma append_lines:
  assumes "AppendSteer fault (log_text ls) build = (log', b, e)" "case fault of WriteFails n back \<Rightarrow> back | _ \<Rightarrow> True"
  shows "log' = log_text ls \<or> (\<exists>batch. marshalSteer (snd (build (log_text ls))) = Inr batch \<and> log' = log_text ls @ batch)"
  using assms
  by (auto simp: AppendSteer_def appendHealed_cases heals_log split: if_splits prod.splits sum.splits append_fault.splits)

lemma route_log:
  assumes "AppendSteer (ca_fault k) (st_log st) (route_build k (st_notices st)) = (log, b, e)"
  shows "st_log (ro_store (route k st)) = (if list_ex (\<lambda>f. f_MaxLevel f > LevelOff) (ca_findings k) then log else st_log st)"
  using assms by (auto simp: route_cases Let_def split: option.split)

lemma route_writes:
  assumes "call_valid k" "st_log st = log_text ls"
  shows "st_log (ro_store (Route k st)) = log_text (ls @ route_lines k st)" "list_all written (route_lines k st)"
    "route_lines k st = [] \<or> route_lines k st = snd (route_build (admitted k) (st_notices st) (st_log st))"
proof -
  let ?new = "snd (route_build (admitted k) (st_notices st) (st_log st))"
  obtain log b e where run: "AppendSteer (ca_fault k) (st_log st) (route_build (admitted k) (st_notices st)) = (log, b, e)"
    by (cases "AppendSteer (ca_fault k) (st_log st) (route_build (admitted k) (st_notices st))")
  have after: "st_log (ro_store (Route k st)) \<in> {log, st_log st}"
    using route_log [of "admitted k" st log b e] run by (simp add: Route_def admitted_def [symmetric])
  have whole: "case ca_fault k of WriteFails n back \<Rightarrow> back | _ \<Rightarrow> True" using assms(1) by (simp add: call_valid_def)
  have valid: "list_all (\<lambda>l. slots_valid l \<and> line_valid l) ?new" by (rule build_valid [OF admitted_valid [OF assms(1)]])
  have grown: "log = st_log st \<or> log = log_text (ls @ ?new) \<and> list_all written ?new"
    using append_lines [OF run [unfolded assms(2)] whole] marshalled_written valid
    by (auto simp: assms(2) log_text_append)
  show "route_lines k st = [] \<or> route_lines k st = ?new" by (simp add: route_lines_def)
  show "st_log (ro_store (Route k st)) = log_text (ls @ route_lines k st)" "list_all written (route_lines k st)"
    using after grown assms(2) by (auto simp: route_lines_def)
qed

lemma steered_ledger:
  "steered ls st \<Longrightarrow> st_log st = log_text ls \<and> list_all written ls \<and> (\<forall>sid pid. within_budget (spent_of sid pid ls))"
proof (induction rule: steered.induct)
  case start
  show ?case by (simp add: log_text_def spent_of_def within_budget_def)
next
  case (call ls st k)
  then have log: "st_log st = log_text ls" and sound: "list_all written ls"
    "settled (ct_SessionID (ca_ctx k)) (ct_PromptID (ca_ctx k)) ls"
    and within: "\<And>sid pid. within_budget (spent_of sid pid ls)" by blast+
  note writes = route_writes [OF call.hyps(3) log]
  have "within_budget (spent_of sid pid (ls @ route_lines k st))" for sid pid
  proof (cases "route_lines k st = []")
    case False
    then have "map line_core (route_lines k st) =
        map line_core (snd (decide (ca_ctx k) (call_client (admitted k)) (ca_findings (admitted k))
          (countBudget (ca_ctx k) (log_text ls)) (ca_mint (admitted k))))"
      using writes(3) build_core [of "admitted k" "st_notices st" "st_log st"] log by simp
    then have "spent_of s p (route_lines k st) =
        spent_of s p (snd (decide (ca_ctx k) (call_client (admitted k)) (ca_findings (admitted k))
          (countBudget (ca_ctx k) (log_text ls)) (ca_mint (admitted k))))" for s p by (rule spent_core)
    then show ?thesis using steer_log.call_within [where ctx = "ca_ctx k" and g = ls, OF _ within] sound by blast
  qed (use within in simp)
  then show ?case using writes(1,2) sound(1) by simp
qed

text \<open>A first call of a session, for the witnesses.\<close>

definition example_call :: Call where
  "example_call =
     \<lparr>ca_ctx = example_context, ca_client = example_client, ca_findings = [example_finding], ca_mint = (\<lambda>i. ''id''),
      ca_shadow = False, ca_fault = NoFault, ca_created = True\<rparr>"

definition new_store :: steer_store where
  "new_store = \<lparr>st_log = [], st_notices = []\<rparr>"

lemma example_call_valid: "call_valid example_call"
  by (simp add: call_valid_def example_call_def finding_valid_def example_finding_def recorded_def no_message_def
      slotsOf_def example_context_def good_members_def ValidString_ascii)

lemma settled_nil: "settled sid pid []"
  by (simp add: settled_def)

lemma steered_new: "steered [] new_store"
  unfolding new_store_def by (rule steered.start)



section \<open>A note is sent or its loss is counted\<close>

lemma first_keys_on: "f \<in> set (first_keys claimed fs) \<Longrightarrow> f_MaxLevel f > LevelOff"
  by (induction fs arbitrary: claimed) (auto simp: vocab_defs split: if_splits)

lemma note_sent:
  assumes "pick_note ctx c spent fs = Some f" "ct_Arm ctx \<noteq> ArmOff" "\<not> ct_Holdout ctx" "ValidString (m_Aside (f_Message f))"
  shows "fst (decide ctx c fs spent mint) = note_output f" "note_output f \<noteq> no_output"
    "list_ex (\<lambda>f. f_MaxLevel f > LevelOff) fs"
proof -
  have f: "note_clear ctx c f" "f \<in> set (first_keys [] (ownFirst (ct_Event ctx) (rank fs)))"
    using assms(1) by (auto simp: pick_note_def find_Some_iff)
  show "fst (decide ctx c fs spent mint) = note_output f"
    using assms note_marshals [OF f(1)] by (simp add: decide_output prints_def)
  show "note_output f \<noteq> no_output" using f(1) by (auto simp: note_output_def no_output_def note_clear_def)
  have "f \<in> set fs" using f(2) first_keys_subset ranked_set by blast
  then show "list_ex (\<lambda>f. f_MaxLevel f > LevelOff) fs" using first_keys_on [OF f(2)] by (auto simp: list_ex_iff)
qed

lemma route_note:
  assumes "pick_note (ca_ctx k) (call_client k) (countBudget (ca_ctx k) (st_log st)) (ca_findings k) = Some f"
    and "ct_Arm (ca_ctx k) \<noteq> ArmOff" "\<not> ct_Holdout (ca_ctx k)" "ValidString (m_Aside (f_Message f))"
  shows "if ro_lockTimeouts (route k st) + ro_appendFailures (route k st) = 0 then ro_out (route k st) = note_output f
         else ro_lockTimeouts (route k st) + ro_appendFailures (route k st) = 1"
proof -
  note sent = note_sent [OF assms]
  obtain log b e where run: "AppendSteer (ca_fault k) (st_log st) (route_build k (st_notices st)) = (log, b, e)"
    by (cases "AppendSteer (ca_fault k) (st_log st) (route_build k (st_notices st))")
  have "nd_out (fst (route_build k (st_notices st) (st_log st))) = note_output f"
    using sent(1) [of "ca_mint k"] sent(2) by (auto simp: route_build_def Let_def split: prod.split)
  then show ?thesis using sent(3) by (cases e) (simp_all add: route_cases run Let_def)
qed

lemma Route_note:
  assumes "steered ls st" "settled (ct_SessionID (ca_ctx k)) (ct_PromptID (ca_ctx k)) ls"
    and "pick_note (ca_ctx k) (call_client k) (spent_of (ct_SessionID (ca_ctx k)) (ct_PromptID (ca_ctx k)) ls)
           (admit (ct_Event (ca_ctx k)) (ca_findings k)) = Some f"
    and "ct_Arm (ca_ctx k) \<noteq> ArmOff" "\<not> ct_Holdout (ca_ctx k)" "ValidString (m_Aside (f_Message f))"
  shows "if ro_lockTimeouts (Route k st) + ro_appendFailures (Route k st) = 0 then ro_out (Route k st) = note_output f
         else ro_lockTimeouts (Route k st) + ro_appendFailures (Route k st) = 1"
proof -
  have "countBudget (ca_ctx k) (st_log st) = spent_of (ct_SessionID (ca_ctx k)) (ct_PromptID (ca_ctx k)) ls"
    using steered_ledger [OF assms(1)] assms(2) countBudget_spent_of by simp
  then have "pick_note (ca_ctx (admitted k)) (call_client (admitted k)) (countBudget (ca_ctx (admitted k)) (st_log st))
      (ca_findings (admitted k)) = Some f"
    using assms(3) by (simp add: admitted_def call_client_def cong: if_cong)
  from route_note [OF this] show ?thesis using assms(4-6) by (simp add: Route_def admitted_def cong: if_cong)
qed


lemma example_admitted: "admit EventPostToolUse [example_finding] = [example_finding]"
  unfolding admit_def example_finding_def by code_simp

lemma example_read: "call_client example_call = example_client"
proof -
  have "verified (keys_of EventPostToolUse) EventPostToolUse example_client mirrorVerifiedOn" by code_simp
  then show ?thesis
    by (simp add: call_client_def example_call_def example_context_def Let_def) (simp add: example_client_def)
qed

lemma example_pick: "pick_note example_context example_client no_counts [example_finding] = Some example_finding"
proof -
  have "affordable example_context no_counts example_finding"
    by (simp add: affordable_def no_counts_def maxNotes_def example_finding_def Reserve_def)
  moreover have "first_keys [] (ownFirst (ct_Event example_context) (rank [example_finding])) = [example_finding]"
    by (simp add: rank_def ownFirst_def example_finding_def vocab_defs)
  ultimately show ?thesis using example_clear by (simp add: pick_note_def)
qed


end
