(* ===== verification/ClaimText.thy ===== *)
theory ClaimText
  imports Utf8
begin

text \<open>
  The message as the claim comparator reads it, \<^verbatim>\<open>internal/verify/claimtext.go\<close>: each window capped,
  sanitised and stripped, split into sentences, each sentence split into words with the clause each
  stands in and its marks. A text is its bytes; what the tables of Go's \<^verbatim>\<open>unicode\<close> package say of a
  rune outside ASCII is the argument \<open>u\<close>. The code strips in place, each write trailing the read; here
  a function gives the new text.
\<close>

section \<open>Runes\<close>

text \<open>The tables of \<^verbatim>\<open>unicode\<close> from rune 0x80 on; the ASCII range is written out.\<close>

record unicode =
  un_graphic :: "nat \<Rightarrow> bool"
  un_space :: "nat \<Rightarrow> bool"
  un_letter :: "nat \<Rightarrow> bool"
  un_digit :: "nat \<Rightarrow> bool"
  un_upper :: "nat \<Rightarrow> bool"
  un_lower :: "nat \<Rightarrow> bool"
  un_ToLower :: "nat \<Rightarrow> nat"

definition IsGraphic :: "unicode \<Rightarrow> nat \<Rightarrow> bool" where
  "IsGraphic u r = (if r < 0x80 then 0x20 \<le> r \<and> r < 0x7F else un_graphic u r)"

definition IsSpace :: "unicode \<Rightarrow> nat \<Rightarrow> bool" where
  "IsSpace u r = (if r < 0x80 then 9 \<le> r \<and> r \<le> 13 \<or> r = 0x20 else un_space u r)"

definition IsUpper :: "unicode \<Rightarrow> nat \<Rightarrow> bool" where
  "IsUpper u r = (if r < 0x80 then 0x41 \<le> r \<and> r \<le> 0x5A else un_upper u r)"

definition IsLower :: "unicode \<Rightarrow> nat \<Rightarrow> bool" where
  "IsLower u r = (if r < 0x80 then 0x61 \<le> r \<and> r \<le> 0x7A else un_lower u r)"

definition IsLetter :: "unicode \<Rightarrow> nat \<Rightarrow> bool" where
  "IsLetter u r = (if r < 0x80 then 0x41 \<le> r \<and> r \<le> 0x5A \<or> 0x61 \<le> r \<and> r \<le> 0x7A else un_letter u r)"

definition IsDigit :: "unicode \<Rightarrow> nat \<Rightarrow> bool" where
  "IsDigit u r = (if r < 0x80 then 0x30 \<le> r \<and> r \<le> 0x39 else un_digit u r)"

definition ToLowerRune :: "unicode \<Rightarrow> nat \<Rightarrow> nat" where
  "ToLowerRune u r = (if r < 0x80 then (if 0x41 \<le> r \<and> r \<le> 0x5A then r + 32 else r) else un_ToLower u r)"

lemma rune_shorter: "s \<noteq> [] \<Longrightarrow> length (drop (snd (DecodeRune s)) s) < length s"
  using DecodeRune_size [of s] by (auto simp: Suc_le_eq)

text \<open>\<^verbatim>\<open>strings.ToLower\<close>, a rune at a time: a byte that does not decode becomes the rune error.\<close>

function ToLowerText :: "unicode \<Rightarrow> string \<Rightarrow> string" where
  "ToLowerText u s =
     (if s = [] then []
      else EncodeRune (ToLowerRune u (fst (DecodeRune s))) @ ToLowerText u (drop (snd (DecodeRune s)) s))"
  by pat_completeness auto
termination
  by (relation "measure (length \<circ> snd)") (simp_all add: rune_shorter del: length_drop)

declare ToLowerText.simps [simp del]

function RuneCount :: "string \<Rightarrow> nat" where
  "RuneCount s = (if s = [] then 0 else 1 + RuneCount (drop (snd (DecodeRune s)) s))"
  by pat_completeness auto
termination
  by (relation "measure length") (simp_all add: rune_shorter del: length_drop)

declare RuneCount.simps [simp del]

text \<open>\<^verbatim>\<open>utf8.DecodeLastRune\<close>: back to the nearest byte that may start a rune, four bytes at most.\<close>

definition DecodeLastRune :: "string \<Rightarrow> nat \<times> nat" where
  "DecodeLastRune s =
     (if s = [] then (RuneError, 0)
      else if byte (last s) < 0x80 then (byte (last s), 1)
      else (let stop = length s; lim = stop - 4;
                start = (case find (\<lambda>i. RuneStart (s ! i)) (rev [lim..<stop - 1]) of Some i \<Rightarrow> i | None \<Rightarrow> lim - 1);
                d = DecodeRune (drop start s) in
            if start + snd d \<noteq> stop then (RuneError, 1) else d))"

text \<open>\<^verbatim>\<open>strings.TrimSpace\<close>.\<close>

function trim_left :: "unicode \<Rightarrow> string \<Rightarrow> string" where
  "trim_left u s =
     (if s \<noteq> [] \<and> IsSpace u (fst (DecodeRune s)) then trim_left u (drop (snd (DecodeRune s)) s) else s)"
  by pat_completeness auto
termination
  by (relation "measure (length \<circ> snd)") (use rune_shorter in auto)

declare trim_left.simps [simp del]

lemma last_rune_size: "s \<noteq> [] \<Longrightarrow> 0 < snd (DecodeLastRune s) \<and> snd (DecodeLastRune s) \<le> length s"
proof -
  assume s: "s \<noteq> []"
  have found: "find (\<lambda>i. RuneStart (s ! i)) (rev [length s - 4..<length s - 1]) = Some i \<Longrightarrow> i < length s" for i
    by (auto simp: find_Some_iff rev_nth)
  define start where "start = (case find (\<lambda>i. RuneStart (s ! i)) (rev [length s - 4..<length s - 1]) of
      Some i \<Rightarrow> i | None \<Rightarrow> length s - 4 - 1)"
  have "start < length s" using s found by (auto simp: start_def split: option.split)
  then have "drop start s \<noteq> []" by simp
  then have "0 < snd (DecodeRune (drop start s))" "snd (DecodeRune (drop start s)) \<le> length s"
    using DecodeRune_size [of "drop start s"] by auto
  then show ?thesis using s unfolding DecodeLastRune_def Let_def start_def [symmetric] by (simp add: Suc_le_eq)
qed

function trim_right :: "unicode \<Rightarrow> string \<Rightarrow> string" where
  "trim_right u s =
     (if s \<noteq> [] \<and> IsSpace u (fst (DecodeLastRune s)) then trim_right u (take (length s - snd (DecodeLastRune s)) s) else s)"
  by pat_completeness auto
termination
  by (relation "measure (length \<circ> snd)") (use last_rune_size in \<open>auto simp: Suc_le_eq\<close>)

declare trim_right.simps [simp del]

definition TrimSpace :: "unicode \<Rightarrow> string \<Rightarrow> string" where
  "TrimSpace u s = trim_right u (trim_left u s)"

section \<open>A window\<close>

definition MaxClaimMessageBytes :: nat where
  "MaxClaimMessageBytes = 64 * 2 ^ 10"

fun rune_start :: "string \<Rightarrow> nat \<Rightarrow> nat" where
  "rune_start b i = (if i > 0 \<and> \<not> RuneStart (b ! i) then rune_start b (i - 1) else i)"

declare rune_start.simps [simp del]

definition capWindow :: "string \<Rightarrow> string \<times> bool" where
  "capWindow b =
     (if length b \<le> MaxClaimMessageBytes then (b, False) else (take (rune_start b MaxClaimMessageBytes) b, True))"

function sanitize :: "unicode \<Rightarrow> string \<Rightarrow> string" where
  "sanitize u b =
     (if b = [] then []
      else if byte (hd b) < 0x80 then
        (if 0x20 \<le> byte (hd b) \<and> byte (hd b) < 0x7F \<or> 9 \<le> byte (hd b) \<and> byte (hd b) \<le> 13
         then hd b # sanitize u (tl b) else sanitize u (tl b))
      else (let r = fst (DecodeRune b) in
            (if IsGraphic u r \<or> IsSpace u r then EncodeRune r else []) @ sanitize u (drop (snd (DecodeRune b)) b)))"
  by pat_completeness auto
termination
  by (relation "measure (length \<circ> snd)") (use rune_shorter in auto)

declare sanitize.simps [simp del]

section \<open>Lines that are not prose\<close>

definition blank :: "char \<Rightarrow> bool" where
  "blank c \<longleftrightarrow> c = CHR '' '' \<or> c = CHR 0x09"

definition TrimSuffix :: "string \<Rightarrow> string \<Rightarrow> string" where
  "TrimSuffix s x = (if HasSuffix s x then take (length s - length x) s else s)"

lemma cut_shorter: "(a, r, f) = Cut s c \<Longrightarrow> length r \<le> length s"
  using Cut_tail_shorter [of s c] by (cases "s = []") (auto simp: Cut_def split: if_splits)

lemma cut_tail: "s \<noteq> [] \<Longrightarrow> (a, r, f) = Cut s c \<Longrightarrow> length r < length s"
  using Cut_tail_shorter [of s c] by (metis fst_conv snd_conv)

text \<open>A cell bar outside inline code.\<close>

function cellBar :: "string \<Rightarrow> bool" where
  "cellBar line =
     (case dropWhile (\<lambda>c. c \<noteq> CHR ''|'' \<and> c \<noteq> CHR 0x60) line of
        [] \<Rightarrow> False
      | c # r \<Rightarrow>
          if c = CHR ''|'' then True
          else (case Cut r (CHR 0x60) of (code, after, found) \<Rightarrow>
            if found then cellBar after else CHR ''|'' \<in> set r))"
  by pat_completeness auto

lemma dropWhile_shorter: "dropWhile P s = c # r \<Longrightarrow> length r < length s"
  using length_dropWhile_le [of P s] by (simp add: Suc_le_eq)

termination cellBar
  by (relation "measure length") (auto dest!: cut_shorter dropWhile_shorter)

declare cellBar.simps [simp del]

definition delimiter_cell :: "unicode \<Rightarrow> string \<Rightarrow> bool" where
  "delimiter_cell u c =
     (let cell = TrimSuffix (fst (CutPrefix (TrimSpace u c) '':'')) '':'' in
      cell \<noteq> [] \<and> list_all (\<lambda>x. x = CHR ''-'') cell)"

definition delimiterRow :: "unicode \<Rightarrow> string \<Rightarrow> bool" where
  "delimiterRow u line =
     (let l = TrimSpace u line in
      CHR ''|'' \<in> set l \<and>
      list_all (delimiter_cell u) (Split (TrimSuffix (fst (CutPrefix l ''|'')) ''|'') (CHR ''|'')))"

definition tableHeader :: "unicode \<Rightarrow> string \<Rightarrow> string \<Rightarrow> bool" where
  "tableHeader u line after \<longleftrightarrow> cellBar line \<and> delimiterRow u (fst (Cut after (CHR 0x0A)))"

definition referenceMark :: string where
  "referenceMark = [CHR 0xE2, CHR 0x80, CHR 0xBB]"

definition isDelivered :: "string \<Rightarrow> string list \<Rightarrow> bool" where
  "isDelivered lead delivered =
     (let line = rev (dropWhile (\<lambda>c. blank c \<or> c = CHR 0x0D) (rev (dropWhile blank (fst (CutPrefix lead referenceMark))))) in
      line \<in> set delivered)"

section \<open>Spans and URLs\<close>

definition maxQuotedRunes :: nat where
  "maxQuotedRunes = 200"

function cutSpans :: "char \<Rightarrow> nat \<Rightarrow> string \<Rightarrow> string" where
  "cutSpans q mx b =
     (case b of
        [] \<Rightarrow> []
      | c # r \<Rightarrow>
          if c = q then
            (case Cut r q of (inner, after, found) \<Rightarrow>
               if found \<and> (mx = 0 \<or> RuneCount inner \<le> mx) then CHR '' '' # cutSpans q mx after else c # cutSpans q mx r)
          else c # cutSpans q mx r)"
  by pat_completeness auto
termination
  by (relation "measure (\<lambda>(q, mx, b). length b)") (auto dest!: cut_shorter)

declare cutSpans.simps [simp del]

definition schemeLen :: "string \<Rightarrow> nat" where
  "schemeLen b =
     (let i = length (takeWhile isLetter b) in if i > 0 \<and> HasPrefix (drop i b) ''://'' then i + 3 else 0)"

text \<open>The URLs of what is left, given the byte before it.\<close>

function urls_from :: "char option \<Rightarrow> string \<Rightarrow> string" where
  "urls_from prior b =
     (if b = [] then []
      else (let n = (case prior of Some c \<Rightarrow> if isLetter c then 0 else schemeLen b | None \<Rightarrow> schemeLen b) in
        if n > 0 then
          (let url = n + length (takeWhile (\<lambda>c. \<not> blank c) (drop n b)) in
           CHR '' '' # urls_from (Some (b ! (url - 1))) (drop url b))
        else hd b # urls_from (Some (hd b)) (tl b)))"
  by pat_completeness auto
termination
  by (relation "measure (length \<circ> snd)") auto

declare urls_from.simps [simp del]

definition cutURLs :: "string \<Rightarrow> string" where
  "cutURLs b = (if \<not> Contains b ''://'' then b else urls_from None b)"

text \<open>One line kept, and the window line by line.\<close>

definition keptLine :: "string \<Rightarrow> string" where
  "keptLine line = cutURLs (cutSpans (CHR 0x22) maxQuotedRunes (cutSpans (CHR 0x60) 0 line))"

function strip_lines :: "unicode \<Rightarrow> string list \<Rightarrow> bool \<Rightarrow> string \<Rightarrow> string" where
  "strip_lines u delivered fenced b =
     (if b = [] then []
      else (case Cut b (CHR 0x0A) of (line, after, found) \<Rightarrow>
        (let lead = dropWhile blank line in
         if HasPrefix lead [CHR 0x60, CHR 0x60, CHR 0x60] then CHR 0x0A # strip_lines u delivered (\<not> fenced) after
         else if fenced \<or> HasPrefix lead ''>'' \<or> isDelivered lead delivered \<or> tableHeader u lead after
         then CHR 0x0A # strip_lines u delivered fenced after
         else keptLine line @ CHR 0x0A # strip_lines u delivered fenced after)))"
  by pat_completeness auto
termination
  by (relation "measure (\<lambda>(u, d, f, b). length b)") (auto intro: cut_tail)

declare strip_lines.simps [simp del]

definition stripWindow :: "unicode \<Rightarrow> string \<Rightarrow> string list \<Rightarrow> string" where
  "stripWindow u b delivered = strip_lines u delivered False b"

section \<open>Sentences\<close>

definition add_sentence :: "unicode \<Rightarrow> string \<Rightarrow> string list \<Rightarrow> string list" where
  "add_sentence u s ss = (let t = TrimSpace u s in if t \<noteq> [] then t # ss else ss)"

text \<open>\<open>cur\<close> is the sentence so far.\<close>

fun sentences_from :: "unicode \<Rightarrow> string \<Rightarrow> string \<Rightarrow> string list" where
  "sentences_from u cur [] = add_sentence u cur []"
| "sentences_from u cur (c # s) =
     (if c = CHR 0x0A then add_sentence u cur (sentences_from u [] s)
      else if c \<in> set ''.!?'' \<and> (s = [] \<or> IsSpace u (fst (DecodeRune s)))
      then add_sentence u (cur @ [c]) (sentences_from u [] s)
      else sentences_from u (cur @ [c]) s)"

definition sentences :: "unicode \<Rightarrow> string \<Rightarrow> string list" where
  "sentences u s = sentences_from u [] s"

section \<open>Words\<close>

definition claimClauseBreaks :: string where
  "claimClauseBreaks = ''.,;:!?()'' @ [CHR 0x0A]"

record wordMark =
  mk_Upper :: bool
  mk_Lower :: bool
  mk_Joined :: bool
  mk_ID :: bool

record claim_word =
  cw_word :: string
  cw_clause :: nat
  cw_mark :: wordMark

definition wordRune :: "unicode \<Rightarrow> nat \<Rightarrow> bool" where
  "wordRune u r \<longleftrightarrow> IsLetter u r \<or> IsDigit u r \<or> r = 0x2F \<or> r = 0x27 \<or> r = 0x2019"

text \<open>The runes of the run of word runes a text opens with, and how many bytes they are.\<close>

function word_runes :: "unicode \<Rightarrow> string \<Rightarrow> nat list \<times> nat" where
  "word_runes u s =
     (if s \<noteq> [] \<and> wordRune u (fst (DecodeRune s)) then
        (case word_runes u (drop (snd (DecodeRune s)) s) of (rs, n) \<Rightarrow> (fst (DecodeRune s) # rs, snd (DecodeRune s) + n))
      else ([], 0))"
  by pat_completeness auto
termination
  by (relation "measure (length \<circ> snd)") (use rune_shorter in auto)

declare word_runes.simps [simp del]

text \<open>The typographic apostrophe read as the plain one.\<close>

fun plain_apostrophes :: "string \<Rightarrow> string" where
  "plain_apostrophes [] = []"
| "plain_apostrophes (c # s) =
     (if HasPrefix (c # s) [CHR 0xE2, CHR 0x80, CHR 0x99] then CHR 0x27 # plain_apostrophes (drop 2 s)
      else c # plain_apostrophes s)"

definition word_text :: "unicode \<Rightarrow> string \<Rightarrow> string" where
  "word_text u s = TrimRight (TrimLeft (plain_apostrophes (ToLowerText u s)) (CHR 0x27)) (CHR 0x27)"

text \<open>A hyphen that joins the word between \<open>prior\<close> and \<open>after\<close> to another.\<close>

definition joined_word :: "unicode \<Rightarrow> string \<Rightarrow> string \<Rightarrow> bool" where
  "joined_word u prior after \<longleftrightarrow>
     length prior \<ge> 2 \<and> last prior = CHR ''-'' \<and> wordRune u (fst (DecodeLastRune (butlast prior))) \<or>
     length after \<ge> 2 \<and> hd after = CHR ''-'' \<and> wordRune u (fst (DecodeRune (tl after)))"

definition word_mark :: "unicode \<Rightarrow> string \<Rightarrow> nat list \<Rightarrow> string \<Rightarrow> wordMark" where
  "word_mark u prior rs after =
     \<lparr>mk_Upper = \<not> list_ex (IsLower u) rs \<and> list_ex (IsUpper u) rs, mk_Lower = list_ex (IsLower u) rs,
      mk_Joined = joined_word u prior after, mk_ID = (prior \<noteq> [] \<and> last prior = CHR ''#'')\<rparr>"

text \<open>The words of what is left: \<open>n\<close> are read, the clause opened at word \<open>clause\<close>.\<close>

function words_from :: "unicode \<Rightarrow> string \<Rightarrow> string \<Rightarrow> nat \<Rightarrow> nat \<Rightarrow> claim_word list" where
  "words_from u prior s n clause =
     (if s = [] then []
      else if \<not> wordRune u (fst (DecodeRune s)) then
        words_from u (prior @ take (snd (DecodeRune s)) s) (drop (snd (DecodeRune s)) s) n
          (if fst (DecodeRune s) \<in> byte ` set claimClauseBreaks then n else clause)
      else (case word_runes u s of (rs, k) \<Rightarrow>
        (let w = word_text u (take k s); rest = words_from u (prior @ take k s) (drop k s) in
         if w = [] then rest n clause
         else \<lparr>cw_word = w, cw_clause = clause, cw_mark = word_mark u prior rs (drop k s)\<rparr> # rest (n + 1) clause)))"
  by pat_completeness auto

lemma word_runes_size:
  "snd (word_runes u s) \<le> length s \<and> (s \<noteq> [] \<and> wordRune u (fst (DecodeRune s)) \<longrightarrow> 0 < snd (word_runes u s))"
proof (induction u s rule: word_runes.induct)
  case (1 u s)
  show ?case
    using 1 DecodeRune_size [of s] by (auto simp: word_runes.simps [of u s] split: prod.split)
qed

lemma word_run_shorter:
  "s \<noteq> [] \<Longrightarrow> wordRune u (fst (DecodeRune s)) \<Longrightarrow> (rs, k) = word_runes u s \<Longrightarrow> length (drop k s) < length s"
  using word_runes_size [of u s] by (cases "word_runes u s") auto

termination words_from
  by (relation "measure (\<lambda>(u, prior, s, n, clause). length s)")
    (simp_all add: rune_shorter word_run_shorter del: length_drop)

declare words_from.simps [simp del]

definition claim_words :: "unicode \<Rightarrow> string \<Rightarrow> claim_word list" where
  "claim_words u s = words_from u [] s 0 0"

section \<open>Facts\<close>

lemma rune_start_le: "rune_start b i \<le> i"
  by (induction b i rule: rune_start.induct) (subst rune_start.simps, auto)

lemma capWindow_bound: "length (fst (capWindow b)) \<le> MaxClaimMessageBytes"
  using rune_start_le [of b MaxClaimMessageBytes] by (simp add: capWindow_def)

lemma words_from_sound:
  assumes "clause \<le> n"
  shows "\<forall>i < length (words_from u prior s n clause).
    cw_word (words_from u prior s n clause ! i) \<noteq> [] \<and> cw_clause (words_from u prior s n clause ! i) \<le> n + i"
  using assms
proof (induction s arbitrary: prior n clause rule: measure_induct_rule [of length])
  case (less s)
  consider "s = []" | "s \<noteq> []" "\<not> wordRune u (fst (DecodeRune s))" | "s \<noteq> []" "wordRune u (fst (DecodeRune s))" by blast
  then show ?case
  proof cases
    case 1
    then show ?thesis by (simp add: words_from.simps [of u prior "[]"])
  next
    case 2
    then show ?thesis using less.IH [OF rune_shorter [OF 2(1)]] less.prems by (simp add: words_from.simps [of u prior s])
  next
    case 3
    obtain rs k where run: "word_runes u s = (rs, k)" by (cases "word_runes u s")
    let ?w = "word_text u (take k s)" and ?rest = "words_from u (prior @ take k s) (drop k s)"
    have here: "words_from u prior s n clause =
        (if ?w = [] then ?rest n clause
         else \<lparr>cw_word = ?w, cw_clause = clause, cw_mark = word_mark u prior rs (drop k s)\<rparr> # ?rest (n + 1) clause)"
      using 3 run by (simp add: words_from.simps [of u prior s] Let_def)
    have IH: "\<forall>i < length (?rest m clause). cw_word (?rest m clause ! i) \<noteq> [] \<and> cw_clause (?rest m clause ! i) \<le> m + i"
      if "clause \<le> m" for m
      using less.IH [OF word_run_shorter [OF 3 run [symmetric]] that] .
    show ?thesis
      unfolding here using IH [of n] IH [of "n + 1"] less.prems by (auto simp: nth_Cons split: nat.split)
  qed
qed


end
