(* ===== verification/Claims.thy ===== *)
theory Claims
  imports ClaimText Gates
begin

text \<open>
  The claim comparator, \<^verbatim>\<open>internal/verify\<close> (claims.go and the tables of claimlex.go): the one place a
  claim in the agent's message meets the record. The sentences of a message's two windows are read
  for the predicates of a closed lexicon, each class found is mapped to the gates it answers to, and
  its verdict is the worst of their states. The digest of a sentence under the install key is the
  argument \<open>mac\<close>. The code reads two sentences at a time into the same buffers and keeps what it has
  read of a sentence's disclosures and of a class's gates; both memos are part of the model.
\<close>

section \<open>The closed tables\<close>

datatype claim_class =
  ClaimTestsPass | ClaimBuildOK | ClaimLintClean | ClaimTypecheckClean | ClaimScanClean | ClaimDone

record claimRule =
  cr_class :: claim_class
  cr_kind :: string
  cr_subjects :: "string list list"
  cr_number :: bool
  cr_predicates :: "string list list"

definition claimNegators :: "string list" where
  "claimNegators =
     [''not'', ''no'', ''never'', ''cannot'', ''none'', ''nothing'', ''neither'', ''nor'', ''without'']"

definition claimModals :: "string list" where
  "claimModals =
     [''should'', ''would'', ''could'', ''might'', ''may'', ''will'', ''once'', ''after'', ''if'', ''when'',
      ''until'', ''unless'', ''need'', ''needs'', ''to'', ''expect'', ''expected'', ''hopefully'', ''likely'',
      ''probably'', ''verify'', ''confirm'', ''check'']"

definition claimSkips :: "string list list" where
  "claimSkips =
     [[''please''], [''run''], [''try''], [''you'', ''can''], [''you'', ''may'']]"

definition claimManners :: "string list list" where
  "claimManners =
     [[''works'', ''from''], [''works'', ''through''], [''works'', ''by''], [''works'', ''off''],
      [''works'', ''as'', ''a''], [''works'', ''as'', ''an''], [''working'', ''from''],
      [''working'', ''through''], [''working'', ''by''], [''working'', ''off''], [''working'', ''as'', ''a''],
      [''working'', ''as'', ''an'']]"

definition claimPlans :: "string list list" where
  "claimPlans =
     [[''then''], [''next''], [''after'', ''that''], [''once'']]"

definition claimAdverbs :: "string list" where
  "claimAdverbs =
     [''also'', ''just'', ''now'', ''still'', ''already'', ''again'', ''first'', ''finally'', ''only'']"

definition claimAuxiliaries :: "string list" where
  "claimAuxiliaries =
     [''am'', ''is'', ''are'', ''be'', ''have'', ''has'']"

definition claimPerceptions :: "string list" where
  "claimPerceptions =
     [''see'', ''find'', ''notice'']"

definition claimBe :: "string list" where
  "claimBe =
     [''am'', ''is'', ''are'', ''was'', ''were'', ''be'', ''been'']"

definition claimPast :: "string list" where
  "claimPast =
     [''ate'', ''beat'', ''became'', ''began'', ''bent'', ''bet'', ''bit'', ''blew'', ''bought'', ''bound'',
      ''broke'', ''brought'', ''built'', ''burnt'', ''came'', ''cast'', ''caught'', ''chose'', ''clung'',
      ''crept'', ''cut'', ''dealt'', ''did'', ''dove'', ''drank'', ''drew'', ''drove'', ''dug'', ''fed'',
      ''fell'', ''felt'', ''fit'', ''fled'', ''flew'', ''forgave'', ''forgot'', ''fought'', ''found'',
      ''froze'', ''gave'', ''got'', ''grew'', ''had'', ''heard'', ''held'', ''hid'', ''hit'', ''hung'',
      ''hurt'', ''kept'', ''knew'', ''laid'', ''learnt'', ''led'', ''left'', ''lent'', ''let'', ''lit'',
      ''lost'', ''made'', ''meant'', ''met'', ''misread'', ''mistook'', ''overrode'', ''overtook'', ''paid'',
      ''put'', ''quit'', ''ran'', ''rang'', ''read'', ''rebuilt'', ''redid'', ''reran'', ''reread'',
      ''resent'', ''reset'', ''rewrote'', ''rode'', ''rose'', ''said'', ''sang'', ''sank'', ''sat'', ''saw'',
      ''sent'', ''set'', ''shook'', ''shot'', ''shut'', ''slept'', ''slid'', ''sold'', ''sought'', ''spent'',
      ''split'', ''spoke'', ''spread'', ''sprang'', ''spun'', ''stole'', ''stood'', ''struck'', ''stuck'',
      ''swam'', ''swept'', ''swore'', ''swung'', ''taught'', ''thought'', ''threw'', ''told'', ''took'',
      ''tore'', ''undid'', ''understood'', ''upset'', ''was'', ''went'', ''wept'', ''were'', ''withdrew'',
      ''woke'', ''won'', ''wore'', ''wound'', ''wrote'']"

definition claimDisclosures :: "string list list" where
  "claimDisclosures =
     [[''fail''], [''failed''], [''failing''], [''error''], [''errors''], [''couldn't''],
      [''could'', ''not''], [''unable''], [''not'', ''able''], [''didn't''],
      [''did'', ''not''], [''blocked''], [''denied''], [''timed'', ''out''], [''timeout''], [''broken''],
      [''broke''], [''issue''], [''issues''], [''problem''], [''problems''], [''bug''], [''crash''],
      [''missing''], [''cannot''], [''can't''], [''warning''], [''exception''],
      [''permission''], [''refused''], [''interrupted''], [''skipped''], [''partial''], [''exit'', ''code''],
      [''exit'', ''status''], [''exited''], [''non'', ''zero''], [''nonzero''], [''returned'', ''1''],
      [''did'', ''not'', ''succeed''], [''unsuccessful''], [''aborted''], [''rejected''], [''not'', ''run''],
      [''haven't'', ''run''], [''have'', ''not'', ''run''],
      [''didn't'', ''run''], [''did'', ''not'', ''run''], [''not'', ''re'', ''run''],
      [''unverified''], [''untested''], [''not'', ''tested''], [''couldn't'', ''run''],
      [''could'', ''not'', ''run''], [''pending''], [''in'', ''the'', ''background''], [''still'', ''running'']]"

definition claimLexicon :: "claimRule list" where
  "claimLexicon =
     [\<lparr>cr_class = ClaimTestsPass, cr_kind = ''test'', cr_subjects =
          [[''test''], [''tests''], [''suite''], [''suites''], [''spec''], [''specs'']],
        cr_number = True, cr_predicates =
          [[''pass''], [''passes''], [''passed''], [''passing''], [''green''], [''succeed''], [''succeeds''],
           [''succeeded'']]\<rparr>,
      \<lparr>cr_class = ClaimBuildOK, cr_kind = ''build'', cr_subjects =
          [[''build''], [''it''], [''project''], [''code''], [''binary''], [''module''], [''package''],
           [''everything'']],
        cr_number = False, cr_predicates =
          [[''builds''], [''compiles''], [''compiled''], [''succeeds''], [''succeeded''], [''passes''],
           [''passed''], [''clean''], [''cleanly''], [''successfully'']]\<rparr>,
      \<lparr>cr_class = ClaimLintClean, cr_kind = ''lint'', cr_subjects =
          [[''lint''], [''linter''], [''linters''], [''linting''], [''golangci'', ''lint''], [''eslint''],
           [''ruff''], [''flake8''], [''pylint''], [''clippy''], [''rubocop''], [''staticcheck'']],
        cr_number = False, cr_predicates =
          [[''clean''], [''passes''], [''passed''], [''green''], [''no'', ''issues''], [''no'', ''warnings''],
           [''0'', ''issues'']]\<rparr>,
      \<lparr>cr_class = ClaimTypecheckClean, cr_kind = ''typecheck'', cr_subjects =
          [[''typecheck''], [''typechecks''], [''types''], [''type'', ''check''], [''mypy''], [''pyright''],
           [''tsc'']],
        cr_number = False, cr_predicates =
          [[''clean''], [''pass''], [''passes''], [''passed''], [''no'', ''errors''], [''0'', ''errors'']]\<rparr>,
      \<lparr>cr_class = ClaimScanClean, cr_kind = ''scan'', cr_subjects =
          [[''scan''], [''scanner''], [''semgrep''], [''gitleaks''], [''trivy''], [''bandit''], [''gosec''],
           [''snyk'']],
        cr_number = False, cr_predicates =
          [[''clean''], [''passes''], [''passed''], [''no'', ''findings''], [''no'', ''issues'']]\<rparr>,
      \<lparr>cr_class = ClaimDone, cr_kind = [], cr_subjects =
          [],
        cr_number = False, cr_predicates =
          [[''done''], [''complete''], [''completed''], [''finished''], [''implemented''], [''fixed''],
           [''resolved''], [''ready''], [''works''], [''working'']]\<rparr>]"

section \<open>A sentence\<close>

definition phraseAt :: "string list \<Rightarrow> nat \<Rightarrow> string list \<Rightarrow> bool" where
  "phraseAt ws i phrase \<longleftrightarrow>
     i + length phrase \<le> length ws \<and> ws ! i = hd phrase \<and> take (length phrase - 1) (drop (i + 1) ws) = tl phrase"

text \<open>An accepted predicate: its lexicon row and the words it covers, from and up to.\<close>

type_synonym claim_span = "nat \<times> nat \<times> nat"

text \<open>\<open>se_disc\<close> is the memo of \<open>disclosed\<close>: 0 unread, 1 no, 2 yes.\<close>

record sentence =
  se_text :: string
  se_words :: "string list"
  se_clauses :: "nat list"
  se_negated :: "bool list"
  se_marks :: "wordMark list"
  se_loud :: bool
  se_covered :: "bool list"
  se_spans :: "claim_span list"
  se_disc :: nat

text \<open>Whether a negation stands before each word in its clause; \<open>neg\<close> is that before the next.\<close>

fun negations :: "bool \<Rightarrow> nat \<Rightarrow> (string \<times> nat) list \<Rightarrow> bool list" where
  "negations neg i [] = []"
| "negations neg i ((w, c) # ws) =
     (let neg = neg \<and> c \<noteq> i in
      neg # negations (if w = ''and'' \<or> w = ''but'' then False
                       else if w \<in> set claimNegators \<or> HasSuffix w ''n't'' then True else neg) (i + 1) ws)"

definition planned :: "string list \<Rightarrow> bool" where
  "planned ws =
     (case find (phraseAt ws 0) claimPlans of
        None \<Rightarrow> False
      | Some op \<Rightarrow>
          (case drop (length op) ws of
             [] \<Rightarrow> False
           | who # ws' \<Rightarrow>
               if who \<noteq> ''i'' \<and> who \<noteq> ''we'' then False
               else (case dropWhile (\<lambda>w. w \<in> set claimAdverbs) ws' of
                       [] \<Rightarrow> False
                     | v # _ \<Rightarrow>
                         \<not> HasSuffix v ''ed'' \<and> v \<notin> set claimPast \<and> v \<notin> set claimAuxiliaries \<and>
                         (hd op = ''once'' \<or> v \<notin> set claimPerceptions))))"

definition skipped :: "string \<Rightarrow> string list \<Rightarrow> bool" where
  "skipped t ws \<longleftrightarrow> HasSuffix t ''?'' \<or> list_ex (phraseAt ws 0) claimSkips \<or> planned ws"

definition digits_only :: "string \<Rightarrow> bool" where
  "digits_only s \<longleftrightarrow> s \<noteq> [] \<and> list_all (\<lambda>c. CHR ''0'' \<le> c \<and> c \<le> CHR ''9'') s"

definition isNumber :: "string \<Rightarrow> bool" where
  "isNumber w = (case Cut w (CHR ''/'') of (a, b, slash) \<Rightarrow> digits_only a \<and> (\<not> slash \<or> digits_only b))"

primrec first_some :: "('a \<Rightarrow> 'b option) \<Rightarrow> 'a list \<Rightarrow> 'b option" where
  "first_some f [] = None"
| "first_some f (x # xs) = (case f x of None \<Rightarrow> first_some f xs | Some y \<Rightarrow> Some y)"

text \<open>The nearest subject before word \<open>p\<close>, within the four words before it.\<close>

definition subject_at :: "claimRule \<Rightarrow> sentence \<Rightarrow> nat \<Rightarrow> nat \<Rightarrow> (nat \<times> nat) option" where
  "subject_at r s p i =
     (if cr_number r \<and> isNumber (se_words s ! i) \<and> se_clauses s ! i = se_clauses s ! p \<and> \<not> mk_ID (se_marks s ! i)
      then Some (i, i + 1)
      else map_option (\<lambda>sub. (i, i + length sub))
             (find (\<lambda>sub. i + length sub \<le> p \<and> phraseAt (se_words s) i sub) (cr_subjects r)))"

definition claim_subject :: "claimRule \<Rightarrow> sentence \<Rightarrow> nat \<Rightarrow> (nat \<times> nat) option" where
  "claim_subject r s p = first_some (subject_at r s p) (rev [p - 4..<p])"

definition modalBefore :: "string list \<Rightarrow> nat \<Rightarrow> nat \<Rightarrow> nat \<Rightarrow> bool" where
  "modalBefore ws p sFrom sTo =
     list_ex (\<lambda>i. (i < sFrom \<or> i \<ge> sTo) \<and> (ws ! i \<in> set claimModals \<or> HasSuffix (ws ! i) '''ll'')) [p - 3..<p]"

definition predicative :: "sentence \<Rightarrow> nat \<Rightarrow> bool" where
  "predicative s p =
     (case dropWhile (\<lambda>w. w \<in> set claimAdverbs) (rev (take p (se_words s))) of
        [] \<Rightarrow> False
      | w # _ \<Rightarrow> w \<in> set claimBe)"

definition named_word :: "sentence \<Rightarrow> nat \<Rightarrow> bool" where
  "named_word s k =
     list_ex (\<lambda>d. let j = int k + d in
        0 \<le> j \<and> j < int (length (se_words s)) \<and> se_clauses s ! nat j = se_clauses s ! k \<and>
        (d = -1 \<or> d = 1 \<or> se_words s ! nat (int k + d div 2) = ''or'') \<and>
        mk_Upper (se_marks s ! nat j) \<and> RuneCount (se_words s ! nat j) > 1) [-2, -1, 1, 2]"

definition misspelt :: "sentence \<Rightarrow> nat \<Rightarrow> nat \<Rightarrow> bool \<Rightarrow> bool" where
  "misspelt s p n bare =
     list_ex (\<lambda>i. mk_Joined (se_marks s ! (p + i)) \<and> \<not> predicative s p \<or>
        bare \<and> mk_Upper (se_marks s ! (p + i)) \<and> \<not> se_loud s \<and> named_word s (p + i)) [0..<n]"

definition claim_admits :: "claimRule \<Rightarrow> sentence \<Rightarrow> nat \<Rightarrow> nat \<Rightarrow> bool" where
  "claim_admits r s p n =
     (case (if cr_class r \<noteq> ClaimDone then claim_subject r s p else Some (p, p)) of
        None \<Rightarrow> False
      | Some (sFrom, sTo) \<Rightarrow>
          if list_ex (phraseAt (se_words s) p) claimManners then False
          else \<not> se_negated s ! p \<and> \<not> misspelt s p n (cr_class r = ClaimDone) \<and>
               \<not> modalBefore (se_words s) p sFrom sTo \<and> ''yet'' \<notin> set (take 2 (drop (p + n) (se_words s))))"

text \<open>The predicates a row accepts; \<open>ClaimDone\<close> is read in the first clause only.\<close>

definition row_spans :: "sentence \<Rightarrow> bool \<Rightarrow> nat \<Rightarrow> claim_span list" where
  "row_spans s wrote ri =
     (let r = claimLexicon ! ri in
      if cr_class r = ClaimDone \<and> \<not> wrote then []
      else concat (map (\<lambda>p. map (\<lambda>pred. (ri, p, p + length pred))
                              (filter (\<lambda>pred. phraseAt (se_words s) p pred \<and> claim_admits r s p (length pred)) (cr_predicates r)))
             (let ps = [0..<length (se_words s)] in
              if cr_class r = ClaimDone then takeWhile (\<lambda>p. se_clauses s ! p = 0) ps else ps)))"

definition claim_accept :: "sentence \<Rightarrow> bool \<Rightarrow> claim_span list" where
  "claim_accept s wrote = concat (map (row_spans s wrote) [0..<length claimLexicon])"

definition claim_read :: "unicode \<Rightarrow> string \<Rightarrow> bool \<Rightarrow> sentence" where
  "claim_read u t wrote =
     (let cws = claim_words u t; ws = map cw_word cws; cs = map cw_clause cws; ms = map cw_mark cws;
          s = \<lparr>se_text = t, se_words = ws, se_clauses = cs, se_negated = negations False 0 (zip ws cs), se_marks = ms,
               se_loud = list_all (\<lambda>m. \<not> mk_Lower m) ms, se_covered = replicate (length ws) False, se_spans = [],
               se_disc = 0\<rparr> in
      if skipped t ws then s
      else (let sps = claim_accept s wrote in
            s\<lparr>se_spans := sps,
              se_covered := map (\<lambda>k. list_ex (\<lambda>(_, from, to). from \<le> k \<and> k < to) sps) [0..<length ws]\<rparr>))"

definition claim_disclosed :: "string list \<Rightarrow> bool list \<Rightarrow> bool" where
  "claim_disclosed ws covered =
     list_ex (\<lambda>k. list_ex (\<lambda>d.
        (if length d = 1 then HasPrefix (ws ! k) (hd d) else phraseAt ws k d) \<and>
        True \<notin> set (take (length d) (drop k covered))) claimDisclosures) [0..<length ws]"

definition sentence_disclosed :: "sentence \<Rightarrow> bool \<times> sentence" where
  "sentence_disclosed s =
     (if se_disc s = 0 then
        (if claim_disclosed (se_words s) (se_covered s) then (True, s\<lparr>se_disc := 2\<rparr>) else (False, s\<lparr>se_disc := 1\<rparr>))
      else (se_disc s = 2, s))"

definition claim_discloses :: "unicode \<Rightarrow> string list \<Rightarrow> bool \<Rightarrow> bool" where
  "claim_discloses u texts wrote = list_ex (\<lambda>t. fst (sentence_disclosed (claim_read u t wrote))) texts"

section \<open>The gates of a class\<close>

definition lowerAlnum :: "char \<Rightarrow> bool" where
  "lowerAlnum c \<longleftrightarrow> CHR ''a'' \<le> c \<and> c \<le> CHR ''z'' \<or> CHR ''0'' \<le> c \<and> c \<le> CHR ''9''"

definition idForm :: "string \<Rightarrow> string \<Rightarrow> bool" where
  "idForm s extra \<longleftrightarrow>
     s \<noteq> [] \<and> length s \<le> 64 \<and> lowerAlnum (hd s) \<and> list_all (\<lambda>c. lowerAlnum c \<or> c \<in> set extra) (tl s)"

definition SlotID_Valid :: "string \<Rightarrow> bool" where
  "SlotID_Valid s = idForm s ''._:@-''"

definition MaxPaths :: nat where
  "MaxPaths = 5"

definition owesNothing :: "gate_state \<Rightarrow> bool" where
  "owesNothing g \<longleftrightarrow>
     gs_State g = Absent \<and> gs_LastRun g = None \<and> gs_WritesSinceGreen g = 0 \<and> gs_UnknownTarget g = 0"

definition answers :: "claimRule \<Rightarrow> gate_state \<Rightarrow> bool" where
  "answers r g \<longleftrightarrow>
     \<not> (\<not> gs_Required g \<or> gs_offTurn g \<or> cr_class r \<noteq> ClaimDone \<and> gs_Kind g \<noteq> cr_kind r \<or>
        cr_class r = ClaimDone \<and> owesNothing g)"

definition mapGates :: "claimRule \<Rightarrow> gate_state list \<Rightarrow> verdict \<times> string list" where
  "mapGates r gates =
     (let gs = filter (answers r) gates in
      (VerdictOf (map gs_State gs), take MaxPaths (sort (filter SlotID_Valid (map gs_Gate gs)))))"

section \<open>The comparison\<close>

record candidate =
  cd_pos :: nat
  cd_sentence :: nat
  cd_rule :: nat
  cd_strict :: bool
  cd_verdict :: verdict
  cd_gates :: "string list"

text \<open>What the pass over a sentence's spans carries: the two sentences, the classes read, what was found.\<close>

record comparing =
  co_cur :: sentence
  co_next :: "sentence option"
  co_maps :: "(verdict \<times> string list) option list"
  co_found :: "candidate list"

definition claim_strict :: "bool \<Rightarrow> comparing \<Rightarrow> bool \<times> comparing" where
  "claim_strict lost st =
     (if lost then (False, st)
      else (case sentence_disclosed (co_cur st) of (d, cur) \<Rightarrow>
        if d then (False, st\<lparr>co_cur := cur\<rparr>)
        else (case co_next st of
                None \<Rightarrow> (True, st\<lparr>co_cur := cur\<rparr>)
              | Some n \<Rightarrow>
                  (case sentence_disclosed n of (d', n') \<Rightarrow> (\<not> d', st\<lparr>co_cur := cur, co_next := Some n'\<rparr>)))))"

definition compare_span :: "gate_state list \<Rightarrow> bool \<Rightarrow> nat \<Rightarrow> nat \<Rightarrow> comparing \<Rightarrow> comparing" where
  "compare_span gates lost i ri st =
     (let m = (case co_maps st ! ri of None \<Rightarrow> mapGates (claimLexicon ! ri) gates | Some m \<Rightarrow> m);
          st = st\<lparr>co_maps := (co_maps st)[ri := Some m]\<rparr> in
      case claim_strict lost st of (strict, st') \<Rightarrow>
        st'\<lparr>co_found := co_found st' @
             [\<lparr>cd_pos = length (co_found st'), cd_sentence = i, cd_rule = ri, cd_strict = strict,
               cd_verdict = fst m, cd_gates = snd m\<rparr>]\<rparr>)"

text \<open>One verdict per sentence and class: a span of the row before it adds none.\<close>

fun compare_spans :: "gate_state list \<Rightarrow> bool \<Rightarrow> nat \<Rightarrow> nat option \<Rightarrow> claim_span list \<Rightarrow> comparing \<Rightarrow> comparing" where
  "compare_spans gates lost i prior [] st = st"
| "compare_spans gates lost i prior ((ri, x) # sps) st =
     compare_spans gates lost i (Some ri) sps (if prior = Some ri then st else compare_span gates lost i ri st)"

fun compare_from :: "unicode \<Rightarrow> gate_state list \<Rightarrow> bool \<Rightarrow> bool \<Rightarrow> nat \<Rightarrow> comparing \<Rightarrow> string list \<Rightarrow> candidate list" where
  "compare_from u gates wrote lost i st [] =
     co_found (compare_spans gates lost i None (se_spans (co_cur st)) (st\<lparr>co_next := None\<rparr>))"
| "compare_from u gates wrote lost i st (t # ts) =
     (let st' = compare_spans gates lost i None (se_spans (co_cur st)) (st\<lparr>co_next := Some (claim_read u t wrote)\<rparr>) in
      case co_next st' of None \<Rightarrow> [] | Some n \<Rightarrow> compare_from u gates wrote lost (i + 1) (st'\<lparr>co_cur := n\<rparr>) ts)"

definition claim_compare :: "unicode \<Rightarrow> string list \<Rightarrow> gate_state list \<Rightarrow> bool \<Rightarrow> bool \<Rightarrow> candidate list" where
  "claim_compare u texts gates wrote lost =
     (case texts of
        [] \<Rightarrow> []
      | t # ts \<Rightarrow>
          compare_from u gates wrote lost 0
            \<lparr>co_cur = claim_read u t wrote, co_next = None, co_maps = replicate (length claimLexicon) None, co_found = []\<rparr> ts)"

section \<open>The cut and the scan\<close>

definition MaxClaims :: nat where
  "MaxClaims = 64"

definition verdictRank :: "verdict \<Rightarrow> int" where
  "verdictRank v = (case v of NoGateKnown \<Rightarrow> int (length Order) | StateVerdict s \<Rightarrow> Rank s)"

definition looseRank :: "bool \<Rightarrow> nat" where
  "looseRank strict = (if strict then 0 else 1)"

definition candidate_rank :: "candidate \<Rightarrow> int \<times> nat \<times> nat" where
  "candidate_rank c = (verdictRank (cd_verdict c), looseRank (cd_strict c), cd_pos c)"

definition claim_keep :: "candidate list \<Rightarrow> candidate list" where
  "claim_keep found =
     (if length found \<le> MaxClaims then found
      else sort_key cd_pos (take MaxClaims (sort_key candidate_rank found)))"

record claim_verdict =
  cv_Source :: string
  cv_Class :: claim_class
  cv_Strict :: bool
  cv_Verdict :: verdict
  cv_Gates :: "string list"
  cv_QuoteHMAC :: string

record claim_scan =
  sc_Claims :: "claim_verdict list"
  sc_LastIsQuestion :: bool
  sc_Cut :: bool
  sc_ClaimsOmitted :: nat
  sc_Disclosed :: bool

definition QuoteHMACPrefix :: string where
  "QuoteHMACPrefix = ''hmac-sha256:''"

definition claim_quote :: "(string \<Rightarrow> string \<Rightarrow> string) \<Rightarrow> string \<Rightarrow> string \<Rightarrow> string" where
  "claim_quote mac key t = QuoteHMACPrefix @ mac key t"

definition claim_texts :: "unicode \<Rightarrow> string \<Rightarrow> string \<Rightarrow> string list \<Rightarrow> string list" where
  "claim_texts u head tail delivered =
     sentences u (stripWindow u (sanitize u (fst (capWindow head))) delivered) @
     sentences u (stripWindow u (sanitize u (fst (capWindow tail))) delivered)"

definition Claims :: "unicode \<Rightarrow> (string \<Rightarrow> string \<Rightarrow> string) \<Rightarrow> string \<Rightarrow> string \<Rightarrow> string \<Rightarrow> gate_state list \<Rightarrow> bool \<Rightarrow> string \<Rightarrow>
    string list \<Rightarrow> claim_scan" where
  "Claims u mac head tail key gates wrote source delivered =
     (let texts = claim_texts u head tail delivered;
          lost = (tail \<noteq> [] \<or> snd (capWindow head) \<or> snd (capWindow tail));
          found = claim_compare u texts gates wrote lost;
          kept = claim_keep found in
      \<lparr>sc_Claims = map (\<lambda>c. \<lparr>cv_Source = source, cv_Class = cr_class (claimLexicon ! cd_rule c), cv_Strict = cd_strict c,
           cv_Verdict = cd_verdict c, cv_Gates = cd_gates c, cv_QuoteHMAC = claim_quote mac key (texts ! cd_sentence c)\<rparr>) kept,
       sc_LastIsQuestion = (texts \<noteq> [] \<and> HasSuffix (last texts) ''?''), sc_Cut = lost,
       sc_ClaimsOmitted = length found - length kept, sc_Disclosed = claim_discloses u texts wrote\<rparr>)"

definition WroteRelevant :: "run option \<Rightarrow> int \<Rightarrow> bool" where
  "WroteRelevant run at =
     (case run of
        None \<Rightarrow> False
      | Some r \<Rightarrow>
          list_ex (\<lambda>d. d_Seq d \<le> at \<and> list_ex (\<lambda>w. w_Path w \<noteq> None \<and> Relevant (w_Class w)) (fst (appendWrites d)))
            (r_Declarations r))"

section \<open>The reference reading\<close>

text \<open>
  What a sentence discloses, the classes it claims, and a message's claims: for each sentence in turn
  its classes in the lexicon's order, strict where no text was lost and neither the sentence nor the
  next one discloses anything.
\<close>

definition discloses_text :: "unicode \<Rightarrow> bool \<Rightarrow> string \<Rightarrow> bool" where
  "discloses_text u wrote t =
     claim_disclosed (se_words (claim_read u t wrote)) (se_covered (claim_read u t wrote))"

definition claimed_classes :: "unicode \<Rightarrow> bool \<Rightarrow> string \<Rightarrow> nat list" where
  "claimed_classes u wrote t =
     filter (\<lambda>ri. list_ex (\<lambda>sp. fst sp = ri) (se_spans (claim_read u t wrote))) [0..<length claimLexicon]"

fun message_claims :: "unicode \<Rightarrow> bool \<Rightarrow> bool \<Rightarrow> nat \<Rightarrow> string list \<Rightarrow> (nat \<times> nat \<times> bool) list" where
  "message_claims u wrote lost i [] = []"
| "message_claims u wrote lost i (t # ts) =
     map (\<lambda>ri. (i, ri, \<not> lost \<and> \<not> discloses_text u wrote t \<and>
                        (case ts of [] \<Rightarrow> True | n # _ \<Rightarrow> \<not> discloses_text u wrote n)))
       (claimed_classes u wrote t) @
     message_claims u wrote lost (i + 1) ts"

definition candidate_of :: "gate_state list \<Rightarrow> nat \<times> nat \<times> nat \<times> bool \<Rightarrow> candidate" where
  "candidate_of gates c =
     (case c of (n, i, ri, strict) \<Rightarrow>
        \<lparr>cd_pos = n, cd_sentence = i, cd_rule = ri, cd_strict = strict,
         cd_verdict = fst (mapGates (claimLexicon ! ri) gates), cd_gates = snd (mapGates (claimLexicon ! ri) gates)\<rparr>)"

section \<open>The memos\<close>

definition disc_of :: "sentence \<Rightarrow> bool" where
  "disc_of s = claim_disclosed (se_words s) (se_covered s)"

definition memo_of :: "sentence \<Rightarrow> sentence \<Rightarrow> bool" where
  "memo_of s m \<longleftrightarrow> m \<in> {s\<lparr>se_disc := 0\<rparr>, s\<lparr>se_disc := if disc_of s then 2 else 1\<rparr>}"

lemma memo_fresh: "se_disc s = 0 \<Longrightarrow> memo_of s s"
  by (simp add: memo_of_def)

lemma memo_spans: "memo_of s m \<Longrightarrow> se_spans m = se_spans s"
  by (auto simp: memo_of_def)

lemma memo_disclosed: "memo_of s m \<Longrightarrow> sentence_disclosed m = (disc_of s, s\<lparr>se_disc := if disc_of s then 2 else 1\<rparr>)"
  by (auto simp: memo_of_def sentence_disclosed_def disc_of_def)

lemma memo_read: "disc_of s \<Longrightarrow> memo_of s (s\<lparr>se_disc := 2\<rparr>)" "\<not> disc_of s \<Longrightarrow> memo_of s (s\<lparr>se_disc := Suc 0\<rparr>)"
  by (simp_all add: memo_of_def)

lemma read_fresh: "se_disc (claim_read u t wrote) = 0"
  by (simp add: claim_read_def Let_def)

lemma read_disc: "disc_of (claim_read u t wrote) = discloses_text u wrote t"
  by (simp add: disc_of_def discloses_text_def)

definition memos :: "gate_state list \<Rightarrow> sentence \<Rightarrow> sentence option \<Rightarrow> comparing \<Rightarrow> bool" where
  "memos gates cur nxt st \<longleftrightarrow>
     memo_of cur (co_cur st) \<and> rel_option memo_of nxt (co_next st) \<and> length (co_maps st) = length claimLexicon \<and>
     (\<forall>ri < length claimLexicon. co_maps st ! ri \<in> {None, Some (mapGates (claimLexicon ! ri) gates)})"

definition strict_of :: "bool \<Rightarrow> sentence \<Rightarrow> sentence option \<Rightarrow> bool" where
  "strict_of lost cur nxt \<longleftrightarrow> \<not> lost \<and> \<not> disc_of cur \<and> (case nxt of None \<Rightarrow> True | Some n \<Rightarrow> \<not> disc_of n)"

lemma claim_strict_memos:
  assumes "memos gates cur nxt st" "claim_strict lost st = (b, st')"
  shows "b = strict_of lost cur nxt" "memos gates cur nxt st'" "co_found st' = co_found st"
  using assms memo_read
  by (auto simp: memos_def claim_strict_def strict_of_def memo_disclosed option_rel_Some1 option_rel_Some2
      split: if_splits option.splits prod.splits)

lemma compare_span_memos:
  assumes "memos gates cur nxt st" "ri < length claimLexicon"
  shows "memos gates cur nxt (compare_span gates lost i ri st)"
    "co_found (compare_span gates lost i ri st) =
       co_found st @ [candidate_of gates (length (co_found st), i, ri, strict_of lost cur nxt)]"
proof -
  define m where "m = (case co_maps st ! ri of None \<Rightarrow> mapGates (claimLexicon ! ri) gates | Some m \<Rightarrow> m)"
  have m: "m = mapGates (claimLexicon ! ri) gates" using assms by (auto simp: m_def memos_def)
  define st1 where "st1 = st\<lparr>co_maps := (co_maps st)[ri := Some m]\<rparr>"
  have inv: "memos gates cur nxt st1" using assms by (auto simp: st1_def memos_def m nth_list_update)
  obtain b st2 where strict: "claim_strict lost st1 = (b, st2)" by (cases "claim_strict lost st1")
  note facts = claim_strict_memos [OF inv strict]
  have run: "compare_span gates lost i ri st =
      st2\<lparr>co_found := co_found st2 @ [candidate_of gates (length (co_found st2), i, ri, b)]\<rparr>"
    unfolding compare_span_def Let_def m_def [symmetric] st1_def [symmetric] strict by (simp add: candidate_of_def m)
  show "memos gates cur nxt (compare_span gates lost i ri st)" using facts(2) by (simp add: run memos_def)
  show "co_found (compare_span gates lost i ri st) =
      co_found st @ [candidate_of gates (length (co_found st), i, ri, strict_of lost cur nxt)]"
    using facts(1,3) by (simp add: run st1_def)
qed

text \<open>The rows of a list of spans, each run of one row once.\<close>

fun new_rows :: "nat option \<Rightarrow> nat list \<Rightarrow> nat list" where
  "new_rows prior [] = []"
| "new_rows prior (r # rs) = (if prior = Some r then new_rows (Some r) rs else r # new_rows (Some r) rs)"

definition numbered :: "gate_state list \<Rightarrow> nat \<Rightarrow> (nat \<times> nat \<times> bool) list \<Rightarrow> candidate list" where
  "numbered gates n cs = map (candidate_of gates) (enumerate n cs)"

lemma numbered_Cons: "numbered gates n (c # cs) = candidate_of gates (n, c) # numbered gates (n + 1) cs"
  by (simp add: numbered_def)

lemma numbered_append: "numbered gates n (xs @ ys) = numbered gates n xs @ numbered gates (n + length xs) ys"
  by (induction xs arbitrary: n) (simp_all add: numbered_Cons, simp add: numbered_def)

lemma compare_spans_memos:
  assumes "memos gates cur nxt st" "\<forall>sp \<in> set sps. fst sp < length claimLexicon"
  shows "memos gates cur nxt (compare_spans gates lost i prior sps st) \<and>
    co_found (compare_spans gates lost i prior sps st) =
      co_found st @ numbered gates (length (co_found st))
        (map (\<lambda>ri. (i, ri, strict_of lost cur nxt)) (new_rows prior (map fst sps)))"
  using assms
proof (induction sps arbitrary: prior st)
  case Nil
  then show ?case by (simp add: numbered_def)
next
  case (Cons sp sps)
  obtain ri x where sp: "sp = (ri, x)" by (cases sp)
  then have ri: "ri < length claimLexicon" and rest: "\<forall>sp \<in> set sps. fst sp < length claimLexicon" using Cons.prems by auto
  note one = compare_span_memos [OF Cons.prems(1) ri, of lost i]
  show ?case
  proof (cases "prior = Some ri")
    case True
    then show ?thesis using Cons.IH [OF Cons.prems(1) rest, of "Some ri"] by (simp add: sp)
  next
    case False
    then show ?thesis using Cons.IH [OF one(1) rest, of "Some ri"] one(2) by (simp add: sp numbered_Cons)
  qed
qed

section \<open>The rows of a sentence\<close>

lemma row_spans_row: "sp \<in> set (row_spans s wrote ri) \<Longrightarrow> fst sp = ri"
  by (auto simp: row_spans_def Let_def split: if_splits)

lemma row_spans_rows: "map fst (row_spans s wrote ri) = replicate (length (row_spans s wrote ri)) ri"
  by (rule replicate_eqI) (auto simp: row_spans_row)

lemma new_rows_replicate:
  "new_rows prior (replicate n r @ rs) =
     (if n = 0 then new_rows prior rs else if prior = Some r then new_rows (Some r) rs else r # new_rows (Some r) rs)"
proof -
  have "new_rows (Some r) (replicate n r @ rs) = new_rows (Some r) rs" for n by (induction n) simp_all
  then show ?thesis by (cases n) simp_all
qed

lemma new_rows_blocks:
  assumes "distinct rs" "\<forall>r \<in> set rs. prior \<noteq> Some r"
  shows "new_rows prior (concat (map (\<lambda>r. replicate (n r) r) rs)) = filter (\<lambda>r. n r > 0) rs"
  using assms
proof (induction rs arbitrary: prior)
  case (Cons r rs)
  have "new_rows (Some r) (concat (map (\<lambda>r. replicate (n r) r) rs)) = filter (\<lambda>r. n r > 0) rs"
    by (rule Cons.IH) (use Cons.prems in auto)
  then show ?case using Cons.IH [of prior] Cons.prems by (auto simp: new_rows_replicate)
qed simp

lemma row_spans_ex: "list_ex (\<lambda>sp. fst sp = ri) (row_spans s wrote r) \<longleftrightarrow> r = ri \<and> row_spans s wrote ri \<noteq> []"
proof
  assume "list_ex (\<lambda>sp. fst sp = ri) (row_spans s wrote r)"
  then obtain sp where "sp \<in> set (row_spans s wrote r)" "fst sp = ri" by (auto simp: list_ex_iff)
  then show "r = ri \<and> row_spans s wrote ri \<noteq> []" using row_spans_row [of sp s wrote r] by auto
next
  assume ne: "r = ri \<and> row_spans s wrote ri \<noteq> []"
  then have "hd (row_spans s wrote r) \<in> set (row_spans s wrote r)" by simp
  then show "list_ex (\<lambda>sp. fst sp = ri) (row_spans s wrote r)"
    using row_spans_row [of "hd (row_spans s wrote r)" s wrote r] ne unfolding list_ex_iff by blast
qed

lemma list_ex_concat_map: "list_ex P (concat (map f xs)) \<longleftrightarrow> list_ex (\<lambda>x. list_ex P (f x)) xs"
  by (induction xs) simp_all

lemma accept_ex:
  "ri < length claimLexicon \<Longrightarrow> list_ex (\<lambda>sp. fst sp = ri) (claim_accept s wrote) \<longleftrightarrow> row_spans s wrote ri \<noteq> []"
  unfolding claim_accept_def list_ex_concat_map row_spans_ex by (auto simp: list_ex_iff)

lemma accept_rows:
  "map fst (claim_accept s wrote) =
     concat (map (\<lambda>r. replicate (length (row_spans s wrote r)) r) [0..<length claimLexicon])"
  by (simp add: claim_accept_def map_concat row_spans_rows comp_def)

lemma accept_new_rows:
  "new_rows None (map fst (claim_accept s wrote)) =
     filter (\<lambda>ri. list_ex (\<lambda>sp. fst sp = ri) (claim_accept s wrote)) [0..<length claimLexicon]"
proof -
  have "filter (\<lambda>r. length (row_spans s wrote r) > 0) [0..<length claimLexicon] =
      filter (\<lambda>ri. list_ex (\<lambda>sp. fst sp = ri) (claim_accept s wrote)) [0..<length claimLexicon]"
    by (rule filter_cong [OF refl]) (simp add: accept_ex)
  then show ?thesis unfolding accept_rows by (subst new_rows_blocks) simp_all
qed

lemma claim_read_spans: "se_spans (claim_read u t wrote) = [] \<or> (\<exists>s. se_spans (claim_read u t wrote) = claim_accept s wrote)"
  unfolding claim_read_def Let_def by (simp only: split: if_splits) auto

lemma claim_read_rows:
  "new_rows None (map fst (se_spans (claim_read u t wrote))) = claimed_classes u wrote t"
  "\<forall>sp \<in> set (se_spans (claim_read u t wrote)). fst sp < length claimLexicon"
proof -
  have "new_rows None (map fst sps) = filter (\<lambda>ri. list_ex (\<lambda>sp. fst sp = ri) sps) [0..<length claimLexicon] \<and>
      (\<forall>sp \<in> set sps. fst sp < length claimLexicon)"
    if "sps = [] \<or> (\<exists>s. sps = claim_accept s wrote)" for sps
    using that
  proof
    assume "\<exists>s. sps = claim_accept s wrote"
    then obtain s where s: "sps = claim_accept s wrote" by blast
    have "fst sp < length claimLexicon" if sp: "sp \<in> set sps" for sp
    proof -
      obtain r where "r < length claimLexicon" "sp \<in> set (row_spans s wrote r)" using sp by (auto simp: s claim_accept_def)
      then show ?thesis using row_spans_row by simp
    qed
    then show ?thesis using accept_new_rows s by simp
  qed simp
  from this [OF claim_read_spans] show
    "new_rows None (map fst (se_spans (claim_read u t wrote))) = claimed_classes u wrote t"
    "\<forall>sp \<in> set (se_spans (claim_read u t wrote)). fst sp < length claimLexicon"
    unfolding claimed_classes_def by blast+
qed

section \<open>The pass over the sentences\<close>

lemma compare_from_claims:
  assumes "memos gates (claim_read u t wrote) None (st\<lparr>co_next := None\<rparr>)"
  shows "compare_from u gates wrote lost i st ts =
    co_found st @ numbered gates (length (co_found st)) (message_claims u wrote lost i (t # ts))"
  using assms
proof (induction ts arbitrary: t i st)
  case Nil
  have "se_spans (co_cur st) = se_spans (claim_read u t wrote)" using Nil memo_spans by (auto simp: memos_def)
  then show ?case
    using compare_spans_memos [OF Nil claim_read_rows(2), of lost i None]
    by (simp add: claim_read_rows(1) strict_of_def read_disc)
next
  case (Cons n ts)
  let ?next = "claim_read u n wrote"
  have inv: "memos gates (claim_read u t wrote) (Some ?next) (st\<lparr>co_next := Some ?next\<rparr>)"
    using Cons.prems by (simp add: memos_def memo_fresh read_fresh)
  define st' where "st' = compare_spans gates lost i None (se_spans (co_cur st)) (st\<lparr>co_next := Some ?next\<rparr>)"
  have "se_spans (co_cur st) = se_spans (claim_read u t wrote)" using Cons.prems memo_spans by (auto simp: memos_def)
  then have st': "memos gates (claim_read u t wrote) (Some ?next) st'"
    "co_found st' = co_found st @ numbered gates (length (co_found st))
       (map (\<lambda>ri. (i, ri, strict_of lost (claim_read u t wrote) (Some ?next))) (claimed_classes u wrote t))"
    using compare_spans_memos [OF inv claim_read_rows(2), of lost i None] by (simp_all add: st'_def claim_read_rows(1))
  then obtain m where m: "co_next st' = Some m" "memo_of ?next m" by (auto simp: memos_def option_rel_Some1)
  have "memos gates ?next None (st'\<lparr>co_cur := m, co_next := None\<rparr>)" using st'(1) m(2) by (simp add: memos_def)
  then have "compare_from u gates wrote lost (i + 1) (st'\<lparr>co_cur := m\<rparr>) ts =
      co_found st' @ numbered gates (length (co_found st')) (message_claims u wrote lost (i + 1) (n # ts))"
    using Cons.IH [of n "st'\<lparr>co_cur := m\<rparr>" "i + 1"] by simp
  then show ?case
    using st'(2) by (simp add: st'_def [symmetric] Let_def m(1) numbered_append strict_of_def read_disc)
       (simp add: numbered_def)
qed

lemma claim_compare_claims:
  "claim_compare u texts gates wrote lost = numbered gates 0 (message_claims u wrote lost 0 texts)"
proof (cases texts)
  case Nil
  then show ?thesis by (simp add: claim_compare_def numbered_def)
next
  case (Cons t ts)
  show ?thesis
    unfolding claim_compare_def Cons list.case
    by (subst compare_from_claims [of gates u t]) (simp_all add: memos_def memo_fresh read_fresh)
qed

section \<open>What is kept\<close>

lemma candidate_of_pos: "cd_pos (candidate_of gates c) = fst c"
  by (simp add: candidate_of_def split: prod.split)

lemma numbered_pos: "map cd_pos (numbered gates n cs) = [n..<n + length cs]" "length (numbered gates n cs) = length cs"
proof -
  have "map cd_pos (numbered gates n cs) = map fst (enumerate n cs)" by (simp add: numbered_def comp_def candidate_of_pos)
  then show "map cd_pos (numbered gates n cs) = [n..<n + length cs]" by simp
qed (simp add: numbered_def)

lemma numbered_member:
  assumes "c \<in> set (numbered gates n cs)"
  shows "\<exists>k. \<exists>m \<in> set cs. c = candidate_of gates (k, m)"
proof -
  obtain k m where "(k, m) \<in> set (enumerate n cs)" "c = candidate_of gates (k, m)" using assms by (auto simp: numbered_def)
  moreover from this have "m \<in> set cs" by (auto simp: in_set_enumerate_eq)
  ultimately show ?thesis by blast
qed

lemma same_positions:
  assumes "set xs = set ys" "distinct (map cd_pos xs)" "distinct (map cd_pos ys)"
    "sorted (map cd_pos xs)" "sorted (map cd_pos ys)"
  shows "xs = ys"
proof (rule map_sorted_distinct_set_unique [of cd_pos])
  show "inj_on cd_pos (set xs \<union> set ys)" using assms(1,2) by (simp add: distinct_map)
qed (use assms in \<open>simp_all add: distinct_map\<close>)

lemma kept_subset: "set (claim_keep found) \<subseteq> set found"
  using set_take_subset [of MaxClaims "sort_key candidate_rank found"] by (auto simp: claim_keep_def)

lemma keep_length: "length (claim_keep found) = min MaxClaims (length found)"
  by (simp add: claim_keep_def min_def)

lemma keep_order:
  assumes "distinct (map cd_pos found)" "sorted (map cd_pos found)"
  shows "filter (\<lambda>c. c \<in> set (claim_keep found)) found = claim_keep found"
proof (rule same_positions)
  show "set (filter (\<lambda>c. c \<in> set (claim_keep found)) found) = set (claim_keep found)" using kept_subset by auto
  show "distinct (map cd_pos (filter (\<lambda>c. c \<in> set (claim_keep found)) found))" using assms(1) by (rule distinct_map_filter)
  show "sorted (map cd_pos (filter (\<lambda>c. c \<in> set (claim_keep found)) found))" using assms(2) by (rule sorted_filter)
  show "sorted (map cd_pos (claim_keep found))" using assms(2) by (simp add: claim_keep_def)
  have "distinct (claim_keep found)" using assms(1) by (simp add: claim_keep_def distinct_map)
  moreover have "inj_on cd_pos (set (claim_keep found))"
    using assms(1) kept_subset inj_on_subset unfolding distinct_map by blast
  ultimately show "distinct (map cd_pos (claim_keep found))" by (simp add: distinct_map)
qed

lemma keep_worst:
  assumes "c \<in> set (claim_keep found)" "d \<in> set found" "d \<notin> set (claim_keep found)"
  shows "candidate_rank c \<le> candidate_rank d"
proof -
  define sorted_found where "sorted_found = sort_key candidate_rank found"
  have "\<not> length found \<le> MaxClaims" using assms(2,3) by (auto simp: claim_keep_def)
  then have kept: "set (claim_keep found) = set (take MaxClaims sorted_found)" by (simp add: claim_keep_def sorted_found_def)
  have "d \<in> set sorted_found" using assms(2) by (simp add: sorted_found_def)
  then have "d \<in> set (take MaxClaims sorted_found) \<union> set (drop MaxClaims sorted_found)"
    unfolding set_append [symmetric] append_take_drop_id .
  then have d: "d \<in> set (drop MaxClaims sorted_found)" using assms(3) kept by auto
  have "sorted (map candidate_rank (take MaxClaims sorted_found @ drop MaxClaims sorted_found))"
    by (simp add: sorted_found_def del: map_append)
  then have "\<forall>x \<in> set (take MaxClaims sorted_found). \<forall>y \<in> set (drop MaxClaims sorted_found).
      candidate_rank x \<le> candidate_rank y"
    unfolding map_append sorted_append by simp
  then show ?thesis using assms(1) kept d by blast
qed

section \<open>What the scan says\<close>

lemma compare_pos: "map cd_pos (claim_compare u texts gates wrote lost) = [0..<length (claim_compare u texts gates wrote lost)]"
  by (simp add: claim_compare_claims numbered_pos)

text \<open>
  C15: the comparator's claims are those of the reference reading, and neither the buffers it reads two
  sentences in, nor what it remembers of a sentence's disclosures and of a class's gates, show: each
  sentence gives one claim for every class it claims, in the lexicon's order; a claim is strict
  exactly where no text was lost and neither its sentence nor the next discloses anything; its
  verdict and its gates are those of its class alone.
\<close>

theorem claims_read:
  "claim_compare u texts gates wrote lost =
     map (candidate_of gates) (enumerate 0 (message_claims u wrote lost 0 texts))"
  using claim_compare_claims [of u texts gates wrote lost] by (simp add: numbered_def)

lemma compare_member:
  assumes "c \<in> set (claim_compare u texts gates wrote lost)"
  shows "cd_rule c < length claimLexicon" "cd_sentence c < length texts"
    "cd_verdict c = VerdictOf (map gs_State (filter (answers (claimLexicon ! cd_rule c)) gates))"
    "cd_rule c \<in> set (claimed_classes u wrote (texts ! cd_sentence c))"
    "cd_strict c \<Longrightarrow> \<not> lost \<and> \<not> discloses_text u wrote (texts ! cd_sentence c)"
proof -
  have mem: "m \<in> set (message_claims u wrote lost i ts) \<Longrightarrow>
      i \<le> fst m \<and> fst m < i + length ts \<and> fst (snd m) \<in> set (claimed_classes u wrote (ts ! (fst m - i))) \<and>
      (snd (snd m) \<longrightarrow> \<not> lost \<and> \<not> discloses_text u wrote (ts ! (fst m - i)))" for m i ts
  proof (induction ts arbitrary: i)
    case (Cons t ts)
    from Cons.prems consider (own) "fst m = i" "fst (snd m) \<in> set (claimed_classes u wrote t)"
        "snd (snd m) \<longrightarrow> \<not> lost \<and> \<not> discloses_text u wrote t"
      | (later) "m \<in> set (message_claims u wrote lost (i + 1) ts)" by auto
    then show ?case
    proof cases
      case later
      then have "fst m - i = Suc (fst m - (i + 1))" "i + 1 \<le> fst m" using Cons.IH [of "i + 1"] by linarith+
      then show ?thesis using Cons.IH [OF later] by (simp del: message_claims.simps)
    qed simp
  qed simp
  obtain n i ri b where m: "(i, ri, b) \<in> set (message_claims u wrote lost 0 texts)" "c = candidate_of gates (n, i, ri, b)"
    using assms numbered_member unfolding claim_compare_claims by fastforce
  note facts = mem [OF m(1)]
  show "cd_sentence c < length texts" "cd_rule c \<in> set (claimed_classes u wrote (texts ! cd_sentence c))"
    "cd_strict c \<Longrightarrow> \<not> lost \<and> \<not> discloses_text u wrote (texts ! cd_sentence c)"
    "cd_verdict c = VerdictOf (map gs_State (filter (answers (claimLexicon ! cd_rule c)) gates))"
    using facts by (simp_all add: m(2) candidate_of_def mapGates_def Let_def)
  then show "cd_rule c < length claimLexicon" by (simp add: claimed_classes_def)
qed

text \<open>The gate kind a class is about; done is about none in particular.\<close>

fun class_kind :: "claim_class \<Rightarrow> string" where
  "class_kind ClaimTestsPass = ''test''"
| "class_kind ClaimBuildOK = ''build''"
| "class_kind ClaimLintClean = ''lint''"
| "class_kind ClaimTypecheckClean = ''typecheck''"
| "class_kind ClaimScanClean = ''scan''"
| "class_kind ClaimDone = []"

definition asked_of :: "claim_class \<Rightarrow> gate_state list \<Rightarrow> gate_state list" where
  "asked_of c gates =
     filter (\<lambda>g. gs_Required g \<and> \<not> gs_offTurn g \<and>
        (if c = ClaimDone then \<not> owesNothing g else gs_Kind g = class_kind c)) gates"

lemma lexicon_kinds: "list_all (\<lambda>r. cr_kind r = class_kind (cr_class r)) claimLexicon"
  by (simp add: claimLexicon_def)

lemma answers_asked:
  assumes "ri < length claimLexicon"
  shows "filter (answers (claimLexicon ! ri)) gates = asked_of (cr_class (claimLexicon ! ri)) gates"
proof -
  have "cr_kind (claimLexicon ! ri) = class_kind (cr_class (claimLexicon ! ri))"
    using lexicon_kinds assms by (simp add: list_all_length)
  then show ?thesis unfolding asked_of_def by (intro filter_cong) (auto simp: answers_def)
qed

text \<open>
  C14: a claim reads green exactly where the record backs it: the gates it is asked of (for a class
  with a kind, the required gates of that kind; for done, every required gate that owes something;
  at a stop only the turn's) are not none, and each of them is green.
\<close>

theorem claim_green_iff:
  "list_all (\<lambda>v. cv_Verdict v = StateVerdict Green \<longleftrightarrow>
       asked_of (cv_Class v) gates \<noteq> [] \<and> list_all (\<lambda>g. gs_State g = Green) (asked_of (cv_Class v) gates))
     (sc_Claims (Claims u mac head tail key gates wrote source delivered))"
proof -
  have "cd_verdict c = VerdictOf (map gs_State (asked_of (cr_class (claimLexicon ! cd_rule c)) gates))"
    if "c \<in> set (claim_keep (claim_compare u texts gates wrote lost))" for c texts lost
  proof -
    have "c \<in> set (claim_compare u texts gates wrote lost)" using that kept_subset by blast
    from compare_member(3) [OF this] compare_member(1) [OF this] show ?thesis by (simp add: answers_asked)
  qed
  then show ?thesis by (auto simp: Claims_def Let_def list_all_iff VerdictOf_green_iff)
qed


end
