(* ===== verification/ToSteer.thy ===== *)
theory ToSteer
  imports Claims Rules SteerOutput
begin

text \<open>
  A fact of the evaluator as a finding of the router, \<^verbatim>\<open>internal/verify\<close> (finding.go, tosteer.go,
  tosteer_vocab.go, tosteer_card.go): the closed forms of a fact's slots, the checks a fact passes,
  and the kind, level, stop form and key the cards give it. Every refusal is a value; reading a part
  a fact does not have, which panics in Go, is one of them, and is shown never to happen.
\<close>

section \<open>Facts\<close>

definition alnum :: "char \<Rightarrow> bool" where
  "alnum c \<longleftrightarrow> lowerAlnum c \<or> CHR ''A'' \<le> c \<and> c \<le> CHR ''Z''"

definition PathSlot_Valid :: "string \<Rightarrow> bool" where
  "PathSlot_Valid s \<longleftrightarrow>
     s \<noteq> [] \<and> length s \<le> 120 \<and> hd s \<noteq> CHR ''/'' \<and> list_all (\<lambda>c. alnum c \<or> c \<in> set ''._/@+-'') s \<and>
     list_all (\<lambda>el. el \<noteq> [] \<and> el \<noteq> ''.'' \<and> el \<noteq> ''..'' \<and> hd el \<noteq> CHR ''-'') (Split s (CHR ''/''))"

definition Program_Valid :: "string \<Rightarrow> bool" where
  "Program_Valid s = idForm s ''._+-''"

definition Digest_Valid :: "string \<Rightarrow> bool" where
  "Digest_Valid s \<longleftrightarrow> length s = 64 \<and> list_all (\<lambda>c. CHR ''0'' \<le> c \<and> c \<le> CHR ''9'' \<or> CHR ''a'' \<le> c \<and> c \<le> CHR ''f'') s"

definition QuoteHMAC_Valid :: "string \<Rightarrow> bool" where
  "QuoteHMAC_Valid s \<longleftrightarrow> HasPrefix s QuoteHMACPrefix \<and> Digest_Valid (drop (length QuoteHMACPrefix) s)"

definition MarkerID_Valid :: "string \<Rightarrow> bool" where
  "MarkerID_Valid s = idForm s ''._''"

datatype label_class = FalseClaim | Absence | Literal | UserLabelled

record GateFact =
  gf_GateID :: string
  gf_Program :: string
  gf_State :: state
  gf_Reason :: reason
  gf_LastGreenSeq :: "int option"
  gf_LastRunSeq :: "int option"
  gf_ExitCode :: "int option"
  gf_WritesSince :: int
  gf_Paths :: "string list"
  gf_PathsOmitted :: int
  gf_OtherAgents :: int
  gf_PartialRuns :: int
  gf_OutcomeFrom :: string
  gf_RedWrapped :: bool
  gf_GreenWrapped :: bool

record ClaimFact =
  cf_Class :: claim_class
  cf_Source :: string
  cf_Strict :: bool
  cf_Verdict :: verdict
  cf_Gates :: "string list"
  cf_GatesOmitted :: int
  cf_QuoteHMAC :: string
  cf_UnrecoveredFailures :: int

record RuleFact =
  rf_RuleID :: string
  rf_Kind :: string
  rf_Trust :: trust
  rf_Seq :: int
  rf_Program :: "string option"
  rf_Path :: "string option"
  rf_Gate :: "string option"
  rf_Added :: int
  rf_Pragma :: bool
  rf_Rewritten :: bool

record IntegrityFact =
  if_Kind :: IntegrityKind
  if_Count :: int
  if_Paths :: "string list"
  if_PathsOmitted :: int
  if_Seq :: int
  if_Marker :: string
  if_StoreRoot :: bool
  if_StoreNamed :: bool

record VFinding =
  vf_Pattern :: string
  vf_Class :: label_class
  vf_Event :: string
  vf_DedupeKey :: string
  vf_Gate :: "GateFact option"
  vf_Claim :: "ClaimFact option"
  vf_Rule :: "RuleFact option"
  vf_Integrity :: "IntegrityFact option"
  vf_UserOnly :: bool

text \<open>The word of a claim's class.\<close>

fun class_word :: "claim_class \<Rightarrow> string" where
  "class_word ClaimTestsPass = ''tests_pass''"
| "class_word ClaimBuildOK = ''build_ok''"
| "class_word ClaimLintClean = ''lint_clean''"
| "class_word ClaimTypecheckClean = ''typecheck_clean''"
| "class_word ClaimScanClean = ''scan_clean''"
| "class_word ClaimDone = ''done''"

section \<open>The checks of a fact\<close>

datatype mapping_error =
    NotFrozen | NoPriority | NoLevel | NoPointSeq | NotAPoint | AgentCharset | FactsUnfit | RuleFieldUnfit | GateCharset
  | GateBounds | ClaimBounds | ClaimGateCharset | RuleCharset | IntegrityBounds | TrustVocab | SourceVocab | VerdictVocab
  | ReasonOfAnotherState | ContradictsNothing | NotAtStop | VerdictContradictsNothing | NotAtSubtask
  | RuleOfAnotherPattern | NotRaisedHere | TaskRefCharset | NoSubagentID | RefusedByCheck finding_error | NilFact

definition SourceFinalMessage :: string where "SourceFinalMessage = ''final_message''"
definition SourceSubagentStop :: string where "SourceSubagentStop = ''subagent_stop''"
definition SourceHandback :: string where "SourceHandback = ''handback''"

definition PointKinds :: "string list" where
  "PointKinds = [PointStop, PointSubagentStop, PointSubtask, PointCommit, PointPush, PointPR, PointQuery]"

definition raisedByVerify :: "string \<Rightarrow> bool" where
  "raisedByVerify p \<longleftrightarrow>
     p \<in> {''claim-vs-record'', ''subagent-claim'', ''regression-location'', ''stale-evidence'', ''masked-status'',
          ''subtask-gate'', ''platform-rule'', ''ordering-rule'', ''integrity''}"

definition refForm :: "string \<Rightarrow> bool" where
  "refForm s \<longleftrightarrow> s \<noteq> [] \<and> length s \<le> 64 \<and> list_all (\<lambda>c. alnum c \<or> c = CHR ''.'' \<or> c = CHR ''_'' \<or> c = CHR ''-'') s"

definition factsFit :: "VFinding \<Rightarrow> bool" where
  "factsFit f =
     (let g = vf_Gate f \<noteq> None; c = vf_Claim f \<noteq> None; r = vf_Rule f \<noteq> None; i = vf_Integrity f \<noteq> None; p = vf_Pattern f in
      if p = ''claim-vs-record'' \<or> p = ''subagent-claim'' then c \<and> \<not> r \<and> \<not> i
      else if p \<in> {''regression-location'', ''stale-evidence'', ''masked-status'', ''subtask-gate''} then g \<and> \<not> c \<and> \<not> r \<and> \<not> i
      else if p = ''platform-rule'' \<or> p = ''ordering-rule'' then r \<and> \<not> g \<and> \<not> c \<and> \<not> i
      else if p = ''integrity'' then r \<noteq> i \<and> \<not> g \<and> \<not> c
      else False)"

definition ruleShapeFits :: "RuleFact \<Rightarrow> bool" where
  "ruleShapeFits r =
     (if rf_Kind r = ForbidCode \<or> rf_Kind r = ProtectPath then rf_Path r \<noteq> None \<and> rf_Program r = None \<and> rf_Gate r = None
      else if rf_Kind r = ForbidCommand then rf_Path r = None \<and> rf_Gate r = None
      else if rf_Kind r = ''order'' then rf_Path r = None
      else True)"

definition pathsValid :: "string list \<Rightarrow> int \<Rightarrow> bool" where
  "pathsValid paths omitted \<longleftrightarrow> length paths \<le> MaxPaths \<and> omitted \<ge> 0 \<and> list_all PathSlot_Valid paths"

definition gate_ids_valid :: "GateFact \<Rightarrow> mapping_error option" where
  "gate_ids_valid g =
     (if \<not> SlotID_Valid (gf_GateID g) \<or> gf_Program g \<noteq> [] \<and> \<not> Program_Valid (gf_Program g) then Some GateCharset
      else if \<not> pathsValid (gf_Paths g) (gf_PathsOmitted g) \<or> gf_WritesSince g < 0 \<or> gf_OtherAgents g < 0 \<or> gf_PartialRuns g < 0
      then Some GateBounds else None)"

definition claim_ids_valid :: "ClaimFact \<Rightarrow> mapping_error option" where
  "claim_ids_valid c =
     (if length (cf_Gates c) > MaxPaths \<or> cf_GatesOmitted c < 0 \<or> cf_UnrecoveredFailures c < 0 \<or>
         cf_QuoteHMAC c \<noteq> [] \<and> \<not> QuoteHMAC_Valid (cf_QuoteHMAC c) then Some ClaimBounds
      else if \<not> list_all SlotID_Valid (cf_Gates c) then Some ClaimGateCharset else None)"

definition valid_if :: "(string \<Rightarrow> bool) \<Rightarrow> string option \<Rightarrow> bool" where
  "valid_if ok x = (case x of None \<Rightarrow> True | Some s \<Rightarrow> ok s)"

definition rule_ids_valid :: "RuleFact \<Rightarrow> mapping_error option" where
  "rule_ids_valid r =
     (if \<not> SlotID_Valid (rf_RuleID r) \<or> \<not> valid_if PathSlot_Valid (rf_Path r) \<or> \<not> valid_if Program_Valid (rf_Program r) \<or>
         \<not> valid_if SlotID_Valid (rf_Gate r) \<or> rf_Added r < 0 then Some RuleCharset else None)"

definition integrity_ids_valid :: "IntegrityFact \<Rightarrow> mapping_error option" where
  "integrity_ids_valid i =
     (if if_Marker i \<noteq> [] \<and> \<not> MarkerID_Valid (if_Marker i) \<or> if_Count i < 0 \<or> \<not> pathsValid (if_Paths i) (if_PathsOmitted i)
      then Some IntegrityBounds else None)"

definition checked :: "('a \<Rightarrow> mapping_error option) \<Rightarrow> 'a option \<Rightarrow> mapping_error option \<Rightarrow> mapping_error option" where
  "checked check x rest = (case x of None \<Rightarrow> rest | Some y \<Rightarrow> (case check y of None \<Rightarrow> rest | Some e \<Rightarrow> Some e))"

definition idsValid :: "VFinding \<Rightarrow> mapping_error option" where
  "idsValid f =
     checked gate_ids_valid (vf_Gate f) (checked claim_ids_valid (vf_Claim f) (checked rule_ids_valid (vf_Rule f)
       (checked integrity_ids_valid (vf_Integrity f) None)))"

definition sourceFits :: "string \<Rightarrow> string \<Rightarrow> bool" where
  "sourceFits p s = (if p = ''claim-vs-record'' then s = SourceFinalMessage else s = SourceSubagentStop \<or> s = SourceHandback)"

definition subtaskStates :: "state list" where
  "subtaskStates = [Red, MaskedInconclusive, Stale, Absent]"

definition gateFits :: "VFinding \<Rightarrow> GateFact \<Rightarrow> bool" where
  "gateFits f g =
     (if vf_Pattern f = ''subtask-gate'' then gf_State g \<in> set subtaskStates
      else if vf_Pattern f = ''regression-location'' then
        gf_State g = Red \<and> (case (gf_LastGreenSeq g, gf_LastRunSeq g) of (Some a, Some b) \<Rightarrow> a < b | _ \<Rightarrow> False)
      else if vf_Pattern f = ''stale-evidence'' then
        gf_State g = Stale \<and> (case (gf_LastGreenSeq g, gf_LastRunSeq g) of (Some a, Some b) \<Rightarrow> a = b | _ \<Rightarrow> False)
      else if vf_Pattern f = ''masked-status'' then gf_State g = MaskedInconclusive \<and> gf_LastRunSeq g \<noteq> None
      else (case vf_Claim f of None \<Rightarrow> False | Some c \<Rightarrow> StateVerdict (gf_State g) = cf_Verdict c))"

fun reasonState :: "reason \<Rightarrow> state" where
  "reasonState FailedExit = Red" | "reasonState FailedOutput = Red" | "reasonState MaskedWithSuccessLine = Green"
| "reasonState MaskedNoSuccessLine = MaskedInconclusive" | "reasonState MaskedUnattributable = MaskedInconclusive"
| "reasonState EmptyRun = Absent" | "reasonState PartialAfterRed = Red" | "reasonState PartialOnly = Absent"
| "reasonState RedThenWrites = Stale" | "reasonState MaskedThenWrites = Stale" | "reasonState WritesAfterGreen = Stale"
| "reasonState WriteDuringRun = Stale" | "reasonState StaleForeign = Stale" | "reasonState NeverRunAfterWrite = Absent"
| "reasonState BackgroundLaunch = Backgrounded" | "reasonState OrderUnknown = Unknown" | "reasonState OutcomeUnknown = Unknown"
| "reasonState RecordingIncomplete = Unknown" | "reasonState Budget = Unknown" | "reasonState OK = Green"
| "reasonState NoReason = OtherState []"

definition vocabValid :: "VFinding \<Rightarrow> mapping_error option" where
  "vocabValid f =
     checked (\<lambda>r. if rf_Trust r \<notin> {Untrusted, Trusted, Managed} then Some TrustVocab else None) (vf_Rule f)
    (checked (\<lambda>c. if \<not> sourceFits (vf_Pattern f) (cf_Source c) then Some SourceVocab
                  else if \<not> (case cf_Verdict c of NoGateKnown \<Rightarrow> True | StateVerdict s \<Rightarrow> s \<in> set States) then Some VerdictVocab
                  else None) (vf_Claim f)
    (checked (\<lambda>g. if gf_Reason g \<noteq> NoReason \<and> reasonState (gf_Reason g) \<noteq> gf_State g then Some ReasonOfAnotherState
                  else if \<not> gateFits f g then Some ContradictsNothing else None) (vf_Gate f) None))"

definition checkInput :: "VFinding \<Rightarrow> Point \<Rightarrow> string \<Rightarrow> mapping_error option" where
  "checkInput f at agent =
     (if pt_Seq at < 1 then Some NoPointSeq
      else if pt_Kind at = PointQuery \<or> pt_Kind at \<noteq> [] \<and> pt_Kind at \<notin> set PointKinds then Some NotAPoint
      else if agent \<noteq> [] \<and> \<not> refForm agent then Some AgentCharset
      else if \<not> factsFit f then Some FactsUnfit
      else if \<not> (case vf_Rule f of None \<Rightarrow> True | Some r \<Rightarrow> ruleShapeFits r) then Some RuleFieldUnfit
      else (case idsValid f of Some e \<Rightarrow> Some e | None \<Rightarrow> vocabValid f))"

section \<open>Kind, level and key\<close>

fun integrityKinds :: "IntegrityKind \<Rightarrow> string" where
  "integrityKinds TestRemoved = ''test-deleted''" | "integrityKinds SkipAdded = ''skip-added''"
| "integrityKinds AssertionsRemoved = ''assert-drop''" | "integrityKinds SuppressionAdded = ''suppression-added''"
| "integrityKinds GeneratedEdited = ''generated-edited''" | "integrityKinds TestsOnlyThenGreen = ''tests-only-green''"
| "integrityKinds GateWeakened = ''gate-weakened''" | "integrityKinds GateConfigEdited = ''gate-config-edited''"
| "integrityKinds StoreTouched = ''store-touched''"

fun claimKinds :: "verdict \<Rightarrow> string option" where
  "claimKinds (StateVerdict Red) = Some ''red''" | "claimKinds (StateVerdict MaskedInconclusive) = Some ''masked''"
| "claimKinds (StateVerdict Backgrounded) = Some ''backgrounded''" | "claimKinds (StateVerdict Stale) = Some ''stale''"
| "claimKinds (StateVerdict Absent) = Some ''absent''" | "claimKinds _ = None"

definition claim_kind :: "string \<Rightarrow> ClaimFact \<Rightarrow> Point \<Rightarrow> mapping_error + string" where
  "claim_kind p c at =
     (let k = claimKinds (cf_Verdict c) in
      if p = ''claim-vs-record'' \<and> pt_Kind at \<noteq> PointStop then Inl NotAtStop
      else if p = ''claim-vs-record'' \<and> cf_UnrecoveredFailures c > 0 \<and> k \<noteq> Some ''masked'' then Inr ''silent-failure''
      else (case k of
              None \<Rightarrow> Inl VerdictContradictsNothing
            | Some w \<Rightarrow>
                if p = ''subagent-claim'' then Inr []
                else if cf_Class c = ClaimDone \<and> (w = ''stale'' \<or> w = ''absent'') then Inr ''done-unverified''
                else Inr w))"

definition kindFor :: "VFinding \<Rightarrow> Point \<Rightarrow> mapping_error + string" where
  "kindFor f at =
     (let p = vf_Pattern f in
      if p = ''claim-vs-record'' \<or> p = ''subagent-claim'' then
        (case vf_Claim f of None \<Rightarrow> Inl NilFact | Some c \<Rightarrow> claim_kind p c at)
      else if p = ''subtask-gate'' then
        (if pt_Kind at = PointSubtask then Inr []
         else if pt_Kind at \<in> {PointCommit, PointPush, PointPR} then Inr (pt_Kind at) else Inl NotAtSubtask)
      else if p = ''platform-rule'' then
        (case vf_Rule f of
           None \<Rightarrow> Inl NilFact
         | Some r \<Rightarrow>
             if rf_Kind r = ForbidCode \<and> rf_Pragma r then Inr ''pragma''
             else if rf_Kind r = ForbidCode then Inr ''edit''
             else if rf_Kind r = ForbidCommand \<and> \<not> rf_Pragma r then Inr ''command''
             else Inl RuleOfAnotherPattern)
      else if p = ''ordering-rule'' then
        (case vf_Rule f of
           None \<Rightarrow> Inl NilFact
         | Some r \<Rightarrow> if rf_Kind r = ''order'' \<and> \<not> rf_Pragma r then Inr [] else Inl RuleOfAnotherPattern)
      else if p = ''integrity'' then
        (case vf_Rule f of
           None \<Rightarrow> (case vf_Integrity f of None \<Rightarrow> Inl NilFact | Some i \<Rightarrow> Inr (integrityKinds (if_Kind i)))
         | Some r \<Rightarrow> if rf_Kind r = ProtectPath \<and> \<not> rf_Pragma r then Inr ''frozen-path'' else Inl RuleOfAnotherPattern)
      else if p \<in> {''regression-location'', ''stale-evidence'', ''masked-status''} then Inr []
      else Inl RuleOfAnotherPattern)"

definition eventTaskCompleted :: string where "eventTaskCompleted = ''TaskCompleted''"
definition eventSubagentStop :: string where "eventSubagentStop = ''SubagentStop''"

type_synonym ceiling = "nat \<times> string"

definition ceil_nudge :: ceiling where "ceil_nudge = (LevelNudge, StopFormNone)"
definition ceil_flag :: ceiling where "ceil_flag = (LevelFlag, StopFormNone)"

text \<open>The ceiling the card gives a pattern at an event: the first row that matches.\<close>

definition cardCeiling :: "string \<Rightarrow> string \<Rightarrow> string \<Rightarrow> bool \<Rightarrow> ceiling option" where
  "cardCeiling p kind event task =
     (let pre = EventPreToolUse; post = EventPostToolUse in
      if p = ''claim-vs-record'' \<and> event = EventStop then
        (if kind = ''masked'' then Some ceil_flag
         else if kind \<in> {''red'', ''backgrounded'', ''silent-failure''} then Some (LevelStop, ''stop_continue'')
         else Some ceil_nudge)
      else if p = ''subtask-gate'' \<and> event = post then Some ceil_nudge
      else if p = ''subtask-gate'' \<and> kind = [] \<and> task \<and> event = pre then Some (LevelStop, ''deny'')
      else if p = ''subtask-gate'' \<and> kind = [] \<and> task \<and> event = eventTaskCompleted then Some ceil_flag
      else if p = ''regression-location'' \<and> (event = EventPostToolUseFailure \<or> event = post) then Some ceil_nudge
      else if p = ''stale-evidence'' \<and> event = post then Some ceil_nudge
      else if p = ''masked-status'' \<and> event = post then Some ceil_nudge
      else if p = ''platform-rule'' \<and> event = post then Some ceil_nudge
      else if p = ''ordering-rule'' \<and> event = post then Some ceil_nudge
      else if p = ''ordering-rule'' \<and> event = pre then Some (LevelStop, ''ask'')
      else if p = ''integrity'' \<and> (event = post \<or> event = EventPostToolUseFailure \<or> event = EventStop) then Some ceil_flag
      else if p = ''subagent-claim'' \<and> (event = eventSubagentStop \<or> event = post) then Some ceil_flag
      else None)"

text \<open>A fact for the user's eyes alone: an untrusted or rewritten rule, a loose claim, or marked so.\<close>

definition user_only_fact :: "VFinding \<Rightarrow> bool" where
  "user_only_fact f \<longleftrightarrow>
     vf_UserOnly f \<or> (case vf_Claim f of None \<Rightarrow> False | Some c \<Rightarrow> \<not> cf_Strict c) \<or>
     (case vf_Rule f of None \<Rightarrow> False | Some r \<Rightarrow> rf_Trust r \<noteq> Trusted \<and> rf_Trust r \<noteq> Managed \<or> rf_Rewritten r)"

definition ceilingFor :: "VFinding \<Rightarrow> string \<Rightarrow> Point \<Rightarrow> ceiling option" where
  "ceilingFor f kind at =
     (case cardCeiling (vf_Pattern f) kind (vf_Event f) (pt_TaskRef at \<noteq> None) of
        None \<Rightarrow> None
      | Some c \<Rightarrow> Some (if user_only_fact f then ceil_flag else c))"

definition keyFor :: "VFinding \<Rightarrow> string \<Rightarrow> Point \<Rightarrow> mapping_error + string" where
  "keyFor f kind at =
     (let p = vf_Pattern f; gate = (case vf_Gate f of None \<Rightarrow> Inl NilFact | Some g \<Rightarrow> Inr (gf_GateID g)) in
      if p = ''subtask-gate'' then
        (if kind \<noteq> [] then gate
         else (case pt_TaskRef at of
                 None \<Rightarrow> Inr ''todo''
               | Some t \<Rightarrow> if refForm t then Inr (''task:'' @ t) else Inl TaskRefCharset))
      else if p \<in> {''regression-location'', ''stale-evidence'', ''masked-status''} then gate
      else if p \<in> {''platform-rule'', ''ordering-rule'', ''integrity''} then
        (case vf_Rule f of
           None \<Rightarrow> (case vf_Integrity f of None \<Rightarrow> Inl NilFact | Some i \<Rightarrow> Inr (json_int (if_Seq i)))
         | Some r \<Rightarrow>
             if rf_Kind r = ForbidCode \<or> rf_Kind r = ProtectPath then
               (case rf_Path r of None \<Rightarrow> Inl NilFact | Some path \<Rightarrow> Inr (rf_RuleID r @ ''|'' @ path))
             else Inr (rf_RuleID r))
      else (case vf_Claim f of
              None \<Rightarrow> Inl NilFact
            | Some c \<Rightarrow>
                if p = ''subagent-claim'' then
                  (case pt_AgentID at of
                     None \<Rightarrow> Inl NoSubagentID
                   | Some a \<Rightarrow> if refForm a then Inr (a @ ''|'' @ class_word (cf_Class c)) else Inl NoSubagentID)
                else Inr (class_word (cf_Class c))))"

section \<open>The mapping\<close>

definition factSeqs :: "VFinding \<Rightarrow> int list" where
  "factSeqs f =
     (case vf_Gate f of None \<Rightarrow> [] | Some g \<Rightarrow> List.map_filter id [gf_LastRunSeq g, gf_LastGreenSeq g]) @
     (case vf_Rule f of None \<Rightarrow> [] | Some r \<Rightarrow> [rf_Seq r]) @
     (case vf_Integrity f of None \<Rightarrow> [] | Some i \<Rightarrow> [if_Seq i])"

definition evidenceFor :: "VFinding \<Rightarrow> Point \<Rightarrow> int list" where
  "evidenceFor f at =
     remdups_adj (sort (factSeqs f @ (if vf_Claim f \<noteq> None \<and> vf_Gate f = None then [pt_Seq at] else [])))"

definition steer_finding :: "VFinding \<Rightarrow> Point \<Rightarrow> string \<Rightarrow> int \<Rightarrow> string \<Rightarrow> ceiling \<Rightarrow> string \<Rightarrow> Finding" where
  "steer_finding f at agent priority kind c key =
     \<lparr>f_Pattern = vf_Pattern f, f_Kind = kind, f_Key = key, f_Priority = priority, f_MaxLevel = fst c,
      f_StopForm = snd c, f_Message = no_message, f_Record = no_message, f_Evidence = evidenceFor f at,
      f_AfterSeq = pt_Seq at, f_AgentID = agent,
      f_OutcomeFrom = (case vf_Gate f of None \<Rightarrow> [] | Some g \<Rightarrow> gf_OutcomeFrom g)\<rparr>"

definition check_mapped :: "Finding \<Rightarrow> mapping_error + Finding" where
  "check_mapped out = (case Check out of Some e \<Rightarrow> Inl (RefusedByCheck e) | None \<Rightarrow> Inr out)"

definition ToSteer :: "VFinding \<Rightarrow> Point \<Rightarrow> string \<Rightarrow> mapping_error + Finding" where
  "ToSteer f at agent =
     (if vf_Pattern f \<notin> set all_patterns then Inl NotFrozen
      else (case Priority (vf_Pattern f) of
        None \<Rightarrow> Inl NoPriority
      | Some priority \<Rightarrow>
          if \<not> raisedByVerify (vf_Pattern f) then Inl NoLevel
          else (case checkInput f at agent of
            Some e \<Rightarrow> Inl e
          | None \<Rightarrow> (case kindFor f at of
              Inl e \<Rightarrow> Inl e
            | Inr kind \<Rightarrow> (case ceilingFor f kind at of
                None \<Rightarrow> Inl NotRaisedHere
              | Some c \<Rightarrow> (case keyFor f kind at of
                  Inl e \<Rightarrow> Inl e
                | Inr key \<Rightarrow> check_mapped (steer_finding f at agent priority kind c key)))))))"

section \<open>Facts of the mapping\<close>

lemma checkInput_facts:
  "checkInput f at agent = None \<Longrightarrow>
     factsFit f \<and> (case vf_Rule f of None \<Rightarrow> True | Some r \<Rightarrow> ruleShapeFits r) \<and> 1 \<le> pt_Seq at"
  by (auto simp: checkInput_def split: if_splits option.splits)

lemma checked_nil: "(\<And>y. check y \<noteq> Some NilFact) \<Longrightarrow> rest \<noteq> Some NilFact \<Longrightarrow> checked check x rest \<noteq> Some NilFact"
  by (auto simp: checked_def split: option.splits)

lemma checkInput_nil: "checkInput f at agent \<noteq> Some NilFact"
proof -
  have "idsValid f \<noteq> Some NilFact"
    unfolding idsValid_def
    by (intro checked_nil) (simp_all add: gate_ids_valid_def claim_ids_valid_def rule_ids_valid_def integrity_ids_valid_def)
  moreover have "vocabValid f \<noteq> Some NilFact" unfolding vocabValid_def by (intro checked_nil) simp_all
  ultimately show ?thesis by (auto simp: checkInput_def split: if_splits option.splits)
qed

lemma fit_cases:
  assumes "factsFit f"
  obtains (claim) c where "vf_Pattern f = ''claim-vs-record'' \<or> vf_Pattern f = ''subagent-claim''" "vf_Claim f = Some c"
  | (gate) g where "vf_Pattern f = ''regression-location'' \<or> vf_Pattern f = ''stale-evidence'' \<or>
      vf_Pattern f = ''masked-status'' \<or> vf_Pattern f = ''subtask-gate''" "vf_Gate f = Some g"
  | (rule) r where "vf_Pattern f = ''platform-rule'' \<or> vf_Pattern f = ''ordering-rule'' \<or> vf_Pattern f = ''integrity''"
      "vf_Rule f = Some r"
  | (integrity) i where "vf_Pattern f = ''integrity''" "vf_Rule f = None" "vf_Integrity f = Some i"
proof (cases "vf_Pattern f = ''claim-vs-record'' \<or> vf_Pattern f = ''subagent-claim''")
  case True
  then have "vf_Claim f \<noteq> None" using assms by (simp add: factsFit_def)
  then show ?thesis using True claim by blast
next
  case no_claim: False
  show ?thesis
  proof (cases "vf_Pattern f \<in> {''regression-location'', ''stale-evidence'', ''masked-status'', ''subtask-gate''}")
    case True
    then have "vf_Gate f \<noteq> None" using assms no_claim by (simp add: factsFit_def)
    then show ?thesis using True gate by blast
  next
    case no_gate: False
    show ?thesis
    proof (cases "vf_Pattern f = ''platform-rule'' \<or> vf_Pattern f = ''ordering-rule''")
      case True
      then have "vf_Rule f \<noteq> None" using assms no_claim no_gate by (simp add: factsFit_def)
      then show ?thesis using True rule by blast
    next
      case False
      then have "vf_Pattern f = ''integrity''" "(vf_Rule f \<noteq> None) \<noteq> (vf_Integrity f \<noteq> None)"
        using assms no_claim no_gate by (simp_all add: factsFit_def Let_def split: if_splits)
      then show ?thesis using rule integrity by blast
    qed
  qed
qed

lemma claim_kind_nil: "claim_kind p c at \<noteq> Inl NilFact"
  by (simp add: claim_kind_def Let_def split: option.split)

lemma kindFor_nil: "factsFit f \<Longrightarrow> kindFor f at \<noteq> Inl NilFact"
proof (erule fit_cases)
  fix g assume "vf_Pattern f = ''regression-location'' \<or> vf_Pattern f = ''stale-evidence'' \<or>
      vf_Pattern f = ''masked-status'' \<or> vf_Pattern f = ''subtask-gate''"
  then show ?thesis by (elim disjE) (simp_all add: kindFor_def)
next
  fix r assume r: "vf_Rule f = Some r"
    and "vf_Pattern f = ''platform-rule'' \<or> vf_Pattern f = ''ordering-rule'' \<or> vf_Pattern f = ''integrity''"
  from this(2) show ?thesis by (elim disjE) (simp_all add: kindFor_def r)
qed (auto simp: kindFor_def claim_kind_nil)

lemma keyFor_nil:
  assumes "factsFit f" "case vf_Rule f of None \<Rightarrow> True | Some r \<Rightarrow> ruleShapeFits r"
  shows "keyFor f kind at \<noteq> Inl NilFact"
  using assms(1)
proof (cases rule: fit_cases)
  case (claim c)
  then show ?thesis by (elim disjE) (simp_all add: keyFor_def Let_def split: option.split)
next
  case (gate g)
  then show ?thesis by (elim disjE) (simp_all add: keyFor_def Let_def split: option.split)
next
  case (rule r)
  have "rf_Kind r = ForbidCode \<or> rf_Kind r = ProtectPath \<Longrightarrow> rf_Path r \<noteq> None"
    using assms(2) rule(2) by (auto simp: ruleShapeFits_def split: if_splits)
  then show ?thesis using rule by (elim disjE) (auto simp: keyFor_def Let_def split: option.split)
next
  case (integrity i)
  then show ?thesis by (simp add: keyFor_def Let_def)
qed

lemma check_mapped_cases: "check_mapped out = Inr sf \<longleftrightarrow> Check out = None \<and> sf = out" "check_mapped out \<noteq> Inl NilFact"
  by (auto simp: check_mapped_def split: option.split)

lemma ToSteer_cases:
  assumes "ToSteer f at agent = Inr sf"
  obtains priority kind c key where
    "checkInput f at agent = None" "kindFor f at = Inr kind" "ceilingFor f kind at = Some c"
    "Check sf = None" "sf = steer_finding f at agent priority kind c key"
  using assms unfolding ToSteer_def
  by (simp only: check_mapped_cases split: if_splits option.splits sum.splits) blast+

lemma ToSteer_nil: "ToSteer f at agent \<noteq> Inl NilFact"
proof
  assume nil: "ToSteer f at agent = Inl NilFact"
  have facts: "factsFit f" "case vf_Rule f of None \<Rightarrow> True | Some r \<Rightarrow> ruleShapeFits r" if "checkInput f at agent = None"
    using checkInput_facts [OF that] by simp_all
  show False
  proof (cases "checkInput f at agent")
    case None
    then show False
      using nil kindFor_nil [OF facts(1) [OF None]] keyFor_nil [OF facts [OF None]] check_mapped_cases(2)
      by (auto simp: ToSteer_def split: if_splits option.splits sum.splits)
  next
    case (Some e)
    then show False using nil checkInput_nil [of f at agent] by (simp add: ToSteer_def split: if_splits option.splits)
  qed
qed

lemma ToSteer_result:
  assumes "ToSteer f at agent = Inr sf"
  shows "Check sf = None" "f_Pattern sf = vf_Pattern f" "f_AfterSeq sf = pt_Seq at" "f_AgentID sf = agent"
    "f_MaxLevel sf \<noteq> LevelOff" "user_only_fact f \<Longrightarrow> f_MaxLevel sf = LevelFlag"
proof -
  from assms obtain priority kind c key where sf: "ceilingFor f kind at = Some c" "Check sf = None"
      "sf = steer_finding f at agent priority kind c key"
    by (rule ToSteer_cases)
  have "fst c \<noteq> LevelOff" "user_only_fact f \<Longrightarrow> fst c = LevelFlag"
    using sf(1) by (auto simp: ceilingFor_def cardCeiling_def Let_def ceil_flag_def ceil_nudge_def vocab_defs split: option.splits if_splits)
  then show "Check sf = None" "f_Pattern sf = vf_Pattern f" "f_AfterSeq sf = pt_Seq at" "f_AgentID sf = agent"
    "f_MaxLevel sf \<noteq> LevelOff" "user_only_fact f \<Longrightarrow> f_MaxLevel sf = LevelFlag"
    using sf(2) by (simp_all add: sf(3) steer_finding_def)
qed

text \<open>
  C17: a fact that becomes a finding is one the router admits, at the point it was read at, and no
  further than the user where only the user may see it (an untrusted or rewritten rule, a claim that
  is not strict, a fact marked so); and whatever the fact holds, the mapping refuses it rather than
  read a part it does not have.
\<close>

theorem ToSteer_sound:
  "case ToSteer f at agent of
     Inl e \<Rightarrow> e \<noteq> NilFact
   | Inr sf \<Rightarrow>
       Check sf = None \<and> f_Pattern sf = vf_Pattern f \<and> f_AfterSeq sf = pt_Seq at \<and> f_AgentID sf = agent \<and>
       f_MaxLevel sf \<noteq> LevelOff \<and> (if user_only_fact f then f_MaxLevel sf = LevelFlag else True)"
  using ToSteer_nil [of f at agent] ToSteer_result [of f at agent] by (auto split: sum.split)

end
