(* ===== verification/Search.thy ===== *)
theory Search
  imports Cover
begin

text \<open>
  The binary searches of \<^verbatim>\<open>internal/verify\<close> over writes in the order of their seqs (steer.go,
  obligations.go): \<^verbatim>\<open>sort.Search\<close> and \<^verbatim>\<open>slices.BinarySearchFunc\<close>, and the stretches of writes they find.
\<close>

section \<open>The search\<close>

text \<open>\<^verbatim>\<open>sort.Search\<close> over the writes: the first place in \<open>[i, j)\<close> from which on \<open>P\<close> holds.\<close>

function sort_search :: "('a \<Rightarrow> bool) \<Rightarrow> 'a list \<Rightarrow> nat \<Rightarrow> nat \<Rightarrow> nat" where
  "sort_search P xs i j =
     (if i < j then (let h = (i + j) div 2 in if \<not> P (xs ! h) then sort_search P xs (h + 1) j else sort_search P xs i h)
      else i)"
  by pat_completeness auto
termination
  by (relation "measure (\<lambda>(P, xs, i, j). j - i)") auto

declare sort_search.simps [simp del]

definition from_first :: "(wr \<Rightarrow> bool) \<Rightarrow> wr list \<Rightarrow> wr list" where
  "from_first P writes = drop (sort_search P writes 0 (length writes)) writes"

definition counted_write :: "string \<Rightarrow> wr \<Rightarrow> bool" where
  "counted_write root w \<longleftrightarrow> w_Path w \<noteq> None \<and> Relevant (w_Class w) \<and> covers root w"

section \<open>What it finds\<close>

lemma sort_search_split:
  assumes mono: "\<And>a b. a \<le> b \<Longrightarrow> b < length xs \<Longrightarrow> P (xs ! a) \<Longrightarrow> P (xs ! b)"
    and "i \<le> j" "j \<le> length xs" "\<forall>k < i. \<not> P (xs ! k)" "\<forall>k < length xs. j \<le> k \<longrightarrow> P (xs ! k)"
  shows "sort_search P xs i j \<le> j \<and> (\<forall>k < sort_search P xs i j. \<not> P (xs ! k)) \<and>
    (\<forall>k < length xs. sort_search P xs i j \<le> k \<longrightarrow> P (xs ! k))"
  using assms(2-)
proof (induction "j - i" arbitrary: i j rule: less_induct)
  case less
  show ?case
  proof (cases "i < j")
    case False
    then have "sort_search P xs i j = j" using less.prems(1) by (subst sort_search.simps) simp
    then show ?thesis using False less.prems by simp
  next
    case True
    define h where "h = (i + j) div 2"
    have h: "i \<le> h" "h < j" "h < length xs" using True less.prems(2) by (auto simp: h_def)
    have step: "sort_search P xs i j = (if \<not> P (xs ! h) then sort_search P xs (h + 1) j else sort_search P xs i h)"
      using True by (simp add: sort_search.simps [of P xs i j] h_def Let_def)
    show ?thesis
    proof (cases "P (xs ! h)")
      case yes: True
      have upto: "\<forall>k < length xs. h \<le> k \<longrightarrow> P (xs ! k)" using mono yes by blast
      have "sort_search P xs i h \<le> h \<and> (\<forall>k < sort_search P xs i h. \<not> P (xs ! k)) \<and>
          (\<forall>k < length xs. sort_search P xs i h \<le> k \<longrightarrow> P (xs ! k))"
        by (rule less.hyps [OF _ h(1) _ less.prems(3) upto]) (use h in simp_all)
      then show ?thesis using h(2) yes by (simp add: step)
    next
      case no: False
      have below: "\<forall>k < h + 1. \<not> P (xs ! k)" using mono [of _ h] no h(3) by (auto simp: less_Suc_eq_le)
      have "sort_search P xs (h + 1) j \<le> j \<and> (\<forall>k < sort_search P xs (h + 1) j. \<not> P (xs ! k)) \<and>
          (\<forall>k < length xs. sort_search P xs (h + 1) j \<le> k \<longrightarrow> P (xs ! k))"
        by (rule less.hyps [OF _ _ less.prems(2) below less.prems(4)]) (use h in simp_all)
      then show ?thesis using no by (simp add: step)
    qed
  qed
qed

lemma from_first_filter:
  assumes "\<And>a b. a \<le> b \<Longrightarrow> b < length ws' \<Longrightarrow> P (ws' ! a) \<Longrightarrow> P (ws' ! b)"
  shows "from_first P ws' = filter P ws'"
proof -
  define r where "r = sort_search P ws' 0 (length ws')"
  have r: "r \<le> length ws'" "\<forall>k < r. \<not> P (ws' ! k)" "\<forall>k < length ws'. r \<le> k \<longrightarrow> P (ws' ! k)"
    using sort_search_split [of ws' P 0 "length ws'"] assms by (simp_all add: r_def)
  have "filter P (take r ws') = []" using r(1,2) by (auto simp: filter_empty_conv in_set_conv_nth)
  moreover have "filter P (drop r ws') = drop r ws'" using r(3) by (auto simp: filter_id_conv in_set_conv_nth)
  ultimately have "filter P ws' = drop r ws'" by (metis append_take_drop_id append_Nil filter_append)
  then show ?thesis by (simp add: from_first_def r_def)
qed

lemma from_first_after:
  "sorted (map w_Seq writes) \<Longrightarrow> from_first (\<lambda>w. w_Seq w > lo) writes = filter (\<lambda>w. w_Seq w > lo) writes"
  "sorted (map w_Seq writes) \<Longrightarrow> from_first (\<lambda>w. w_Seq w \<ge> lo) writes = filter (\<lambda>w. w_Seq w \<ge> lo) writes"
  by (rule from_first_filter; use sorted_nth_mono [of "map w_Seq writes"] in fastforce)+

lemma takeWhile_below:
  "sorted (map w_Seq writes) \<Longrightarrow> takeWhile (\<lambda>w. w_Seq w < hi) writes = filter (\<lambda>w. w_Seq w < hi) writes"
proof (induction writes)
  case (Cons w writes)
  then show ?case by (cases "w_Seq w < hi") (auto simp: empty_filter_conv)
qed simp

lemma window_between:
  assumes "sorted (map w_Seq writes)"
  shows "takeWhile (\<lambda>w. w_Seq w < hi) (from_first (\<lambda>w. w_Seq w > lo) writes) =
    filter (\<lambda>w. lo < w_Seq w \<and> w_Seq w < hi) writes"
proof -
  have "sorted (map w_Seq (filter (\<lambda>w. w_Seq w > lo) writes))" using assms by (rule sorted_filter)
  then show ?thesis by (simp add: from_first_after [OF assms] takeWhile_below conj_commute)
qed

end
