(* ===== verification/SteerFacts.thy ===== *)
theory SteerFacts
  imports ToSteer Evaluate Search
begin

text \<open>
  What a call's own snapshot raises, \<^verbatim>\<open>internal/verify\<close> (steer.go, steer_masked.go,
  integrity_raise.go): a gate gone red with its writes since the last green, evidence this call left
  behind, a run whose status its line hid, the one-way doors the call opened; each mapped to a finding
  and given its text. Filling a template from a binding is done by reflection and by the slot types:
  that is the argument \<open>rn\<close>, with the time a declaration was recorded at.
\<close>

section \<open>Writes and paths of a gate\<close>

definition programOf :: "gate_run list \<Rightarrow> int \<Rightarrow> string" where
  "programOf runs seq = (case find (\<lambda>r. g_Seq r = seq) runs of None \<Rightarrow> [] | Some r \<Rightarrow> g_Program r)"

text \<open>One distinct path of a fact, named while there is room and its form allows it.\<close>

definition name_path :: "string \<Rightarrow> GateFact \<times> string list \<Rightarrow> GateFact \<times> string list" where
  "name_path p st =
     (case st of (f, seen) \<Rightarrow>
        if p \<in> set seen then (f, seen)
        else if PathSlot_Valid p \<and> length (gf_Paths f) < MaxPaths then (f\<lparr>gf_Paths := gf_Paths f @ [p]\<rparr>, p # seen)
        else (f\<lparr>gf_PathsOmitted := gf_PathsOmitted f + 1\<rparr>, p # seen))"

definition between_step :: "string option \<Rightarrow> string \<Rightarrow> GateFact \<times> string list \<Rightarrow> wr \<Rightarrow> GateFact \<times> string list" where
  "between_step agent root st w =
     (case st of (f, seen) \<Rightarrow>
        if \<not> Relevant (w_Class w) \<or> w_Path w \<noteq> None \<and> \<not> covers root w then st
        else (let f1 = f\<lparr>gf_WritesSince := gf_WritesSince f + 1\<rparr>;
                  f2 = (if w_agent w \<noteq> agent then f1\<lparr>gf_OtherAgents := gf_OtherAgents f1 + 1\<rparr> else f1) in
              case w_Path w of None \<Rightarrow> (f2, seen) | Some p \<Rightarrow> name_path p (f2, seen)))"

definition between :: "GateFact \<Rightarrow> int \<Rightarrow> int \<Rightarrow> wr list \<Rightarrow> string option \<Rightarrow> string \<Rightarrow> GateFact" where
  "between f lo hi writes agent root =
     fst (foldl (between_step agent root) (f, [])
       (takeWhile (\<lambda>w. w_Seq w < hi) (from_first (\<lambda>w. w_Seq w > lo) writes)))"

definition own_step :: "string \<Rightarrow> GateFact \<times> string list \<Rightarrow> wr \<Rightarrow> GateFact \<times> string list" where
  "own_step root st w =
     (case st of (f, seen) \<Rightarrow>
        (case w_Path w of
          None \<Rightarrow> st
        | Some p \<Rightarrow>
            if \<not> Relevant (w_Class w) \<or> \<not> covers root w then st
            else name_path p (f\<lparr>gf_WritesSince := gf_WritesSince f + 1\<rparr>, seen)))"

definition own_writes :: "GateFact \<Rightarrow> wr list \<Rightarrow> int \<Rightarrow> string \<Rightarrow> GateFact" where
  "own_writes f writes dseq root =
     fst (foldl (own_step root) (f, [])
       (takeWhile (\<lambda>w. w_Seq w = dseq) (from_first (\<lambda>w. w_Seq w \<ge> dseq) writes)))"

section \<open>The facts\<close>

definition outcome_word :: "outcomeSource \<Rightarrow> string" where
  "outcome_word s = (case s of SourceOutput \<Rightarrow> OutcomeFromOutputSummary | SourceExit \<Rightarrow> [])"

definition no_gate_fact :: GateFact where
  "no_gate_fact =
     \<lparr>gf_GateID = [], gf_Program = [], gf_State = OtherState [], gf_Reason = NoReason, gf_LastGreenSeq = None,
      gf_LastRunSeq = None, gf_ExitCode = None, gf_WritesSince = 0, gf_Paths = [], gf_PathsOmitted = 0,
      gf_OtherAgents = 0, gf_PartialRuns = 0, gf_OutcomeFrom = [], gf_RedWrapped = False, gf_GreenWrapped = False\<rparr>"

definition gate_fact :: "gate_state \<Rightarrow> GateFact" where
  "gate_fact g =
     no_gate_fact\<lparr>gf_GateID := gs_Gate g, gf_State := gs_State g, gf_Reason := gs_Reason g,
                  gf_PartialRuns := int (gs_PartialRunsSince g)\<rparr>"

definition with_program :: "string \<Rightarrow> GateFact \<Rightarrow> GateFact" where
  "with_program p f = (if Program_Valid p then f\<lparr>gf_Program := p\<rparr> else f)"

definition gate_finding :: "string \<Rightarrow> string \<Rightarrow> string \<Rightarrow> Point \<Rightarrow> GateFact \<Rightarrow> VFinding" where
  "gate_finding p event gate pt gfact =
     \<lparr>vf_Pattern = p, vf_Class = Absence, vf_Event = event,
      vf_DedupeKey = p @ ''|'' @ gate @ ''|'' @ (case pt_PromptID pt of None \<Rightarrow> [] | Some q \<Rightarrow> q),
      vf_Gate = Some gfact, vf_Claim = None, vf_Rule = None, vf_Integrity = None, vf_UserOnly = False\<rparr>"

definition regressedHere :: "gate_state \<Rightarrow> string \<Rightarrow> bool" where
  "regressedHere g toolUseID =
     (case (gs_LastGreen g, gs_LastRun g) of
        (Some gr, Some l) \<Rightarrow>
          gs_State g = Red \<and> rr_ToolUseID l = toolUseID \<and>
          (if gs_Reason g = FailedExit then (case rr_ExitCode l of None \<Rightarrow> False | Some c \<Rightarrow> c \<noteq> 126 \<and> c \<noteq> 127)
           else gs_Reason g = FailedOutput \<and> rr_OutcomeFrom l = SourceOutput)
      | _ \<Rightarrow> False)"

definition regression_fact :: "gate_state \<Rightarrow> runRef \<Rightarrow> runRef \<Rightarrow> gate_run list \<Rightarrow> wr list \<Rightarrow> Point \<Rightarrow> GateFact" where
  "regression_fact g gr l runs writes pt =
     (let red = (rr_Wrapped l = WrapRead);
          gfact = (gate_fact g)\<lparr>gf_LastGreenSeq := Some (rr_Seq gr), gf_LastRunSeq := Some (rr_Seq l),
            gf_OutcomeFrom := outcome_word (rr_OutcomeFrom l), gf_RedWrapped := red,
            gf_GreenWrapped := rr_Wrapped gr = WrapRead,
            gf_ExitCode := (if rr_OutcomeFrom l = SourceExit then rr_ExitCode l else None)\<rparr>;
          p = (case rr_GateOutput l of
                 Some out \<Rightarrow> if red then go_Parser out else programOf runs (rr_Seq l)
               | None \<Rightarrow> programOf runs (rr_Seq l)) in
      between (with_program p gfact) (rr_Seq gr) (rr_Seq l) writes (pt_AgentID pt) (gs_root g))"

definition regressionLocations :: "gate_state list \<Rightarrow> gate_run list \<Rightarrow> wr list \<Rightarrow> Point \<Rightarrow> string \<Rightarrow> string \<Rightarrow> VFinding list" where
  "regressionLocations gates runs writes pt event toolUseID =
     List.map_filter (\<lambda>g.
        if \<not> regressedHere g toolUseID then None
        else (case (gs_LastGreen g, gs_LastRun g) of
                (Some gr, Some l) \<Rightarrow>
                  (let gfact = regression_fact g gr l runs writes pt in
                   if gf_WritesSince gfact = 0 then None
                   else Some (gate_finding ''regression-location'' event (gs_Gate g) pt gfact))
              | _ \<Rightarrow> None)) gates"

definition staleHere :: "gate_state \<Rightarrow> wr list \<Rightarrow> int \<Rightarrow> bool" where
  "staleHere g writes dseq =
     (case gs_LastGreen g of
        None \<Rightarrow> False
      | Some gr \<Rightarrow>
          gs_Required g \<and> gs_State g = Stale \<and> gs_Reason g = WritesAfterGreen \<and>
          (case find (counted_write (gs_root g)) (from_first (\<lambda>w. w_Seq w > rr_Seq gr) writes) of
             None \<Rightarrow> False
           | Some w \<Rightarrow> w_Seq w = dseq))"

definition stale_fact :: "gate_state \<Rightarrow> runRef \<Rightarrow> gate_run list \<Rightarrow> wr list \<Rightarrow> int \<Rightarrow> GateFact" where
  "stale_fact g gr runs writes dseq =
     own_writes
       (with_program (programOf runs (rr_Seq gr))
         ((gate_fact g)\<lparr>gf_LastGreenSeq := Some (rr_Seq gr), gf_LastRunSeq := Some (rr_Seq gr),
            gf_OutcomeFrom := outcome_word (rr_OutcomeFrom gr), gf_GreenWrapped := rr_Wrapped gr = WrapRead\<rparr>))
       writes dseq (gs_root g)"

definition staleEvidence :: "gate_state list \<Rightarrow> gate_run list \<Rightarrow> wr list \<Rightarrow> int \<Rightarrow> bool \<Rightarrow> Point \<Rightarrow> string \<Rightarrow> VFinding list" where
  "staleEvidence gates runs writes dseq declaredOnly pt event =
     (if dseq = 0 then []
      else List.map_filter (\<lambda>g.
        if declaredOnly \<and> gs_Source g = sourceLearned \<or> \<not> staleHere g writes dseq then None
        else (case gs_LastGreen g of
                None \<Rightarrow> None
              | Some gr \<Rightarrow>
                  Some (gate_finding ''stale-evidence'' event (gs_Gate g) pt (stale_fact g gr runs writes dseq)))) gates)"

definition maskedStatus :: "gate_state list \<Rightarrow> gate_run list \<Rightarrow> Point \<Rightarrow> string \<Rightarrow> string \<Rightarrow> VFinding list" where
  "maskedStatus gates runs pt event toolUseID =
     (if event \<noteq> EventPostToolUse then []
      else List.map_filter (\<lambda>g. case gs_LastRun g of
               None \<Rightarrow> None
             | Some l \<Rightarrow>
                 if gs_State g \<noteq> MaskedInconclusive \<or> rr_ToolUseID l \<noteq> toolUseID then None
                 else Some (gate_finding ''masked-status'' event (gs_Gate g) pt
                        (with_program (programOf runs (rr_Seq l)) ((gate_fact g)\<lparr>gf_LastRunSeq := Some (rr_Seq l)\<rparr>)))) gates)"

fun integrity_word :: "IntegrityKind \<Rightarrow> string" where
  "integrity_word TestRemoved = ''test_removed''" | "integrity_word SkipAdded = ''skip_added''"
| "integrity_word AssertionsRemoved = ''assertions_removed''" | "integrity_word SuppressionAdded = ''suppression_added''"
| "integrity_word GeneratedEdited = ''generated_edited''" | "integrity_word TestsOnlyThenGreen = ''tests_only_then_green''"
| "integrity_word GateWeakened = ''gate_weakened''" | "integrity_word GateConfigEdited = ''gate_config_edited''"
| "integrity_word StoreTouched = ''store_touched''"

definition integrity_fact :: "Snapshot \<Rightarrow> IntegrityEntry \<Rightarrow> IntegrityFact" where
  "integrity_fact snap e =
     (let root = (ie_Check e = StoreTouched \<and> \<not> inStore (ie_Path e));
          shown = (if root then (case under (Clean (ie_Path e)) (Clean (slashed (pt_StoreRoot (sn_Point snap)))) of
                                   Some rel \<Rightarrow> rel | None \<Rightarrow> ie_Path e)
                   else ie_Path e);
          ok = PathSlot_Valid shown in
      \<lparr>if_Kind = ie_Check e, if_Count = 1, if_Paths = (if ok then [shown] else []),
       if_PathsOmitted = (if \<not> ok \<and> ie_Path e \<noteq> [] then 1 else 0), if_Seq = ie_Seq e, if_Marker = ie_Marker e,
       if_StoreRoot = root, if_StoreNamed = (root \<and> ie_Path e = [])\<rparr>)"

definition integrityRaises :: "run \<Rightarrow> Snapshot \<Rightarrow> gate_run list \<Rightarrow> string \<Rightarrow> string \<Rightarrow> VFinding list" where
  "integrityRaises r snap runs event toolUseID =
     (let seq = callDeclSeq r toolUseID in
      if seq = 0 then []
      else List.map_filter (\<lambda>e.
        if ie_Seq e \<noteq> seq \<or> \<not> oneWayDoor (ie_Check e) \<or> ie_Check e = TestRemoved \<and> \<not> failedBefore runs seq then None
        else Some \<lparr>vf_Pattern = ''integrity'', vf_Class = UserLabelled, vf_Event = event,
               vf_DedupeKey = ''integrity|'' @ integrity_word (ie_Check e) @ ''|'' @ json_int (ie_Seq e),
               vf_Gate = None, vf_Claim = None, vf_Rule = None, vf_Integrity = Some (integrity_fact snap e), vf_UserOnly = True\<rparr>)
        (iv_Unresolved (sn_Integrity snap)))"

section \<open>Their texts\<close>

text \<open>The bindings of \<^verbatim>\<open>steer/render\<close> these facts fill: gate, minutes, then exit, paths with the unlisted, or a count.\<close>

datatype note_binding =
    RegressionLocationBinding string int int "string list" int
  | RegressionLocationOutputBinding string int "string list" int
  | RegressionLocationWrappedBinding string int "string list" int
  | RegressionLocationWrappedGreenBinding string int int "string list" int
  | RegressionLocationDegradedBinding string int int int
  | RegressionLocationOutputDegradedBinding string int int
  | RegressionLocationWrappedDegradedBinding string int int
  | RegressionLocationWrappedGreenDegradedBinding string int int int
  | StaleEvidenceBinding string int "string list" int
  | StaleEvidenceOutputBinding string int "string list" int
  | StaleEvidenceWrappedBinding string int "string list" int
  | StaleEvidenceDegradedBinding string int int
  | StaleEvidenceOutputDegradedBinding string int int
  | StaleEvidenceWrappedDegradedBinding string int int
  | MaskedStatusBinding string string
  | IntegrityStoreRootNamedBinding
  | IntegrityStoreTouchedBinding string
  | IntegrityStoreRootTouchedBinding string
  | IntegrityStoreTouchedUnnamedBinding
  | IntegrityStoreRootTouchedUnnamedBinding
  | IntegrityTestRemovedBinding
  | IntegrityGateWeakenedBinding
  | IntegrityGateConfigEditedBinding

datatype binding_error = NoPathsLeft | OtherRefusal

record renderer =
  rn_New :: "string \<Rightarrow> note_binding \<Rightarrow> binding_error + Message"
  rn_GateFits :: "string \<Rightarrow> bool"
  rn_RecordedAt :: "decl \<Rightarrow> int"

text \<open>A refused message is the zero one.\<close>

definition made :: "binding_error + Message \<Rightarrow> Message" where
  "made m = (case m of Inl e \<Rightarrow> no_message | Inr x \<Rightarrow> x)"

text \<open>When the declaration of a seq was recorded, the last of them where there are several.\<close>

definition decl_time :: "renderer \<Rightarrow> run \<Rightarrow> int \<Rightarrow> int option" where
  "decl_time rn r seq =
     (case find (\<lambda>d. d_Seq d = seq) (rev (r_Declarations r)) of
        None \<Rightarrow> None
      | Some d \<Rightarrow> if rn_RecordedAt rn d > 0 then Some (rn_RecordedAt rn d) else None)"

definition minutes_between :: "int \<Rightarrow> int \<Rightarrow> int" where
  "minutes_between a b = max 0 (if b < a then - ((a - b) div 60000) else (b - a) div 60000)"

definition unnamedBetween :: "decl list \<Rightarrow> int \<Rightarrow> int \<Rightarrow> nat" where
  "unnamedBetween ds lo hi =
     length (filter (\<lambda>w. w_Path w = None)
       (concat (map (\<lambda>d. fst (appendWrites d)) (filter (\<lambda>d. \<not> (d_Seq d \<le> lo \<or> d_Seq d \<ge> hi)) ds))))"

text \<open>The note with its paths, or the one with a count where no path of the list may be shown.\<close>

definition paths_or_count :: "renderer \<Rightarrow> string \<Rightarrow> string list \<Rightarrow> note_binding \<Rightarrow> note_binding \<Rightarrow> Message" where
  "paths_or_count rn p paths named tally =
     (if paths = [] then made (rn_New rn p tally)
      else (case rn_New rn p named of Inl NoPathsLeft \<Rightarrow> made (rn_New rn p tally) | m \<Rightarrow> made m))"

definition renderRegression :: "renderer \<Rightarrow> run \<Rightarrow> GateFact \<Rightarrow> Message" where
  "renderRegression rn r g =
     (case (gf_LastGreenSeq g, gf_LastRunSeq g) of
        (Some lo, Some hi) \<Rightarrow>
          (let fromOutput = (gf_OutcomeFrom g = OutcomeFromOutputSummary) in
           case (decl_time rn r lo, decl_time rn r hi) of
             (Some t0, Some t1) \<Rightarrow>
               if gf_ExitCode g = None \<and> \<not> fromOutput then no_message
               else
                 (let m = minutes_between t0 t1; n = gf_WritesSince g; paths = gf_Paths g;
                      word = (if gf_Program g = [] then kindOfGateID (gf_GateID g) else gf_Program g);
                      exit = (case gf_ExitCode g of None \<Rightarrow> 0 | Some c \<Rightarrow> c);
                      more = gf_PathsOmitted g + int (unnamedBetween (r_Declarations r) lo hi) in
                  paths_or_count rn ''regression-location'' paths
                    (if fromOutput \<and> gf_RedWrapped g then RegressionLocationWrappedBinding word m paths more
                     else if fromOutput then RegressionLocationOutputBinding word m paths more
                     else if gf_GreenWrapped g then RegressionLocationWrappedGreenBinding word m exit paths more
                     else RegressionLocationBinding word m exit paths more)
                    (if fromOutput \<and> gf_RedWrapped g then RegressionLocationWrappedDegradedBinding word m n
                     else if fromOutput then RegressionLocationOutputDegradedBinding word m n
                     else if gf_GreenWrapped g then RegressionLocationWrappedGreenDegradedBinding word m exit n
                     else RegressionLocationDegradedBinding word m exit n))
           | _ \<Rightarrow> no_message)
      | _ \<Rightarrow> no_message)"

definition factGate :: "renderer \<Rightarrow> GateFact \<Rightarrow> string \<Rightarrow> string" where
  "factGate rn g runner =
     (case CutPrefix (gf_GateID g) ''spec:'' of (i, ok) \<Rightarrow>
        if ok \<and> rn_GateFits rn i then i
        else if runner \<noteq> [] \<and> rn_GateFits rn runner then runner
        else if gf_Program g = [] then kindOfGateID (gf_GateID g)
        else gf_Program g)"

definition renderStale :: "renderer \<Rightarrow> run \<Rightarrow> int \<Rightarrow> GateFact \<Rightarrow> Message" where
  "renderStale rn r dseq g =
     (case (Option.bind (gf_LastGreenSeq g) (decl_time rn r), decl_time rn r dseq) of
        (Some t0, Some t1) \<Rightarrow>
          (let fromOutput = (gf_OutcomeFrom g = OutcomeFromOutputSummary); word = factGate rn g [];
               m = minutes_between t0 t1; n = gf_WritesSince g; paths = gf_Paths g; more = gf_PathsOmitted g in
           paths_or_count rn ''stale-evidence'' paths
             (if fromOutput \<and> gf_GreenWrapped g then StaleEvidenceWrappedBinding word m paths more
              else if fromOutput then StaleEvidenceOutputBinding word m paths more
              else StaleEvidenceBinding word m paths more)
             (if fromOutput \<and> gf_GreenWrapped g then StaleEvidenceWrappedDegradedBinding word m n
              else if fromOutput then StaleEvidenceOutputDegradedBinding word m n
              else StaleEvidenceDegradedBinding word m n))
      | _ \<Rightarrow> no_message)"

definition maskedStage :: "string option \<Rightarrow> string" where
  "maskedStage b =
     (case b of
        None \<Rightarrow> ''its line''
      | Some w \<Rightarrow> if MaskedByID w = 0 then ''its line'' else if w = ''other'' then ''a pipe'' else ''the pipe to '' @ w)"

definition executionOf :: "run \<Rightarrow> int \<Rightarrow> execution option" where
  "executionOf r seq =
     (let i = (case find (\<lambda>d. d_Seq d = seq) (r_Declarations r) of None \<Rightarrow> [] | Some d \<Rightarrow> d_ToolUseID d) in
      if i = [] then None else find (\<lambda>e. e_ToolUseID e = i) (r_Executions r))"

definition renderMasked :: "renderer \<Rightarrow> run \<Rightarrow> GateFact \<Rightarrow> Message" where
  "renderMasked rn r g =
     (case Option.bind (gf_LastRunSeq g) (executionOf r) of
        None \<Rightarrow> no_message
      | Some e \<Rightarrow>
          made (rn_New rn ''masked-status''
            (MaskedStatusBinding (factGate rn g (case e_RunnerName e of None \<Rightarrow> [] | Some n \<Rightarrow> n)) (maskedStage (e_MaskedBy e)))))"

definition renderIntegrity :: "renderer \<Rightarrow> IntegrityFact \<Rightarrow> Message" where
  "renderIntegrity rn i =
     (let new = rn_New rn ''integrity'' in
      case if_Kind i of
        StoreTouched \<Rightarrow>
          if if_StoreNamed i then made (new IntegrityStoreRootNamedBinding)
          else (let unnamed = made (new (if if_StoreRoot i then IntegrityStoreRootTouchedUnnamedBinding
                                         else IntegrityStoreTouchedUnnamedBinding)) in
                case if_Paths i of
                  [] \<Rightarrow> unnamed
                | p # _ \<Rightarrow>
                    (case new (if if_StoreRoot i then IntegrityStoreRootTouchedBinding p else IntegrityStoreTouchedBinding p) of
                       Inr m \<Rightarrow> m
                     | Inl e \<Rightarrow> unnamed))
      | TestRemoved \<Rightarrow> made (new IntegrityTestRemovedBinding)
      | GateWeakened \<Rightarrow> made (new IntegrityGateWeakenedBinding)
      | GateConfigEdited \<Rightarrow> made (new IntegrityGateConfigEditedBinding)
      | _ \<Rightarrow> no_message)"

section \<open>The view of a call\<close>

definition fact_message :: "renderer \<Rightarrow> run \<Rightarrow> int \<Rightarrow> VFinding \<Rightarrow> Message" where
  "fact_message rn r dseq f =
     (case vf_Integrity f of
        Some i \<Rightarrow> renderIntegrity rn i
      | None \<Rightarrow> (case vf_Gate f of
          None \<Rightarrow> no_message
        | Some g \<Rightarrow>
            if vf_Pattern f = ''stale-evidence'' then renderStale rn r dseq g
            else if vf_Pattern f = ''masked-status'' then renderMasked rn r g
            else renderRegression rn r g))"

definition mapFact :: "renderer \<Rightarrow> run \<Rightarrow> Point \<Rightarrow> int \<Rightarrow> VFinding \<Rightarrow> Finding option" where
  "mapFact rn r pt dseq f =
     (case ToSteer f pt (case pt_AgentID pt of None \<Rightarrow> [] | Some a \<Rightarrow> a) of
        Inl e \<Rightarrow> None
      | Inr sf \<Rightarrow> Some (sf\<lparr>f_Message := fact_message rn r dseq f\<rparr>))"

definition mapFacts :: "renderer \<Rightarrow> run \<Rightarrow> VFinding list \<Rightarrow> Point \<Rightarrow> int \<Rightarrow> Finding list \<times> nat" where
  "mapFacts rn r facts pt dseq =
     (List.map_filter (mapFact rn r pt dseq) facts, length (filter (\<lambda>f. mapFact rn r pt dseq f = None) facts))"

definition hasDeclaredRequired :: "Snapshot \<Rightarrow> bool" where
  "hasDeclaredRequired snap = list_ex (\<lambda>g. gs_Required g \<and> gs_Source g \<noteq> sourceLearned) (sn_Gates snap)"

definition declSeqAt :: "run \<Rightarrow> string \<Rightarrow> int \<Rightarrow> int" where
  "declSeqAt r toolUseID at =
     foldl (\<lambda>seq d. if d_ToolUseID d = toolUseID \<and> d_Seq d \<le> at \<and> d_Seq d > seq then d_Seq d else seq) 0 (r_Declarations r)"

text \<open>What the evaluation classified, and whether the index has learned a gate: nothing of an incomplete record.\<close>

definition classified_at :: "run \<Rightarrow> ProjectIndex option \<Rightarrow> int \<Rightarrow> int \<Rightarrow> gate_run list \<times> wr list \<times> bool" where
  "classified_at r idx at nowMS =
     (if fst (recording r at) \<noteq> Complete then ([], [], False)
      else (let c = classifyWith r (pickExecutions r) in (cl_runs c, cl_writes c, indexLearned idx nowMS)))"

definition call_facts :: "run \<Rightarrow> Snapshot \<Rightarrow> gate_run list \<times> wr list \<times> bool \<Rightarrow> Point \<Rightarrow> string \<Rightarrow> string \<Rightarrow> VFinding list \<times> int" where
  "call_facts r snap c pt event toolUseID =
     (case c of (runs, writes, learned) \<Rightarrow>
        (let dseq = (if (learned \<or> hasDeclaredRequired snap) \<and> event = EventPostToolUse
                     then declSeqAt r toolUseID (pt_Seq pt) else 0) in
         (regressionLocations (sn_Gates snap) runs writes pt event toolUseID @
          staleEvidence (sn_Gates snap) runs writes dseq (\<not> learned) pt event @
          maskedStatus (sn_Gates snap) runs pt event toolUseID @
          integrityRaises r snap runs event toolUseID, dseq)))"

record SteerView =
  sv_Findings :: "Finding list"
  sv_ProjectRoot :: string
  sv_Dropped :: nat

definition SteerAt :: "renderer \<Rightarrow> run \<Rightarrow> ProjectIndex option \<Rightarrow> Compiled option \<Rightarrow> declaredGate list \<Rightarrow> string \<Rightarrow> Point \<Rightarrow>
    int \<Rightarrow> string \<Rightarrow> string \<Rightarrow> SteerView option" where
  "SteerAt rn r idx sp dgs root pt nowMS event toolUseID =
     (case evaluate (Some r) idx sp dgs root pt None nowMS of
        None \<Rightarrow> None
      | Some snap \<Rightarrow>
          (case call_facts r snap (classified_at r idx (pt_Seq pt) nowMS) pt event toolUseID of (facts, dseq) \<Rightarrow>
             (case mapFacts rn r facts pt dseq of (found, dropped) \<Rightarrow>
                Some \<lparr>sv_Findings = found, sv_ProjectRoot = sn_ProjectRoot snap, sv_Dropped = dropped\<rparr>)))"

section \<open>What a fact counts and names\<close>

definition crossing :: "string \<Rightarrow> wr \<Rightarrow> bool" where
  "crossing root w \<longleftrightarrow> Relevant (w_Class w) \<and> (case w_Path w of None \<Rightarrow> True | Some p \<Rightarrow> covers root w)"

text \<open>The distinct paths a fact names and leaves out, as far as it has seen them.\<close>

definition paths_of_fact :: "GateFact \<Rightarrow> string list \<Rightarrow> bool" where
  "paths_of_fact f seen \<longleftrightarrow>
     distinct seen \<and> set (gf_Paths f) \<subseteq> set seen \<and> distinct (gf_Paths f) \<and> list_all PathSlot_Valid (gf_Paths f) \<and>
     length (gf_Paths f) \<le> MaxPaths \<and> int (length (gf_Paths f)) + gf_PathsOmitted f = int (length seen)"

definition same_fact :: "GateFact \<Rightarrow> GateFact \<Rightarrow> bool" where
  "same_fact f f' \<longleftrightarrow>
     f'\<lparr>gf_WritesSince := 0, gf_OtherAgents := 0, gf_Paths := [], gf_PathsOmitted := 0\<rparr> =
     f\<lparr>gf_WritesSince := 0, gf_OtherAgents := 0, gf_Paths := [], gf_PathsOmitted := 0\<rparr>"

lemma name_path_facts:
  assumes "paths_of_fact f seen" "name_path p (f, seen) = (f', seen')"
  shows "paths_of_fact f' seen'" "set seen' = insert p (set seen)" "gf_WritesSince f' = gf_WritesSince f"
    "gf_OtherAgents f' = gf_OtherAgents f" "same_fact f f'"
  using assms by (auto simp: name_path_def paths_of_fact_def same_fact_def split: if_splits)

lemma between_step_facts:
  assumes "paths_of_fact f seen" "between_step agent root (f, seen) w = (f', seen')"
  shows "paths_of_fact f' seen' \<and> same_fact f f' \<and>
    gf_WritesSince f' = gf_WritesSince f + (if crossing root w then 1 else 0) \<and>
    gf_OtherAgents f' = gf_OtherAgents f + (if crossing root w \<and> w_agent w \<noteq> agent then 1 else 0) \<and>
    set seen' = set seen \<union> (if crossing root w then set_option (w_Path w) else {})"
proof (cases "crossing root w")
  case False
  then show ?thesis using assms by (auto simp: between_step_def crossing_def same_fact_def split: option.splits if_splits)
next
  case True
  define f2 where "f2 = f\<lparr>gf_WritesSince := gf_WritesSince f + 1,
      gf_OtherAgents := gf_OtherAgents f + (if w_agent w \<noteq> agent then 1 else 0)\<rparr>"
  have step: "between_step agent root (f, seen) w = (case w_Path w of None \<Rightarrow> (f2, seen) | Some p \<Rightarrow> name_path p (f2, seen))"
    using True by (auto simp: between_step_def crossing_def f2_def Let_def split: option.splits)
  have f2: "paths_of_fact f2 seen" "same_fact f f2" using assms(1) by (simp_all add: f2_def paths_of_fact_def same_fact_def)
  have counts: "gf_WritesSince f2 = gf_WritesSince f + 1"
    "gf_OtherAgents f2 = gf_OtherAgents f + (if w_agent w \<noteq> agent then 1 else 0)" by (simp_all add: f2_def)
  show ?thesis
  proof (cases "w_Path w")
    case None
    then have "f' = f2" "seen' = seen" using assms(2) step by simp_all
    then show ?thesis using f2 counts True None by simp
  next
    case (Some p)
    then have "name_path p (f2, seen) = (f', seen')" using assms(2) step by simp
    note facts = name_path_facts [OF f2(1) this]
    have "same_fact f f'" using f2(2) facts(5) by (simp add: same_fact_def)
    then show ?thesis using facts counts True Some by simp
  qed
qed

lemma between_fold_facts:
  assumes "paths_of_fact f seen" "foldl (between_step agent root) (f, seen) ws' = (f', seen')"
  shows "paths_of_fact f' seen' \<and> same_fact f f' \<and>
    gf_WritesSince f' = gf_WritesSince f + int (length (filter (crossing root) ws')) \<and>
    gf_OtherAgents f' = gf_OtherAgents f + int (length (filter (\<lambda>w. crossing root w \<and> w_agent w \<noteq> agent) ws')) \<and>
    set seen' = set seen \<union> {p. \<exists>w \<in> set ws'. crossing root w \<and> w_Path w = Some p}"
  using assms
proof (induction ws' arbitrary: f seen)
  case Nil
  then show ?case by (simp add: same_fact_def)
next
  case (Cons w ws')
  obtain f1 seen1 where step: "between_step agent root (f, seen) w = (f1, seen1)" by (cases "between_step agent root (f, seen) w")
  note one = between_step_facts [OF Cons.prems(1) step]
  have "foldl (between_step agent root) (f1, seen1) ws' = (f', seen')" using Cons.prems(2) by (simp add: step)
  then show ?case using Cons.IH [of f1 seen1] one by (auto simp: same_fact_def split: if_splits)
qed

section \<open>A located regression\<close>

definition crossed :: "string \<Rightarrow> int \<Rightarrow> int \<Rightarrow> wr list \<Rightarrow> wr list" where
  "crossed root lo hi writes = filter (\<lambda>w. lo < w_Seq w \<and> w_Seq w < hi \<and> crossing root w) writes"

lemma between_facts:
  assumes "sorted (map w_Seq writes)" "gf_WritesSince f = 0" "gf_OtherAgents f = 0" "gf_Paths f = []" "gf_PathsOmitted f = 0"
  shows "same_fact f (between f lo hi writes agent root) \<and>
    gf_WritesSince (between f lo hi writes agent root) = int (length (crossed root lo hi writes)) \<and>
    gf_OtherAgents (between f lo hi writes agent root) =
      int (length (filter (\<lambda>w. w_agent w \<noteq> agent) (crossed root lo hi writes))) \<and>
    list_all (\<lambda>p. PathSlot_Valid p \<and> list_ex (\<lambda>w. w_Path w = Some p) (crossed root lo hi writes))
      (gf_Paths (between f lo hi writes agent root)) \<and>
    distinct (gf_Paths (between f lo hi writes agent root)) \<and> length (gf_Paths (between f lo hi writes agent root)) \<le> MaxPaths"
proof -
  let ?ws = "filter (\<lambda>w. lo < w_Seq w \<and> w_Seq w < hi) writes"
  obtain f' seen' where run: "foldl (between_step agent root) (f, []) ?ws = (f', seen')"
    by (cases "foldl (between_step agent root) (f, []) ?ws")
  have "paths_of_fact f []" using assms by (simp add: paths_of_fact_def MaxPaths_def)
  note facts = between_fold_facts [OF this run]
  have f': "between f lo hi writes agent root = f'"
    unfolding between_def window_between [OF assms(1)] run by simp
  have ws: "filter (crossing root) ?ws = crossed root lo hi writes"
    "filter (\<lambda>w. crossing root w \<and> w_agent w \<noteq> agent) ?ws = filter (\<lambda>w. w_agent w \<noteq> agent) (crossed root lo hi writes)"
    by (auto simp: crossed_def conj_ac intro!: filter_cong)
  have named: "set seen' = {p. list_ex (\<lambda>w. w_Path w = Some p) (crossed root lo hi writes)}"
    using facts by (auto simp: crossed_def list_ex_iff)
  show ?thesis
    using facts assms(2,3) named unfolding f' ws paths_of_fact_def by (auto simp: list_all_iff)
qed

definition regression_of :: "gate_state \<Rightarrow> string \<Rightarrow> wr list \<Rightarrow> Point \<Rightarrow> GateFact \<Rightarrow> bool" where
  "regression_of g toolUseID writes pt f \<longleftrightarrow>
     regressedHere g toolUseID \<and> gf_GateID f = gs_Gate g \<and> gf_State f = Red \<and>
     (case (gs_LastGreen g, gs_LastRun g) of
        (Some gr, Some l) \<Rightarrow>
          gf_LastGreenSeq f = Some (rr_Seq gr) \<and> gf_LastRunSeq f = Some (rr_Seq l) \<and>
          (let ws' = crossed (gs_root g) (rr_Seq gr) (rr_Seq l) writes in
           ws' \<noteq> [] \<and> gf_WritesSince f = int (length ws') \<and>
           gf_OtherAgents f = int (length (filter (\<lambda>w. w_agent w \<noteq> pt_AgentID pt) ws')) \<and>
           list_all (\<lambda>p. PathSlot_Valid p \<and> list_ex (\<lambda>w. w_Path w = Some p) ws') (gf_Paths f) \<and>
           distinct (gf_Paths f) \<and> length (gf_Paths f) \<le> MaxPaths)
      | _ \<Rightarrow> False)"

lemma with_program_fields [simp]:
  "gf_GateID (with_program p f) = gf_GateID f" "gf_State (with_program p f) = gf_State f"
  "gf_LastGreenSeq (with_program p f) = gf_LastGreenSeq f" "gf_LastRunSeq (with_program p f) = gf_LastRunSeq f"
  "gf_WritesSince (with_program p f) = gf_WritesSince f" "gf_OtherAgents (with_program p f) = gf_OtherAgents f"
  "gf_Paths (with_program p f) = gf_Paths f" "gf_PathsOmitted (with_program p f) = gf_PathsOmitted f"
  by (simp_all add: with_program_def)

lemma gate_fact_fields [simp]:
  "gf_GateID (gate_fact g) = gs_Gate g" "gf_State (gate_fact g) = gs_State g" "gf_WritesSince (gate_fact g) = 0"
  "gf_OtherAgents (gate_fact g) = 0" "gf_Paths (gate_fact g) = []" "gf_PathsOmitted (gate_fact g) = 0"
  by (simp_all add: gate_fact_def no_gate_fact_def)

lemma regression_fact_base:
  "\<exists>f0. regression_fact g gr l runs writes pt =
      between f0 (rr_Seq gr) (rr_Seq l) writes (pt_AgentID pt) (gs_root g) \<and>
    gf_GateID f0 = gs_Gate g \<and> gf_State f0 = gs_State g \<and> gf_LastGreenSeq f0 = Some (rr_Seq gr) \<and>
    gf_LastRunSeq f0 = Some (rr_Seq l) \<and> gf_WritesSince f0 = 0 \<and> gf_OtherAgents f0 = 0 \<and>
    gf_Paths f0 = [] \<and> gf_PathsOmitted f0 = 0"
  unfolding regression_fact_def Let_def by (intro exI conjI, rule refl) simp_all

lemma same_fact_fields:
  assumes "same_fact a b"
  shows "gf_GateID b = gf_GateID a" "gf_State b = gf_State a" "gf_LastGreenSeq b = gf_LastGreenSeq a"
    "gf_LastRunSeq b = gf_LastRunSeq a"
  using assms by (cases a; cases b; simp add: same_fact_def)+

lemma regression_fact_of:
  assumes sorted: "sorted (map w_Seq writes)" and here: "regressedHere g toolUseID"
    and refs: "gs_LastGreen g = Some gr" "gs_LastRun g = Some l"
    and some: "gf_WritesSince (regression_fact g gr l runs writes pt) \<noteq> 0"
  shows "regression_of g toolUseID writes pt (regression_fact g gr l runs writes pt)"
proof -
  obtain f0 where f: "regression_fact g gr l runs writes pt =
      between f0 (rr_Seq gr) (rr_Seq l) writes (pt_AgentID pt) (gs_root g)"
    and f0: "gf_GateID f0 = gs_Gate g" "gf_State f0 = gs_State g" "gf_LastGreenSeq f0 = Some (rr_Seq gr)"
      "gf_LastRunSeq f0 = Some (rr_Seq l)" "gf_WritesSince f0 = 0" "gf_OtherAgents f0 = 0" "gf_Paths f0 = []" "gf_PathsOmitted f0 = 0"
    using regression_fact_base by blast
  have red: "gs_State g = Red" using here refs by (simp add: regressedHere_def)
  note facts = between_facts [OF sorted f0(5-8), of "rr_Seq gr" "rr_Seq l" "pt_AgentID pt" "gs_root g", folded f]
  note same = same_fact_fields [OF facts [THEN conjunct1]]
  have "crossed (gs_root g) (rr_Seq gr) (rr_Seq l) writes \<noteq> []" using facts some by auto
  then show ?thesis unfolding regression_of_def refs option.case prod.case Let_def using here facts same f0 red by simp
qed

lemma map_filter_mem:
  assumes "y \<in> set (List.map_filter f xs)"
  obtains x where "x \<in> set xs" "f x = Some y"
  using assms by (induction xs) (auto split: option.splits)

lemma regression_located:
  assumes "f \<in> set (regressionLocations gates runs writes pt event toolUseID)"
  obtains g gr l where "g \<in> set gates" "regressedHere g toolUseID" "gs_LastGreen g = Some gr" "gs_LastRun g = Some l"
    "gf_WritesSince (regression_fact g gr l runs writes pt) \<noteq> 0"
    "vf_Gate f = Some (regression_fact g gr l runs writes pt)"
proof -
  obtain g where g: "g \<in> set gates"
    and f: "(if \<not> regressedHere g toolUseID then None
        else (case (gs_LastGreen g, gs_LastRun g) of
                (Some gr, Some l) \<Rightarrow>
                  (let gfact = regression_fact g gr l runs writes pt in
                   if gf_WritesSince gfact = 0 then None
                   else Some (gate_finding ''regression-location'' event (gs_Gate g) pt gfact))
              | _ \<Rightarrow> None)) = Some f"
    using assms unfolding regressionLocations_def by (rule map_filter_mem)
  then have here: "regressedHere g toolUseID" by (auto split: if_splits)
  then obtain gr l where refs: "gs_LastGreen g = Some gr" "gs_LastRun g = Some l"
    by (auto simp: regressedHere_def split: option.splits)
  show ?thesis
    using f here refs by (intro that [OF g here refs]) (auto simp: Let_def gate_finding_def split: if_splits)
qed

text \<open>
  C16: a located regression is one: the gate was green, is red now by this very call, and there are
  relevant writes it covers, or that name no file, strictly between the two runs; the fact counts
  exactly those, and how many another agent made, and names only paths of theirs, each once, in the
  form a note may show and at most five.
\<close>

theorem regressions_located:
  "list_all (\<lambda>f. case vf_Gate f of
       None \<Rightarrow> False
     | Some gf \<Rightarrow> list_ex (\<lambda>g. regression_of g toolUseID (cl_writes (classifyWith r picked)) pt gf) gates)
     (regressionLocations gates runs (cl_writes (classifyWith r picked)) pt event toolUseID)"
proof -
  let ?ws = "cl_writes (classifyWith r picked)"
  have "(case vf_Gate f of None \<Rightarrow> False | Some gf \<Rightarrow> list_ex (\<lambda>g. regression_of g toolUseID ?ws pt gf) gates)"
    if "f \<in> set (regressionLocations gates runs ?ws pt event toolUseID)" for f
    using that
  proof (rule regression_located)
    fix g gr l
    assume g: "g \<in> set gates" "vf_Gate f = Some (regression_fact g gr l runs ?ws pt)"
      and at: "regressedHere g toolUseID" "gs_LastGreen g = Some gr" "gs_LastRun g = Some l"
        "gf_WritesSince (regression_fact g gr l runs ?ws pt) \<noteq> 0"
    show ?thesis using g regression_fact_of [OF classify_sorted(2) at] by (auto simp: list_ex_iff)
  qed
  then show ?thesis by (auto simp: list_all_iff)
qed

section \<open>What the agent is told\<close>

lemma mapFact_level:
  assumes "mapFact rn r pt dseq f = Some sf"
  shows "f_Message sf = fact_message rn r dseq f" "user_only_fact f \<Longrightarrow> f_MaxLevel sf = LevelFlag"
    "f_Pattern sf = vf_Pattern f" "f_AfterSeq sf = pt_Seq pt"
proof -
  obtain sf0 where sf0: "ToSteer f pt (case pt_AgentID pt of None \<Rightarrow> [] | Some a \<Rightarrow> a) = Inr sf0"
    and sf: "sf = sf0\<lparr>f_Message := fact_message rn r dseq f\<rparr>"
    using assms by (auto simp: mapFact_def split: sum.splits)
  show "f_Message sf = fact_message rn r dseq f" "user_only_fact f \<Longrightarrow> f_MaxLevel sf = LevelFlag"
    "f_Pattern sf = vf_Pattern f" "f_AfterSeq sf = pt_Seq pt"
    using ToSteer_result [OF sf0] by (simp_all add: sf)
qed

lemma mapFacts_mem:
  assumes "sf \<in> set (fst (mapFacts rn r facts pt dseq))"
  obtains f where "f \<in> set facts" "mapFact rn r pt dseq f = Some sf"
  using assms by (auto simp: mapFacts_def elim: map_filter_mem)

definition told_point :: Point where
  "told_point =
     \<lparr>pt_Seq = 4, pt_Kind = [], pt_SessionID = ''s'', pt_PromptID = Some ''p'', pt_AgentID = None, pt_TaskRef = None,
      pt_StoreRoot = []\<rparr>"

definition told_fact :: VFinding where
  "told_fact =
     gate_finding ''stale-evidence'' EventPostToolUse ''test:go''
       told_point
       (no_gate_fact\<lparr>gf_GateID := ''test:go'', gf_State := Stale, gf_Reason := WritesAfterGreen,
          gf_LastGreenSeq := Some 2, gf_LastRunSeq := Some 2, gf_WritesSince := 1, gf_Paths := [''a.go'']\<rparr>)"

definition told_run :: run where
  "told_run =
     empty_run\<lparr>r_Declarations := [decl_example 2 ''g'' ''Bash'' VerbTest None, decl_example 4 ''t'' ''Edit'' VerbWrite (Some ''a.go'')]\<rparr>"

definition told_renderer :: renderer where
  "told_renderer =
     \<lparr>rn_New = \<lambda>p b. Inr (no_message\<lparr>m_Pattern := p, m_Template := ''t'', m_Text := example_text\<rparr>),
      rn_GateFits = \<lambda>w. w \<noteq> [], rn_RecordedAt = \<lambda>d. d_Seq d\<rparr>"

definition told_finding :: Finding where
  "told_finding =
     example_finding\<lparr>f_Pattern := ''stale-evidence'', f_Kind := [], f_Key := ''test:go'', f_Priority := 78,
       f_Evidence := [2],
       f_Message := no_message\<lparr>m_Pattern := ''stale-evidence'', m_Template := ''t'', m_Text := example_text\<rparr>\<rparr>"

lemma told_mapped: "mapFacts told_renderer told_run [told_fact] told_point 4 = ([told_finding], 0)"
  by code_simp

lemma told_clear: "note_clear example_context example_client told_finding"
proof -
  have "ContextAllowed EventPostToolUse example_client" by code_simp
  moreover have "ruleOf EventPostToolUse = ruleContext" by code_simp
  moreover have "noteTexts example_text [] False = Inr (example_text, MirrorPrefix @ example_text @ MirrorSuffix)"
    using example_clear by (simp add: noteTexts_def Mirror_def example_valid)
      (simp add: withAside_def MirrorPrefix_def MirrorSuffix_def reference_mark_def example_text_def MaxSteerTextBytes_def)
  ultimately show ?thesis
    by (simp add: note_clear_def example_context_def told_finding_def example_finding_def base_level_def clampReason_def
        texts_fit_def no_message_def slotsOf_def recorded_def briefing_def vocab_defs)
      (simp add: example_text_def)
qed

lemma told_prints: "o_AdditionalContext (prints example_context example_client no_counts [told_finding]) = example_text"
proof -
  have "affordable example_context no_counts told_finding"
    by (simp add: affordable_def no_counts_def maxNotes_def told_finding_def example_finding_def Reserve_def)
  moreover have "first_keys [] (ownFirst (ct_Event example_context) (rank [told_finding])) = [told_finding]"
    by (simp add: rank_def ownFirst_def told_finding_def example_finding_def vocab_defs)
  ultimately have "pick_note example_context example_client no_counts [told_finding] = Some told_finding"
    using told_clear by (simp add: pick_note_def)
  moreover have "writable example_context example_client (note_output told_finding) = note_output told_finding"
    by (rule note_marshals [OF told_clear]) (simp add: told_finding_def no_message_def)
  ultimately have "prints example_context example_client no_counts [told_finding] = note_output told_finding"
    by (simp add: prints_def) (simp add: example_context_def)
  then show ?thesis by (simp add: note_output_def told_finding_def no_message_def)
qed



end
