(* ===== verification/Spec2Isabelle.thy ===== *)
theory Spec2Isabelle
  imports Evaluate WriteTargets MaskedSound SteerRuns SteerFacts
begin

text \<open>
  \<^bold>\<open>A verification library of rashomon\<close>

  Rashomon is a command line tool and a set of hooks of a coding agent's harness. The hooks append
  what a session does to a record (declarations of tool calls, executions, outcomes, prompts); from
  the record alone the evaluator says which gates (tests, builds, linters) stand at a point of it,
  which rules of the project's spec were broken, and whether the session may read ``verified''; the
  steer router turns a finding into at most one note per call, shown to the agent and, byte for
  byte, to the user. The library models the deciding code of that chain, in the order the data
  flows, and leaves the reading and writing of files, and the rendering of reports, outside.

  \<^bold>\<open>From a command line to what it did (\<^verbatim>\<open>internal/shape\<close>)\<close>

  \<^item> \<open>GoStrings\<close>, \<open>Utf8\<close>: the functions of Go's \<^verbatim>\<open>strings\<close>, \<^verbatim>\<open>path\<close>, \<^verbatim>\<open>path/filepath\<close> and
    \<^verbatim>\<open>unicode/utf8\<close> the code calls, over \<open>string\<close> read as bytes.
  \<^item> \<open>ShapeWords\<close>: verbs, runners, masks, their ids (runner.go, masked.go, masked_name.go, gaterun.go,
    launch.go, shape.go). The two id tables are interpretations of \<open>word_codec\<close>: an id and its word
    determine each other.
  \<^item> \<open>Comsub\<close>: backslash-newlines joined, with their offsets (join.go), and where a command substitution
    ends (comsub.go). Joining is undone by putting the pairs back; the scanners always answer with the
    fuel they are given, a line's length and one more.
  \<^item> \<open>Lexer\<close> (tokenize.go), \<open>Commands\<close> (words.go, program.go, commands.go), \<open>Leading\<close> (program.go,
    leading.go): tokens with their spans, the program a stage runs, the leading \<open>cd\<close> steps. A line's
    tokens are well formed and bounded, a quoted word reads back as the word, each command's program is
    a word of it, and the two readings of the leading steps agree.
  \<^item> \<open>Verb\<close> (verb.go, runner.go), \<open>WriteTargets\<close> (writetargets.go): the verb of a call, which runner row
    a command matches, whether a line may write, and which paths it names.
  \<^item> \<open>MaskedSimple\<close>, \<open>MaskedParse\<close>, \<open>MaskedEval\<close>, \<open>MaskedSound\<close> (masked.go, masked_parse.go,
    masked_simple.go, masked_name.go, masked_eval.go): whether a line's exit status can be read as a
    runner's own. The recursive descent parser always ends with the fuel it is given; and against a
    reference semantics, in which every status has a value and an oracle settles what the reader does
    not know, a run the reader calls unmasked has the line's status for its own.

  \<^bold>\<open>From the record to a snapshot (\<^verbatim>\<open>internal/verify\<close>, \<^verbatim>\<open>internal/gateout\<close>, \<^verbatim>\<open>internal/spec\<close>)\<close>

  \<^item> \<open>StoreRecord\<close> (\<^verbatim>\<open>internal/store\<close>: record.go, record_v5.go, read.go, outcomejoin.go): the record's
    rows as Isabelle records, in memory.
  \<^item> \<open>GateOutput\<close> (gateout.go, tables.go): what the output of a run says of it; only a line a runner's
    pass pattern matches can make it a pass.
  \<^item> \<open>GateVocab\<close> (state.go), \<open>PathClass\<close> (pathclass.go, classify.go), \<open>PathMatch\<close> (\<^verbatim>\<open>internal/spec/match.go\<close>),
    \<open>Cover\<close> (cover.go, stop.go), \<open>Classify\<close> (classify.go, gates.go), \<open>Tree\<close> (tree.go): the order of
    states and the worst of them, the class of a path, the glob matcher (equal to a declarative match),
    which gate speaks for which file, gate runs and writes out of the record, the file contents a green
    run saw.
  \<^item> \<open>Gates\<close> (gates.go, snapshot.go): a family's state, a decision table read first match wins
    (\<open>decision_table\<close>, interpreted as \<open>gate_table\<close>). A gate is green exactly when its last run passed by
    a status that is its own or by an output that says so, nothing relevant was written since, and the
    tree matches.
  \<^item> \<open>Recording\<close> (recording.go), \<open>Pairs\<close> (pairs.go), \<open>Integrity\<close> (integrity.go, integrity_raise.go),
    \<open>Index\<close> (index.go), \<open>Declared\<close> (declared.go): whether the record is complete, tests made green by
    test edits alone (equal to a reading over pairs of calls), weakened tests and configuration, the
    families a project requires, the gates a spec declares.
  \<^item> \<open>RuleMatch\<close>, \<open>Rules\<close> (rules.go, rules_order.go): a spec's rules over a record in the three-valued
    order no, maybe, yes. A call is named as a violation exactly when its line certainly breaks the
    rule; a maybe only makes the verdict undecided.
  \<^item> \<open>Summary\<close>, \<open>Evaluate\<close> (evaluate.go): record-green and the turn's row, and \<open>evaluate\<close> end to end.
    The record is green exactly when every condition the code lists holds of the record itself.

  \<^bold>\<open>From a snapshot to a finding (\<^verbatim>\<open>internal/verify\<close>)\<close>

  \<^item> \<open>ClaimText\<close> (claimtext.go), \<open>Claims\<close> (claims.go, claimlex.go): the sentences and words of a final
    message, and what it claims of the gates. The one pass with its memos equals a reading sentence by
    sentence; a claim's verdict is green exactly when the gates it answers to are there and all green;
    of too many claims the worst are kept.
  \<^item> \<open>ToSteer\<close> (finding.go, tosteer.go, tosteer_vocab.go, tosteer_card.go): a fact with its slots becomes
    a finding the router accepts, at a level no higher than its card's, or is refused with a reason; the
    mapping never reads a fact that is not there.
  \<^item> \<open>SteerFacts\<close> (steer.go, steer_masked.go, integrity_raise.go): the facts one call raises, with their
    writes found by binary search, and the text of each. A located regression counts exactly the writes
    between the two runs; what the agent reads was rendered for a fact that is not the user's alone.

  \<^bold>\<open>From a finding to a note (\<^verbatim>\<open>internal/steer\<close>, \<^verbatim>\<open>internal/jsonscan\<close>, \<^verbatim>\<open>internal/store\<close>)\<close>

  \<^item> \<open>JsonScan\<close>, \<open>JsonTop\<close>, \<open>JsonText\<close>, \<open>JsonObject\<close> (jsonscan.go, unquote.go): the allocation-free scanner
    of one object. On every text \<open>json_valid\<close> accepts it finds each wanted key's last value; a string
    \<^verbatim>\<open>encoding/json\<close> wrote is read back as the string; an object read back gives its members.
  \<^item> \<open>SteerVocab\<close> (steer.go, client.go, pattern.go), \<open>Render\<close> (\<^verbatim>\<open>steer/render\<close>), \<open>SteerFinding\<close> (finding.go):
    levels, patterns, the table of verified client versions, the checks of a text, of a finding and of
    a hook's output.
  \<^item> \<open>SteerDecide\<close> (decide.go, delivery.go, slots.go), \<open>SteerPrints\<close>, \<open>SteerOutput\<close>: one decision. The
    two passes over plans print what a reading over the findings alone prints; what reaches the agent
    has consent, an open channel, an accepted text and a budget, and is shown to the user.
  \<^item> \<open>SteerLog\<close> (line.go, steerlog.go, tail.go), \<open>SteerBudget\<close> (budget.go), \<open>SteerSpent\<close>, \<open>SteerCharge\<close>:
    a line's JSON, the locked append, the scan of the log's end. The scan in chunks counts what one
    scan over the lines counts; over lines the router wrote it counts what they spent; one call spends
    at most one note or one flag the prompt has left.
  \<^item> \<open>SteerRoute\<close> (route.go, notice.go), \<open>SteerRuns\<close>: a whole call over the session's store, and the
    states any sequence of calls reaches (\<open>steered\<close>). What the router asks of its log is the locale
    \<open>prompt_log\<close>, interpreted on the log's bytes (\<open>steer_log\<close>): no prompt ever exceeds its budget, a
    call that fails prints nothing and is counted, and a note the prompt can afford is printed or its
    loss counted.

  \<open>Prelude\<close> holds what the theories share: the collections \<open>vocab_defs\<close> and \<open>row_defs\<close>, wrapping 64-bit
  subtraction, and the locales \<open>best_fold\<close> (the scan that keeps the first best element, interpreted on
  the order of states and on the rank of executions), \<open>decision_table\<close> and \<open>word_codec\<close>.

  \<^bold>\<open>How state and operations correspond\<close>

  A Go struct is a \<open>record\<close> with the fields the modelled code reads, each field under the code's name
  after a short prefix; a closed string type is a \<open>datatype\<close> where the code treats it as closed and a
  \<open>string\<close> where any string can arrive; a nil pointer is \<open>None\<close>; an index of -1 is \<open>None\<close>; an error is
  a value of a datatype in a sum or an option. A Go map is a map or an association list with distinct
  keys, and no result depends on its order. A function that writes through a pointer returns the new
  value. Sequence numbers and times are int64 that the code only compares, so they are \<open>int\<close>; the one
  subtraction on unbounded input wraps (\<open>wrap64\<close>). A refusal of the operating system is an argument of
  the step it can stop (\<open>append_fault\<close>).

  \<^bold>\<open>Bounds and fuel\<close>

  The code's bounds are kept: 66,576 tokens and 64 leading \<open>cd\<close> steps of a line, 64 runner groups,
  2,048 bytes of a steering text, 2 to the power of 20 bytes of a record line, reads of 64 KiB, 10,000 levels of JSON.
  Functions whose recursion is not structural have a measure, or fuel that is proved enough: the
  substitution scanners the length of the line and one, the parser of a line five times its tokens
  and four, the JSON grammar the length of the text and one. No result depends on running out.

  \<^bold>\<open>What is assumed, and what is not modelled\<close>

  Matching a line against a regular expression is Go's \<^verbatim>\<open>regexp\<close>, the parameter \<open>rx\<close>; the keyed digest
  of a command is the parameter \<open>mac\<close>; the encoded length of an index entry, the tree a hook read, the
  declared gates' digests and the ids of lines are arguments; so are the tables of \<^verbatim>\<open>unicode\<close> beyond
  ASCII (\<open>u\<close>) and the filling of a template from a binding by reflection (\<open>rn\<close>). Folding of case (\<^verbatim>\<open>ToLower\<close>, \<^verbatim>\<open>EqualFold\<close>)
  and the matcher of paths are those of ASCII text. \<^verbatim>\<open>json.Valid\<close> is the grammar \<open>json_valid\<close> of RFC 8259
  with the library's limit of nesting.

  Not modelled, since they are input and output around this logic: opening, locking and syncing of
  files, payloads of the harness, installing, settings, reports, recaps, spending, digests and the
  command line. Not modelled, for want of room, though they decide: the ledger of obligations and
  evidence rows, the parsing and discovery of specs, the folding and eviction of the
  store, learned gates, consent, and the views of a stop or checkpoint.
\<close>

end
